(* ===== verification/Prelude.thy ===== *)
theory Prelude
  imports Main "HOL-Library.Word"
begin

text \<open>
  Shared vocabulary of the development: the outcome of a Rust call (a value, an error, or a
  panic), the combinators that stand for the \<open>?\<close> operator and for loops with an early
  return, byte strings, the association lists that model hash maps, decimal formatting for error
  messages, and the generic list lemmas the component theories use.
\<close>

named_theorems outcome_simps \<open>unfolding of the outcome combinators\<close>

section \<open>Outcomes of Rust calls\<close>

text \<open>
  \<open>Ok\<close> and \<open>Err\<close> are the two constructors of \<^verbatim>\<open>std::result::Result\<close>. \<open>Panicked\<close> is a
  call that unwinds: an index out of range, a division by zero, an \<open>unwrap\<close> of \<open>None\<close>.
\<close>

datatype ('a, 'e) result = Ok 'a | Err 'e | Panicked

primrec and_then :: "('a, 'e) result \<Rightarrow> ('a \<Rightarrow> ('b, 'e) result) \<Rightarrow> ('b, 'e) result" where
  "and_then (Ok v) k = k v"
| "and_then (Err e) k = Err e"
| "and_then Panicked k = Panicked"

primrec map_err :: "('e \<Rightarrow> 'd) \<Rightarrow> ('a, 'e) result \<Rightarrow> ('a, 'd) result" where
  "map_err f (Ok v) = Ok v"
| "map_err f (Err e) = Err (f e)"
| "map_err f Panicked = Panicked"

definition ok_or :: "'e \<Rightarrow> 'a option \<Rightarrow> ('a, 'e) result" where
  "ok_or e x = (case x of Some v \<Rightarrow> Ok v | None \<Rightarrow> Err e)"

definition unwrap :: "'a option \<Rightarrow> ('a, 'e) result" where
  "unwrap x = (case x of Some v \<Rightarrow> Ok v | None \<Rightarrow> Panicked)"

definition index :: "'a list \<Rightarrow> nat \<Rightarrow> ('a, 'e) result" where
  "index xs i = (if i < length xs then Ok (xs ! i) else Panicked)"

definition set_index :: "'a list \<Rightarrow> nat \<Rightarrow> 'a \<Rightarrow> ('a list, 'e) result" where
  "set_index xs i v = (if i < length xs then Ok (xs[i := v]) else Panicked)"

text \<open>Division in a field: arkworks unwraps the inverse of the divisor.\<close>

definition field_div :: "'f::field \<Rightarrow> 'f \<Rightarrow> ('f, 'e) result" where
  "field_div a b = (if b = 0 then Panicked else Ok (a / b))"

text \<open>A loop that collects one value per element and stops at the first error.\<close>

fun collect :: "('a \<Rightarrow> ('b, 'e) result) \<Rightarrow> 'a list \<Rightarrow> ('b list, 'e) result" where
  "collect f [] = Ok []"
| "collect f (x # xs) = and_then (f x) (\<lambda>y. and_then (collect f xs) (\<lambda>ys. Ok (y # ys)))"

text \<open>A loop of checks that returns \<open>Ok(false)\<close> at the first check that fails.\<close>

fun all_checks :: "('a \<Rightarrow> (bool, 'e) result) \<Rightarrow> 'a list \<Rightarrow> (bool, 'e) result" where
  "all_checks f [] = Ok True"
| "all_checks f (x # xs) = and_then (f x) (\<lambda>b. if b then all_checks f xs else Ok False)"

text \<open>A loop that threads an accumulator and stops at the first error.\<close>

fun fold_result :: "('a \<Rightarrow> 's \<Rightarrow> ('s, 'e) result) \<Rightarrow> 'a list \<Rightarrow> 's \<Rightarrow> ('s, 'e) result" where
  "fold_result f [] s = Ok s"
| "fold_result f (x # xs) s = and_then (f x s) (\<lambda>s'. fold_result f xs s')"

definition is_ok :: "('a, 'e) result \<Rightarrow> bool" where
  "is_ok r = (case r of Ok _ \<Rightarrow> True | _ \<Rightarrow> False)"

lemma and_then_eq_Ok [simp]:
  "and_then r k = Ok v \<longleftrightarrow> (\<exists>x. r = Ok x \<and> k x = Ok v)"
  by (cases r) auto

lemma Ok_eq_and_then [simp]:
  "Ok v = and_then r k \<longleftrightarrow> (\<exists>x. r = Ok x \<and> k x = Ok v)"
  by (cases r) auto

lemma and_then_eq_Err: "and_then r k = Err e \<longleftrightarrow> r = Err e \<or> (\<exists>x. r = Ok x \<and> k x = Err e)"
  by (cases r) auto

lemma and_then_eq_Panicked:
  "and_then r k = Panicked \<longleftrightarrow> r = Panicked \<or> (\<exists>x. r = Ok x \<and> k x = Panicked)"
  by (cases r) auto

lemma and_then_assoc: "and_then (and_then r f) g = and_then r (\<lambda>x. and_then (f x) g)"
  by (cases r) auto

lemma map_err_eq_Ok [simp]: "map_err f r = Ok v \<longleftrightarrow> r = Ok v"
  by (cases r) auto

lemma map_err_eq_Panicked [simp]: "map_err f r = Panicked \<longleftrightarrow> r = Panicked"
  by (cases r) auto

lemma ok_or_eq_Ok [simp]: "ok_or e x = Ok v \<longleftrightarrow> x = Some v"
  by (cases x) (auto simp: ok_or_def)

lemma ok_or_not_panicked [simp]: "ok_or e x \<noteq> Panicked"
  by (cases x) (auto simp: ok_or_def)

lemma ok_or_Some [simp]: "ok_or e (Some v) = Ok v"
  by (simp add: ok_or_def)

lemma unwrap_eq_Ok [simp]: "unwrap x = Ok v \<longleftrightarrow> x = Some v"
  by (cases x) (auto simp: unwrap_def)

lemma unwrap_Some [simp]: "unwrap (Some v) = Ok v"
  by (simp add: unwrap_def)

lemma index_eq_Ok [simp]: "index xs i = Ok v \<longleftrightarrow> i < length xs \<and> v = xs ! i"
  by (auto simp: index_def)

lemma index_in_range [simp]: "i < length xs \<Longrightarrow> index xs i = Ok (xs ! i)"
  by (simp add: index_def)

lemma set_index_eq_Ok [simp]: "set_index xs i v = Ok ys \<longleftrightarrow> i < length xs \<and> ys = xs[i := v]"
  by (auto simp: set_index_def)

lemma set_index_in_range [simp]: "i < length xs \<Longrightarrow> set_index xs i v = Ok (xs[i := v])"
  by (simp add: set_index_def)

lemma field_div_eq_Ok [simp]: "field_div a b = Ok c \<longleftrightarrow> b \<noteq> 0 \<and> c = a / b"
  by (auto simp: field_div_def)

lemma field_div_nonzero [simp]: "b \<noteq> 0 \<Longrightarrow> field_div a b = Ok (a / b)"
  by (simp add: field_div_def)

lemma is_ok_simps [simp]: "is_ok (Ok v)" "\<not> is_ok (Err e)" "\<not> is_ok Panicked"
  by (simp_all add: is_ok_def)

lemma is_ok_iff: "is_ok r \<longleftrightarrow> (\<exists>v. r = Ok v)"
  by (cases r) auto

lemma collect_eq_Ok: "collect f xs = Ok ys \<longleftrightarrow> list_all2 (\<lambda>x y. f x = Ok y) xs ys"
proof (induction xs arbitrary: ys)
  case Nil
  then show ?case by auto
next
  case (Cons x xs)
  then show ?case by (cases ys) auto
qed

lemma collect_length: "collect f xs = Ok ys \<Longrightarrow> length ys = length xs"
  by (simp add: collect_eq_Ok list_all2_lengthD)

lemma collect_nth: "collect f xs = Ok ys \<Longrightarrow> i < length xs \<Longrightarrow> f (xs ! i) = Ok (ys ! i)"
  by (auto simp: collect_eq_Ok dest: list_all2_nthD)

lemma collect_map: "(\<And>x. x \<in> set xs \<Longrightarrow> f x = Ok (g x)) \<Longrightarrow> collect f xs = Ok (map g xs)"
  by (induction xs) auto

lemma all_checks_eq_True: "all_checks f xs = Ok True \<longleftrightarrow> (\<forall>x \<in> set xs. f x = Ok True)"
  by (induction xs) (auto split: if_splits)

lemma all_checks_total:
  "(\<And>x. x \<in> set xs \<Longrightarrow> \<exists>b. f x = Ok b) \<Longrightarrow> \<exists>b. all_checks f xs = Ok b"
proof (induction xs)
  case (Cons x xs)
  then obtain b b' where "f x = Ok b" "all_checks f xs = Ok b'" by fastforce
  then show ?case by (cases b) auto
qed auto

lemma fold_result_append:
  "fold_result f (xs @ ys) s = and_then (fold_result f xs s) (fold_result f ys)"
proof (induction xs arbitrary: s)
  case (Cons x xs)
  then show ?case by (cases "f x s") auto
qed simp

lemma collect_panics:
  "collect f xs = Panicked \<Longrightarrow> \<exists>x \<in> set xs. f x = Panicked"
  by (induction xs) (auto simp: and_then_eq_Panicked)

section \<open>Bytes, machine words, formatting\<close>

type_synonym byte = "8 word"
type_synonym bytes = "byte list"

abbreviation usize_modulus :: nat where
  "usize_modulus \<equiv> 2 ^ 64"

text \<open>Subtraction of \<^verbatim>\<open>usize\<close> values in a release build, where overflow checks are off.\<close>

definition usize_sub :: "nat \<Rightarrow> nat \<Rightarrow> nat" where
  "usize_sub a b = (if b \<le> a then a - b else a + usize_modulus - b)"

lemma usize_sub_le [simp]: "b \<le> a \<Longrightarrow> usize_sub a b = a - b"
  by (simp add: usize_sub_def)

text \<open>An ASCII literal as the bytes of a Rust byte string.\<close>

definition ascii_bytes :: "string \<Rightarrow> bytes" where
  "ascii_bytes s = map (\<lambda>c. of_nat (of_char c)) s"

fun fmt_usize :: "nat \<Rightarrow> string" where
  "fmt_usize n = (if n < 10 then [char_of (48 + n)]
                  else fmt_usize (n div 10) @ [char_of (48 + n mod 10)])"

declare fmt_usize.simps [simp del]

section \<open>Hash maps\<close>

text \<open>
  A \<^verbatim>\<open>HashMap\<close> is an association list with distinct keys. The list order is the iteration
  order of the map, which Rust leaves unspecified: every property below holds for every order.
\<close>

type_synonym 'v hash_map = "(nat \<times> 'v) list"

definition hash_map_ok :: "'v hash_map \<Rightarrow> bool" where
  "hash_map_ok m \<longleftrightarrow> distinct (map fst m)"

fun hash_map_insert :: "nat \<Rightarrow> 'v \<Rightarrow> 'v hash_map \<Rightarrow> 'v hash_map" where
  "hash_map_insert k v [] = [(k, v)]"
| "hash_map_insert k v ((k', v') # m) =
     (if k = k' then (k, v) # m else (k', v') # hash_map_insert k v m)"

lemma hash_map_insert_keys: "set (map fst (hash_map_insert k v m)) = insert k (set (map fst m))"
  by (induction k v m rule: hash_map_insert.induct) auto

lemma hash_map_insert_ok: "hash_map_ok m \<Longrightarrow> hash_map_ok (hash_map_insert k v m)"
proof (induction k v m rule: hash_map_insert.induct)
  case (2 k v k' v' m)
  then show ?case
    using hash_map_insert_keys [of k v m] by (auto simp: hash_map_ok_def)
qed (simp add: hash_map_ok_def)

lemma map_of_hash_map_insert: "map_of (hash_map_insert k v m) = (map_of m)(k \<mapsto> v)"
  by (induction k v m rule: hash_map_insert.induct) auto

section \<open>Sums over lists\<close>

lemma sum_list_map_zero: "(\<And>x. x \<in> set xs \<Longrightarrow> f x = 0) \<Longrightarrow> (\<Sum>x\<leftarrow>xs. f x :: 'a::comm_monoid_add) = 0"
  by (induction xs) auto

lemma sum_list_map_upt: "(\<Sum>i\<leftarrow>[0..<n]. f i) = (\<Sum>i<n. f i :: 'a::comm_monoid_add)"
  by (simp add: sum_list_distinct_conv_sum_set atLeast0LessThan)

lemma sum_list_conv_nth: "sum_list (xs :: 'a::comm_monoid_add list) = (\<Sum>i<length xs. xs ! i)"
  by (simp add: sum_list_sum_nth atLeast0LessThan)

lemma sum_list_map_zip:
  "length xs = length ys \<Longrightarrow>
   (\<Sum>(x, y)\<leftarrow>zip xs ys. f x y) = (\<Sum>i<length xs. f (xs ! i) (ys ! i) :: 'a::comm_monoid_add)"
  by (simp add: sum_list_conv_nth)

end
