(* ===== verification/Polynomials.thy ===== *)
theory Polynomials
  imports Prelude
begin

text \<open>
  The algebra behind \<^verbatim>\<open>DensePolynomial\<close> and \<^verbatim>\<open>Radix2EvaluationDomain\<close>: evaluation of a coefficient
  list, the bound on the number of roots, polynomial functions of bounded degree, primitive roots
  of unity and the Lagrange basis over the powers of such a root. Nothing here models code; the
  theories of the \<open>hints\<close> crate use these facts to reason about its polynomials.
\<close>

named_theorems poly_eval \<open>evaluation of the polynomials the program builds\<close>

section \<open>Evaluation of coefficient lists\<close>

primrec peval :: "'f::comm_ring_1 list \<Rightarrow> 'f \<Rightarrow> 'f" where
  "peval [] x = 0"
| "peval (a # p) x = a + x * peval p x"

definition pzero :: "'f::zero list \<Rightarrow> bool" where
  "pzero p \<longleftrightarrow> (\<forall>c \<in> set p. c = 0)"

text \<open>What \<^verbatim>\<open>degree()\<close> expects: the leading coefficient is nonzero, or all coefficients are zero.\<close>

definition pwf :: "'f::zero list \<Rightarrow> bool" where
  "pwf p \<longleftrightarrow> pzero p \<or> last p \<noteq> 0"

lemma pzero_Nil [simp]: "pzero []" and pwf_Nil [simp]: "pwf []"
  by (simp_all add: pzero_def pwf_def)

lemma pwf_snoc: "a \<noteq> 0 \<Longrightarrow> pwf (p @ [a])"
  by (simp add: pwf_def)

lemma pwf_single [simp]: "pwf [a]"
  by (auto simp: pwf_def pzero_def)

lemma peval_pzero: "pzero p \<Longrightarrow> peval p x = 0"
  by (induction p) (auto simp: pzero_def)

lemma peval_append: "peval (p @ q) x = peval p x + x ^ length p * peval q x"
  by (induction p) (simp_all add: algebra_simps)

lemma peval_conv_sum: "peval p x = (\<Sum>i<length p. p ! i * x ^ i)"
proof (induction p)
  case (Cons a p)
  have "(\<Sum>i<Suc (length p). (a # p) ! i * x ^ i)
      = a + (\<Sum>i<length p. p ! i * (x * x ^ i))"
    by (subst sum.lessThan_Suc_shift) simp
  also have "\<dots> = a + x * (\<Sum>i<length p. p ! i * x ^ i)"
    by (simp add: sum_distrib_left algebra_simps)
  finally show ?case using Cons by simp
qed simp

lemma peval_map_mult: "peval (map (\<lambda>a. a * c) p) x = c * peval p x"
  by (induction p) (simp_all add: algebra_simps)

lemma peval_replicate_zero [simp]: "peval (replicate n 0) x = 0"
  by (rule peval_pzero) (simp add: pzero_def)

section \<open>Roots\<close>

text \<open>Synthetic division by \<open>X - a\<close>.\<close>

fun synth :: "'f::comm_ring_1 \<Rightarrow> 'f list \<Rightarrow> 'f list" where
  "synth a [] = []"
| "synth a [c] = []"
| "synth a (c # p) = peval p a # synth a p"

lemma length_synth [simp]: "length (synth a p) = length p - 1"
  by (induction a p rule: synth.induct) auto

lemma synth_correct: "peval p x = peval p a + (x - a) * peval (synth a p) x"
proof (induction a p rule: synth.induct)
  case (3 a c d p)
  let ?q = "d # p"
  have "peval (c # ?q) x = c + x * peval ?q x" by (simp only: peval.simps)
  also have "\<dots> = c + x * (peval ?q a + (x - a) * peval (synth a ?q) x)"
    by (subst 3) (rule refl)
  also have "\<dots> = peval (c # ?q) a + (x - a) * peval (synth a (c # ?q)) x"
    by (simp add: algebra_simps)
  finally show ?case .
qed simp_all

lemma pzero_synth: "pzero (synth a p) \<Longrightarrow> pzero (tl p)"
proof (induction a p rule: synth.induct)
  case (3 a c d p)
  then have "pzero p" and "peval (d # p) a = 0"
    by (auto simp: pzero_def)
  then have "d = 0" by (simp add: peval_pzero)
  then show ?case using \<open>pzero p\<close> by (simp add: pzero_def)
qed simp_all

theorem roots_bound:
  fixes p :: "'f::field list"
  assumes "finite S" "length p \<le> card S" "\<And>x. x \<in> S \<Longrightarrow> peval p x = 0"
  shows "pzero p"
  using assms
proof (induction "length p" arbitrary: p S)
  case (Suc n)
  then obtain a where a: "a \<in> S"
    by (metis card.empty ex_in_conv le_zero_eq nat.distinct(1))
  have root: "peval p a = 0" using Suc.prems a by simp
  have "peval (synth a p) x = 0" if "x \<in> S - {a}" for x
    using synth_correct [of p x a] root Suc.prems(3) [of x] that by simp
  moreover have "length (synth a p) \<le> card (S - {a})"
    using Suc.prems(1,2) Suc.hyps(2) a by simp
  moreover have "n = length (synth a p)" using Suc.hyps(2) by simp
  ultimately have "pzero (synth a p)"
    using Suc.hyps(1) Suc.prems(1) by blast
  then have tl0: "pzero (tl p)" by (rule pzero_synth)
  obtain c q where p: "p = c # q" using Suc.hyps(2) by (cases p) auto
  with root tl0 have "c = 0" by (simp add: peval_pzero)
  with tl0 p show ?case by (simp add: pzero_def)
qed simp

section \<open>Polynomial functions of bounded degree\<close>

definition polyf :: "nat \<Rightarrow> ('f::field \<Rightarrow> 'f) \<Rightarrow> bool" where
  "polyf n f \<longleftrightarrow> (\<exists>p. length p \<le> n \<and> (\<forall>x. peval p x = f x))"

lemma polyf_peval: "length p \<le> n \<Longrightarrow> polyf n (peval p)"
  by (auto simp: polyf_def)

lemma polyf_mono: "polyf m f \<Longrightarrow> m \<le> n \<Longrightarrow> polyf n f"
  by (auto simp: polyf_def intro: order_trans)

lemma polyf_const: "1 \<le> n \<Longrightarrow> polyf n (\<lambda>x. c)"
  by (auto simp: polyf_def intro: exI [of _ "[c]"])

lemma polyf_scale: "polyf n f \<Longrightarrow> polyf n (\<lambda>x. c * f x)"
proof -
  assume "polyf n f"
  then obtain p where "length p \<le> n" "\<And>x. peval p x = f x" by (auto simp: polyf_def)
  then show ?thesis
    unfolding polyf_def
    by (intro exI [of _ "map (\<lambda>a. a * c) p"]) (simp add: peval_map_mult)
qed

text \<open>Addition of coefficient lists of any lengths.\<close>

fun padd :: "'f::comm_ring_1 list \<Rightarrow> 'f list \<Rightarrow> 'f list" where
  "padd [] q = q"
| "padd p [] = p"
| "padd (a # p) (b # q) = (a + b) # padd p q"

lemma peval_padd [simp]: "peval (padd p q) x = peval p x + peval q x"
  by (induction p q rule: padd.induct) (simp_all add: algebra_simps)

lemma length_padd [simp]: "length (padd p q) = max (length p) (length q)"
  by (induction p q rule: padd.induct) auto

lemma polyf_add: "polyf n f \<Longrightarrow> polyf n g \<Longrightarrow> polyf n (\<lambda>x. f x + g x)"
proof -
  assume "polyf n f" "polyf n g"
  then obtain p q where "length p \<le> n" "length q \<le> n"
    "\<And>x. peval p x = f x" "\<And>x. peval q x = g x"
    by (auto simp: polyf_def)
  then show ?thesis
    unfolding polyf_def by (intro exI [of _ "padd p q"]) simp
qed

lemma polyf_diff: "polyf n f \<Longrightarrow> polyf n g \<Longrightarrow> polyf n (\<lambda>x. f x - g x)"
  using polyf_add [of n f "\<lambda>x. (-1) * g x"] polyf_scale [of n g "-1"] by simp

lemma polyf_shift: "polyf n f \<Longrightarrow> polyf (Suc n) (\<lambda>x. x * f x)"
proof -
  assume "polyf n f"
  then obtain p where "length p \<le> n" "\<And>x. peval p x = f x" by (auto simp: polyf_def)
  then show ?thesis
    unfolding polyf_def by (intro exI [of _ "0 # p"]) simp
qed

lemma polyf_mult: "polyf m f \<Longrightarrow> polyf k g \<Longrightarrow> polyf (m + k) (\<lambda>x. f x * g x)"
proof -
  assume f: "polyf m f" and g: "polyf k g"
  have "polyf (length p + k) (\<lambda>x. peval p x * g x)" for p
  proof (induction p)
    case Nil
    show ?case using polyf_scale [OF g, of 0] by simp
  next
    case (Cons a p)
    have "polyf (Suc (length p + k)) (\<lambda>x. a * g x + x * (peval p x * g x))"
      by (intro polyf_add polyf_shift Cons polyf_mono [OF polyf_scale [OF g]]) simp
    then show ?case by (simp add: algebra_simps)
  qed
  moreover from f obtain p where "length p \<le> m" "\<And>x. peval p x = f x" by (auto simp: polyf_def)
  ultimately show ?thesis by (metis (no_types, lifting) add_le_mono1 ext polyf_mono)
qed

lemma polyf_scale_arg: "polyf n f \<Longrightarrow> polyf n (\<lambda>x. f (c * x))"
proof -
  assume "polyf n f"
  then obtain p where p: "length p \<le> n" "\<And>x. peval p x = f x" by (auto simp: polyf_def)
  have "peval (map (\<lambda>i. p ! i * c ^ i) [0..<length p]) x = f (c * x)" for x
    by (simp add: peval_conv_sum power_mult_distrib algebra_simps flip: p(2))
  then show ?thesis
    unfolding polyf_def using p(1) by (intro exI [of _ "map (\<lambda>i. p ! i * c ^ i) [0..<length p]"]) simp
qed

lemma polyf_power: "polyf (Suc k) (\<lambda>x. x ^ k)"
  by (induction k) (auto intro: polyf_const polyf_shift)

lemma polyf_sum:
  "finite A \<Longrightarrow> (\<And>i. i \<in> A \<Longrightarrow> polyf n (f i)) \<Longrightarrow> polyf n (\<lambda>x. \<Sum>i\<in>A. f i x)"
proof (induction A rule: finite_induct)
  case empty
  show ?case unfolding polyf_def by (intro exI [of _ "[]"]) simp
next
  case (insert a A)
  then show ?case by (simp add: polyf_add)
qed

theorem polyf_unique:
  fixes f g :: "'f::field \<Rightarrow> 'f"
  assumes "polyf n f" "polyf n g" "finite S" "n \<le> card S" "\<And>x. x \<in> S \<Longrightarrow> f x = g x"
  shows "f x = g x"
proof -
  from polyf_diff [OF assms(1,2)] obtain p
    where p: "length p \<le> n" "\<And>x. peval p x = f x - g x"
    by (auto simp: polyf_def)
  then have "pzero p"
    using assms(3-5) by (intro roots_bound [of S]) auto
  then show ?thesis using p(2) [of x] by (simp add: peval_pzero)
qed

section \<open>Primitive roots of unity\<close>

definition primitive_root :: "nat \<Rightarrow> 'f::field \<Rightarrow> bool" where
  "primitive_root n w \<longleftrightarrow> 0 < n \<and> w ^ n = 1 \<and> (\<forall>i. 0 < i \<and> i < n \<longrightarrow> w ^ i \<noteq> 1)"

definition domain_points :: "nat \<Rightarrow> 'f::field \<Rightarrow> 'f set" where
  "domain_points n w = (\<lambda>i. w ^ i) ` {..<n}"

lemma primitive_root_nonzero: "primitive_root n w \<Longrightarrow> w \<noteq> 0"
  by (auto simp: primitive_root_def power_0_left)

lemma primitive_root_inj: "primitive_root n w \<Longrightarrow> inj_on (\<lambda>i. w ^ i) {..<n}"
proof (rule linorder_inj_onI)
  fix i j assume prim: "primitive_root n w" and ij: "i < j" "i \<in> {..<n}" "j \<in> {..<n}"
  have "w ^ j = w ^ i * w ^ (j - i)" using ij by (simp flip: power_add)
  moreover have "w ^ (j - i) \<noteq> 1" using prim ij by (simp add: primitive_root_def)
  ultimately show "w ^ i \<noteq> w ^ j"
    using primitive_root_nonzero [OF prim] by simp
qed auto

lemma card_domain_points: "primitive_root n w \<Longrightarrow> card (domain_points n w) = n"
  by (simp add: domain_points_def card_image primitive_root_inj)

lemma finite_domain_points [simp]: "finite (domain_points n w)"
  by (simp add: domain_points_def)

lemma domain_points_root: "primitive_root n w \<Longrightarrow> x \<in> domain_points n w \<Longrightarrow> x ^ n = 1"
  by (auto simp: domain_points_def primitive_root_def simp flip: power_mult)
     (metis mult.commute power_mult power_one)

lemma primitive_power_eq:
  "primitive_root n w \<Longrightarrow> i < n \<Longrightarrow> j < n \<Longrightarrow> w ^ i = w ^ j \<longleftrightarrow> i = j"
  using primitive_root_inj [of n w] by (auto simp: inj_on_def)

lemma domain_points_iff:
  assumes "primitive_root n w"
  shows "x \<in> domain_points n w \<longleftrightarrow> x ^ n = 1"
proof
  assume "x ^ n = 1"
  show "x \<in> domain_points n w"
  proof (rule ccontr)
    assume notin: "x \<notin> domain_points n w"
    let ?p = "(-1) # replicate (n - 1) 0 @ [1 :: 'a]"
    have n: "0 < n" using assms by (simp add: primitive_root_def)
    have ev: "peval ?p y = y ^ n - 1" for y
      using n by (cases n) (simp_all add: peval_append)
    have "pzero ?p"
    proof (rule roots_bound [of "insert x (domain_points n w)"])
      show "length ?p \<le> card (insert x (domain_points n w))"
        using notin assms n by (simp add: card_domain_points)
    next
      fix y assume "y \<in> insert x (domain_points n w)"
      then show "peval ?p y = 0"
        using ev \<open>x ^ n = 1\<close> domain_points_root [OF assms] by auto
    qed simp
    then show False by (simp add: pzero_def)
  qed
qed (rule domain_points_root [OF assms])

section \<open>The Lagrange basis\<close>

definition lagrange :: "nat \<Rightarrow> 'f::field \<Rightarrow> nat \<Rightarrow> 'f \<Rightarrow> 'f" where
  "lagrange n w i x = w ^ i / of_nat n * (\<Sum>k<n. x ^ k * (w ^ i) ^ (n - 1 - k))"

lemma power_diff_factor:
  "(x :: 'f::comm_ring_1) ^ n - a ^ n = (x - a) * (\<Sum>k<n. x ^ k * a ^ (n - 1 - k))"
proof (cases n)
  case (Suc m)
  have "(\<Sum>k<n. x ^ k * a ^ (n - 1 - k)) = (\<Sum>p<Suc m. x ^ p * a ^ (m - p))"
    using Suc by (intro sum.cong) auto
  then show ?thesis using Suc diff_power_eq_sum [of x m a] by simp
qed simp

lemma lagrange_polyf: "polyf n (lagrange n w i)"
proof -
  have "polyf n (\<lambda>x. \<Sum>k<n. (w ^ i) ^ (n - 1 - k) * x ^ k)"
    by (intro polyf_sum polyf_scale polyf_mono [OF polyf_power]) auto
  then have "polyf n (\<lambda>x. w ^ i / of_nat n * (\<Sum>k<n. (w ^ i) ^ (n - 1 - k) * x ^ k))"
    by (rule polyf_scale)
  moreover have "(\<lambda>x. w ^ i / of_nat n * (\<Sum>k<n. (w ^ i) ^ (n - 1 - k) * x ^ k)) = lagrange n w i"
    by (rule ext) (simp add: lagrange_def mult.commute)
  ultimately show ?thesis by simp
qed

lemma lagrange_times:
  assumes "primitive_root n w"
  shows "(x - w ^ i) * lagrange n w i x = w ^ i / of_nat n * (x ^ n - 1)"
proof -
  have "(w ^ i) ^ n = 1"
    using assms by (metis mult.commute power_mult power_one primitive_root_def)
  then have "(x - w ^ i) * (\<Sum>k<n. x ^ k * (w ^ i) ^ (n - 1 - k)) = x ^ n - 1"
    using power_diff_factor [of x n "w ^ i"] by simp
  then show ?thesis
    unfolding lagrange_def by (simp add: mult.left_commute [of "x - w ^ i"])
qed

lemma lagrange_at_own:
  assumes "primitive_root n w" "of_nat n \<noteq> (0 :: 'f::field)"
  shows "lagrange n w i (w ^ i :: 'f) = 1"
proof -
  let ?a = "w ^ i"
  have n: "0 < n" using assms by (simp add: primitive_root_def)
  have "(\<Sum>k<n. ?a ^ k * ?a ^ (n - 1 - k)) = (\<Sum>k<n. ?a ^ (n - 1))"
    by (intro sum.cong) (auto simp flip: power_add)
  then have "lagrange n w i ?a = ?a / of_nat n * (of_nat n * ?a ^ (n - 1))"
    by (simp add: lagrange_def)
  also have "\<dots> = ?a * ?a ^ (n - 1)" using assms(2) by simp
  also have "\<dots> = ?a ^ n" using n by (cases n) auto
  also have "\<dots> = 1"
    using assms(1) by (metis mult.commute power_mult power_one primitive_root_def)
  finally show ?thesis .
qed

lemma lagrange_at_other:
  assumes "primitive_root n w" "i < n" "j < n" "i \<noteq> j"
  shows "lagrange n w i (w ^ j) = 0"
proof -
  have "(w ^ j) ^ n = 1"
    using assms by (metis mult.commute power_mult power_one primitive_root_def)
  then have "(w ^ j - w ^ i) * lagrange n w i (w ^ j) = 0"
    using lagrange_times [OF assms(1), of "w ^ j" i] by simp
  moreover have "w ^ j \<noteq> w ^ i" using primitive_power_eq assms by metis
  ultimately show ?thesis by simp
qed

lemma lagrange_at_point:
  assumes "primitive_root n w" "of_nat n \<noteq> (0 :: 'f::field)" "i < n" "j < n"
  shows "lagrange n w i (w ^ j :: 'f) = (if i = j then 1 else 0)"
  using assms lagrange_at_own lagrange_at_other by auto

lemma lagrange_at_zero:
  assumes "primitive_root n w"
  shows "lagrange n w i 0 = 1 / of_nat n"
proof -
  have n: "0 < n" using assms by (simp add: primitive_root_def)
  have "(\<Sum>k<n. 0 ^ k * (w ^ i) ^ (n - 1 - k)) = (w ^ i) ^ (n - 1)"
    using n by (cases n) (simp_all add: sum.lessThan_Suc_shift del: sum.lessThan_Suc)
  moreover have "w ^ i * (w ^ i) ^ (n - 1) = 1"
    using assms n by (metis Suc_diff_1 mult.commute power_Suc power_mult power_one primitive_root_def)
  ultimately show ?thesis by (simp add: lagrange_def)
qed

theorem interpolation:
  assumes "primitive_root n w" "of_nat n \<noteq> (0 :: 'f::field)" "polyf n f"
  shows "f (x :: 'f) = (\<Sum>i<n. f (w ^ i) * lagrange n w i x)"
proof (rule polyf_unique [OF assms(3), where S = "domain_points n w"])
  show "polyf n (\<lambda>x. \<Sum>i<n. f (w ^ i) * lagrange n w i x)"
    by (intro polyf_sum polyf_scale lagrange_polyf) simp
next
  fix y assume "y \<in> domain_points n w"
  then obtain j where j: "j < n" "y = w ^ j" by (auto simp: domain_points_def)
  have "(\<Sum>i<n. f (w ^ i) * lagrange n w i y) = (\<Sum>i<n. if i = j then f (w ^ j) else 0)"
    using assms j by (intro sum.cong) (auto simp: lagrange_at_point)
  then show "f y = (\<Sum>i<n. f (w ^ i) * lagrange n w i y)"
    using j by simp
qed (use assms in \<open>auto simp: card_domain_points\<close>)

text \<open>
  A remainder of division by \<open>X\<^sup>n - 1\<close> is zero exactly when the dividend vanishes on the domain.
\<close>

lemma remainder_zero:
  assumes "primitive_root n w" "length r \<le> n"
    and div: "\<And>x. f x = q x * (x ^ n - 1) + peval r x"
    and van: "\<And>i. i < n \<Longrightarrow> f (w ^ i) = 0"
  shows "pzero r"
proof (rule roots_bound [of "domain_points n w"])
  fix x assume x: "x \<in> domain_points n w"
  then have "f x = 0" using van by (auto simp: domain_points_def)
  moreover have "x ^ n = 1" by (rule domain_points_root [OF assms(1) x])
  ultimately show "peval r x = 0" using div [of x] by simp
qed (use assms in \<open>simp_all add: card_domain_points\<close>)

end
