(* ===== verification/Ark.thy ===== *)
theory Ark
  imports Polynomials
begin

text \<open>
  The third-party code the \<open>hints\<close> crate calls (arkworks, \<^verbatim>\<open>sha2\<close>, \<^verbatim>\<open>rand_chacha\<close>), as a record of
  parameters, and the documented behaviour the crate relies on, as named hypotheses. The scalar
  field \<open>Fr\<close> is a type of class \<open>field\<close>; the groups \<open>G1\<close>, \<open>G2\<close> and the target group are types of
  class \<open>ab_group_add\<close> (affine and projective points are the same group element here, so
  \<^verbatim>\<open>into_affine\<close> and \<^verbatim>\<open>into_group\<close> are the identity). A \<^verbatim>\<open>DensePolynomial\<close> is its public coefficient
  vector.
\<close>

type_synonym serialization_error = string
type_synonym hash_to_curve_error = string
type_synonym 'f dense_poly = "'f list"

record ('f, 'g1, 'g2, 'gt, 'rng) ark =
  fr_modulus :: nat
  into_bigint :: "'f \<Rightarrow> nat"
  g1_generator :: 'g1
  g2_generator :: 'g2
  g1_mul :: "'g1 \<Rightarrow> 'f \<Rightarrow> 'g1"
  g2_mul :: "'g2 \<Rightarrow> 'f \<Rightarrow> 'g2"
  pairing :: "'g1 \<Rightarrow> 'g2 \<Rightarrow> 'gt"
  g1_msm_bigint :: "'g1 list \<Rightarrow> nat list \<Rightarrow> 'g1"
  g2_msm_bigint :: "'g2 list \<Rightarrow> nat list \<Rightarrow> 'g2"
  g1_msm_unchecked :: "'g1 list \<Rightarrow> 'f list \<Rightarrow> 'g1"
  g2_msm_unchecked :: "'g2 list \<Rightarrow> 'f list \<Rightarrow> 'g2"
  g1_msm :: "'g1 list \<Rightarrow> 'f list \<Rightarrow> ('g1, nat) result"
  g2_msm :: "'g2 list \<Rightarrow> 'f list \<Rightarrow> ('g2, nat) result"
  poly_degree :: "'f dense_poly \<Rightarrow> nat option"
  poly_evaluate :: "'f dense_poly \<Rightarrow> 'f \<Rightarrow> 'f"
  poly_from_coefficients :: "'f list \<Rightarrow> 'f dense_poly"
  poly_add :: "'f dense_poly \<Rightarrow> 'f dense_poly \<Rightarrow> 'f dense_poly"
  poly_sub :: "'f dense_poly \<Rightarrow> 'f dense_poly \<Rightarrow> 'f dense_poly"
  poly_mul :: "'f dense_poly \<Rightarrow> 'f dense_poly \<Rightarrow> 'f dense_poly"
  poly_div :: "'f dense_poly \<Rightarrow> 'f dense_poly \<Rightarrow> 'f dense_poly option"
  divide_by_vanishing :: "'f dense_poly \<Rightarrow> nat \<Rightarrow> 'f dense_poly \<times> 'f dense_poly"
  domain_group_gen :: "nat \<Rightarrow> 'f option"
  domain_interpolate :: "'f list \<Rightarrow> 'f dense_poly"
  ser_usize :: "nat \<Rightarrow> (bytes, serialization_error) result"
  ser_f :: "'f \<Rightarrow> (bytes, serialization_error) result"
  ser_g1 :: "'g1 \<Rightarrow> (bytes, serialization_error) result"
  ser_g2 :: "'g2 \<Rightarrow> (bytes, serialization_error) result"
  hash_to_field :: "bytes \<Rightarrow> bytes \<Rightarrow> 'f"
  map_to_g2 :: "bytes \<Rightarrow> bytes \<Rightarrow> ('g2, hash_to_curve_error) result"
  sha256 :: "bytes \<Rightarrow> bytes"
  from_le_bytes_mod_order :: "bytes \<Rightarrow> 'f"
  rng_from_seed :: "bytes \<Rightarrow> 'rng"
  rng_fill_bytes :: "nat \<Rightarrow> 'rng \<Rightarrow> bytes \<times> 'rng"
  f_rand :: "'rng \<Rightarrow> 'f \<times> 'rng"

text \<open>
  \<^item> \<open>poly_degree\<close> and \<open>poly_div\<close> are \<open>None\<close> where the arkworks call panics.
  \<^item> \<open>ser_*\<close> is \<^verbatim>\<open>serialize_compressed\<close> of one value into a fresh vector.
  \<^item> \<open>hash_to_field dst msg\<close> is \<^verbatim>\<open>DefaultFieldHasher<Sha256>::new(dst).hash_to_field::<1>(msg)[0]\<close>.
  \<^item> \<open>map_to_g2 dst msg\<close> is \<^verbatim>\<open>MapToCurveBasedHasher::new(dst)?.hash(msg)\<close>.
  \<^item> \<open>divide_by_vanishing p n\<close> is \<^verbatim>\<open>p.divide_by_vanishing_poly(domain)\<close> for the domain of size \<open>n\<close>;
    \<open>domain_interpolate\<close> is \<^verbatim>\<open>Evaluations::from_vec_and_domain(evals, domain).interpolate()\<close> for the
    domain of size \<open>length evals\<close>.
\<close>

section \<open>The prime field\<close>

definition field_ok :: "('f::field, 'g1, 'g2, 'gt, 'rng) ark \<Rightarrow> bool" where
  "field_ok E \<longleftrightarrow>
     (\<forall>x. of_nat (into_bigint E x) = x) \<and>
     (\<forall>k. into_bigint E (of_nat k) = k mod fr_modulus E) \<and>
     2 < fr_modulus E"

section \<open>Groups and pairing\<close>

definition group_ok ::
  "('f::field, 'g1::ab_group_add, 'g2::ab_group_add, 'gt::ab_group_add, 'rng) ark \<Rightarrow> bool" where
  "group_ok E \<longleftrightarrow>
     (\<forall>P a b. g1_mul E P (a + b) = g1_mul E P a + g1_mul E P b) \<and>
     (\<forall>P Q a. g1_mul E (P + Q) a = g1_mul E P a + g1_mul E Q a) \<and>
     (\<forall>P a b. g1_mul E (g1_mul E P a) b = g1_mul E P (a * b)) \<and>
     (\<forall>P. g1_mul E P 1 = P) \<and>
     (\<forall>P a b. g2_mul E P (a + b) = g2_mul E P a + g2_mul E P b) \<and>
     (\<forall>P Q a. g2_mul E (P + Q) a = g2_mul E P a + g2_mul E Q a) \<and>
     (\<forall>P a b. g2_mul E (g2_mul E P a) b = g2_mul E P (a * b)) \<and>
     (\<forall>P. g2_mul E P 1 = P)"

text \<open>Both groups are cyclic, generated by the standard generators.\<close>

definition cyclic_ok ::
  "('f::field, 'g1::ab_group_add, 'g2::ab_group_add, 'gt::ab_group_add, 'rng) ark \<Rightarrow> bool" where
  "cyclic_ok E \<longleftrightarrow>
     (\<forall>P. \<exists>a. P = g1_mul E (g1_generator E) a) \<and>
     (\<forall>Q. \<exists>a. Q = g2_mul E (g2_generator E) a)"

definition pairing_ok ::
  "('f::field, 'g1::ab_group_add, 'g2::ab_group_add, 'gt::ab_group_add, 'rng) ark \<Rightarrow> bool" where
  "pairing_ok E \<longleftrightarrow>
     (\<forall>P P' Q. pairing E (P + P') Q = pairing E P Q + pairing E P' Q) \<and>
     (\<forall>P Q Q'. pairing E P (Q + Q') = pairing E P Q + pairing E P Q') \<and>
     (\<forall>P Q a. pairing E (g1_mul E P a) Q = pairing E P (g2_mul E Q a)) \<and>
     (\<forall>P. pairing E P (g2_generator E) = 0 \<longrightarrow> P = 0) \<and>
     (\<forall>Q. pairing E (g1_generator E) Q = 0 \<longrightarrow> Q = 0) \<and>
     g1_generator E \<noteq> 0 \<and> g2_generator E \<noteq> 0"

definition msm_ok ::
  "('f::field, 'g1::ab_group_add, 'g2::ab_group_add, 'gt::ab_group_add, 'rng) ark \<Rightarrow> bool" where
  "msm_ok E \<longleftrightarrow>
     (\<forall>bs ks. g1_msm_bigint E bs ks = (\<Sum>(b, k)\<leftarrow>zip bs ks. g1_mul E b (of_nat k))) \<and>
     (\<forall>bs ks. g2_msm_bigint E bs ks = (\<Sum>(b, k)\<leftarrow>zip bs ks. g2_mul E b (of_nat k))) \<and>
     (\<forall>bs ss. g1_msm_unchecked E bs ss = (\<Sum>(b, s)\<leftarrow>zip bs ss. g1_mul E b s)) \<and>
     (\<forall>bs ss. g2_msm_unchecked E bs ss = (\<Sum>(b, s)\<leftarrow>zip bs ss. g2_mul E b s)) \<and>
     (\<forall>bs ss. length bs = length ss \<longrightarrow> g1_msm E bs ss = Ok (\<Sum>(b, s)\<leftarrow>zip bs ss. g1_mul E b s)) \<and>
     (\<forall>bs ss. length bs = length ss \<longrightarrow> g2_msm E bs ss = Ok (\<Sum>(b, s)\<leftarrow>zip bs ss. g2_mul E b s))"

definition curve_ok ::
  "('f::field, 'g1::ab_group_add, 'g2::ab_group_add, 'gt::ab_group_add, 'rng) ark \<Rightarrow> bool" where
  "curve_ok E \<longleftrightarrow> field_ok E \<and> group_ok E \<and> cyclic_ok E \<and> pairing_ok E \<and> msm_ok E"

section \<open>Polynomials and domains\<close>

definition poly_ok :: "('f::field, 'g1, 'g2, 'gt, 'rng) ark \<Rightarrow> bool" where
  "poly_ok E \<longleftrightarrow>
     (\<forall>p. pwf p \<longrightarrow> poly_degree E p = Some (if pzero p then 0 else length p - 1)) \<and>
     (\<forall>p x. poly_evaluate E p x = peval p x) \<and>
     (\<forall>cs. pwf (poly_from_coefficients E cs) \<and> length (poly_from_coefficients E cs) \<le> length cs \<and>
        (\<forall>x. peval (poly_from_coefficients E cs) x = peval cs x)) \<and>
     (\<forall>p q. pwf p \<longrightarrow> pwf q \<longrightarrow> pwf (poly_add E p q) \<and>
        length (poly_add E p q) \<le> max (length p) (length q) \<and>
        (\<forall>x. peval (poly_add E p q) x = peval p x + peval q x)) \<and>
     (\<forall>p q. pwf p \<longrightarrow> pwf q \<longrightarrow> pwf (poly_sub E p q) \<and>
        length (poly_sub E p q) \<le> max (length p) (length q) \<and>
        (\<forall>x. peval (poly_sub E p q) x = peval p x - peval q x)) \<and>
     (\<forall>p q. pwf p \<longrightarrow> pwf q \<longrightarrow> pwf (poly_mul E p q) \<and>
        length (poly_mul E p q) \<le> length p + length q - 1 \<and>
        (\<forall>x. peval (poly_mul E p q) x = peval p x * peval q x)) \<and>
     (\<forall>p d. pwf p \<longrightarrow> pwf d \<longrightarrow> \<not> pzero d \<longrightarrow>
        (\<exists>q r. poly_div E p d = Some q \<and> pwf q \<and> length q \<le> length p - (length d - 1) \<and>
           length r < length d \<and> (\<forall>x. peval p x = peval q x * peval d x + peval r x)))"

definition domain_ok :: "('f::field, 'g1, 'g2, 'gt, 'rng) ark \<Rightarrow> bool" where
  "domain_ok E \<longleftrightarrow>
     (\<forall>k w. domain_group_gen E (2 ^ k) = Some w \<longrightarrow> primitive_root (2 ^ k) w) \<and>
     (\<forall>k w evals i. domain_group_gen E (2 ^ k) = Some w \<longrightarrow> length evals = 2 ^ k \<longrightarrow> i < 2 ^ k \<longrightarrow>
        peval (domain_interpolate E evals) (w ^ i) = evals ! i) \<and>
     (\<forall>k w evals. domain_group_gen E (2 ^ k) = Some w \<longrightarrow> length evals = 2 ^ k \<longrightarrow> pwf (domain_interpolate E evals) \<and>
        length (domain_interpolate E evals) \<le> 2 ^ k) \<and>
     (\<forall>k w p q r. domain_group_gen E (2 ^ k) = Some w \<longrightarrow> pwf p \<longrightarrow> divide_by_vanishing E p (2 ^ k) = (q, r) \<longrightarrow>
        pwf q \<and> pwf r \<and> length q \<le> length p - 2 ^ k \<and> length r \<le> 2 ^ k \<and>
        (\<forall>x. peval p x = peval q x * (x ^ 2 ^ k - 1) + peval r x))"

text \<open>Serialization into a growable vector does not fail, and hashing to the curve does not fail.\<close>

definition encoding_ok :: "('f, 'g1, 'g2, 'gt, 'rng) ark \<Rightarrow> bool" where
  "encoding_ok E \<longleftrightarrow>
     (\<forall>n. is_ok (ser_usize E n)) \<and> (\<forall>a. is_ok (ser_f E a)) \<and>
     (\<forall>P. is_ok (ser_g1 E P)) \<and> (\<forall>Q. is_ok (ser_g2 E Q)) \<and>
     (\<forall>dst msg. is_ok (map_to_g2 E dst msg))"

definition ark_ok ::
  "('f::field, 'g1::ab_group_add, 'g2::ab_group_add, 'gt::ab_group_add, 'rng) ark \<Rightarrow> bool" where
  "ark_ok E \<longleftrightarrow> curve_ok E \<and> poly_ok E \<and> domain_ok E"

lemma ark_okD: "ark_ok E \<Longrightarrow> curve_ok E" "ark_ok E \<Longrightarrow> poly_ok E" "ark_ok E \<Longrightarrow> domain_ok E"
  by (simp_all add: ark_ok_def)

lemma curve_okD:
  "curve_ok E \<Longrightarrow> field_ok E" "curve_ok E \<Longrightarrow> group_ok E" "curve_ok E \<Longrightarrow> cyclic_ok E"
  "curve_ok E \<Longrightarrow> pairing_ok E" "curve_ok E \<Longrightarrow> msm_ok E"
  by (simp_all add: curve_ok_def)

section \<open>Consequences for groups\<close>

lemma group_laws:
  assumes "group_ok E"
  shows "g1_mul E P (a + b) = g1_mul E P a + g1_mul E P b"
    and "g1_mul E (P + P') a = g1_mul E P a + g1_mul E P' a"
    and "g1_mul E (g1_mul E P a) b = g1_mul E P (a * b)"
    and "g1_mul E P 1 = P"
    and "g2_mul E Q (a + b) = g2_mul E Q a + g2_mul E Q b"
    and "g2_mul E (Q + Q') a = g2_mul E Q a + g2_mul E Q' a"
    and "g2_mul E (g2_mul E Q a) b = g2_mul E Q (a * b)"
    and "g2_mul E Q 1 = Q"
  using assms by (simp_all add: group_ok_def)

lemma group_zero:
  assumes "group_ok E"
  shows "g1_mul E P 0 = 0" and "g1_mul E 0 a = 0" and "g2_mul E Q 0 = 0" and "g2_mul E 0 a = 0"
  using group_laws(1) [OF assms, of P 0 0] group_laws(2) [OF assms, of 0 0 a]
    group_laws(5) [OF assms, of Q 0 0] group_laws(6) [OF assms, of 0 0 a]
  by simp_all

lemma group_minus:
  assumes "group_ok E"
  shows "g1_mul E P (- a) = - g1_mul E P a" and "g2_mul E Q (- a) = - g2_mul E Q a"
    and "g1_mul E P (a - b) = g1_mul E P a - g1_mul E P b"
    and "g2_mul E Q (a - b) = g2_mul E Q a - g2_mul E Q b"
proof -
  show m1: "g1_mul E P (- a) = - g1_mul E P a" for a
    using group_laws(1) [OF assms, of P a "- a"] group_zero(1) [OF assms, of P]
    by (simp add: eq_neg_iff_add_eq_0 add.commute)
  show m2: "g2_mul E Q (- a) = - g2_mul E Q a" for a
    using group_laws(5) [OF assms, of Q a "- a"] group_zero(3) [OF assms, of Q]
    by (simp add: eq_neg_iff_add_eq_0 add.commute)
  show "g1_mul E P (a - b) = g1_mul E P a - g1_mul E P b"
    using group_laws(1) [OF assms, of P a "- b"] m1 by simp
  show "g2_mul E Q (a - b) = g2_mul E Q a - g2_mul E Q b"
    using group_laws(5) [OF assms, of Q a "- b"] m2 by simp
qed

lemma group_sum:
  assumes "group_ok E"
  shows "(\<Sum>i\<in>A. g1_mul E P (f i)) = g1_mul E P (\<Sum>i\<in>A. f i)"
    and "(\<Sum>i\<in>A. g2_mul E Q (f i)) = g2_mul E Q (\<Sum>i\<in>A. f i)"
  by (induction A rule: infinite_finite_induct)
     (simp_all add: group_zero [OF assms] group_laws [OF assms])

text \<open>Group elements are written as multiples of the generator, \<open>[a]\<^sub>1\<close> and \<open>[a]\<^sub>2\<close>.\<close>

definition in_g1 :: "('f, 'g1, 'g2, 'gt, 'rng) ark \<Rightarrow> 'f \<Rightarrow> 'g1" where
  "in_g1 E a = g1_mul E (g1_generator E) a"

definition in_g2 :: "('f, 'g1, 'g2, 'gt, 'rng) ark \<Rightarrow> 'f \<Rightarrow> 'g2" where
  "in_g2 E a = g2_mul E (g2_generator E) a"

definition in_gt :: "('f, 'g1, 'g2, 'gt, 'rng) ark \<Rightarrow> 'f \<Rightarrow> 'gt" where
  "in_gt E a = pairing E (in_g1 E a) (g2_generator E)"

lemma in_group_arith:
  assumes "curve_ok E"
  shows "in_g1 E a + in_g1 E b = in_g1 E (a + b)" and "in_g2 E a + in_g2 E b = in_g2 E (a + b)"
    and "in_g1 E a - in_g1 E b = in_g1 E (a - b)" and "in_g2 E a - in_g2 E b = in_g2 E (a - b)"
    and "g1_mul E (in_g1 E a) c = in_g1 E (a * c)" and "g2_mul E (in_g2 E a) c = in_g2 E (a * c)"
    and "in_g1 E 0 = 0" and "in_g2 E 0 = 0"
    and "g1_generator E = in_g1 E 1" and "g2_generator E = in_g2 E 1"
  using curve_okD(2) [OF assms]
  by (simp_all add: in_g1_def in_g2_def group_laws group_minus group_zero)

lemma in_group_sum:
  assumes "curve_ok E"
  shows "(\<Sum>i\<in>A. in_g1 E (f i)) = in_g1 E (\<Sum>i\<in>A. f i)"
    and "(\<Sum>i\<in>A. in_g2 E (f i)) = in_g2 E (\<Sum>i\<in>A. f i)"
  using group_sum [OF curve_okD(2) [OF assms]] by (simp_all add: in_g1_def in_g2_def)

lemma pairing_in:
  assumes "curve_ok E"
  shows "pairing E (in_g1 E a) (in_g2 E b) = in_gt E (a * b)"
proof -
  have sw: "pairing E (g1_mul E P c) Q = pairing E P (g2_mul E Q c)" for P Q c
    using curve_okD(4) [OF assms] by (simp add: pairing_ok_def)
  show ?thesis
    using group_laws(3) [OF curve_okD(2) [OF assms]]
    by (simp add: in_g1_def in_g2_def in_gt_def flip: sw)
qed

lemma in_gt_add:
  assumes "curve_ok E"
  shows "in_gt E a + in_gt E b = in_gt E (a + b)"
  using curve_okD(4) [OF assms] in_group_arith(1) [OF assms, of a b]
  unfolding in_gt_def pairing_ok_def by metis

lemma in_g1_inj:
  assumes "curve_ok E"
  shows "in_g1 E a = in_g1 E b \<longleftrightarrow> a = b"
proof
  assume "in_g1 E a = in_g1 E b"
  then have z: "in_g1 E (a - b) = 0" using in_group_arith(3) [OF assms, of a b] by simp
  show "a = b"
  proof (rule ccontr)
    assume "a \<noteq> b"
    then have "g1_generator E = g1_mul E (in_g1 E (a - b)) (1 / (a - b))"
      using in_group_arith(5,9) [OF assms] by simp
    then have "g1_generator E = 0" using z group_zero(2) [OF curve_okD(2) [OF assms]] by simp
    then show False using curve_okD(4) [OF assms] by (simp add: pairing_ok_def)
  qed
qed simp

lemma in_g2_inj:
  assumes "curve_ok E"
  shows "in_g2 E a = in_g2 E b \<longleftrightarrow> a = b"
proof
  assume "in_g2 E a = in_g2 E b"
  then have z: "in_g2 E (a - b) = 0" using in_group_arith(4) [OF assms, of a b] by simp
  show "a = b"
  proof (rule ccontr)
    assume "a \<noteq> b"
    then have "g2_generator E = g2_mul E (in_g2 E (a - b)) (1 / (a - b))"
      using in_group_arith(6,10) [OF assms] by simp
    then have "g2_generator E = 0" using z group_zero(4) [OF curve_okD(2) [OF assms]] by simp
    then show False using curve_okD(4) [OF assms] by (simp add: pairing_ok_def)
  qed
qed simp

lemma in_group_zero_iff:
  assumes "curve_ok E"
  shows "in_g1 E a = 0 \<longleftrightarrow> a = 0" and "in_g2 E a = 0 \<longleftrightarrow> a = 0"
  using in_g1_inj [OF assms, of a 0] in_g2_inj [OF assms, of a 0] in_group_arith(7,8) [OF assms]
  by simp_all

lemma in_gt_inj:
  assumes "curve_ok E"
  shows "in_gt E a = in_gt E b \<longleftrightarrow> a = b"
proof
  assume eq: "in_gt E a = in_gt E b"
  have "in_gt E (a - b) + in_gt E b = in_gt E a" by (simp add: in_gt_add [OF assms])
  then have "in_gt E (a - b) = 0" using eq by simp
  then have "in_g1 E (a - b) = 0"
    using curve_okD(4) [OF assms] by (simp add: in_gt_def pairing_ok_def)
  then show "a = b" by (simp add: in_group_zero_iff [OF assms])
qed simp

lemma ex_in_g1: "curve_ok E \<Longrightarrow> \<exists>a. P = in_g1 E a"
  using curve_okD(3) [of E] by (simp add: cyclic_ok_def in_g1_def)

lemma ex_in_g2: "curve_ok E \<Longrightarrow> \<exists>a. Q = in_g2 E a"
  using curve_okD(3) [of E] by (simp add: cyclic_ok_def in_g2_def)

lemmas exponent_simps =
  in_group_arith(1-8) pairing_in in_gt_add in_g1_inj in_g2_inj in_gt_inj in_group_zero_iff

end
