(* ===== verification/HintsUtils.thy ===== *)
theory HintsUtils
  imports Ark
begin

text \<open>
  The modules \<^verbatim>\<open>errors.rs\<close> and \<^verbatim>\<open>utils.rs\<close> of the \<open>hints\<close> crate: the error type with its display
  text, and the polynomial helpers over a multiplicative subgroup. The lemmas give the value of
  every polynomial the helpers build and show that the network-size test accepts exactly the
  powers of two above one.
\<close>

unbundle bit_operations_syntax

section \<open>Errors\<close>

datatype hints_error =
    EncodingError serialization_error
  | HashingError hash_to_curve_error
  | InvalidNetworkSize nat
  | InsufficientCRS nat
  | InvalidInput string
  | CryptographyCatastrophe string

fun fmt_hints_error :: "hints_error \<Rightarrow> string" where
  "fmt_hints_error (EncodingError err) = err"
| "fmt_hints_error (InvalidNetworkSize n) = ''Network size must be a power of 2. Got '' @ fmt_usize n"
| "fmt_hints_error (InsufficientCRS d) =
     ''CRS is insufficient for the operation. Expected degree '' @ fmt_usize d"
| "fmt_hints_error (InvalidInput s) = ''Invalid input: '' @ s"
| "fmt_hints_error (CryptographyCatastrophe s) = ''Cryptography catastrophe: '' @ s"
| "fmt_hints_error (HashingError err) = err"

definition from_serialization_error :: "('a, serialization_error) result \<Rightarrow> ('a, hints_error) result" where
  "from_serialization_error r = map_err EncodingError r"

definition from_hash_to_curve_error :: "('a, hash_to_curve_error) result \<Rightarrow> ('a, hints_error) result" where
  "from_hash_to_curve_error r = map_err HashingError r"

lemma from_error_eq_Ok [simp]:
  "from_serialization_error r = Ok v \<longleftrightarrow> r = Ok v"
  "from_hash_to_curve_error r' = Ok v' \<longleftrightarrow> r' = Ok v'"
  by (simp_all add: from_serialization_error_def from_hash_to_curve_error_def)

lemma from_error_Ok [simp]:
  "from_serialization_error (Ok v) = Ok v" "from_hash_to_curve_error (Ok v') = Ok v'"
  by simp_all

section \<open>Polynomials over a multiplicative subgroup\<close>

definition compute_vanishing_poly :: "nat \<Rightarrow> 'f::field dense_poly" where
  "compute_vanishing_poly n =
     map (\<lambda>i. if i = 0 then 0 - 1 else if i < n then 0 else 1) [0..<n + 1]"

definition nth_root_of_unity :: "('f, 'g1, 'g2, 'gt, 'rng) ark \<Rightarrow> nat \<Rightarrow> 'f option" where
  "nth_root_of_unity E n = domain_group_gen E n"

definition interpolate_poly_over_mult_subgroup ::
  "('f, 'g1, 'g2, 'gt, 'rng) ark \<Rightarrow> 'f list \<Rightarrow> 'f dense_poly option" where
  "interpolate_poly_over_mult_subgroup E evals =
     map_option (\<lambda>d. domain_interpolate E evals) (domain_group_gen E (length evals))"

definition compute_x_monomial :: "'f::field dense_poly" where
  "compute_x_monomial = [0, 1]"

definition compute_constant_poly :: "'f \<Rightarrow> 'f dense_poly" where
  "compute_constant_poly c = [c]"

definition poly_eval_mult_c :: "'f::field dense_poly \<Rightarrow> 'f \<Rightarrow> 'f dense_poly" where
  "poly_eval_mult_c f c = (if f = [] then f else map (\<lambda>a. a * c) f)"

text \<open>The loop multiplies coefficient \<open>i\<close> by \<open>\<omega>\<^sup>i\<close> for \<open>i = 1, \<dots>, degree f\<close>.\<close>

definition poly_domain_mult_omega ::
  "('f::field, 'g1, 'g2, 'gt, 'rng) ark \<Rightarrow> 'f dense_poly \<Rightarrow> 'f \<Rightarrow> ('f dense_poly, 'e) result" where
  "poly_domain_mult_omega E f w =
     and_then (unwrap (poly_degree E f)) (\<lambda>d.
       fold_result (\<lambda>i new_poly. and_then (index new_poly i) (\<lambda>c. set_index new_poly i (c * w ^ i)))
         [1..<d + 1] f)"

text \<open>
  \<open>Ok None\<close> is the case where no evaluation domain exists. The division by \<open>n\<close> in the field and
  the division of polynomials panic on a zero divisor.
\<close>

definition lagrange_poly ::
  "('f::field, 'g1, 'g2, 'gt, 'rng) ark \<Rightarrow> nat \<Rightarrow> nat \<Rightarrow> ('f dense_poly option, 'e) result" where
  "lagrange_poly E n i =
     (case nth_root_of_unity E n of
        None \<Rightarrow> Ok None
      | Some w \<Rightarrow>
          and_then (field_div (w ^ i) (of_nat n)) (\<lambda>factor.
            let numerator = compute_vanishing_poly n;
                denominator = [0 - w ^ i, 1]
            in and_then (unwrap (poly_div E (poly_eval_mult_c numerator factor) denominator))
                 (\<lambda>p. Ok (Some p))))"

definition is_n_valid :: "nat \<Rightarrow> bool" where
  "is_n_valid n \<longleftrightarrow> n > 1 \<and> (n AND (n - 1)) = 0"

section \<open>The network size\<close>

lemma and_pred_double: "0 < m \<Longrightarrow> (2 * m) AND (2 * m - 1) = 2 * (m AND (m - 1 :: nat))"
proof -
  assume "0 < m"
  then have "(2 * m - 1) div 2 = m - 1" by arith
  then show ?thesis by (subst and_rec) simp
qed

lemma and_pred_odd: "odd (n :: nat) \<Longrightarrow> n AND (n - 1) = n - 1"
proof -
  assume "odd n"
  then obtain b where b: "n = 2 * b + 1" by (auto elim: oddE)
  have "(2 * b + 1) AND (2 * b) = 2 * b" by (subst and_rec) simp
  then show ?thesis using b by simp
qed

lemma and_pred_zero_iff: "0 < n \<Longrightarrow> n AND (n - 1) = 0 \<longleftrightarrow> (\<exists>k. n = (2 :: nat) ^ k)"
proof (induction n rule: less_induct)
  case (less n)
  show ?case
  proof (cases "even n")
    case True
    then obtain m where m: "n = 2 * m" by (auto elim: evenE)
    then have "n AND (n - 1) = 0 \<longleftrightarrow> m AND (m - 1) = 0"
      using and_pred_double [of m] less.prems by simp
    also have "\<dots> \<longleftrightarrow> (\<exists>k. m = 2 ^ k)" using less m by auto
    also have "\<dots> \<longleftrightarrow> (\<exists>k. n = 2 ^ Suc k)" using m by auto
    also have "\<dots> \<longleftrightarrow> (\<exists>k. n = 2 ^ k)"
      using True by (metis even_Suc_div_two neq0_conv not0_implies_Suc odd_one power_0)
    finally show ?thesis .
  next
    case False
    then have "n AND (n - 1) = 0 \<longleftrightarrow> n = 1" using less.prems and_pred_odd [of n] by simp arith
    also have "\<dots> \<longleftrightarrow> (\<exists>k. n = 2 ^ k)"
      using False by (metis dvd_power gr0I power_0)
    finally show ?thesis .
  qed
qed

lemma is_n_valid_iff: "is_n_valid n \<longleftrightarrow> (\<exists>k. 0 < k \<and> n = 2 ^ k)"
proof
  assume "is_n_valid n"
  then have "1 < n" and "\<exists>k. n = 2 ^ k"
    using and_pred_zero_iff [of n] by (auto simp: is_n_valid_def)
  then show "\<exists>k. 0 < k \<and> n = 2 ^ k"
    by (metis gr0I less_irrefl power_0)
next
  assume "\<exists>k. 0 < k \<and> n = 2 ^ k"
  then show "is_n_valid n"
    using and_pred_zero_iff [of n] one_less_power [of "2 :: nat"] by (auto simp: is_n_valid_def)
qed

section \<open>The vanishing polynomial and constants\<close>

lemma compute_vanishing_poly_alt:
  assumes "0 < n"
  shows "compute_vanishing_poly n = (-1) # replicate (n - 1) 0 @ [1 :: 'f::field]"
proof (rule nth_equalityI)
  fix i assume "i < length (compute_vanishing_poly n :: 'f list)"
  then show "compute_vanishing_poly n ! i = ((-1) # replicate (n - 1) 0 @ [1 :: 'f]) ! i"
    using assms
    by (cases i) (auto simp: compute_vanishing_poly_def nth_append simp del: upt_Suc)
qed (use assms in \<open>simp add: compute_vanishing_poly_def\<close>)

lemma vanishing_poly [poly_eval]:
  assumes "0 < n"
  shows "peval (compute_vanishing_poly n) x = x ^ n - (1 :: 'f::field)"
    and "pwf (compute_vanishing_poly n :: 'f list)"
    and "\<not> pzero (compute_vanishing_poly n :: 'f list)"
    and "length (compute_vanishing_poly n :: 'f list) = n + 1"
proof -
  show "peval (compute_vanishing_poly n) x = x ^ n - (1 :: 'f)"
    using assms by (cases n) (simp_all add: compute_vanishing_poly_alt peval_append)
  have "compute_vanishing_poly n = (-1 # replicate (n - 1) 0) @ [1 :: 'f]"
    using assms by (simp add: compute_vanishing_poly_alt)
  then show "pwf (compute_vanishing_poly n :: 'f list)" by (metis pwf_snoc zero_neq_one)
qed (use assms in \<open>simp_all add: compute_vanishing_poly_alt pzero_def\<close>)

lemma poly_eval_mult_c_eval [poly_eval]: "peval (poly_eval_mult_c f c) x = c * peval f x"
  by (simp add: poly_eval_mult_c_def peval_map_mult)

lemma length_poly_eval_mult_c [simp]: "length (poly_eval_mult_c f c) = length f"
  by (simp add: poly_eval_mult_c_def)

lemma pwf_poly_eval_mult_c [simp]: "pwf f \<Longrightarrow> pwf (poly_eval_mult_c f c)"
  by (cases "c = 0") (auto simp: poly_eval_mult_c_def pwf_def pzero_def last_map)

lemma pwf_constant [simp]: "pwf (compute_constant_poly c)"
  by (simp add: compute_constant_poly_def)

lemma constant_poly_eval [poly_eval]: "peval (compute_constant_poly c) x = c"
  by (simp add: compute_constant_poly_def)

lemma length_constant_poly [simp]: "length (compute_constant_poly c) = 1"
  by (simp add: compute_constant_poly_def)

lemma x_monomial [poly_eval]:
  "peval compute_x_monomial x = x" "pwf (compute_x_monomial :: 'f::field list)"
  "\<not> pzero (compute_x_monomial :: 'f list)" "length (compute_x_monomial :: 'f list) = 2"
  by (simp_all add: compute_x_monomial_def pwf_def pzero_def)

section \<open>Laws of the polynomial operations\<close>

lemma poly_laws:
  assumes "poly_ok E" "pwf p" "pwf q"
  shows "pwf (poly_add E p q)" "length (poly_add E p q) \<le> max (length p) (length q)"
    "peval (poly_add E p q) x = peval p x + peval q x"
    "pwf (poly_sub E p q)" "length (poly_sub E p q) \<le> max (length p) (length q)"
    "peval (poly_sub E p q) x = peval p x - peval q x"
    "pwf (poly_mul E p q)" "length (poly_mul E p q) \<le> length p + length q - 1"
    "peval (poly_mul E p q) x = peval p x * peval q x"
proof -
  note laws = assms(1) [unfolded poly_ok_def, THEN conjunct2, THEN conjunct2, THEN conjunct2]
  note add = laws [THEN conjunct1, rule_format, OF assms(2,3)]
    and sub = laws [THEN conjunct2, THEN conjunct1, rule_format, OF assms(2,3)]
    and mul = laws [THEN conjunct2, THEN conjunct2, THEN conjunct1, rule_format, OF assms(2,3)]
  show "pwf (poly_add E p q)" "length (poly_add E p q) \<le> max (length p) (length q)"
    "peval (poly_add E p q) x = peval p x + peval q x" using add by blast+
  show "pwf (poly_sub E p q)" "length (poly_sub E p q) \<le> max (length p) (length q)"
    "peval (poly_sub E p q) x = peval p x - peval q x" using sub by blast+
  show "pwf (poly_mul E p q)" "length (poly_mul E p q) \<le> length p + length q - 1"
    "peval (poly_mul E p q) x = peval p x * peval q x" using mul by blast+
qed

lemma poly_evaluate_eq [poly_eval]: "poly_ok E \<Longrightarrow> poly_evaluate E p x = peval p x"
  by (simp add: poly_ok_def)

lemma poly_from_coefficients_laws:
  assumes "poly_ok E"
  shows "pwf (poly_from_coefficients E cs)" "length (poly_from_coefficients E cs) \<le> length cs"
    "peval (poly_from_coefficients E cs) x = peval cs x"
  using assms [unfolded poly_ok_def, THEN conjunct2, THEN conjunct2, THEN conjunct1] by blast+

lemma poly_degree_eq:
  "poly_ok E \<Longrightarrow> pwf p \<Longrightarrow> poly_degree E p = Some (if pzero p then 0 else length p - 1)"
  by (simp add: poly_ok_def)

lemma poly_divE:
  assumes "poly_ok E" "pwf p" "pwf d" "\<not> pzero d"
  obtains q r where "poly_div E p d = Some q" "pwf q" "length q \<le> length p - (length d - 1)"
    "length r < length d" "\<And>x. peval p x = peval q x * peval d x + peval r x"
  using assms(1) [unfolded poly_ok_def, THEN conjunct2, THEN conjunct2, THEN conjunct2,
      THEN conjunct2, THEN conjunct2, THEN conjunct2, rule_format, OF assms(2-4)] that by blast

text \<open>Division by a polynomial that vanishes on as many points as its degree is exact.\<close>

lemma poly_div_exact:
  fixes E :: "('f::field, 'g1, 'g2, 'gt, 'rng) ark"
  assumes "poly_ok E" "pwf p" "pwf d" "\<not> pzero d"
    and "finite S" "length d \<le> Suc (card S)"
    and "\<And>x. x \<in> S \<Longrightarrow> peval p x = 0" "\<And>x. x \<in> S \<Longrightarrow> peval d x = 0"
  obtains q where "poly_div E p d = Some q" "pwf q" "length q \<le> length p - (length d - 1)"
    "\<And>x. peval p x = peval q x * peval d x"
proof -
  from poly_divE [OF assms(1-4)] obtain q r where q: "poly_div E p d = Some q" "pwf q"
    "length q \<le> length p - (length d - 1)" "length r < length d"
    "\<And>x. peval p x = peval q x * peval d x + peval r x" by blast
  have "peval r x = 0" if "x \<in> S" for x
    using q(5) [of x] assms(7,8) [OF that] by simp
  then have "pzero r"
    using assms(5,6) q(4) by (intro roots_bound [of S]) auto
  then have "peval p x = peval q x * peval d x" for x
    using q(5) [of x] peval_pzero [of r x] by simp
  then show thesis using q(1-3) that by blast
qed

section \<open>Evaluation domains\<close>

lemma two_nonzero:
  fixes E :: "('f::field, 'g1, 'g2, 'gt, 'rng) ark"
  assumes "field_ok E"
  shows "(2 :: 'f) \<noteq> 0"
proof
  assume "(2 :: 'f) = 0"
  then have "into_bigint E (of_nat 2) = into_bigint E (of_nat 0)" by simp
  moreover have "into_bigint E (of_nat k) = k mod fr_modulus E" "2 < fr_modulus E" for k
    using assms by (simp_all only: field_ok_def)
  ultimately have "2 mod fr_modulus E = 0 mod fr_modulus E" by metis
  then show False using \<open>2 < fr_modulus E\<close> by simp
qed

lemma valid_size_nonzero:
  fixes E :: "('f::field, 'g1, 'g2, 'gt, 'rng) ark"
  assumes "field_ok E" "is_n_valid n"
  shows "(of_nat n :: 'f) \<noteq> 0"
proof -
  from assms(2) obtain k where "n = 2 ^ k" by (auto simp: is_n_valid_iff)
  then show ?thesis using two_nonzero [OF assms(1)] by simp
qed

lemma is_n_valid_gt_1: "is_n_valid n \<Longrightarrow> 1 < n"
  by (simp add: is_n_valid_def)

lemma domain_primitive:
  "domain_ok E \<Longrightarrow> is_n_valid n \<Longrightarrow> domain_group_gen E n = Some w \<Longrightarrow> primitive_root n w"
  unfolding is_n_valid_iff domain_ok_def by blast

lemma domain_interpolate_laws:
  assumes "domain_ok E" "is_n_valid n" "domain_group_gen E n = Some w" "length evals = n"
  shows "pwf (domain_interpolate E evals)" "length (domain_interpolate E evals) \<le> n"
    "i < n \<Longrightarrow> peval (domain_interpolate E evals) (w ^ i) = evals ! i"
proof -
  obtain k where k: "n = 2 ^ k" using assms(2) by (auto simp: is_n_valid_iff)
  note laws = assms(1) [unfolded domain_ok_def, THEN conjunct2]
  show "pwf (domain_interpolate E evals)" "length (domain_interpolate E evals) \<le> n"
    using laws [THEN conjunct2, THEN conjunct1, rule_format, of k w evals] assms(3,4) k by simp_all
  show "i < n \<Longrightarrow> peval (domain_interpolate E evals) (w ^ i) = evals ! i"
    using laws [THEN conjunct1, rule_format, of k w evals i] assms(3,4) k by simp
qed

lemma interpolate_value:
  fixes E :: "('f::field, 'g1::ab_group_add, 'g2::ab_group_add, 'gt::ab_group_add, 'rng) ark"
  assumes "ark_ok E" "is_n_valid n" "domain_group_gen E n = Some w" "length evals = n"
  shows "peval (domain_interpolate E evals) x = (\<Sum>i<n. evals ! i * lagrange n w i x)"
proof -
  note dom = ark_okD(3) [OF assms(1)]
  have "peval (domain_interpolate E evals) x
      = (\<Sum>i<n. peval (domain_interpolate E evals) (w ^ i) * lagrange n w i x)"
    using domain_interpolate_laws(2) [OF dom assms(2-4)]
      domain_primitive [OF dom assms(2,3)]
      valid_size_nonzero [OF curve_okD(1) [OF ark_okD(1) [OF assms(1)]] assms(2)]
    by (intro interpolation polyf_peval)
  then show ?thesis using domain_interpolate_laws(3) [OF dom assms(2-4)] by simp
qed

section \<open>Lagrange polynomials\<close>

lemma lagrange_poly_None: "domain_group_gen E n = None \<Longrightarrow> lagrange_poly E n i = Ok None"
  by (simp add: lagrange_poly_def nth_root_of_unity_def)

lemma lagrange_poly_correct:
  fixes E :: "('f::field, 'g1::ab_group_add, 'g2::ab_group_add, 'gt::ab_group_add, 'rng) ark"
  assumes "ark_ok E" "is_n_valid n" "domain_group_gen E n = Some w" "i < n"
  obtains L where "(lagrange_poly E n i :: ('f dense_poly option, 'e) result) = Ok (Some L)"
    "pwf L" "length L \<le> n" "\<And>x. peval L x = lagrange n w i x"
proof -
  note dom = ark_okD(3) [OF assms(1)] and pol = ark_okD(2) [OF assms(1)]
  have n: "0 < n" using is_n_valid_gt_1 [OF assms(2)] by simp
  have prim: "primitive_root n w" by (rule domain_primitive [OF dom assms(2,3)])
  have nz: "(of_nat n :: 'f) \<noteq> 0"
    by (rule valid_size_nonzero [OF curve_okD(1) [OF ark_okD(1) [OF assms(1)]] assms(2)])
  let ?a = "w ^ i"
  let ?num = "poly_eval_mult_c (compute_vanishing_poly n) (?a / of_nat n)"
  let ?den = "[0 - ?a, 1]"
  have an: "?a ^ n = 1"
    using prim by (metis mult.commute power_mult power_one primitive_root_def)
  obtain L where L: "poly_div E ?num ?den = Some L" "pwf L"
    "length L \<le> length ?num - (length ?den - 1)" "\<And>x. peval ?num x = peval L x * peval ?den x"
  proof (rule poly_div_exact [OF pol, of ?num ?den "{?a}"])
    show "pwf ?num" using n by (simp add: vanishing_poly(2))
    show "pwf ?den" "\<not> pzero ?den" by (simp_all add: pwf_def pzero_def)
  qed (use n an in \<open>auto simp: vanishing_poly(1) poly_eval_mult_c_eval\<close>)
  have len: "length L \<le> n" using L(3) n by (simp add: vanishing_poly(4))
  have prod: "(x - ?a) * peval L x = (x - ?a) * lagrange n w i x" for x
    using L(4) [of x] lagrange_times [OF prim, of x i] n
    by (simp add: vanishing_poly(1) poly_eval_mult_c_eval algebra_simps)
  have eq: "peval L x = lagrange n w i x" for x
  proof (rule polyf_unique [OF polyf_peval [OF len] lagrange_polyf])
    let ?S = "insert 0 (domain_points n w - {?a})"
    have "?a \<in> domain_points n w" using assms(4) by (auto simp: domain_points_def)
    moreover have "0 \<notin> domain_points n w"
      using n domain_points_root [OF prim, of 0] by (auto simp: power_0_left)
    ultimately show "n \<le> card ?S" using n card_domain_points [OF prim] by simp
    fix x assume "x \<in> ?S"
    then have "x \<noteq> ?a" using primitive_root_nonzero [OF prim] by auto
    then show "peval L x = lagrange n w i x" using prod [of x] by simp
  qed simp
  show thesis
    by (rule that [OF _ L(2) len eq])
       (use L(1) nz assms(3) in \<open>simp add: lagrange_poly_def nth_root_of_unity_def\<close>)
qed

section \<open>Scaling the argument\<close>

lemma mult_omega_loop:
  fixes f :: "'f::field list"
  assumes "m \<le> length f"
  shows "fold_result (\<lambda>i p. and_then (index p i) (\<lambda>c. set_index p i (c * w ^ i)) :: ('f list, 'e) result)
           [1..<m] f
       = Ok (map (\<lambda>i. if i < m then f ! i * w ^ i else f ! i) [0..<length f])"
  using assms
proof (induction m)
  case 0
  then show ?case by (simp add: map_nth)
next
  case (Suc m)
  show ?case
  proof (cases "m = 0")
    case True
    have "map (\<lambda>i. if i < Suc 0 then f ! i * w ^ i else f ! i) [0..<length f] = f"
      by (intro nth_equalityI) auto
    then show ?thesis unfolding True by simp
  next
    case False
    let ?F = "\<lambda>i p. and_then (index p i) (\<lambda>c. set_index p i (c * w ^ i)) :: ('f list, 'e) result"
    let ?g = "\<lambda>m i. if i < m then f ! i * w ^ i else f ! i"
    have "[1..<Suc m] = [1..<m] @ [m]" using False by simp
    then have "fold_result ?F [1..<Suc m] f
        = and_then (Ok (map (?g m) [0..<length f])) (fold_result ?F [m])"
      using Suc.IH [OF Suc_leD [OF Suc.prems]] by (simp only: fold_result_append)
    also have "\<dots> = Ok ((map (?g m) [0..<length f])[m := f ! m * w ^ m])"
      using Suc.prems by simp
    also have "(map (?g m) [0..<length f])[m := f ! m * w ^ m] = map (?g (Suc m)) [0..<length f]"
      using Suc.prems by (intro nth_equalityI) (auto simp: nth_list_update less_Suc_eq)
    finally show ?thesis .
  qed
qed

lemma peval_scaled: "peval (map (\<lambda>i. f ! i * w ^ i) [0..<length f]) x = peval f (w * x)"
  by (simp add: peval_conv_sum power_mult_distrib algebra_simps)

lemma poly_domain_mult_omega_correct:
  fixes E :: "('f::field, 'g1, 'g2, 'gt, 'rng) ark"
  assumes "poly_ok E" "pwf f" "w \<noteq> 0"
  obtains g where "(poly_domain_mult_omega E f w :: (_, 'e) result) = Ok g" "pwf g"
    "length g = length f" "\<And>x. peval g x = peval f (w * x)"
proof (cases "pzero f")
  case True
  then have "poly_domain_mult_omega E f w = Ok f"
    using assms by (simp add: poly_domain_mult_omega_def poly_degree_eq)
  then show thesis using that [of f] True assms(2) by (simp add: peval_pzero)
next
  case False
  let ?g = "map (\<lambda>i. f ! i * w ^ i) [0..<length f]"
  have f: "f \<noteq> []" using False by auto
  have all: "map (\<lambda>i. if i < length f then f ! i * w ^ i else f ! i) [0..<length f] = ?g" by simp
  have "length f - 1 + 1 = length f" using f by (cases f) auto
  then have "poly_domain_mult_omega E f w = Ok ?g"
    using False assms mult_omega_loop [OF order_refl, where f = f and w = w] all
    by (simp only: poly_domain_mult_omega_def poly_degree_eq unwrap_Some and_then.simps if_False)
  moreover have "pwf ?g"
    using False assms f by (simp add: pwf_def last_map last_conv_nth)
  ultimately show thesis using that [of ?g] peval_scaled [of f w] by simp
qed

end
