(* ===== verification/Kzg.thy ===== *)
theory Kzg
  imports HintsUtils
begin

text \<open>
  The module \<^verbatim>\<open>kzg.rs\<close>: structured reference strings, commitments in both groups and opening
  proofs. A structured reference string with trapdoor \<open>\<tau>\<close> makes a commitment the value of the
  polynomial at \<open>\<tau>\<close> in the exponent.
\<close>

record ('g1, 'g2) universal_params =
  powers_of_g :: "'g1 list"
  powers_of_h :: "'g2 list"

section \<open>Operations\<close>

text \<open>
  \<open>setup\<close> draws \<open>\<beta>\<close>, \<open>g\<close> and \<open>h\<close> from its generator; here they are its arguments. The loop pushes
  the running power \<open>cur\<close> and multiplies it by \<open>\<beta>\<close>, \<open>max_degree\<close> times.
\<close>

fun powers_of_beta_loop :: "nat \<Rightarrow> 'f::field \<Rightarrow> 'f \<Rightarrow> 'f list \<Rightarrow> 'f list" where
  "powers_of_beta_loop 0 beta cur acc = acc"
| "powers_of_beta_loop (Suc k) beta cur acc = powers_of_beta_loop k beta (cur * beta) (acc @ [cur])"

definition kzg_setup ::
  "('f::field, 'g1, 'g2, 'gt, 'rng) ark \<Rightarrow> nat \<Rightarrow> 'f \<Rightarrow> 'g1 \<Rightarrow> 'g2 \<Rightarrow> ('g1, 'g2) universal_params" where
  "kzg_setup E max_degree beta g h =
     (let powers_of_beta = powers_of_beta_loop max_degree beta beta [1]
      in \<lparr>powers_of_g = map (g1_mul E g) powers_of_beta,
          powers_of_h = map (g2_mul E h) powers_of_beta\<rparr>)"

definition convert_to_bigints :: "('f, 'g1, 'g2, 'gt, 'rng) ark \<Rightarrow> 'f list \<Rightarrow> nat list" where
  "convert_to_bigints E p = map (into_bigint E) p"

fun count_leading_zeros :: "'f::zero list \<Rightarrow> nat \<Rightarrow> nat" where
  "count_leading_zeros [] k = k"
| "count_leading_zeros (c # p) k = (if c = 0 then count_leading_zeros p (k + 1) else k)"

definition skip_leading_zeros_and_convert_to_bigints ::
  "('f::field, 'g1, 'g2, 'gt, 'rng) ark \<Rightarrow> 'f dense_poly \<Rightarrow> nat \<times> nat list" where
  "skip_leading_zeros_and_convert_to_bigints E p =
     (let num_leading_zeros = count_leading_zeros p 0
      in (num_leading_zeros, convert_to_bigints E (drop num_leading_zeros p)))"

definition commit_g1 ::
  "('f, 'g1, 'g2, 'gt, 'rng) ark \<Rightarrow> ('g1, 'g2) universal_params \<Rightarrow> 'f dense_poly
   \<Rightarrow> ('g1, hints_error) result" where
  "commit_g1 E params polynomial =
     and_then (unwrap (poly_degree E polynomial)) (\<lambda>d.
       if d \<ge> length (powers_of_g params) then Err (InsufficientCRS d)
       else Ok (g1_msm_bigint E (take (d + 1) (powers_of_g params)) (convert_to_bigints E polynomial)))"

definition commit_g2 ::
  "('f, 'g1, 'g2, 'gt, 'rng) ark \<Rightarrow> ('g1, 'g2) universal_params \<Rightarrow> 'f dense_poly
   \<Rightarrow> ('g2, hints_error) result" where
  "commit_g2 E params polynomial =
     and_then (unwrap (poly_degree E polynomial)) (\<lambda>d.
       if d \<ge> length (powers_of_h params) then Err (InsufficientCRS d)
       else Ok (g2_msm_bigint E (take (d + 1) (powers_of_h params)) (convert_to_bigints E polynomial)))"

definition compute_opening_proof ::
  "('f::field, 'g1, 'g2, 'gt, 'rng) ark \<Rightarrow> ('g1, 'g2) universal_params \<Rightarrow> 'f dense_poly \<Rightarrow> 'f
   \<Rightarrow> ('g1, hints_error) result" where
  "compute_opening_proof E params polynomial point =
     (let eval = poly_evaluate E polynomial point;
          eval_as_poly = poly_from_coefficients E [eval];
          numerator = poly_sub E polynomial eval_as_poly;
          divisor = poly_from_coefficients E [0 - point, 1]
      in and_then (unwrap (poly_div E numerator divisor)) (\<lambda>witness_polynomial.
           commit_g1 E params witness_polynomial))"

section \<open>Structured reference strings\<close>

definition structured_crs ::
  "('f::field, 'g1, 'g2, 'gt, 'rng) ark \<Rightarrow> 'f \<Rightarrow> ('g1, 'g2) universal_params \<Rightarrow> bool" where
  "structured_crs E tau crs \<longleftrightarrow>
     (\<forall>i < length (powers_of_g crs). powers_of_g crs ! i = in_g1 E (tau ^ i)) \<and>
     (\<forall>i < length (powers_of_h crs). powers_of_h crs ! i = in_g2 E (tau ^ i))"

lemma powers_of_beta_loop_eq:
  "powers_of_beta_loop k beta (beta ^ j) acc = acc @ map (\<lambda>i. beta ^ i) [j..<j + k]"
proof (induction k arbitrary: j acc)
  case (Suc k)
  have "[j..<j + Suc k] = j # [Suc j..<Suc j + k]" by (simp add: upt_conv_Cons del: upt_Suc)
  then show ?case using Suc [of "Suc j"] by (simp add: power_commutes del: upt_Suc)
qed simp

lemma kzg_setup_structured:
  "structured_crs E beta (kzg_setup E max_degree beta (g1_generator E) (g2_generator E))"
proof -
  have "powers_of_beta_loop max_degree beta beta [1] = map (\<lambda>i. beta ^ i) [0..<max_degree + 1]"
    using powers_of_beta_loop_eq [of max_degree beta 1 "[1]"]
    by (simp add: upt_conv_Cons del: upt_Suc)
  then show ?thesis
    by (simp add: structured_crs_def kzg_setup_def in_g1_def in_g2_def del: upt_Suc)
qed

text \<open>The multi-scalar multiplication over the tower is evaluation at the trapdoor.\<close>

lemma msm_tower:
  fixes E :: "('f::field, 'g1::ab_group_add, 'g2::ab_group_add, 'gt::ab_group_add, 'rng) ark"
  assumes "curve_ok E" "length p = m"
  shows "length gs = m \<Longrightarrow> (\<And>i. i < m \<Longrightarrow> gs ! i = in_g1 E (tau ^ i)) \<Longrightarrow>
      g1_msm_bigint E gs (convert_to_bigints E p) = in_g1 E (peval p tau)"
    and "length hs = m \<Longrightarrow> (\<And>i. i < m \<Longrightarrow> hs ! i = in_g2 E (tau ^ i)) \<Longrightarrow>
      g2_msm_bigint E hs (convert_to_bigints E p) = in_g2 E (peval p tau)"
proof -
  have id: "of_nat (into_bigint E c) = c" for c
    using curve_okD(1) [OF assms(1)] by (simp add: field_ok_def)
  {
    assume gs: "length gs = m" "\<And>i. i < m \<Longrightarrow> gs ! i = in_g1 E (tau ^ i)"
    have "g1_msm_bigint E gs (convert_to_bigints E p)
        = (\<Sum>(b, k)\<leftarrow>zip gs (convert_to_bigints E p). g1_mul E b (of_nat k))"
      using curve_okD(5) [OF assms(1)] by (simp add: msm_ok_def)
    also have "\<dots> = (\<Sum>i<m. in_g1 E (p ! i * tau ^ i))"
      using gs assms(2) id
      by (subst sum_list_map_zip)
         (auto simp: convert_to_bigints_def in_group_arith(5) [OF assms(1)] mult.commute
            intro!: sum.cong)
    finally show "g1_msm_bigint E gs (convert_to_bigints E p) = in_g1 E (peval p tau)"
      using assms by (simp add: in_group_sum(1) peval_conv_sum)
  next
    assume hs: "length hs = m" "\<And>i. i < m \<Longrightarrow> hs ! i = in_g2 E (tau ^ i)"
    have "g2_msm_bigint E hs (convert_to_bigints E p)
        = (\<Sum>(b, k)\<leftarrow>zip hs (convert_to_bigints E p). g2_mul E b (of_nat k))"
      using curve_okD(5) [OF assms(1)] by (simp add: msm_ok_def)
    also have "\<dots> = (\<Sum>i<m. in_g2 E (p ! i * tau ^ i))"
      using hs assms(2) id
      by (subst sum_list_map_zip)
         (auto simp: convert_to_bigints_def in_group_arith(6) [OF assms(1)] mult.commute
            intro!: sum.cong)
    finally show "g2_msm_bigint E hs (convert_to_bigints E p) = in_g2 E (peval p tau)"
      using assms by (simp add: in_group_sum(2) peval_conv_sum)
  }
qed

text \<open>An all-zero coefficient vector of any length commits to the identity.\<close>

lemma msm_pzero:
  fixes E :: "('f::field, 'g1::ab_group_add, 'g2::ab_group_add, 'gt::ab_group_add, 'rng) ark"
  assumes "curve_ok E" "pzero p"
  shows "g1_msm_bigint E gs (convert_to_bigints E p) = 0"
    and "g2_msm_bigint E hs (convert_to_bigints E p) = 0"
proof -
  have id: "of_nat (into_bigint E c) = c" for c
    using curve_okD(1) [OF assms(1)] by (simp add: field_ok_def)
  have z: "of_nat k = (0 :: 'f)" if "k \<in> set (convert_to_bigints E p)" for k
    using that assms(2) id by (auto simp: convert_to_bigints_def pzero_def)
  note laws = curve_okD(5) [OF assms(1), unfolded msm_ok_def]
  show "g1_msm_bigint E gs (convert_to_bigints E p) = 0"
    using laws [THEN conjunct1] group_zero(1) [OF curve_okD(2) [OF assms(1)]]
    by (auto simp: z intro!: sum_list_map_zero dest!: set_zip_rightD)
  show "g2_msm_bigint E hs (convert_to_bigints E p) = 0"
    using laws [THEN conjunct2, THEN conjunct1] group_zero(3) [OF curve_okD(2) [OF assms(1)]]
    by (auto simp: z intro!: sum_list_map_zero dest!: set_zip_rightD)
qed

section \<open>Commitments\<close>

lemma commit_g1_value:
  fixes E :: "('f::field, 'g1::ab_group_add, 'g2::ab_group_add, 'gt::ab_group_add, 'rng) ark"
  assumes "curve_ok E" "poly_ok E" "structured_crs E tau crs" "pwf p"
    and "length p \<le> length (powers_of_g crs)" "0 < length (powers_of_g crs)"
  shows "commit_g1 E crs p = Ok (in_g1 E (peval p tau))"
proof (cases "pzero p")
  case True
  then show ?thesis
    using assms msm_pzero(1) [OF assms(1) True]
    by (simp add: commit_g1_def poly_degree_eq peval_pzero in_group_arith(7))
next
  case False
  then have p: "p \<noteq> []" by auto
  have "g1_msm_bigint E (take (length p) (powers_of_g crs)) (convert_to_bigints E p)
      = in_g1 E (peval p tau)"
    using assms(3,5) by (intro msm_tower(1) [OF assms(1) refl]) (auto simp: structured_crs_def)
  moreover have "length p - 1 < length (powers_of_g crs)" "length p - 1 + 1 = length p"
    using assms(5) p by (cases p; simp)+
  ultimately show ?thesis
    using assms False by (simp add: commit_g1_def poly_degree_eq)
qed

lemma commit_g2_value:
  fixes E :: "('f::field, 'g1::ab_group_add, 'g2::ab_group_add, 'gt::ab_group_add, 'rng) ark"
  assumes "curve_ok E" "poly_ok E" "structured_crs E tau crs" "pwf p"
    and "length p \<le> length (powers_of_h crs)" "0 < length (powers_of_h crs)"
  shows "commit_g2 E crs p = Ok (in_g2 E (peval p tau))"
proof (cases "pzero p")
  case True
  then show ?thesis
    using assms msm_pzero(2) [OF assms(1) True]
    by (simp add: commit_g2_def poly_degree_eq peval_pzero in_group_arith(8))
next
  case False
  then have p: "p \<noteq> []" by auto
  have "g2_msm_bigint E (take (length p) (powers_of_h crs)) (convert_to_bigints E p)
      = in_g2 E (peval p tau)"
    using assms(3,5) by (intro msm_tower(2) [OF assms(1) refl]) (auto simp: structured_crs_def)
  moreover have "length p - 1 < length (powers_of_h crs)" "length p - 1 + 1 = length p"
    using assms(5) p by (cases p; simp)+
  ultimately show ?thesis
    using assms False by (simp add: commit_g2_def poly_degree_eq)
qed

lemma commit_g1_error:
  "commit_g1 E crs p = Err e \<longleftrightarrow>
     (\<exists>d. poly_degree E p = Some d \<and> length (powers_of_g crs) \<le> d \<and> e = InsufficientCRS d)"
  by (cases "poly_degree E p") (auto simp: commit_g1_def unwrap_def)

lemma commit_g2_error:
  "commit_g2 E crs p = Err e \<longleftrightarrow>
     (\<exists>d. poly_degree E p = Some d \<and> length (powers_of_h crs) \<le> d \<and> e = InsufficientCRS d)"
  by (cases "poly_degree E p") (auto simp: commit_g2_def unwrap_def)

section \<open>Opening proofs\<close>

lemma linear_divisor:
  fixes E :: "('f::field, 'g1, 'g2, 'gt, 'rng) ark" and z :: 'f
  assumes "poly_ok E"
  defines "d \<equiv> poly_from_coefficients E [0 - z, 1]"
  shows "pwf d" "\<not> pzero d" "length d \<le> 2" "peval d x = x - z"
proof -
  show ev: "peval d x = x - z" for x
    using poly_from_coefficients_laws(3) [OF assms(1), of "[0 - z, 1]" x] by (simp add: d_def)
  show "\<not> pzero d" using ev [of "z + 1"] peval_pzero [of d "z + 1"] by auto
qed (use poly_from_coefficients_laws(1,2) [OF assms(1), of "[0 - z, 1]"] in \<open>simp_all add: d_def\<close>)

lemma compute_opening_proof_value:
  fixes E :: "('f::field, 'g1::ab_group_add, 'g2::ab_group_add, 'gt::ab_group_add, 'rng) ark"
  assumes "curve_ok E" "poly_ok E" "structured_crs E tau crs" "pwf p"
    and "length p \<le> length (powers_of_g crs)" "0 < length (powers_of_g crs)"
  obtains q where "compute_opening_proof E crs p z = Ok (in_g1 E q)"
    "peval p tau - peval p z = q * (tau - z)"
proof -
  let ?v = "poly_from_coefficients E [peval p z]"
  let ?num = "poly_sub E p ?v"
  let ?d = "poly_from_coefficients E [0 - z, 1]"
  note v = poly_from_coefficients_laws [OF assms(2), of "[peval p z]"]
  note d = linear_divisor [OF assms(2), of z]
  note num = poly_laws(4-6) [OF assms(2,4) v(1)]
  obtain q where q: "poly_div E ?num ?d = Some q" "pwf q"
    "length q \<le> length ?num - (length ?d - 1)" "\<And>x. peval ?num x = peval q x * peval ?d x"
    by (rule poly_div_exact [OF assms(2) num(1) d(1,2), of "{z}"])
       (use d v num in auto)
  have "length q \<le> max (length p) 1" using q(3) num(2) v(2) by simp
  then have len: "length q \<le> length (powers_of_g crs)" using assms(5,6) by linarith
  have "compute_opening_proof E crs p z = commit_g1 E crs q"
    using q(1) by (simp add: compute_opening_proof_def poly_evaluate_eq [OF assms(2)])
  also have "\<dots> = Ok (in_g1 E (peval q tau))"
    by (rule commit_g1_value [OF assms(1-3) q(2) len assms(6)])
  finally have "compute_opening_proof E crs p z = Ok (in_g1 E (peval q tau))" .
  moreover have "peval p tau - peval p z = peval q tau * (tau - z)"
    using q(4) [of tau] num(3) [of tau] v(3) [of tau] d(4) [of tau] by simp
  ultimately show thesis by (rule that)
qed

end
