(* ===== verification/SigmaProtocol.thy ===== *)
theory SigmaProtocol
  imports Ark
begin

text \<open>
  The Schnorr identification equation \<open>s\<cdot>B = R + c\<cdot>P\<close>, used by three provers of the program: the
  proof of possession of a hinTS key, the contribution proof of the setup ceremony, and the key
  proof of the rotation committee. The locale states what those provers rely on, a scalar action on
  an abelian group; its lemmas are completeness and extraction of the exponent from two answers to
  different challenges.
\<close>

locale scalar_action =
  fixes act_ok :: bool
    and act :: "'g::ab_group_add \<Rightarrow> 'f::field \<Rightarrow> 'g"
  assumes act_add_scalar: "act_ok \<Longrightarrow> act P (a + b) = act P a + act P b"
    and act_add_point: "act_ok \<Longrightarrow> act (P + Q) a = act P a + act Q a"
    and act_act: "act_ok \<Longrightarrow> act (act P a) b = act P (a * b)"
    and act_one: "act_ok \<Longrightarrow> act P 1 = P"
begin

lemma act_zero: "act_ok \<Longrightarrow> act P 0 = 0"
  using act_add_scalar [of P 0 0] by simp

lemma act_zero_point: "act_ok \<Longrightarrow> act 0 a = 0"
  using act_add_point [of 0 0 a] by simp

lemma act_diff_scalar: "act_ok \<Longrightarrow> act P (a - b) = act P a - act P b"
  using act_add_scalar [of P "a - b" b] by simp

lemma act_diff_point: "act_ok \<Longrightarrow> act (P - Q) a = act P a - act Q a"
  using act_add_point [of "P - Q" Q a] by simp

lemma act_sum_point: "act_ok \<Longrightarrow> act (\<Sum>i\<in>A. f i) a = (\<Sum>i\<in>A. act (f i) a)"
  by (induction A rule: infinite_finite_induct) (simp_all add: act_zero_point act_add_point)

lemma act_sum_scalar: "act_ok \<Longrightarrow> act P (\<Sum>i\<in>A. f i) = (\<Sum>i\<in>A. act P (f i))"
  by (induction A rule: infinite_finite_induct) (simp_all add: act_zero act_add_scalar)

lemma response_complete: "act_ok \<Longrightarrow> act B (r + c * x) = act B r + act (act B x) c"
  by (simp add: act_add_scalar act_act mult.commute)

lemma extract_exponent:
  assumes "act_ok" "act B s = R + act P c" "act B s' = R + act P c'" "c \<noteq> c'"
  shows "P = act B ((s - s') / (c - c'))"
proof -
  have "act B (s - s') = act P (c - c')"
    using assms by (simp add: act_diff_scalar)
  then have "act (act B (s - s')) (1 / (c - c')) = act (act P (c - c')) (1 / (c - c'))"
    by simp
  then show ?thesis using assms by (simp add: act_act act_one)
qed

end

interpretation g1: scalar_action "group_ok E" "g1_mul E"
  for E :: "('f::field, 'g1::ab_group_add, 'g2::ab_group_add, 'gt::ab_group_add, 'rng) ark"
  by unfold_locales (simp_all add: group_laws)

interpretation g2: scalar_action "group_ok E" "g2_mul E"
  for E :: "('f::field, 'g1::ab_group_add, 'g2::ab_group_add, 'gt::ab_group_add, 'rng) ark"
  by unfold_locales (simp_all add: group_laws)

end
