(* ===== verification/HintsKeys.thy ===== *)
theory HintsKeys
  imports Kzg SigmaProtocol
begin

text \<open>
  Keys and hints of \<^verbatim>\<open>hints.rs\<close>: the key and signature structures, the proof of possession, key
  generation, hint generation and hint verification. The central result is that \<open>verify_hint\<close>
  accepts exactly the hints that \<open>hint_gen\<close> would produce for some secret key, up to the proof of
  possession and the degenerate identity points it refuses.
\<close>

section \<open>Data\<close>

record ('f, 'g1) proof_of_possession =
  pop_commitment :: 'g1
  pop_challenge :: 'f
  pop_response :: 'f

record ('f, 'g1) secret_key =
  secret :: 'f
  pop :: "('f, 'g1) proof_of_possession"

record ('f, 'g1, 'g2) extended_public_key =
  epk_i :: nat
  epk_n :: nat
  pk_i :: 'g1
  pok_i :: "('f, 'g1) proof_of_possession"
  sk_i_l_i_of_tau_com_1 :: 'g1
  sk_i_l_i_of_tau_com_2 :: 'g2
  qz_i_terms :: "'g1 list"
  qx_i_term :: 'g1
  qx_i_term_mul_tau :: 'g1

record ('f, 'g1) aggregation_key =
  ak_n :: nat
  ak_weights :: "'f list"
  ak_pks :: "'g1 list"
  ak_qz_terms :: "'g1 list"
  ak_qx_terms :: "'g1 list"
  ak_qx_mul_tau_terms :: "'g1 list"

record ('f, 'g1, 'g2) verification_key =
  vk_n :: nat
  vk_total_weight :: 'f
  vk_g_0 :: 'g1
  vk_h_0 :: 'g2
  vk_h_1 :: 'g2
  vk_l_n_minus_1_of_tau_com :: 'g1
  vk_w_of_tau_com :: 'g1
  vk_sk_of_tau_com :: 'g2
  vk_z_of_tau_com :: 'g2

definition RANDOM_SIZE :: nat where
  "RANDOM_SIZE = 32"

definition crs_supports :: "('g1, 'g2) universal_params \<Rightarrow> nat \<Rightarrow> bool" where
  "crs_supports crs n \<longleftrightarrow> n < length (powers_of_g crs) \<and> n < length (powers_of_h crs)"

definition aggregation_key_is_well_formed :: "('f, 'g1) aggregation_key \<Rightarrow> bool" where
  "aggregation_key_is_well_formed ak \<longleftrightarrow>
     length (ak_weights ak) = ak_n ak \<and>
     length (ak_pks ak) = ak_n ak \<and>
     length (ak_qz_terms ak) = ak_n ak \<and>
     length (ak_qx_terms ak) = ak_n ak \<and>
     length (ak_qx_mul_tau_terms ak) = ak_n ak"

section \<open>Proof of possession\<close>

definition POP_DST :: bytes where
  "POP_DST = ascii_bytes ''HINTS_SIG_BLS12381:FIAT_SHAMIR_POP''"

definition proof_of_knowledge_random_oracle ::
  "('f, 'g1, 'g2, 'gt, 'rng) ark \<Rightarrow> 'g1 \<Rightarrow> 'g1 \<Rightarrow> 'g1 \<Rightarrow> ('f, hints_error) result" where
  "proof_of_knowledge_random_oracle E g statement commitment =
     and_then (map_err EncodingError (ser_g1 E g)) (\<lambda>b1.
     and_then (map_err EncodingError (ser_g1 E statement)) (\<lambda>b2.
     and_then (map_err EncodingError (ser_g1 E commitment)) (\<lambda>b3.
     Ok (hash_to_field E POP_DST (b1 @ b2 @ b3)))))"

definition generate_proof_of_knowledge ::
  "('f::field, 'g1, 'g2, 'gt, 'rng) ark \<Rightarrow> 'f \<Rightarrow> bytes \<Rightarrow> (('f, 'g1) proof_of_possession, hints_error) result" where
  "generate_proof_of_knowledge E x seed =
     (let g = g1_generator E;
          statement = g1_mul E g x;
          r = fst (f_rand E (rng_from_seed E seed));
          commitment = g1_mul E g r
      in and_then (proof_of_knowledge_random_oracle E g statement commitment) (\<lambda>challenge.
           Ok \<lparr>pop_commitment = commitment, pop_challenge = challenge,
               pop_response = r + challenge * x\<rparr>))"

definition verify_proof_of_knowledge ::
  "('f::field, 'g1::ab_group_add, 'g2, 'gt, 'rng) ark \<Rightarrow> ('f, 'g1) proof_of_possession \<Rightarrow> 'g1
   \<Rightarrow> (bool, hints_error) result" where
  "verify_proof_of_knowledge E pok pubkey =
     (let g = g1_generator E
      in and_then (proof_of_knowledge_random_oracle E g pubkey (pop_commitment pok)) (\<lambda>challenge.
           let lhs = g1_mul E g (pop_response pok);
               rhs = pop_commitment pok + g1_mul E pubkey (pop_challenge pok)
           in Ok (lhs = rhs \<and> challenge = pop_challenge pok)))"

definition keygen ::
  "('f::field, 'g1, 'g2, 'gt, 'rng) ark \<Rightarrow> bytes \<Rightarrow> (('f, 'g1) secret_key, hints_error) result" where
  "keygen E seed =
     (let rng = rng_from_seed E seed;
          (secret_seed, rng1) = rng_fill_bytes E 32 rng;
          (proof_seed, rng2) = rng_fill_bytes E 32 rng1;
          sec = fst (f_rand E (rng_from_seed E secret_seed))
      in and_then (generate_proof_of_knowledge E sec proof_seed) (\<lambda>p.
           Ok \<lparr>secret = sec, pop = p\<rparr>))"

section \<open>Hints\<close>

definition lagrange_or_err ::
  "('f::field, 'g1, 'g2, 'gt, 'rng) ark \<Rightarrow> nat \<Rightarrow> nat \<Rightarrow> string \<Rightarrow> ('f dense_poly, hints_error) result" where
  "lagrange_or_err E n i msg =
     and_then (lagrange_poly E n i) (\<lambda>l. ok_or (CryptographyCatastrophe msg) l)"

definition lagrange_i_msg :: "nat \<Rightarrow> nat \<Rightarrow> string" where
  "lagrange_i_msg i n =
     ''Unable to compute Lagrange<n,i>(x) for i = '' @ fmt_usize i @ '', n = '' @ fmt_usize n"

definition lagrange_j_msg :: "nat \<Rightarrow> nat \<Rightarrow> string" where
  "lagrange_j_msg j n =
     ''Unable to compute Lagrange<n,j>(x) for j = '' @ fmt_usize j @ '', n = '' @ fmt_usize n"

definition invalid_index_msg :: "nat \<Rightarrow> nat \<Rightarrow> string" where
  "invalid_index_msg i n =
     ''Invalid index i = '' @ fmt_usize i @ '' greater than n = '' @ fmt_usize n"

text \<open>The quotient \<open>f\<close> of the loop bodies of \<open>hint_gen\<close> and \<open>verify_hint\<close> for position \<open>j\<close>.\<close>

definition cross_quotient ::
  "('f::field, 'g1, 'g2, 'gt, 'rng) ark \<Rightarrow> nat \<Rightarrow> nat \<Rightarrow> 'f dense_poly \<Rightarrow> nat
   \<Rightarrow> ('f dense_poly, hints_error) result" where
  "cross_quotient E n i l_i_of_x j =
     and_then
       (if i = j then Ok (poly_sub E (poly_mul E l_i_of_x l_i_of_x) l_i_of_x)
        else and_then (lagrange_or_err E n j (lagrange_j_msg j n)) (\<lambda>l_j_of_x.
               Ok (poly_mul E l_j_of_x l_i_of_x)))
       (\<lambda>num. unwrap (poly_div E num (compute_vanishing_poly n)))"

definition hint_gen ::
  "('f::field, 'g1, 'g2, 'gt, 'rng) ark \<Rightarrow> ('g1, 'g2) universal_params \<Rightarrow> nat \<Rightarrow> nat
   \<Rightarrow> ('f, 'g1) secret_key \<Rightarrow> (('f, 'g1, 'g2) extended_public_key, hints_error) result" where
  "hint_gen E crs n i sk_with_pop =
     (if \<not> is_n_valid n then Err (InvalidNetworkSize n)
      else if i \<ge> n then Err (InvalidInput (invalid_index_msg i n))
      else if \<not> crs_supports crs n then Err (InsufficientCRS n)
      else
        let sk = secret sk_with_pop in
        and_then (lagrange_or_err E n i (lagrange_i_msg i n)) (\<lambda>l_i_of_x.
        and_then (collect (\<lambda>j.
            and_then (cross_quotient E n i l_i_of_x j) (\<lambda>f.
              commit_g1 E crs (poly_eval_mult_c f sk))) [0..<n]) (\<lambda>qz_terms.
        let l_i_of_0 = poly_evaluate E l_i_of_x 0;
            l_i_of_0_poly = compute_constant_poly l_i_of_0;
            num = poly_sub E l_i_of_x l_i_of_0_poly;
            den = compute_x_monomial
        in
        and_then (unwrap (poly_div E num den)) (\<lambda>quot.
        let qx_term = poly_eval_mult_c quot sk;
            qx_term_mul_tau = poly_eval_mult_c num sk
        in
        and_then (commit_g1 E crs qx_term) (\<lambda>qx_term_com.
        and_then (commit_g1 E crs qx_term_mul_tau) (\<lambda>qx_term_mul_tau_com.
        and_then (commit_g1 E crs (compute_constant_poly sk)) (\<lambda>pk.
        let sk_times_l_i_of_x = poly_eval_mult_c l_i_of_x sk in
        and_then (commit_g1 E crs sk_times_l_i_of_x) (\<lambda>com_sk_l_i_g1.
        and_then (commit_g2 E crs sk_times_l_i_of_x) (\<lambda>com_sk_l_i_g2.
        Ok \<lparr>epk_i = i, epk_n = n, pk_i = pk, pok_i = pop sk_with_pop,
            sk_i_l_i_of_tau_com_1 = com_sk_l_i_g1,
            sk_i_l_i_of_tau_com_2 = com_sk_l_i_g2,
            qz_i_terms = qz_terms,
            qx_i_term = qx_term_com,
            qx_i_term_mul_tau = qx_term_mul_tau_com\<rparr>)))))))))"

text \<open>The macro \<^verbatim>\<open>check_or_return_false\<close>.\<close>

definition check_or_return_false ::
  "bool \<Rightarrow> (bool, 'e) result \<Rightarrow> (bool, 'e) result" where
  "check_or_return_false cond rest = (if \<not> cond then Ok False else rest)"

definition verify_hint ::
  "('f::field, 'g1::ab_group_add, 'g2::ab_group_add, 'gt::ab_group_add, 'rng) ark
   \<Rightarrow> ('g1, 'g2) universal_params \<Rightarrow> nat \<Rightarrow> nat \<Rightarrow> ('f, 'g1, 'g2) extended_public_key
   \<Rightarrow> (bool, hints_error) result" where
  "verify_hint E crs n i hint =
     (if \<not> is_n_valid n then Err (InvalidNetworkSize n)
      else if i \<ge> n then Err (InvalidInput (invalid_index_msg i n))
      else if \<not> crs_supports crs n then Err (InsufficientCRS n)
      else
        check_or_return_false (epk_i hint = i) (
        check_or_return_false (epk_n hint = n) (
        check_or_return_false (n = length (qz_i_terms hint)) (
        check_or_return_false (pk_i hint \<noteq> 0) (
        check_or_return_false (sk_i_l_i_of_tau_com_1 hint \<noteq> 0) (
        check_or_return_false (sk_i_l_i_of_tau_com_2 hint \<noteq> 0) (
        check_or_return_false (qx_i_term hint \<noteq> 0) (
        check_or_return_false (qx_i_term_mul_tau hint \<noteq> 0) (
        check_or_return_false (list_all (\<lambda>point. point \<noteq> 0) (qz_i_terms hint)) (
        and_then (verify_proof_of_knowledge E (pok_i hint) (pk_i hint)) (\<lambda>pok_ok.
        check_or_return_false pok_ok (
        and_then (lagrange_or_err E n i (lagrange_i_msg i n)) (\<lambda>l_i_of_x.
        and_then (commit_g2 E crs l_i_of_x) (\<lambda>l_i_of_tau_com.
        and_then (index (powers_of_h crs) 0) (\<lambda>h0.
        let rhs = pairing E (pk_i hint) l_i_of_tau_com in
        check_or_return_false (pairing E (sk_i_l_i_of_tau_com_1 hint) h0 = rhs) (
        and_then (index (powers_of_g crs) 0) (\<lambda>g0.
        check_or_return_false (pairing E g0 (sk_i_l_i_of_tau_com_2 hint) = rhs) (
        and_then (all_checks (\<lambda>j.
            and_then (cross_quotient E n i l_i_of_x j) (\<lambda>f.
            and_then (commit_g2 E crs f) (\<lambda>f_com.
            and_then (index (qz_i_terms hint) j) (\<lambda>qz_j.
            Ok (pairing E qz_j h0 = pairing E (pk_i hint) f_com))))) [0..<n]) (\<lambda>all_ok.
        check_or_return_false all_ok (
        let l_i_of_0 = poly_evaluate E l_i_of_x 0;
            num = poly_sub E l_i_of_x (compute_constant_poly l_i_of_0)
        in
        and_then (unwrap (poly_div E num compute_x_monomial)) (\<lambda>qx_term.
        and_then (commit_g2 E crs qx_term) (\<lambda>qx_term_com.
        check_or_return_false (pairing E (qx_i_term hint) h0 = pairing E (pk_i hint) qx_term_com) (
        and_then (commit_g2 E crs num) (\<lambda>qx_term_mul_tau_com.
        check_or_return_false
          (pairing E (qx_i_term_mul_tau hint) h0 = pairing E (pk_i hint) qx_term_mul_tau_com)
          (Ok True)))))))))))))))))))))))))"

section \<open>Proofs of possession are complete, and two answers reveal the key\<close>

lemma pok_oracle_total:
  "encoding_ok E \<Longrightarrow> \<exists>c. proof_of_knowledge_random_oracle E g st com = Ok c"
proof -
  assume "encoding_ok E"
  then have "\<exists>b. ser_g1 E P = Ok b" for P by (simp add: encoding_ok_def is_ok_iff)
  then obtain b1 b2 b3 where "ser_g1 E g = Ok b1" "ser_g1 E st = Ok b2" "ser_g1 E com = Ok b3"
    by metis
  then show ?thesis by (simp add: proof_of_knowledge_random_oracle_def)
qed

lemma generate_pok_total:
  "encoding_ok E \<Longrightarrow> \<exists>p. generate_proof_of_knowledge E x seed = Ok p"
  using pok_oracle_total [of E] by (simp add: generate_proof_of_knowledge_def Let_def)

lemma generated_pok_verifies:
  assumes "group_ok E" "generate_proof_of_knowledge E x seed = Ok p"
  shows "verify_proof_of_knowledge E p (g1_mul E (g1_generator E) x) = Ok True"
  using assms g1.response_complete [OF assms(1)]
  by (auto simp: generate_proof_of_knowledge_def verify_proof_of_knowledge_def Let_def)

lemma verify_pok_iff:
  "verify_proof_of_knowledge E p pk = Ok True \<longleftrightarrow>
     proof_of_knowledge_random_oracle E (g1_generator E) pk (pop_commitment p) = Ok (pop_challenge p) \<and>
     g1_mul E (g1_generator E) (pop_response p) = pop_commitment p + g1_mul E pk (pop_challenge p)"
  by (auto simp: verify_proof_of_knowledge_def Let_def)

lemma pok_extraction:
  assumes "group_ok E"
    and "verify_proof_of_knowledge E p pk = Ok True"
    and "verify_proof_of_knowledge (E\<lparr>hash_to_field := H\<rparr>) p' pk = Ok True"
    and "pop_commitment p = pop_commitment p'" "pop_challenge p \<noteq> pop_challenge p'"
  shows "pk = g1_mul E (g1_generator E)
      ((pop_response p - pop_response p') / (pop_challenge p - pop_challenge p'))"
  using assms by (intro g1.extract_exponent [where R = "pop_commitment p"]) (auto simp: verify_pok_iff)

section \<open>The setting of the scheme\<close>

text \<open>
  A valid network size, a structured reference string that is large enough for it, and an
  evaluation domain with generator \<open>w\<close>.
\<close>

definition hints_setting ::
  "('f::field, 'g1::ab_group_add, 'g2::ab_group_add, 'gt::ab_group_add, 'rng) ark
   \<Rightarrow> ('g1, 'g2) universal_params \<Rightarrow> 'f \<Rightarrow> nat \<Rightarrow> 'f \<Rightarrow> bool" where
  "hints_setting E crs tau n w \<longleftrightarrow>
     ark_ok E \<and> structured_crs E tau crs \<and> is_n_valid n \<and> crs_supports crs n \<and>
     domain_group_gen E n = Some w"

lemma hints_settingD:
  assumes "hints_setting E crs tau n w"
  shows "ark_ok E" "structured_crs E tau crs" "is_n_valid n" "crs_supports crs n"
    "domain_group_gen E n = Some w" "curve_ok E" "poly_ok E" "domain_ok E" "group_ok E"
    "0 < n" "1 < n" "n < length (powers_of_g crs)" "n < length (powers_of_h crs)"
  using assms
  by (auto simp: hints_setting_def ark_ok_def curve_ok_def crs_supports_def is_n_valid_def)

lemma hints_setting_root:
  fixes E :: "('f::field, 'g1::ab_group_add, 'g2::ab_group_add, 'gt::ab_group_add, 'rng) ark"
  assumes "hints_setting E crs tau n w"
  shows "primitive_root n w" and "(of_nat n :: 'f) \<noteq> 0"
  using domain_primitive hints_settingD [OF assms] valid_size_nonzero curve_okD(1) by blast+

lemma setting_commit:
  assumes "hints_setting E crs tau n w" "pwf p" "length p \<le> n + 1"
  shows "commit_g1 E crs p = Ok (in_g1 E (peval p tau))"
    and "commit_g2 E crs p = Ok (in_g2 E (peval p tau))"
  using hints_settingD [OF assms(1)] assms(2,3)
  by (auto intro!: commit_g1_value commit_g2_value)

lemma setting_towers:
  fixes E :: "('f::field, 'g1::ab_group_add, 'g2::ab_group_add, 'gt::ab_group_add, 'rng) ark"
  assumes "hints_setting E crs tau n w"
  shows "powers_of_g crs ! 0 = in_g1 E 1" "powers_of_g crs \<noteq> []"
    "powers_of_h crs ! 0 = in_g2 E 1" "powers_of_h crs \<noteq> []"
    "powers_of_h crs ! Suc 0 = in_g2 E tau" "Suc 0 < length (powers_of_h crs)"
proof -
  note st = hints_settingD [OF assms]
  note tow = st(2) [unfolded structured_crs_def]
  have "powers_of_g crs ! 0 = in_g1 E (tau ^ 0)" "powers_of_h crs ! 0 = in_g2 E (tau ^ 0)"
    "powers_of_h crs ! 1 = in_g2 E (tau ^ 1)"
    using tow st(11-13) by (meson less_trans zero_less_one)+
  then show "powers_of_g crs ! 0 = in_g1 E 1" "powers_of_h crs ! 0 = in_g2 E 1"
    "powers_of_h crs ! Suc 0 = in_g2 E tau" by simp_all
qed (use hints_settingD(11-13) [OF assms] in auto)

lemma setting_lagrange:
  assumes "hints_setting E crs tau n w" "i < n"
  obtains L where "\<And>msg. lagrange_or_err E n i msg = Ok L" "pwf L" "length L \<le> n"
    "\<And>x. peval L x = lagrange n w i x"
proof -
  obtain L where L: "(lagrange_poly E n i :: (_, hints_error) result) = Ok (Some L)"
    "pwf L" "length L \<le> n" "\<And>x. peval L x = lagrange n w i x"
    using lagrange_poly_correct hints_settingD(1,3,5) [OF assms(1)] assms(2) by metis
  show thesis
    by (rule that [OF _ L(2-4)]) (simp add: lagrange_or_err_def L(1))
qed

text \<open>The quotients by \<open>Z(X) = X\<^sup>n - 1\<close> are exact.\<close>

lemma cross_quotient_correct:
  assumes "hints_setting E crs tau n w" "i < n" "j < n"
    and L: "pwf L" "length L \<le> n" "\<And>x. peval L x = lagrange n w i x"
  obtains f where "cross_quotient E n i L j = Ok f" "pwf f" "length f \<le> n"
    "\<And>x. peval f x * (x ^ n - 1) =
       lagrange n w i x * (lagrange n w j x - (if i = j then 1 else 0))"
proof -
  note st = hints_settingD [OF assms(1)] and root = hints_setting_root [OF assms(1)]
  obtain Lj where Lj: "\<And>msg. lagrange_or_err E n j msg = Ok Lj" "pwf Lj" "length Lj \<le> n"
    "\<And>x. peval Lj x = lagrange n w j x"
    using setting_lagrange [OF assms(1,3)] by blast
  define num where "num = (if i = j then poly_sub E (poly_mul E L L) L else poly_mul E Lj L)"
  have num: "pwf num" "length num \<le> 2 * n - 1"
    "\<And>x. peval num x = lagrange n w i x * (lagrange n w j x - (if i = j then 1 else 0))"
  proof -
    note mul = poly_laws(7-9) [OF st(7) L(1) L(1)]
    note mul' = poly_laws(7-9) [OF st(7) Lj(2) L(1)]
    note sub = poly_laws(4-6) [OF st(7) mul(1) L(1)]
    show "pwf num" using sub(1) mul'(1) by (simp add: num_def)
    have "length (poly_sub E (poly_mul E L L) L) \<le> 2 * n - 1"
      using sub(2) mul(2) L(2) st(11) by linarith
    moreover have "length (poly_mul E Lj L) \<le> 2 * n - 1"
      using mul'(2) L(2) Lj(3) st(11) by linarith
    ultimately show "length num \<le> 2 * n - 1" by (simp add: num_def)
    show "peval num x = lagrange n w i x * (lagrange n w j x - (if i = j then 1 else 0))" for x
      using sub(3) [of x] mul(3) [of x] mul'(3) [of x] L(3) Lj(4)
      by (cases "i = j") (simp_all add: num_def algebra_simps)
  qed
  obtain f where f: "poly_div E num (compute_vanishing_poly n) = Some f" "pwf f"
    "length f \<le> length num - (length (compute_vanishing_poly n :: 'a list) - 1)"
    "\<And>x. peval num x = peval f x * peval (compute_vanishing_poly n) x"
  proof (rule poly_div_exact [OF st(7) num(1) vanishing_poly(2,3) [OF st(10)], of "domain_points n w"])
    fix x assume "x \<in> domain_points n w"
    then obtain k where k: "k < n" "x = w ^ k" by (auto simp: domain_points_def)
    then show "peval num x = 0"
      using lagrange_at_point [OF root assms(2) k(1)] lagrange_at_point [OF root assms(3) k(1)]
      by (simp add: num(3))
    show "peval (compute_vanishing_poly n) x = 0"
      using k root(1) \<open>x \<in> _\<close> by (simp add: vanishing_poly(1) [OF st(10)] domain_points_root)
  qed (use st(10) root(1) in \<open>simp_all add: vanishing_poly(4) card_domain_points\<close>)
  show thesis
  proof (rule that)
    show "cross_quotient E n i L j = Ok f"
      using f(1) Lj(1) by (auto simp: cross_quotient_def num_def)
    show "length f \<le> n" using f(3) num(2) st(10) by (simp add: vanishing_poly(4))
    show "peval f x * (x ^ n - 1) =
        lagrange n w i x * (lagrange n w j x - (if i = j then 1 else 0))" for x
      using f(4) [of x] num(3) [of x] st(10) by (simp add: vanishing_poly(1))
  qed (rule f(2))
qed

lemma x_quotient_correct:
  assumes "hints_setting E crs tau n w" "i < n"
    and L: "pwf L" "length L \<le> n" "\<And>x. peval L x = lagrange n w i x"
  defines "num \<equiv> poly_sub E L (compute_constant_poly (poly_evaluate E L 0))"
  obtains q where "poly_div E num compute_x_monomial = Some q" "pwf q" "length q \<le> n"
    "\<And>x. peval q x * x = lagrange n w i x - 1 / of_nat n"
    "pwf num" "length num \<le> n" "\<And>x. peval num x = lagrange n w i x - 1 / of_nat n"
proof -
  note st = hints_settingD [OF assms(1)] and root = hints_setting_root [OF assms(1)]
  note sub = poly_laws(4-6) [OF st(7) L(1) pwf_constant]
  have num: "pwf num" "length num \<le> n" "\<And>x. peval num x = lagrange n w i x - 1 / of_nat n"
    using sub L st(11) lagrange_at_zero [OF root(1), of i]
    by (auto simp: num_def constant_poly_eval poly_evaluate_eq [OF st(7)] intro: order_trans [OF sub(2)])
  obtain q where q: "poly_div E num compute_x_monomial = Some q" "pwf q"
    "length q \<le> length num - (length (compute_x_monomial :: 'a list) - 1)"
    "\<And>x. peval num x = peval q x * peval compute_x_monomial x"
    by (rule poly_div_exact [OF st(7) num(1) x_monomial(2,3), of "{0}"])
       (use num(3) lagrange_at_zero [OF root(1), of i] in \<open>simp_all add: x_monomial\<close>)
  show thesis
    by (rule that [OF q(1,2) _ _ num])
       (use q(3,4) num in \<open>auto simp: x_monomial\<close>)
qed


section \<open>The specification of a hint\<close>

text \<open>
  The values at \<open>\<tau>\<close> of the two quotients, \<open>(L\<^sub>i L\<^sub>j - \<delta>\<^sub>i\<^sub>j L\<^sub>i) / Z\<close> and
  \<open>(L\<^sub>i - L\<^sub>i(0)) / X\<close>. They are defined by the quotient polynomials and not by a division in the
  field, so they make sense for a trapdoor that is zero or lies in the domain; \<open>cross_value_eq\<close> and
  \<open>shift_value_eq\<close> give the equations that they satisfy, without reference to a division.
\<close>

definition cross_value ::
  "('f::field, 'g1, 'g2, 'gt, 'rng) ark \<Rightarrow> nat \<Rightarrow> 'f \<Rightarrow> nat \<Rightarrow> nat \<Rightarrow> 'f" where
  "cross_value E n tau i j =
     (case and_then (lagrange_or_err E n i []) (\<lambda>l. cross_quotient E n i l j) of
        Ok f \<Rightarrow> peval f tau | _ \<Rightarrow> 0)"

definition shift_value ::
  "('f::field, 'g1, 'g2, 'gt, 'rng) ark \<Rightarrow> nat \<Rightarrow> 'f \<Rightarrow> nat \<Rightarrow> 'f" where
  "shift_value E n tau i =
     (case and_then (lagrange_or_err E n i []) (\<lambda>l.
        unwrap (poly_div E (poly_sub E l (compute_constant_poly (poly_evaluate E l 0)))
          compute_x_monomial)) of
        Ok q \<Rightarrow> peval q tau | _ \<Rightarrow> 0)"

text \<open>The hint of secret key \<open>s\<close> at position \<open>i\<close>, in the exponent.\<close>

definition hint_of ::
  "('f::field, 'g1, 'g2, 'gt, 'rng) ark \<Rightarrow> 'f \<Rightarrow> 'f \<Rightarrow> nat \<Rightarrow> nat \<Rightarrow> 'f
   \<Rightarrow> ('f, 'g1) proof_of_possession \<Rightarrow> ('f, 'g1, 'g2) extended_public_key" where
  "hint_of E w tau n i s pok =
     \<lparr>epk_i = i, epk_n = n, pk_i = in_g1 E s, pok_i = pok,
      sk_i_l_i_of_tau_com_1 = in_g1 E (s * lagrange n w i tau),
      sk_i_l_i_of_tau_com_2 = in_g2 E (s * lagrange n w i tau),
      qz_i_terms = map (\<lambda>j. in_g1 E (s * cross_value E n tau i j)) [0..<n],
      qx_i_term = in_g1 E (s * shift_value E n tau i),
      qx_i_term_mul_tau = in_g1 E (s * (lagrange n w i tau - 1 / of_nat n))\<rparr>"

text \<open>None of the points of a hint is the identity.\<close>

definition nondegenerate ::
  "('f::field, 'g1, 'g2, 'gt, 'rng) ark \<Rightarrow> 'f \<Rightarrow> 'f \<Rightarrow> nat \<Rightarrow> nat \<Rightarrow> 'f \<Rightarrow> bool" where
  "nondegenerate E w tau n i s \<longleftrightarrow>
     s \<noteq> 0 \<and> lagrange n w i tau \<noteq> 0 \<and> shift_value E n tau i \<noteq> 0 \<and>
     lagrange n w i tau \<noteq> 1 / of_nat n \<and> (\<forall>j < n. cross_value E n tau i j \<noteq> 0)"

text \<open>Everything the loops of \<open>hint_gen\<close> and \<open>verify_hint\<close> compute for one position.\<close>

lemma hint_polys:
  assumes "hints_setting E crs tau n w" "i < n"
  obtains L num q where
    "\<And>msg. lagrange_or_err E n i msg = Ok L" "pwf L" "length L \<le> n"
    "peval L tau = lagrange n w i tau"
    "num = poly_sub E L (compute_constant_poly (poly_evaluate E L 0))"
    "pwf num" "length num \<le> n" "peval num tau = lagrange n w i tau - 1 / of_nat n"
    "poly_div E num compute_x_monomial = Some q" "pwf q" "length q \<le> n"
    "peval q tau = shift_value E n tau i"
    "peval q tau * tau = lagrange n w i tau - 1 / of_nat n"
    "\<And>j. j < n \<Longrightarrow> \<exists>f. cross_quotient E n i L j = Ok f \<and> pwf f \<and> length f \<le> n \<and>
       peval f tau = cross_value E n tau i j \<and>
       peval f tau * (tau ^ n - 1) =
         lagrange n w i tau * (lagrange n w j tau - (if i = j then 1 else 0))"
proof -
  obtain L where L: "\<And>msg. lagrange_or_err E n i msg = Ok L" "pwf L" "length L \<le> n"
    "\<And>x. peval L x = lagrange n w i x"
    using setting_lagrange [OF assms] by blast
  obtain q where q: "poly_div E (poly_sub E L (compute_constant_poly (poly_evaluate E L 0))) compute_x_monomial = Some q"
    "pwf q" "length q \<le> n" "\<And>x. peval q x * x = lagrange n w i x - 1 / of_nat n"
    and num: "pwf (poly_sub E L (compute_constant_poly (poly_evaluate E L 0)))"
    "length (poly_sub E L (compute_constant_poly (poly_evaluate E L 0))) \<le> n"
    "\<And>x. peval (poly_sub E L (compute_constant_poly (poly_evaluate E L 0))) x = lagrange n w i x - 1 / of_nat n"
    using x_quotient_correct [OF assms L(2-4)] by blast
  have cross: "\<exists>f. cross_quotient E n i L j = Ok f \<and> pwf f \<and> length f \<le> n \<and>
       peval f tau = cross_value E n tau i j \<and>
       peval f tau * (tau ^ n - 1) =
         lagrange n w i tau * (lagrange n w j tau - (if i = j then 1 else 0))" if jn: "j < n" for j
  proof -
    obtain f where "cross_quotient E n i L j = Ok f" "pwf f" "length f \<le> n"
      "\<And>x. peval f x * (x ^ n - 1) = lagrange n w i x * (lagrange n w j x - (if i = j then 1 else 0))"
      using cross_quotient_correct [OF assms jn L(2-4)] by blast
    then show ?thesis by (simp add: cross_value_def L(1))
  qed
  show thesis
    by (rule that [OF L(1-4) refl num q(1-3) _ q(4) cross])
       (simp add: shift_value_def L(1) q(1))
qed

lemma cross_value_eq:
  assumes "hints_setting E crs tau n w" "i < n" "j < n"
  shows "cross_value E n tau i j * (tau ^ n - 1)
    = lagrange n w i tau * (lagrange n w j tau - (if i = j then 1 else 0))"
  using hint_polys [OF assms(1,2)] assms(3) by metis

lemma shift_value_eq:
  assumes "hints_setting E crs tau n w" "i < n"
  shows "shift_value E n tau i * tau = lagrange n w i tau - 1 / of_nat n"
  using hint_polys [OF assms] by metis

section \<open>Hint generation\<close>

lemma hint_gen_eq:
  assumes "hints_setting E crs tau n w" "i < n"
  shows "hint_gen E crs n i sk = Ok (hint_of E w tau n i (secret sk) (pop sk))"
proof -
  note st = hints_settingD [OF assms(1)] and com = setting_commit [OF assms(1)]
  obtain L num q where L: "\<And>msg. lagrange_or_err E n i msg = Ok L" "pwf L" "length L \<le> n"
    "peval L tau = lagrange n w i tau"
    and num: "num = poly_sub E L (compute_constant_poly (poly_evaluate E L 0))"
    "pwf num" "length num \<le> n" "peval num tau = lagrange n w i tau - 1 / of_nat n"
    and q: "poly_div E num compute_x_monomial = Some q" "pwf q" "length q \<le> n"
    "peval q tau = shift_value E n tau i"
    and f: "\<And>j. j < n \<Longrightarrow> \<exists>f. cross_quotient E n i L j = Ok f \<and> pwf f \<and> length f \<le> n \<and>
       peval f tau = cross_value E n tau i j \<and>
       peval f tau * (tau ^ n - 1) =
         lagrange n w i tau * (lagrange n w j tau - (if i = j then 1 else 0))"
    using hint_polys [OF assms] by metis
  have scaled: "commit_g1 E crs (poly_eval_mult_c p c) = Ok (in_g1 E (c * peval p tau))"
    "commit_g2 E crs (poly_eval_mult_c p c) = Ok (in_g2 E (c * peval p tau))"
    if "pwf p" "length p \<le> n" for p c
    using com [of "poly_eval_mult_c p c"] that by (simp_all add: poly_eval_mult_c_eval)
  have cst: "commit_g1 E crs (compute_constant_poly c) = Ok (in_g1 E c)" for c
    using com(1) [of "compute_constant_poly c"] by (simp add: constant_poly_eval)
  have "collect (\<lambda>j. and_then (cross_quotient E n i L j) (\<lambda>f. commit_g1 E crs (poly_eval_mult_c f (secret sk)))) [0..<n]
      = Ok (map (\<lambda>j. in_g1 E (secret sk * cross_value E n tau i j)) [0..<n])"
  proof (rule collect_map)
    fix j assume "j \<in> set [0..<n]"
    then obtain p where "cross_quotient E n i L j = Ok p" "pwf p" "length p \<le> n"
      "peval p tau = cross_value E n tau i j" using f [of j] by auto
    then show "and_then (cross_quotient E n i L j) (\<lambda>f. commit_g1 E crs (poly_eval_mult_c f (secret sk)))
        = Ok (in_g1 E (secret sk * cross_value E n tau i j))"
      by (simp add: scaled)
  qed
  then show ?thesis
    unfolding hint_gen_def hint_of_def
    using st(3,4) assms(2) L q num(2-4)
    by (simp add: scaled cst Let_def flip: num(1))
qed

text \<open>The same with the quotients given by the equations that define them, at every point.\<close>

lemma hint_gen_quotients:
  fixes E :: "('f::field, 'g1::ab_group_add, 'g2::ab_group_add, 'gt::ab_group_add, 'rng) ark"
  assumes "hints_setting E crs tau n w" "i < n"
  shows "\<exists>f q. hint_gen E crs n i sk = Ok
      \<lparr>epk_i = i, epk_n = n, pk_i = in_g1 E (secret sk), pok_i = pop sk,
       sk_i_l_i_of_tau_com_1 = in_g1 E (secret sk * lagrange n w i tau),
       sk_i_l_i_of_tau_com_2 = in_g2 E (secret sk * lagrange n w i tau),
       qz_i_terms = map (\<lambda>j. in_g1 E (secret sk * peval (f j) tau)) [0..<n],
       qx_i_term = in_g1 E (secret sk * peval q tau),
       qx_i_term_mul_tau = in_g1 E (secret sk * (lagrange n w i tau - 1 / of_nat n))\<rparr> \<and>
    (\<forall>j < n. \<forall>x. peval (f j) x * (x ^ n - 1) = lagrange n w i x * lagrange n w j x - (if j = i then lagrange n w i x else 0)) \<and>
    (\<forall>x. peval q x * x = lagrange n w i x - lagrange n w i 0) \<and>
    (\<forall>j < n. length (f j) \<le> n) \<and> length q \<le> n"
proof -
  note root = hints_setting_root [OF assms(1)]
  obtain L where L: "\<And>msg. lagrange_or_err E n i msg = Ok L" "pwf L" "length L \<le> n" "\<And>x. peval L x = lagrange n w i x"
    using setting_lagrange [OF assms] by blast
  obtain q where q: "poly_div E (poly_sub E L (compute_constant_poly (poly_evaluate E L 0))) compute_x_monomial = Some q"
    "length q \<le> n" "\<And>x. peval q x * x = lagrange n w i x - 1 / of_nat n"
    using x_quotient_correct [OF assms L(2-4)] by blast
  have "\<exists>f. cross_quotient E n i L j = Ok f \<and> length f \<le> n \<and>
      (\<forall>x. peval f x * (x ^ n - 1) = lagrange n w i x * (lagrange n w j x - (if i = j then 1 else 0)))" if "j < n" for j
    using cross_quotient_correct [OF assms that L(2-4)] by blast
  then obtain f where f: "\<And>j. j < n \<Longrightarrow> cross_quotient E n i L j = Ok (f j) \<and> length (f j) \<le> n \<and>
      (\<forall>x. peval (f j) x * (x ^ n - 1) = lagrange n w i x * (lagrange n w j x - (if i = j then 1 else 0)))"
    by metis
  have "hint_gen E crs n i sk = Ok (hint_of E w tau n i (secret sk) (pop sk))" by (rule hint_gen_eq [OF assms])
  moreover have "cross_value E n tau i j = peval (f j) tau" if "j < n" for j using f [OF that] by (simp add: cross_value_def L(1))
  moreover have "shift_value E n tau i = peval q tau" by (simp add: shift_value_def L(1) q(1))
  ultimately show ?thesis
    using f q(2,3) lagrange_at_zero [OF root(1), of i]
    by (intro exI [of _ f] exI [of _ q]) (auto simp: hint_of_def right_diff_distrib)
qed

lemma hint_gen_rejects:
  "\<not> is_n_valid n \<Longrightarrow> hint_gen E crs n i sk = Err (InvalidNetworkSize n)"
  "is_n_valid n \<Longrightarrow> n \<le> i \<Longrightarrow> hint_gen E crs n i sk = Err (InvalidInput (invalid_index_msg i n))"
  "is_n_valid n \<Longrightarrow> i < n \<Longrightarrow> \<not> crs_supports crs n \<Longrightarrow> hint_gen E crs n i sk = Err (InsufficientCRS n)"
  by (simp_all add: hint_gen_def)

section \<open>Hint verification\<close>

lemma check_simps [simp]:
  "check_or_return_false cond rest = Ok True \<longleftrightarrow> cond \<and> rest = Ok True"
  "check_or_return_false True rest = rest"
  "(\<exists>b. r = Ok b \<and> b \<and> P) \<longleftrightarrow> r = Ok True \<and> P"
  by (auto simp: check_or_return_false_def)

lemma is_ok_check:
  "is_ok (check_or_return_false cond rest) \<longleftrightarrow> (cond \<longrightarrow> is_ok rest)"
  "is_ok (and_then r k) \<longleftrightarrow> (\<exists>v. r = Ok v \<and> is_ok (k v))"
  by (simp add: check_or_return_false_def) (auto simp: is_ok_iff)

lemma check_not_error:
  "check_or_return_false cond rest = Err e \<longleftrightarrow> cond \<and> rest = Err e"
  "check_or_return_false cond rest = Panicked \<longleftrightarrow> cond \<and> rest = Panicked"
  by (simp_all add: check_or_return_false_def)


lemma pairing_eq_g1:
  "curve_ok E \<Longrightarrow> pairing E P (in_g2 E 1) = pairing E (in_g1 E s) (in_g2 E c) \<longleftrightarrow> P = in_g1 E (s * c)"
  using ex_in_g1 [of E P] by (auto simp: exponent_simps)

lemma pairing_eq_g2:
  "curve_ok E \<Longrightarrow> pairing E (in_g1 E 1) Q = pairing E (in_g1 E s) (in_g2 E c) \<longleftrightarrow> Q = in_g2 E (s * c)"
  using ex_in_g2 [of E Q] by (auto simp: exponent_simps)

text \<open>The pairing equations of \<open>verify_hint\<close>, for a public key \<open>[s]\<^sub>1\<close>, determine every point.\<close>

lemma verify_hint_conditions:
  assumes "hints_setting E crs tau n w" "i < n" "pk_i hint = in_g1 E s"
  shows "verify_hint E crs n i hint = Ok True \<longleftrightarrow>
    epk_i hint = i \<and> epk_n hint = n \<and> length (qz_i_terms hint) = n \<and>
    pk_i hint \<noteq> 0 \<and> sk_i_l_i_of_tau_com_1 hint \<noteq> 0 \<and> sk_i_l_i_of_tau_com_2 hint \<noteq> 0 \<and>
    qx_i_term hint \<noteq> 0 \<and> qx_i_term_mul_tau hint \<noteq> 0 \<and>
    list_all (\<lambda>point. point \<noteq> 0) (qz_i_terms hint) \<and>
    verify_proof_of_knowledge E (pok_i hint) (pk_i hint) = Ok True \<and>
    sk_i_l_i_of_tau_com_1 hint = in_g1 E (s * lagrange n w i tau) \<and>
    sk_i_l_i_of_tau_com_2 hint = in_g2 E (s * lagrange n w i tau) \<and>
    (\<forall>j < n. qz_i_terms hint ! j = in_g1 E (s * cross_value E n tau i j)) \<and>
    qx_i_term hint = in_g1 E (s * shift_value E n tau i) \<and>
    qx_i_term_mul_tau hint = in_g1 E (s * (lagrange n w i tau - 1 / of_nat n))"
proof -
  note st = hints_settingD [OF assms(1)] and com = setting_commit [OF assms(1)]
  obtain L num q where L: "\<And>msg. lagrange_or_err E n i msg = Ok L" "pwf L" "length L \<le> n"
    "peval L tau = lagrange n w i tau"
    and num: "num = poly_sub E L (compute_constant_poly (poly_evaluate E L 0))"
    "pwf num" "length num \<le> n" "peval num tau = lagrange n w i tau - 1 / of_nat n"
    and q: "poly_div E num compute_x_monomial = Some q" "pwf q" "length q \<le> n"
    "peval q tau = shift_value E n tau i"
    and f: "\<And>j. j < n \<Longrightarrow> \<exists>f. cross_quotient E n i L j = Ok f \<and> pwf f \<and> length f \<le> n \<and>
       peval f tau = cross_value E n tau i j \<and>
       peval f tau * (tau ^ n - 1) =
         lagrange n w i tau * (lagrange n w j tau - (if i = j then 1 else 0))"
    using hint_polys [OF assms(1,2)] by metis
  have coms: "commit_g2 E crs L = Ok (in_g2 E (lagrange n w i tau))"
    "commit_g2 E crs q = Ok (in_g2 E (shift_value E n tau i))"
    "commit_g2 E crs num = Ok (in_g2 E (lagrange n w i tau - 1 / of_nat n))"
    using com(2) L(2-4) q(2-4) num(2-4) by simp_all
  have loop: "all_checks (\<lambda>j. and_then (cross_quotient E n i L j) (\<lambda>f. and_then (commit_g2 E crs f) (\<lambda>f_com.
       and_then (index (qz_i_terms hint) j) (\<lambda>qz_j.
         Ok (pairing E qz_j (in_g2 E 1) = pairing E (in_g1 E s) f_com))))) [0..<n] = Ok True
     \<longleftrightarrow> (\<forall>j < n. qz_i_terms hint ! j = in_g1 E (s * cross_value E n tau i j))"
    if len: "length (qz_i_terms hint) = n"
  proof -
    have "and_then (cross_quotient E n i L j) (\<lambda>f. and_then (commit_g2 E crs f) (\<lambda>f_com.
       and_then (index (qz_i_terms hint) j) (\<lambda>qz_j.
         Ok (pairing E qz_j (in_g2 E 1) = pairing E (in_g1 E s) f_com)))) = Ok True
      \<longleftrightarrow> qz_i_terms hint ! j = in_g1 E (s * cross_value E n tau i j)" if j: "j < n" for j
    proof -
      obtain p where p: "cross_quotient E n i L j = Ok p" "pwf p" "length p \<le> n"
        "peval p tau = cross_value E n tau i j" using f [OF j] by auto
      then have "commit_g2 E crs p = Ok (in_g2 E (cross_value E n tau i j))"
        using com(2) [of p] by simp
      then show ?thesis using p(1) j len pairing_eq_g1 [OF st(6)] by simp
    qed
    then show ?thesis unfolding all_checks_eq_True by auto
  qed
  show ?thesis
  proof (cases "length (qz_i_terms hint) = n")
    case True
    show ?thesis
      unfolding verify_hint_def
      using st(3,4) assms(2,3) L(1) q(1) coms setting_towers(1-4) [OF assms(1)] loop [OF True] True
      by (simp add: Let_def pairing_eq_g1 [OF st(6)] pairing_eq_g2 [OF st(6)] flip: num(1))
  next
    case False
    then show ?thesis unfolding verify_hint_def using st(3,4) assms(2) by auto
  qed
qed

lemma hint_of_eq:
  "hint = hint_of E w tau n i s (pok_i hint) \<longleftrightarrow>
    epk_i hint = i \<and> epk_n hint = n \<and> pk_i hint = in_g1 E s \<and>
    qz_i_terms hint = map (\<lambda>j. in_g1 E (s * cross_value E n tau i j)) [0..<n] \<and>
    sk_i_l_i_of_tau_com_1 hint = in_g1 E (s * lagrange n w i tau) \<and>
    sk_i_l_i_of_tau_com_2 hint = in_g2 E (s * lagrange n w i tau) \<and>
    qx_i_term hint = in_g1 E (s * shift_value E n tau i) \<and>
    qx_i_term_mul_tau hint = in_g1 E (s * (lagrange n w i tau - 1 / of_nat n))"
proof -
  have "h = h' \<longleftrightarrow> epk_i h = epk_i h' \<and> epk_n h = epk_n h' \<and> pk_i h = pk_i h' \<and>
    pok_i h = pok_i h' \<and> sk_i_l_i_of_tau_com_1 h = sk_i_l_i_of_tau_com_1 h' \<and>
    sk_i_l_i_of_tau_com_2 h = sk_i_l_i_of_tau_com_2 h' \<and> qz_i_terms h = qz_i_terms h' \<and>
    qx_i_term h = qx_i_term h' \<and> qx_i_term_mul_tau h = qx_i_term_mul_tau h'"
    for h h' :: "('a, 'b, 'c) extended_public_key"
    by auto
  from this [of hint "hint_of E w tau n i s (pok_i hint)"] show ?thesis
    by (simp add: hint_of_def) blast
qed

lemma verify_hint_iff:
  assumes "hints_setting E crs tau n w" "i < n"
  shows "verify_hint E crs n i hint = Ok True \<longleftrightarrow>
    (\<exists>s. hint = hint_of E w tau n i s (pok_i hint) \<and> nondegenerate E w tau n i s \<and>
       verify_proof_of_knowledge E (pok_i hint) (in_g1 E s) = Ok True)"
proof -
  note cur = hints_settingD(6) [OF assms(1)]
  obtain s where s: "pk_i hint = in_g1 E s" using ex_in_g1 [OF cur] by blast
  have qz: "qz_i_terms hint = map (\<lambda>j. in_g1 E (s * cross_value E n tau i j)) [0..<n] \<longleftrightarrow>
    length (qz_i_terms hint) = n \<and> (\<forall>j < n. qz_i_terms hint ! j = in_g1 E (s * cross_value E n tau i j))"
    by (simp add: list_eq_iff_nth_eq cong: conj_cong)
  have eq: "hint = hint_of E w tau n i s (pok_i hint) \<longleftrightarrow>
    epk_i hint = i \<and> epk_n hint = n \<and>
    qz_i_terms hint = map (\<lambda>j. in_g1 E (s * cross_value E n tau i j)) [0..<n] \<and>
    sk_i_l_i_of_tau_com_1 hint = in_g1 E (s * lagrange n w i tau) \<and>
    sk_i_l_i_of_tau_com_2 hint = in_g2 E (s * lagrange n w i tau) \<and>
    qx_i_term hint = in_g1 E (s * shift_value E n tau i) \<and>
    qx_i_term_mul_tau hint = in_g1 E (s * (lagrange n w i tau - 1 / of_nat n))"
    using s unfolding hint_of_eq by blast
  have "verify_hint E crs n i hint = Ok True \<longleftrightarrow>
    hint = hint_of E w tau n i s (pok_i hint) \<and> nondegenerate E w tau n i s \<and>
       verify_proof_of_knowledge E (pok_i hint) (in_g1 E s) = Ok True"
    unfolding verify_hint_conditions [OF assms s] eq qz nondegenerate_def
    using s by (auto simp: in_group_zero_iff [OF cur] list_all_length)
  moreover have "s' = s" if "hint = hint_of E w tau n i s' (pok_i hint)" for s'
    using that s in_g1_inj [OF cur] by (metis extended_public_key.select_convs(3) hint_of_def)
  ultimately show ?thesis by metis
qed

text \<open>With well-behaved encodings \<open>verify_hint\<close> neither fails nor panics.\<close>

lemma verify_hint_total:
  assumes "hints_setting E crs tau n w" "i < n" "encoding_ok E"
  shows "\<exists>b. verify_hint E crs n i hint = Ok b"
proof -
  note st = hints_settingD [OF assms(1)] and com = setting_commit [OF assms(1)]
  obtain L num q where L: "\<And>msg. lagrange_or_err E n i msg = Ok L" "pwf L" "length L \<le> n"
    and num: "num = poly_sub E L (compute_constant_poly (poly_evaluate E L 0))"
    "pwf num" "length num \<le> n"
    and q: "poly_div E num compute_x_monomial = Some q" "pwf q" "length q \<le> n"
    and f: "\<And>j. j < n \<Longrightarrow> \<exists>f. cross_quotient E n i L j = Ok f \<and> pwf f \<and> length f \<le> n"
    using hint_polys [OF assms(1,2)] by metis
  obtain b where "verify_proof_of_knowledge E (pok_i hint) (pk_i hint) = Ok b"
    using pok_oracle_total [OF assms(3), of "g1_generator E" "pk_i hint" "pop_commitment (pok_i hint)"]
    by (force simp: verify_proof_of_knowledge_def Let_def)
  moreover have "\<exists>b. all_checks (\<lambda>j. and_then (cross_quotient E n i L j) (\<lambda>f. and_then (commit_g2 E crs f) (\<lambda>f_com.
       and_then (index (qz_i_terms hint) j) (\<lambda>qz_j.
         Ok (pairing E qz_j (in_g2 E 1) = pairing E (pk_i hint) f_com))))) [0..<n] = Ok b"
    if "n = length (qz_i_terms hint)"
  proof (rule all_checks_total)
    fix j assume "j \<in> set [0..<n]"
    then obtain p where "cross_quotient E n i L j = Ok p" "pwf p" "length p \<le> n" "j < n"
      using f [of j] by auto
    then show "\<exists>b. and_then (cross_quotient E n i L j) (\<lambda>f. and_then (commit_g2 E crs f) (\<lambda>f_com.
       and_then (index (qz_i_terms hint) j) (\<lambda>qz_j.
         Ok (pairing E qz_j (in_g2 E 1) = pairing E (pk_i hint) f_com)))) = Ok b"
      using com(2) [of p] that by simp
  qed
  ultimately show ?thesis
    unfolding verify_hint_def
    using st(3,4) assms(2) L(1) q(1) com(2) [OF L(2)] com(2) [OF q(2)] com(2) [OF num(2)]
      L(3) q(3) num(3) setting_towers(1-4) [OF assms(1)]
    by (simp add: Let_def is_ok_check flip: num(1) is_ok_iff)
qed

end
