(* ===== verification/HintsPreprocess.thy ===== *)
theory HintsPreprocess
  imports HintsKeys
begin

text \<open>
  \<open>preprocess\<close> of \<^verbatim>\<open>hints.rs\<close>: from the registered hints to the verification and aggregation keys.
  The specification \<open>keys_of\<close> writes both keys in the exponent, for a vector of secret keys and a
  vector of weights; \<open>preprocess\<close> succeeds exactly when all registered hints verify below the
  reserved slot, and then produces \<open>keys_of\<close> the secrets behind the hints.
\<close>

section \<open>Operations\<close>

definition reserved_index_msg :: "nat \<Rightarrow> nat \<Rightarrow> string" where
  "reserved_index_msg party_id n =
     ''party index '' @ fmt_usize party_id @ '' is not below the reserved index '' @ fmt_usize (n - 1)"

definition hint_n_msg :: "nat \<Rightarrow> nat \<Rightarrow> string" where
  "hint_n_msg got n = ''Invalid hint: got hint.n = '' @ fmt_usize got @ '', expected n = '' @ fmt_usize n"

definition hint_failed_msg :: "nat \<Rightarrow> string" where
  "hint_failed_msg i = ''Invalid hint: hint verification failed for i = '' @ fmt_usize i"

definition domain_msg :: "nat \<Rightarrow> string" where
  "domain_msg n = ''Unable to construct Radix2EvaluationDomain for n = '' @ fmt_usize n"

definition inconsistent_key_msg :: "nat \<Rightarrow> string" where
  "inconsistent_key_msg n =
     ''preprocess produced an inconsistent aggregation key for n = '' @ fmt_usize n"

text \<open>The body of the first loop: the weight and the extended public key of slot \<open>i\<close>.\<close>

definition preprocess_entry ::
  "('f::field, 'g1::ab_group_add, 'g2::ab_group_add, 'gt::ab_group_add, 'rng) ark \<Rightarrow> nat
   \<Rightarrow> ('g1, 'g2) universal_params \<Rightarrow> ('f \<times> ('f, 'g1, 'g2) extended_public_key) hash_map \<Rightarrow> nat
   \<Rightarrow> ('f \<times> ('f, 'g1, 'g2) extended_public_key, hints_error) result" where
  "preprocess_entry E n crs signer_info i =
     (case map_of signer_info i of
        Some (weight, hint) \<Rightarrow>
          if epk_n hint \<noteq> n then Err (InvalidInput (hint_n_msg (epk_n hint) n))
          else and_then (verify_hint E crs n i hint) (\<lambda>valid.
                 if \<not> valid then Err (InvalidInput (hint_failed_msg i)) else Ok (weight, hint))
      | None \<Rightarrow>
          and_then (generate_proof_of_knowledge E 0 (replicate RANDOM_SIZE 0)) (\<lambda>zero_pop.
          and_then (hint_gen E crs n i \<lparr>secret = 0, pop = zero_pop\<rparr>) (\<lambda>epk. Ok (0, epk))))"

record ('g1, 'g2) contributions =
  qz_contributions :: "'g1 list list"
  qx_contributions :: "'g1 list"
  qx_mul_tau_contributions :: "'g1 list"
  contributed_pks :: "'g1 list"
  sk_l_of_tau_coms :: "'g2 list"

definition empty_contributions :: "nat \<Rightarrow> ('g1::zero, 'g2::zero) contributions" where
  "empty_contributions n =
     \<lparr>qz_contributions = replicate n [], qx_contributions = replicate n 0,
      qx_mul_tau_contributions = replicate n 0, contributed_pks = replicate n 0,
      sk_l_of_tau_coms = replicate n 0\<rparr>"

definition place_contribution ::
  "('f, 'g1, 'g2) extended_public_key \<Rightarrow> ('g1, 'g2) contributions
   \<Rightarrow> (('g1, 'g2) contributions, hints_error) result" where
  "place_contribution hint c =
     and_then (set_index (qz_contributions c) (epk_i hint) (qz_i_terms hint)) (\<lambda>qz.
     and_then (set_index (qx_contributions c) (epk_i hint) (qx_i_term hint)) (\<lambda>qx.
     and_then (set_index (qx_mul_tau_contributions c) (epk_i hint) (qx_i_term_mul_tau hint)) (\<lambda>qxt.
     and_then (set_index (contributed_pks c) (epk_i hint) (pk_i hint)) (\<lambda>pks.
     and_then (set_index (sk_l_of_tau_coms c) (epk_i hint) (sk_i_l_i_of_tau_com_2 hint)) (\<lambda>sks.
     Ok \<lparr>qz_contributions = qz, qx_contributions = qx, qx_mul_tau_contributions = qxt,
         contributed_pks = pks, sk_l_of_tau_coms = sks\<rparr>)))))"

text \<open>\<open>add\<close> sums the elements of a collection; \<open>preprocess_qz_contributions\<close> sums columns.\<close>

definition add_points :: "'g::ab_group_add list \<Rightarrow> 'g" where
  "add_points elements = foldl (+) 0 elements"

definition preprocess_qz_contributions ::
  "'g1::ab_group_add list list \<Rightarrow> ('g1 list, hints_error) result" where
  "preprocess_qz_contributions q1_contributions =
     (let n = length q1_contributions
      in collect (\<lambda>i.
           and_then (index q1_contributions i) (\<lambda>row_i.
           and_then (index row_i i) (\<lambda>own.
           fold_result (\<lambda>j party_i_q1_com.
             if i \<noteq> j then
               and_then (index q1_contributions j) (\<lambda>row_j.
               and_then (index row_j i) (\<lambda>c. Ok (party_i_q1_com + c)))
             else Ok party_i_q1_com) [0..<n] own))) [0..<n])"

definition preprocess ::
  "('f::field, 'g1::ab_group_add, 'g2::ab_group_add, 'gt::ab_group_add, 'rng) ark \<Rightarrow> nat
   \<Rightarrow> ('g1, 'g2) universal_params \<Rightarrow> ('f \<times> ('f, 'g1, 'g2) extended_public_key) hash_map
   \<Rightarrow> (('f, 'g1, 'g2) verification_key \<times> ('f, 'g1) aggregation_key, hints_error) result" where
  "preprocess E n crs signer_info =
     (if \<not> is_n_valid n then Err (InvalidNetworkSize n)
      else if length signer_info + 1 > n then Err (InvalidNetworkSize n)
      else case find (\<lambda>i. i \<ge> n - 1) (map fst signer_info) of
        Some party_id \<Rightarrow> Err (InvalidInput (reserved_index_msg party_id n))
      | None \<Rightarrow>
      if \<not> crs_supports crs n then Err (InsufficientCRS n)
      else
        and_then (collect (preprocess_entry E n crs signer_info) [0..<n]) (\<lambda>entries.
        let weights = map fst entries; epks = map snd entries in
        and_then (ok_or (CryptographyCatastrophe (domain_msg (length weights)))
            (interpolate_poly_over_mult_subgroup E weights)) (\<lambda>w_of_x.
        and_then (fold_result place_contribution epks (empty_contributions n)) (\<lambda>c.
        let z_of_x = compute_vanishing_poly n in
        and_then (lagrange_or_err E n (n - 1) (lagrange_i_msg (n - 1) n)) (\<lambda>l_n_minus_1_of_x.
        let total_weight = foldl (+) 0 weights in
        and_then (index (powers_of_g crs) 0) (\<lambda>g_0.
        and_then (index (powers_of_h crs) 0) (\<lambda>h_0.
        and_then (index (powers_of_h crs) 1) (\<lambda>h_1.
        and_then (commit_g1 E crs l_n_minus_1_of_x) (\<lambda>l_com.
        and_then (commit_g1 E crs w_of_x) (\<lambda>w_com.
        and_then (commit_g2 E crs z_of_x) (\<lambda>z_com.
        let vk = \<lparr>vk_n = n, vk_total_weight = total_weight, vk_g_0 = g_0, vk_h_0 = h_0, vk_h_1 = h_1,
                  vk_l_n_minus_1_of_tau_com = l_com, vk_w_of_tau_com = w_com,
                  vk_sk_of_tau_com = add_points (sk_l_of_tau_coms c), vk_z_of_tau_com = z_com\<rparr> in
        and_then (preprocess_qz_contributions (qz_contributions c)) (\<lambda>qz_terms.
        let ak = \<lparr>ak_n = n, ak_weights = weights, ak_pks = contributed_pks c, ak_qz_terms = qz_terms,
                  ak_qx_terms = qx_contributions c, ak_qx_mul_tau_terms = qx_mul_tau_contributions c\<rparr> in
        if \<not> aggregation_key_is_well_formed ak
        then Err (CryptographyCatastrophe (inconsistent_key_msg n))
        else Ok (vk, ak)))))))))))))"

section \<open>The keys in the exponent\<close>

definition vk_of ::
  "('f::field, 'g1, 'g2, 'gt, 'rng) ark \<Rightarrow> 'f \<Rightarrow> 'f \<Rightarrow> nat \<Rightarrow> (nat \<Rightarrow> 'f) \<Rightarrow> (nat \<Rightarrow> 'f)
   \<Rightarrow> ('f, 'g1, 'g2) verification_key" where
  "vk_of E w tau n wt s =
     \<lparr>vk_n = n, vk_total_weight = (\<Sum>i<n. wt i), vk_g_0 = in_g1 E 1, vk_h_0 = in_g2 E 1,
      vk_h_1 = in_g2 E tau, vk_l_n_minus_1_of_tau_com = in_g1 E (lagrange n w (n - 1) tau),
      vk_w_of_tau_com = in_g1 E (\<Sum>i<n. wt i * lagrange n w i tau),
      vk_sk_of_tau_com = in_g2 E (\<Sum>i<n. s i * lagrange n w i tau),
      vk_z_of_tau_com = in_g2 E (tau ^ n - 1)\<rparr>"

definition ak_of ::
  "('f::field, 'g1, 'g2, 'gt, 'rng) ark \<Rightarrow> 'f \<Rightarrow> 'f \<Rightarrow> nat \<Rightarrow> (nat \<Rightarrow> 'f) \<Rightarrow> (nat \<Rightarrow> 'f)
   \<Rightarrow> ('f, 'g1) aggregation_key" where
  "ak_of E w tau n wt s =
     \<lparr>ak_n = n, ak_weights = map wt [0..<n], ak_pks = map (\<lambda>i. in_g1 E (s i)) [0..<n],
      ak_qz_terms = map (\<lambda>i. in_g1 E (\<Sum>j<n. s j * cross_value E n tau j i)) [0..<n],
      ak_qx_terms = map (\<lambda>i. in_g1 E (s i * shift_value E n tau i)) [0..<n],
      ak_qx_mul_tau_terms = map (\<lambda>i. in_g1 E (s i * (lagrange n w i tau - 1 / of_nat n))) [0..<n]\<rparr>"

text \<open>
  \<open>registered\<close>: slot \<open>i\<close> holds the weight and the hint of its registered party, or weight zero
  and the zero key.
\<close>

definition registered ::
  "('f::field, 'g1::ab_group_add, 'g2::ab_group_add, 'gt::ab_group_add, 'rng) ark \<Rightarrow> 'f \<Rightarrow> 'f \<Rightarrow> nat
   \<Rightarrow> ('f \<times> ('f, 'g1, 'g2) extended_public_key) hash_map \<Rightarrow> (nat \<Rightarrow> 'f) \<Rightarrow> (nat \<Rightarrow> 'f) \<Rightarrow> bool" where
  "registered E w tau n signer_info wt s \<longleftrightarrow>
     (\<forall>i < n. case map_of signer_info i of
        Some (weight, hint) \<Rightarrow>
          wt i = weight \<and> hint = hint_of E w tau n i (s i) (pok_i hint) \<and>
          nondegenerate E w tau n i (s i) \<and>
          verify_proof_of_knowledge E (pok_i hint) (in_g1 E (s i)) = Ok True
      | None \<Rightarrow> wt i = 0 \<and> s i = 0)"

section \<open>Sums\<close>

lemma foldl_add_eq: "foldl (+) (a :: 'a::comm_monoid_add) xs = a + sum_list xs"
  by (induction xs arbitrary: a) (simp_all add: ac_simps)

lemma add_points_eq: "add_points xs = sum_list xs"
  by (simp add: add_points_def foldl_add_eq)

lemma column_loop:
  fixes q :: "'g::ab_group_add list list"
  assumes "m \<le> length q" "\<And>j. j < length q \<Longrightarrow> i < length (q ! j)"
  shows "fold_result (\<lambda>j acc.
      if i \<noteq> j then and_then (index q j) (\<lambda>row. and_then (index row i) (\<lambda>c. Ok (acc + c)))
      else Ok acc :: ('g, hints_error) result) [0..<m] own
    = Ok (own + (\<Sum>j \<in> {..<m} - {i}. q ! j ! i))"
  using assms
proof (induction m)
  case (Suc m)
  have "{..<Suc m} - {i} = (if m = i then {..<m} - {i} else insert m ({..<m} - {i}))"
    by (auto simp: lessThan_Suc)
  then show ?case using Suc by (auto simp: fold_result_append ac_simps)
qed simp

lemma preprocess_qz_contributions_eq:
  fixes q :: "'g::ab_group_add list list"
  assumes "length q = n" "\<And>j. j < n \<Longrightarrow> length (q ! j) = n"
  shows "preprocess_qz_contributions q = Ok (map (\<lambda>i. \<Sum>j<n. q ! j ! i) [0..<n])"
  unfolding preprocess_qz_contributions_def Let_def assms(1)
proof (rule collect_map)
  fix i assume "i \<in> set [0..<n]"
  then have i: "i < n" by simp
  then have "(\<Sum>j<n. q ! j ! i) = q ! i ! i + (\<Sum>j \<in> {..<n} - {i}. q ! j ! i)"
    by (intro sum.remove) auto
  then show "and_then (index q i) (\<lambda>row_i. and_then (index row_i i) (\<lambda>own.
      fold_result (\<lambda>j acc. if i \<noteq> j then
          and_then (index q j) (\<lambda>row. and_then (index row i) (\<lambda>c. Ok (acc + c))) else Ok acc :: ('g, hints_error) result)
        [0..<n] own)) = Ok (\<Sum>j<n. q ! j ! i)"
    using column_loop [of n q i "q ! i ! i"] i assms by simp
qed


section \<open>Placing the contributions\<close>

definition placed ::
  "nat \<Rightarrow> nat \<Rightarrow> ('f, 'g1::zero, 'g2::zero) extended_public_key list \<Rightarrow> ('g1, 'g2) contributions" where
  "placed n m epks =
     \<lparr>qz_contributions = map (\<lambda>i. if i < m then qz_i_terms (epks ! i) else []) [0..<n],
      qx_contributions = map (\<lambda>i. if i < m then qx_i_term (epks ! i) else 0) [0..<n],
      qx_mul_tau_contributions = map (\<lambda>i. if i < m then qx_i_term_mul_tau (epks ! i) else 0) [0..<n],
      contributed_pks = map (\<lambda>i. if i < m then pk_i (epks ! i) else 0) [0..<n],
      sk_l_of_tau_coms = map (\<lambda>i. if i < m then sk_i_l_i_of_tau_com_2 (epks ! i) else 0) [0..<n]\<rparr>"

lemma placed_update:
  "m < n \<Longrightarrow> (map (\<lambda>i. if i < m then f i else z) [0..<n])[m := f m]
     = map (\<lambda>i. if i < Suc m then f i else z) [0..<n]"
  by (intro nth_equalityI) (auto simp: nth_list_update less_Suc_eq)

lemma place_loop:
  assumes "length epks = n" "\<And>k. k < n \<Longrightarrow> epk_i (epks ! k) = k" "m \<le> n"
  shows "fold_result place_contribution (take m epks) (empty_contributions n) = Ok (placed n m epks)"
  using assms(3)
proof (induction m)
  case 0
  then show ?case by (simp add: empty_contributions_def placed_def map_replicate_const)
next
  case (Suc m)
  then have m: "m < n" by simp
  have "place_contribution (epks ! m) (placed n m epks) = Ok (placed n (Suc m) epks)"
    using m assms(2) [OF m]
      placed_update [OF m, where f = "\<lambda>i. qz_i_terms (epks ! i)"]
      placed_update [OF m, where f = "\<lambda>i. qx_i_term (epks ! i)"]
      placed_update [OF m, where f = "\<lambda>i. qx_i_term_mul_tau (epks ! i)"]
      placed_update [OF m, where f = "\<lambda>i. pk_i (epks ! i)"]
      placed_update [OF m, where f = "\<lambda>i. sk_i_l_i_of_tau_com_2 (epks ! i)"]
    by (simp add: place_contribution_def placed_def)
  moreover have "take (Suc m) epks = take m epks @ [epks ! m]"
    using m assms(1) by (simp add: take_Suc_conv_app_nth)
  ultimately show ?case using Suc by (simp add: fold_result_append)
qed

section \<open>The slots\<close>

lemma hint_of_fields [simp]:
  "epk_i (hint_of E w tau n i s p) = i" "epk_n (hint_of E w tau n i s p) = n"
  "pk_i (hint_of E w tau n i s p) = in_g1 E s" "pok_i (hint_of E w tau n i s p) = p"
  "sk_i_l_i_of_tau_com_2 (hint_of E w tau n i s p) = in_g2 E (s * lagrange n w i tau)"
  "qz_i_terms (hint_of E w tau n i s p) = map (\<lambda>j. in_g1 E (s * cross_value E n tau i j)) [0..<n]"
  "qx_i_term (hint_of E w tau n i s p) = in_g1 E (s * shift_value E n tau i)"
  "qx_i_term_mul_tau (hint_of E w tau n i s p) = in_g1 E (s * (lagrange n w i tau - 1 / of_nat n))"
  by (simp_all add: hint_of_def)

definition slot_filled ::
  "('f::field, 'g1::ab_group_add, 'g2::ab_group_add, 'gt::ab_group_add, 'rng) ark \<Rightarrow> 'f \<Rightarrow> 'f \<Rightarrow> nat
   \<Rightarrow> ('f \<times> ('f, 'g1, 'g2) extended_public_key) hash_map \<Rightarrow> nat \<Rightarrow> 'f \<Rightarrow> 'f \<Rightarrow> bool" where
  "slot_filled E w tau n signer_info i wt s \<longleftrightarrow>
     (case map_of signer_info i of
        Some (weight, hint) \<Rightarrow>
          wt = weight \<and> hint = hint_of E w tau n i s (pok_i hint) \<and>
          nondegenerate E w tau n i s \<and>
          verify_proof_of_knowledge E (pok_i hint) (in_g1 E s) = Ok True
      | None \<Rightarrow> wt = 0 \<and> s = 0)"

lemma registered_slots:
  "registered E w tau n signer_info wt s \<longleftrightarrow> (\<forall>i < n. slot_filled E w tau n signer_info i (wt i) (s i))"
  by (simp add: registered_def slot_filled_def)

lemma entry_filled:
  assumes "hints_setting E crs tau n w" "i < n"
    and "preprocess_entry E n crs signer_info i = Ok (wt, epk)"
  shows "\<exists>s p. epk = hint_of E w tau n i s p \<and> slot_filled E w tau n signer_info i wt s"
proof (cases "map_of signer_info i")
  case None
  then obtain p where "hint_gen E crs n i \<lparr>secret = 0, pop = p\<rparr> = Ok epk" "wt = 0"
    using assms(3) by (auto simp: preprocess_entry_def)
  then have "epk = hint_of E w tau n i 0 p" using hint_gen_eq [OF assms(1,2)] by simp
  then show ?thesis using None \<open>wt = 0\<close> by (auto simp: slot_filled_def)
next
  case (Some wh)
  obtain weight hint where wh: "wh = (weight, hint)" by (cases wh)
  have "verify_hint E crs n i hint = Ok True" "epk = hint" "wt = weight"
    using assms(3) Some wh by (auto simp: preprocess_entry_def split: if_splits)
  then obtain s where "hint = hint_of E w tau n i s (pok_i hint)" "nondegenerate E w tau n i s"
    "verify_proof_of_knowledge E (pok_i hint) (in_g1 E s) = Ok True"
    using verify_hint_iff [OF assms(1,2)] by blast
  then show ?thesis using Some wh \<open>epk = hint\<close> \<open>wt = weight\<close> unfolding slot_filled_def
    by (intro exI [of _ s] exI [of _ "pok_i hint"]) simp
qed

lemma filled_entry:
  assumes "hints_setting E crs tau n w" "i < n" "encoding_ok E"
    and "slot_filled E w tau n signer_info i wt s"
  shows "\<exists>p. preprocess_entry E n crs signer_info i = Ok (wt, hint_of E w tau n i s p)"
proof (cases "map_of signer_info i")
  case None
  obtain p where "generate_proof_of_knowledge E 0 (replicate RANDOM_SIZE 0) = Ok p"
    using generate_pok_total [OF assms(3)] by blast
  then show ?thesis
    using None assms(4) hint_gen_eq [OF assms(1,2)]
    by (auto simp: preprocess_entry_def slot_filled_def)
next
  case (Some wh)
  obtain weight hint where wh: "wh = (weight, hint)" by (cases wh)
  have h: "hint = hint_of E w tau n i s (pok_i hint)" "wt = weight"
    "nondegenerate E w tau n i s" "verify_proof_of_knowledge E (pok_i hint) (in_g1 E s) = Ok True"
    using assms(4) Some wh by (simp_all add: slot_filled_def)
  then have "verify_hint E crs n i hint = Ok True" using verify_hint_iff [OF assms(1,2)] by blast
  moreover have "epk_n hint = n" by (subst h(1)) simp
  ultimately have "preprocess_entry E n crs signer_info i = Ok (wt, hint)"
    using Some wh h(2) by (simp add: preprocess_entry_def)
  then show ?thesis using h(1) by metis
qed

section \<open>The result\<close>

lemma preprocess_from_entries:
  fixes E :: "('f::field, 'g1::ab_group_add, 'g2::ab_group_add, 'gt::ab_group_add, 'rng) ark"
  assumes "hints_setting E crs tau n w"
    and "length signer_info + 1 \<le> n" "\<And>i. i \<in> fst ` set signer_info \<Longrightarrow> i < n - 1"
    and "collect (preprocess_entry E n crs signer_info) [0..<n]
       = Ok (map (\<lambda>i. (wt i, hint_of E w tau n i (s i) (p i))) [0..<n])"
  shows "preprocess E n crs signer_info = Ok (vk_of E w tau n wt s, ak_of E w tau n wt s)"
proof -
  note st = hints_settingD [OF assms(1)] and com = setting_commit [OF assms(1)]
    and tow = setting_towers [OF assms(1)]
  let ?epks = "map (\<lambda>i. hint_of E w tau n i (s i) (p i)) [0..<n]"
  have none: "find (\<lambda>i. i \<ge> n - 1) (map fst signer_info) = None"
    using assms(3) by (force simp: find_None_iff)
  have loop: "fold_result place_contribution ?epks (empty_contributions n) = Ok (placed n n ?epks)"
    using place_loop [of ?epks n n] by simp
  have pl: "qz_contributions (placed n n ?epks) = map (\<lambda>i. map (\<lambda>j. in_g1 E (s i * cross_value E n tau i j)) [0..<n]) [0..<n]"
    "contributed_pks (placed n n ?epks) = map (\<lambda>i. in_g1 E (s i)) [0..<n]"
    "qx_contributions (placed n n ?epks) = map (\<lambda>i. in_g1 E (s i * shift_value E n tau i)) [0..<n]"
    "qx_mul_tau_contributions (placed n n ?epks) = map (\<lambda>i. in_g1 E (s i * (lagrange n w i tau - 1 / of_nat n))) [0..<n]"
    "sk_l_of_tau_coms (placed n n ?epks) = map (\<lambda>i. in_g2 E (s i * lagrange n w i tau)) [0..<n]"
    by (simp_all add: placed_def)
  have qz: "preprocess_qz_contributions (qz_contributions (placed n n ?epks))
      = Ok (map (\<lambda>i. in_g1 E (\<Sum>j<n. s j * cross_value E n tau j i)) [0..<n])"
    unfolding pl by (subst preprocess_qz_contributions_eq [where n = n])
       (simp_all add: in_group_sum(1) [OF st(6)])
  let ?wx = "domain_interpolate E (map wt [0..<n])"
  have wx: "interpolate_poly_over_mult_subgroup E (map wt [0..<n]) = Some ?wx"
    using st(5) by (simp add: interpolate_poly_over_mult_subgroup_def)
  have wcom: "commit_g1 E crs ?wx = Ok (in_g1 E (\<Sum>i<n. wt i * lagrange n w i tau))"
    using com(1) [of ?wx] domain_interpolate_laws [OF st(8,3,5), of "map wt [0..<n]"]
      interpolate_value [OF st(1,3,5), of "map wt [0..<n]" tau] by simp
  obtain L where L: "\<And>msg. lagrange_or_err E n (n - 1) msg = Ok L" "pwf L" "length L \<le> n"
    "\<And>x. peval L x = lagrange n w (n - 1) x"
    using setting_lagrange [OF assms(1), of "n - 1"] st(10) by (metis diff_less zero_less_one)
  have lcom: "commit_g1 E crs L = Ok (in_g1 E (lagrange n w (n - 1) tau))"
    using com(1) [of L] L by simp
  have zcom: "commit_g2 E crs (compute_vanishing_poly n) = Ok (in_g2 E (tau ^ n - 1))"
    using com(2) [of "compute_vanishing_poly n"] by (simp add: vanishing_poly [OF st(10)])
  have sk: "add_points (sk_l_of_tau_coms (placed n n ?epks)) = in_g2 E (\<Sum>i<n. s i * lagrange n w i tau)"
    unfolding pl add_points_eq by (simp add: sum_list_map_upt in_group_sum(2) [OF st(6)])
  have total: "foldl (+) 0 (map wt [0..<n]) = (\<Sum>i<n. wt i)"
    by (simp add: foldl_add_eq sum_list_map_upt)
  show ?thesis
    unfolding preprocess_def Let_def assms(4) none
    using st(3,4) assms(2)
    by (simp add: comp_def wx loop L(1) [simplified] tow lcom wcom zcom qz [unfolded pl] sk [unfolded pl] pl total
        aggregation_key_is_well_formed_def vk_of_def ak_of_def)
qed

theorem preprocess_iff:
  fixes E :: "('f::field, 'g1::ab_group_add, 'g2::ab_group_add, 'gt::ab_group_add, 'rng) ark"
  assumes "hints_setting E crs tau n w" "encoding_ok E"
  shows "preprocess E n crs signer_info = Ok (vk, ak) \<longleftrightarrow>
    length signer_info + 1 \<le> n \<and> (\<forall>i \<in> fst ` set signer_info. i < n - 1) \<and>
    (\<exists>wt s. registered E w tau n signer_info wt s \<and>
       vk = vk_of E w tau n wt s \<and> ak = ak_of E w tau n wt s)"
    (is "?P \<longleftrightarrow> ?R")
proof
  assume P: ?P
  then have len: "length signer_info + 1 \<le> n" by (simp add: preprocess_def split: if_splits)
  have "find (\<lambda>i. i \<ge> n - 1) (map fst signer_info) = None"
    using P by (auto simp: preprocess_def split: if_splits option.splits)
  then have keys: "i < n - 1" if "i \<in> fst ` set signer_info" for i
    using that by (auto simp: find_None_iff image_iff)
  obtain entries where ent: "collect (preprocess_entry E n crs signer_info) [0..<n] = Ok entries"
    using P by (auto simp: preprocess_def Let_def split: if_splits option.splits)
  have "\<forall>i \<in> {..<n}. \<exists>sp. snd (entries ! i) = hint_of E w tau n i (fst sp) (snd sp) \<and>
      slot_filled E w tau n signer_info i (fst (entries ! i)) (fst sp)"
    using entry_filled [OF assms(1)] collect_nth [OF ent] by fastforce
  then obtain sp where sp: "\<And>i. i < n \<Longrightarrow> snd (entries ! i) = hint_of E w tau n i (fst (sp i)) (snd (sp i)) \<and>
      slot_filled E w tau n signer_info i (fst (entries ! i)) (fst (sp i))"
    using bchoice by (metis lessThan_iff)
  let ?wt = "\<lambda>i. fst (entries ! i)" and ?s = "\<lambda>i. fst (sp i)"
  have "entries = map (\<lambda>i. (?wt i, hint_of E w tau n i (?s i) (snd (sp i)))) [0..<n]"
    using collect_length [OF ent] sp by (intro nth_equalityI) (auto simp: prod_eq_iff)
  then have "preprocess E n crs signer_info = Ok (vk_of E w tau n ?wt ?s, ak_of E w tau n ?wt ?s)"
    using preprocess_from_entries [OF assms(1) len keys] ent by simp
  moreover have "registered E w tau n signer_info ?wt ?s" using sp by (simp add: registered_slots)
  ultimately show ?R using P len keys by fastforce
next
  assume R: ?R
  then obtain wt s where reg: "registered E w tau n signer_info wt s"
    and keys: "vk = vk_of E w tau n wt s" "ak = ak_of E w tau n wt s" by blast
  have "\<exists>p. preprocess_entry E n crs signer_info i = Ok (wt i, hint_of E w tau n i (s i) p)" if "i < n" for i
    using filled_entry [OF assms(1) that assms(2)] reg that by (simp add: registered_slots)
  then obtain p where "\<And>i. i < n \<Longrightarrow> preprocess_entry E n crs signer_info i = Ok (wt i, hint_of E w tau n i (s i) (p i))"
    by metis
  then have "collect (preprocess_entry E n crs signer_info) [0..<n]
      = Ok (map (\<lambda>i. (wt i, hint_of E w tau n i (s i) (p i))) [0..<n])"
    by (intro collect_map) simp
  then show ?P using preprocess_from_entries [OF assms(1)] R unfolding keys by blast
qed

end
