(* ===== verification/HintsSign.thy ===== *)
theory HintsSign
  imports HintsPreprocess
begin

text \<open>
  Partial signatures of \<^verbatim>\<open>hints.rs\<close>: \<open>sign\<close>, \<open>partial_verify\<close> and \<open>partial_verify_batch\<close>. A partial
  signature verifies exactly when it is the nonzero multiple of the message point by the secret of
  a nonzero public key. The batch check accepts every batch of valid signatures for every random
  weight, and a batch with an invalid entry only for fewer weights than the batch has entries.
\<close>

section \<open>Operations\<close>

definition DST_G2 :: bytes where
  "DST_G2 = ascii_bytes ''BLS_SIG_BLS12381G2_XMD:SHA-256_SSWU_RO_POP_''"

definition hash_to_g2 :: "('f, 'g1, 'g2, 'gt, 'rng) ark \<Rightarrow> bytes \<Rightarrow> ('g2, hints_error) result" where
  "hash_to_g2 E msg = from_hash_to_curve_error (map_to_g2 E DST_G2 msg)"

definition sign ::
  "('f, 'g1, 'g2, 'gt, 'rng) ark \<Rightarrow> bytes \<Rightarrow> ('f, 'g1) secret_key \<Rightarrow> ('g2, hints_error) result" where
  "sign E msg sk = and_then (hash_to_g2 E msg) (\<lambda>h. Ok (g2_mul E h (secret sk)))"

definition malformed_key_msg :: "nat \<Rightarrow> string" where
  "malformed_key_msg n = ''malformed aggregation key: n = '' @ fmt_usize n"

definition signer_range_msg :: "nat \<Rightarrow> string" where
  "signer_range_msg party_id = ''signer_id '' @ fmt_usize party_id @ '' out of range''"

definition partial_verify ::
  "('f, 'g1::ab_group_add, 'g2::ab_group_add, 'gt, 'rng) ark \<Rightarrow> bytes \<Rightarrow> ('f, 'g1) aggregation_key
   \<Rightarrow> nat \<Rightarrow> 'g2 \<Rightarrow> (bool, hints_error) result" where
  "partial_verify E msg ak party_id sig =
     (if \<not> is_n_valid (ak_n ak) then Err (InvalidNetworkSize (ak_n ak))
      else if \<not> aggregation_key_is_well_formed ak then Err (InvalidInput (malformed_key_msg (ak_n ak)))
      else if party_id \<ge> ak_n ak - 1 then Err (InvalidInput (signer_range_msg party_id))
      else
        and_then (index (ak_pks ak) party_id) (\<lambda>pk.
        check_or_return_false (pk \<noteq> 0) (
        check_or_return_false (sig \<noteq> 0) (
        and_then (hash_to_g2 E msg) (\<lambda>h.
        let lhs = pairing E pk h;
            rhs = pairing E (g1_generator E) sig
        in Ok (lhs = rhs))))))"

text \<open>The weights \<open>1, r, r\<^sup>2, \<dots>\<close>; \<open>r\<close> is the value drawn from the operating system's generator.\<close>

fun successors :: "nat \<Rightarrow> 'f::field \<Rightarrow> 'f \<Rightarrow> 'f list" where
  "successors 0 c r = []"
| "successors (Suc k) c r = c # successors k (c * r) r"

definition partial_verify_batch ::
  "('f::field, 'g1::ab_group_add, 'g2::ab_group_add, 'gt, 'rng) ark \<Rightarrow> 'f \<Rightarrow> bytes
   \<Rightarrow> ('f, 'g1) aggregation_key \<Rightarrow> nat list \<Rightarrow> 'g2 list \<Rightarrow> (bool, hints_error) result" where
  "partial_verify_batch E r msg ak signer_ids signatures =
     (if \<not> is_n_valid (ak_n ak) then Err (InvalidNetworkSize (ak_n ak))
      else if \<not> aggregation_key_is_well_formed ak then Err (InvalidInput (malformed_key_msg (ak_n ak)))
      else if length signer_ids \<noteq> length signatures
      then Err (InvalidInput ''signer_ids and signatures must be of the same size'')
      else if signer_ids = [] then Err (InvalidInput ''signer_ids must not be empty'')
      else if list_ex (\<lambda>id. id \<ge> ak_n ak - 1) signer_ids
      then Err (InvalidInput ''One or more signer_ids are out of range'')
      else
        and_then (all_checks (\<lambda>id. and_then (index (ak_pks ak) id) (\<lambda>pk. Ok (pk \<noteq> 0))) signer_ids) (\<lambda>pks_ok.
        check_or_return_false pks_ok (
        check_or_return_false (list_all (\<lambda>sig. sig \<noteq> 0) signatures) (
        let coefficients = successors (length signatures) 1 r in
        and_then (collect (index (ak_pks ak)) signer_ids) (\<lambda>pks.
        let apk = g1_msm_unchecked E pks coefficients;
            agg_sig = g2_msm_unchecked E signatures coefficients in
        and_then (hash_to_g2 E msg) (\<lambda>h.
        let lhs = pairing E apk h;
            rhs = pairing E (g1_generator E) agg_sig
        in Ok (lhs = rhs)))))))"

section \<open>Single signatures\<close>

definition valid_key :: "('f, 'g1) aggregation_key \<Rightarrow> bool" where
  "valid_key ak \<longleftrightarrow> is_n_valid (ak_n ak) \<and> aggregation_key_is_well_formed ak"

text \<open>The signature equation in the exponent: public key \<open>[s]\<^sub>1\<close>, message point \<open>h\<close>.\<close>

lemma bls_equation:
  assumes "curve_ok E"
  shows "pairing E (in_g1 E s) h = pairing E (g1_generator E) sig \<longleftrightarrow> sig = g2_mul E h s"
proof -
  obtain a where h: "h = in_g2 E a" using ex_in_g2 [OF assms] by blast
  obtain b where sig: "sig = in_g2 E b" using ex_in_g2 [OF assms] by blast
  show ?thesis
    by (auto simp: h sig in_group_arith(9) [OF assms] exponent_simps [OF assms] mult.commute)
qed

lemma partial_verify_iff:
  assumes "curve_ok E" "valid_key ak" "i < ak_n ak - 1" "hash_to_g2 E msg = Ok h"
    and "ak_pks ak ! i = in_g1 E s"
  shows "partial_verify E msg ak i sig = Ok True \<longleftrightarrow> s \<noteq> 0 \<and> h \<noteq> 0 \<and> sig = g2_mul E h s"
proof -
  have "i < length (ak_pks ak)"
    using assms(2,3) by (simp add: valid_key_def aggregation_key_is_well_formed_def)
  then have "partial_verify E msg ak i sig = Ok True \<longleftrightarrow>
      in_g1 E s \<noteq> 0 \<and> sig \<noteq> 0 \<and> pairing E (in_g1 E s) h = pairing E (g1_generator E) sig"
    using assms(2-5) by (simp add: partial_verify_def valid_key_def Let_def)
  also have "\<dots> \<longleftrightarrow> s \<noteq> 0 \<and> sig \<noteq> 0 \<and> sig = g2_mul E h s"
    by (simp add: in_group_zero_iff [OF assms(1)] bls_equation [OF assms(1)])
  also have "\<dots> \<longleftrightarrow> s \<noteq> 0 \<and> h \<noteq> 0 \<and> sig = g2_mul E h s"
  proof -
    obtain a where "h = in_g2 E a" using ex_in_g2 [OF assms(1)] by blast
    then show ?thesis by (auto simp: exponent_simps [OF assms(1)])
  qed
  finally show ?thesis .
qed

lemma partial_verify_range:
  "partial_verify E msg ak i sig = Ok b \<Longrightarrow> valid_key ak \<and> i < ak_n ak - 1"
  by (auto simp: partial_verify_def valid_key_def split: if_splits)

section \<open>Batches\<close>

lemma successors_eq: "successors k c r = map (\<lambda>i. c * r ^ i) [0..<k]"
proof (induction k arbitrary: c)
  case (Suc k)
  have "[0..<Suc k] = 0 # map Suc [0..<k]" by (metis map_Suc_upt upt_conv_Cons zero_less_Suc)
  then show ?case using Suc [of "c * r"] by (simp add: comp_def mult.assoc del: upt_Suc)
qed simp

definition batch_admissible :: "('f, 'g1::zero) aggregation_key \<Rightarrow> nat list \<Rightarrow> 'g2::zero list \<Rightarrow> bool" where
  "batch_admissible ak ids sigs \<longleftrightarrow>
     valid_key ak \<and> length ids = length sigs \<and> ids \<noteq> [] \<and>
     (\<forall>i \<in> set ids. i < ak_n ak - 1 \<and> ak_pks ak ! i \<noteq> 0) \<and> (\<forall>sig \<in> set sigs. sig \<noteq> 0)"

lemma batch_reduces:
  assumes "valid_key ak" "hash_to_g2 E msg = Ok h" "length ids = length sigs" "ids \<noteq> []"
    "\<forall>i \<in> set ids. i < ak_n ak - 1"
  shows "partial_verify_batch E r msg ak ids sigs = Ok True \<longleftrightarrow>
    batch_admissible ak ids sigs \<and>
    pairing E (g1_msm_unchecked E (map ((!) (ak_pks ak)) ids) (map (\<lambda>i. r ^ i) [0..<length sigs])) h
      = pairing E (g1_generator E) (g2_msm_unchecked E sigs (map (\<lambda>i. r ^ i) [0..<length sigs]))"
proof -
  have len: "i < length (ak_pks ak)" if "i \<in> set ids" for i
    using assms(1,5) that by (fastforce simp: valid_key_def aggregation_key_is_well_formed_def)
  have c1: "collect (index (ak_pks ak)) ids = Ok (map ((!) (ak_pks ak)) ids)"
    using len by (intro collect_map) simp
  have c2: "all_checks (\<lambda>id. and_then (index (ak_pks ak) id) (\<lambda>pk. Ok (pk \<noteq> 0))) ids = Ok True
      \<longleftrightarrow> (\<forall>i \<in> set ids. ak_pks ak ! i \<noteq> 0)"
    using len by (simp add: all_checks_eq_True)
  have "\<not> list_ex (\<lambda>id. id \<ge> ak_n ak - 1) ids" using assms(5) by (auto simp: list_ex_iff)
  then show ?thesis
    using assms unfolding partial_verify_batch_def
    by (simp add: c1 c2 valid_key_def batch_admissible_def Let_def successors_eq list_all_iff)
qed

lemma batch_equation:
  assumes "curve_ok E" "length ids = length sigs"
    and "\<And>k. k < length ids \<Longrightarrow> ak_pks ak ! (ids ! k) = in_g1 E (s k)"
    and "\<And>k. k < length sigs \<Longrightarrow> sigs ! k = in_g2 E (t k)" "h = in_g2 E a"
  shows "pairing E (g1_msm_unchecked E (map ((!) (ak_pks ak)) ids) (map (\<lambda>i. r ^ i) [0..<length sigs])) h
      = pairing E (g1_generator E) (g2_msm_unchecked E sigs (map (\<lambda>i. r ^ i) [0..<length sigs]))
    \<longleftrightarrow> peval (map (\<lambda>k. t k - s k * a) [0..<length sigs]) r = 0"
proof -
  note msm = curve_okD(5) [OF assms(1), unfolded msm_ok_def]
  have g1: "g1_msm_unchecked E (map ((!) (ak_pks ak)) ids) (map (\<lambda>i. r ^ i) [0..<length sigs])
      = in_g1 E (\<Sum>k<length sigs. s k * r ^ k)"
    using msm assms(2,3) by (simp add: sum_list_map_zip exponent_simps [OF assms(1)] in_group_sum [OF assms(1)])
  have g2: "g2_msm_unchecked E sigs (map (\<lambda>i. r ^ i) [0..<length sigs])
      = in_g2 E (\<Sum>k<length sigs. t k * r ^ k)"
    using msm assms(4) by (simp add: sum_list_map_zip exponent_simps [OF assms(1)] in_group_sum [OF assms(1)])
  have "peval (map (\<lambda>k. t k - s k * a) [0..<length sigs]) r
      = (\<Sum>k<length sigs. t k * r ^ k) - (\<Sum>k<length sigs. s k * r ^ k) * a"
    by (simp add: peval_conv_sum sum_distrib_left algebra_simps sum_subtractf)
  then show ?thesis
    using assms(5) by (auto simp: g1 g2 in_group_arith(9) [OF assms(1)] exponent_simps [OF assms(1)])
qed

lemma few_roots:
  fixes p :: "'f::field list"
  assumes "\<not> pzero p"
  shows "finite {x. peval p x = 0}" and "card {x. peval p x = 0} < length p"
proof -
  have small: "card S < length p" if "finite S" "S \<subseteq> {x. peval p x = 0}" for S
    using roots_bound [of S p] assms that by fastforce
  show fin: "finite {x. peval p x = 0}"
  proof (rule ccontr)
    assume "infinite {x. peval p x = 0}"
    then obtain S where "S \<subseteq> {x. peval p x = 0}" "finite S" "card S = length p"
      by (metis infinite_arbitrarily_large)
    then show False using small by fastforce
  qed
  show "card {x. peval p x = 0} < length p" using small [OF fin] by simp
qed


lemma batch_guards:
  assumes "partial_verify_batch E r msg ak ids sigs = Ok b"
  shows "valid_key ak" "length ids = length sigs" "ids \<noteq> []" "\<forall>i \<in> set ids. i < ak_n ak - 1"
  using assms by (auto simp: partial_verify_batch_def valid_key_def list_ex_iff split: if_splits)

lemma batch_hash:
  assumes "partial_verify_batch E r msg ak ids sigs = Ok True"
  obtains h where "hash_to_g2 E msg = Ok h"
  using assms by (auto simp: partial_verify_batch_def Let_def split: if_splits)

lemma ex_exponents:
  assumes "curve_ok E"
  obtains s t where "\<And>k. P k = in_g1 E (s k)" "\<And>k. Q k = in_g2 E (t k)"
proof -
  have "\<exists>s. \<forall>k. P k = in_g1 E (s k)" "\<exists>t. \<forall>k. Q k = in_g2 E (t k)"
    using ex_in_g1 [OF assms] ex_in_g2 [OF assms] by (auto intro: choice)
  then show thesis using that by blast
qed

lemma batch_complete:
  assumes cur: "curve_ok E" and len: "length ids = length sigs" and ne: "ids \<noteq> []"
    and ver: "\<And>k. k < length ids \<Longrightarrow> partial_verify E msg ak (ids ! k) (sigs ! k) = Ok True"
  shows "partial_verify_batch E r msg ak ids sigs = Ok True"
proof -
  have 0: "0 < length ids" using ne by simp
  have vk: "valid_key ak" using partial_verify_range [OF ver [OF 0]] by simp
  have rng: "ids ! k < ak_n ak - 1" if "k < length ids" for k
    using partial_verify_range [OF ver [OF that]] by simp
  obtain h where h: "hash_to_g2 E msg = Ok h"
    using ver [OF 0] by (auto simp: partial_verify_def Let_def split: if_splits)
  obtain a where a: "h = in_g2 E a" using ex_in_g2 [OF cur] by blast
  obtain s t where st: "\<And>k. ak_pks ak ! (ids ! k) = in_g1 E (s k)" "\<And>k. sigs ! k = in_g2 E (t k)"
    using ex_exponents [OF cur, of "\<lambda>k. ak_pks ak ! (ids ! k)" "\<lambda>k. sigs ! k"] by blast
  have eq: "s k \<noteq> 0 \<and> h \<noteq> 0 \<and> sigs ! k = g2_mul E h (s k)" if "k < length ids" for k
    using partial_verify_iff [OF cur vk rng [OF that] h st(1)] ver [OF that] by simp
  then have t: "t k = s k * a" if "k < length ids" for k
    using that st(2) [of k] by (simp add: a exponent_simps [OF cur] mult.commute)
  have "pairing E (g1_msm_unchecked E (map ((!) (ak_pks ak)) ids) (map (\<lambda>i. r ^ i) [0..<length sigs])) h
      = pairing E (g1_generator E) (g2_msm_unchecked E sigs (map (\<lambda>i. r ^ i) [0..<length sigs]))"
    unfolding batch_equation [OF cur len st a]
    using t len by (intro peval_pzero) (simp add: pzero_def)
  moreover have "ak_pks ak ! i \<noteq> 0" if "i \<in> set ids" for i
    using that eq st(1) by (auto simp: in_set_conv_nth exponent_simps [OF cur])
  moreover have "sig \<noteq> 0" if sig: "sig \<in> set sigs" for sig
  proof -
    obtain k where k: "k < length ids" "sig = sigs ! k" using sig len by (auto simp: in_set_conv_nth)
    then show ?thesis using eq [OF k(1)] t [OF k(1)] st(2) [of k] by (auto simp: a exponent_simps [OF cur])
  qed
  moreover have all: "\<forall>i \<in> set ids. i < ak_n ak - 1" using rng by (auto simp: in_set_conv_nth)
  ultimately show ?thesis
    using batch_reduces [OF vk h len ne all] vk len ne by (simp add: batch_admissible_def)
qed

lemma batch_sound:
  fixes E :: "('f::field, 'g1::ab_group_add, 'g2::ab_group_add, 'gt::ab_group_add, 'rng) ark"
  assumes cur: "curve_ok E" and k: "k < length sigs"
    and bad: "partial_verify E msg ak (ids ! k) (sigs ! k) \<noteq> Ok True"
  shows "finite {r. partial_verify_batch E r msg ak ids sigs = Ok True} \<and>
    card {r. partial_verify_batch E r msg ak ids sigs = Ok True} < length sigs"
proof (cases "\<exists>r. partial_verify_batch E r msg ak ids sigs = Ok True")
  case False
  then show ?thesis using k by auto
next
  case True
  then obtain r0 where r0: "partial_verify_batch E r0 msg ak ids sigs = Ok True" by blast
  note g = batch_guards [OF r0]
  obtain h where h: "hash_to_g2 E msg = Ok h" using batch_hash [OF r0] by blast
  obtain a where a: "h = in_g2 E a" using ex_in_g2 [OF cur] by blast
  obtain s t where st: "\<And>k. ak_pks ak ! (ids ! k) = in_g1 E (s k)" "\<And>k. sigs ! k = in_g2 E (t k)"
    using ex_exponents [OF cur, of "\<lambda>k. ak_pks ak ! (ids ! k)" "\<lambda>k. sigs ! k"] by blast
  let ?p = "map (\<lambda>k. t k - s k * a) [0..<length sigs]"
  have kk: "ids ! k < ak_n ak - 1" "ids ! k \<in> set ids" using g(2,4) k by auto
  have adm: "batch_admissible ak ids sigs"
    and sub: "{r. partial_verify_batch E r msg ak ids sigs = Ok True} \<subseteq> {r. peval ?p r = 0}"
    using batch_reduces [OF g(1) h g(2-4)] batch_equation [OF cur g(2) st a] r0 by auto
  have "\<not> pzero ?p"
  proof
    assume "pzero ?p"
    then have "t k = s k * a" using k by (simp add: pzero_def)
    moreover have "sigs ! k \<noteq> 0" "ak_pks ak ! (ids ! k) \<noteq> 0"
      using adm k kk(2) by (auto simp: batch_admissible_def)
    ultimately have "partial_verify E msg ak (ids ! k) (sigs ! k) = Ok True"
      using partial_verify_iff [OF cur g(1) kk(1) h st(1)] st
      by (auto simp: a exponent_simps [OF cur] mult.commute)
    then show False using bad by simp
  qed
  from few_roots [OF this] show ?thesis
    using card_mono [OF _ sub] finite_subset [OF sub] by fastforce
qed

end
