(* ===== verification/Transcript.thy ===== *)
theory Transcript
  imports HintsUtils
begin

text \<open>
  The module \<^verbatim>\<open>transcript.rs\<close>: the append-only Fiat-Shamir transcript. Its interface, a content that
  grows by the absorbed encodings and challenges that depend on the content and the domain
  separator only, is the locale \<open>growing_transcript\<close>; the rounds of the threshold signature are its
  client.
\<close>

record transcript =
  tr_bytes :: bytes

definition transcript_new :: transcript where
  "transcript_new = \<lparr>tr_bytes = []\<rparr>"

text \<open>\<open>absorb\<close> takes the outcome of serializing its item.\<close>

definition absorb :: "transcript \<Rightarrow> (bytes, serialization_error) result \<Rightarrow> (transcript, hints_error) result" where
  "absorb t item = and_then (from_serialization_error item) (\<lambda>bs. Ok (t\<lparr>tr_bytes := tr_bytes t @ bs\<rparr>))"

definition transcript_challenge :: "('f, 'g1, 'g2, 'gt, 'rng) ark \<Rightarrow> transcript \<Rightarrow> bytes \<Rightarrow> 'f" where
  "transcript_challenge E t dst = hash_to_field E dst (tr_bytes t)"

fun absorb_all :: "transcript \<Rightarrow> (bytes, serialization_error) result list \<Rightarrow> (transcript, hints_error) result" where
  "absorb_all t [] = Ok t"
| "absorb_all t (item # items) = and_then (absorb t item) (\<lambda>t'. absorb_all t' items)"

section \<open>The interface\<close>

locale growing_transcript =
  fixes new :: 't
    and push :: "'t \<Rightarrow> (bytes, 'd) result \<Rightarrow> ('t, 'e) result"
    and content :: "'t \<Rightarrow> bytes"
    and draw :: "'t \<Rightarrow> bytes \<Rightarrow> 'f"
    and ro :: "bytes \<Rightarrow> bytes \<Rightarrow> 'f"
  assumes content_new: "content new = []"
    and push_ok: "(\<exists>t'. push t item = Ok t') \<longleftrightarrow> (\<exists>bs. item = Ok bs)"
    and content_push: "push t (Ok bs) = Ok t' \<Longrightarrow> content t' = content t @ bs"
    and draw_oracle: "draw t dst = ro dst (content t)"
begin

fun push_all :: "'t \<Rightarrow> (bytes, 'd) result list \<Rightarrow> ('t, 'e) result" where
  "push_all t [] = Ok t"
| "push_all t (item # items) = and_then (push t item) (\<lambda>t'. push_all t' items)"

lemma push_all_content:
  "push_all t items = Ok t' \<Longrightarrow>
   \<exists>bss. items = map Ok bss \<and> content t' = content t @ concat bss"
proof (induction items arbitrary: t)
  case (Cons item items)
  then obtain t1 where t1: "push t item = Ok t1" "push_all t1 items = Ok t'" by auto
  then obtain bs where bs: "item = Ok bs" using push_ok by blast
  with t1 have "content t1 = content t @ bs" using content_push by blast
  moreover obtain bss where "items = map Ok bss" "content t' = content t1 @ concat bss"
    using Cons.IH [OF t1(2)] by blast
  ultimately have "item # items = map Ok (bs # bss) \<and> content t' = content t @ concat (bs # bss)"
    using bs by simp
  then show ?case by (rule exI)
qed auto

lemma push_all_total: "(\<And>item. item \<in> set items \<Longrightarrow> is_ok item) \<Longrightarrow> \<exists>t'. push_all t items = Ok t'"
proof (induction items arbitrary: t)
  case (Cons item items)
  then have "\<exists>t1. push t item = Ok t1" using push_ok by (simp add: is_ok_iff)
  then obtain t1 where "push t item = Ok t1" by blast
  then show ?case using Cons by simp
qed simp

text \<open>A challenge is the random oracle at the concatenation of everything absorbed.\<close>

lemma draw_after:
  "push_all new items = Ok t \<Longrightarrow> \<exists>bss. items = map Ok bss \<and> draw t dst = ro dst (concat bss)"
  using push_all_content [of new items t] by (auto simp: draw_oracle content_new)

end

interpretation tr: growing_transcript transcript_new absorb tr_bytes "transcript_challenge E" "hash_to_field E"
  for E :: "('f, 'g1, 'g2, 'gt, 'rng) ark"
  by unfold_locales (auto simp: transcript_new_def absorb_def transcript_challenge_def)

lemma absorb_all_eq: "absorb_all = tr.push_all"
proof (intro ext)
  fix t items show "absorb_all t items = tr.push_all t items"
    by (induction t items rule: absorb_all.induct) auto
qed

section \<open>Fixed-width items\<close>

text \<open>
  A sequence of items of known widths is determined by the concatenation of its encodings, so a
  challenge binds every item absorbed before it.
\<close>

lemma concat_fixed_width_inj:
  "map length xss = map length yss \<Longrightarrow> concat xss = concat yss \<Longrightarrow> xss = yss"
proof (induction xss arbitrary: yss)
  case (Cons xs xss)
  then obtain ys yss' where "yss = ys # yss'" by (cases yss) auto
  with Cons show ?case by auto
qed auto

end
