(* ===== verification/HintsAggregate.thy ===== *)
theory HintsAggregate
  imports HintsSign Transcript
begin

text \<open>
  Aggregation of partial signatures in \<^verbatim>\<open>hints.rs\<close>: the witness (bitmap, running sums, aggregate
  values), the prover of the four relations with its three Fiat-Shamir rounds, and \<open>aggregate\<close>. The
  lemmas give the witness of an honest aggregator in closed form, the signature \<open>prove\<close> emits for
  any witness in the exponent, and the exact condition under which the merged relation divides.
\<close>

section \<open>Data\<close>

record ('f, 'g1, 'g2) threshold_signature =
  agg_pk :: 'g1
  agg_weight :: 'f
  agg_sig :: 'g2
  b_of_tau_com :: 'g1
  qx_of_tau_com :: 'g1
  qx_of_tau_mul_tau_com :: 'g1
  qz_of_tau_com :: 'g1
  parsum_of_tau_com :: 'g1
  q_mrg_of_tau_com :: 'g1
  opening_proof_r :: 'g1
  opening_proof_r_div_omega :: 'g1
  parsum_of_r :: 'f
  parsum_of_r_div_omega :: 'f
  w_of_r :: 'f
  b_of_r :: 'f
  q_mrg_of_r :: 'f

record ('f, 'g1, 'g2) witness =
  wit_bitmap :: "'f list"
  wit_parsum :: "'f list"
  wit_agg_weight :: 'f
  wit_agg_pk :: 'g1
  wit_agg_sig :: 'g2
  wit_qz_of_tau_com :: 'g1
  wit_qx_of_tau_com :: 'g1
  wit_qx_of_tau_mul_tau_com :: 'g1

section \<open>The witness\<close>

fun running_sums_from :: "'f::field \<Rightarrow> ('f \<times> 'f) list \<Rightarrow> 'f list" where
  "running_sums_from acc [] = []"
| "running_sums_from acc ((w, b) # rest) = (acc + b * w) # running_sums_from (acc + b * w) rest"

definition running_sums :: "'f::field list \<Rightarrow> 'f list \<Rightarrow> 'f list" where
  "running_sums weights bitmap = running_sums_from 0 (zip weights bitmap)"

definition inner_product :: "'g::ab_group_add list \<Rightarrow> 'f::field list \<Rightarrow> 'g" where
  "inner_product elements bitmap =
     foldl (+) 0 (map fst (filter (\<lambda>(e, bit). bit = 1) (zip elements bitmap)))"

definition party_id_msg :: "nat \<Rightarrow> nat \<Rightarrow> string" where
  "party_id_msg i n =
     ''Invalid party ID '' @ fmt_usize i @ '': must be <= n - 2 ('' @ fmt_usize (usize_sub n 2) @ '')''"

definition assemble_witness ::
  "('f::field, 'g1::ab_group_add, 'g2::ab_group_add, 'gt, 'rng) ark \<Rightarrow> ('f, 'g1) aggregation_key
   \<Rightarrow> 'g2 hash_map \<Rightarrow> (('f, 'g1, 'g2) witness, hints_error) result" where
  "assemble_witness E ak partial_signatures =
     (let n = ak_n ak in
      and_then (field_div 1 (of_nat n)) (\<lambda>n_inv.
      and_then (fold_result (\<lambda>i bitmap.
          if i > usize_sub n 2 then Err (InvalidInput (party_id_msg i n))
          else set_index bitmap i 1) (map fst partial_signatures) (replicate n 0)) (\<lambda>bitmap0.
      let aggw = foldl (\<lambda>acc (b, w). acc + b * w) 0 (zip bitmap0 (ak_weights ak)) in
      and_then (set_index bitmap0 (usize_sub n 1) 1) (\<lambda>bitmap.
      and_then (set_index (ak_weights ak) (usize_sub n 1) (0 - aggw)) (\<lambda>weights.
      let parsum = running_sums weights bitmap;
          apk = g1_mul E (inner_product (ak_pks ak) bitmap) n_inv;
          asig = g2_mul E (add_points (map snd partial_signatures)) n_inv
      in Ok \<lparr>wit_bitmap = bitmap, wit_parsum = parsum, wit_agg_weight = aggw, wit_agg_pk = apk,
             wit_agg_sig = asig,
             wit_qz_of_tau_com = inner_product (ak_qz_terms ak) bitmap,
             wit_qx_of_tau_com = inner_product (ak_qx_terms ak) bitmap,
             wit_qx_of_tau_mul_tau_com = inner_product (ak_qx_mul_tau_terms ak) bitmap\<rparr>)))))"

section \<open>Merging\<close>

definition interpolate ::
  "('f, 'g1, 'g2, 'gt, 'rng) ark \<Rightarrow> 'f list \<Rightarrow> ('f dense_poly, hints_error) result" where
  "interpolate E evals =
     ok_or (CryptographyCatastrophe (domain_msg (length evals)))
       (interpolate_poly_over_mult_subgroup E evals)"

definition merge_polys ::
  "('f::field, 'g1, 'g2, 'gt, 'rng) ark \<Rightarrow> 'f dense_poly list \<Rightarrow> 'f \<Rightarrow> 'f dense_poly" where
  "merge_polys E polys chi = fold (\<lambda>p acc. poly_add E (poly_eval_mult_c acc chi) p) (rev polys) []"

definition merge_scalars :: "'f::field list \<Rightarrow> 'f \<Rightarrow> 'f" where
  "merge_scalars values chi = fold (\<lambda>v acc. acc * chi + v) (rev values) 0"

definition merge_points ::
  "('f::field, 'g1::ab_group_add, 'g2, 'gt, 'rng) ark \<Rightarrow> 'g1 list \<Rightarrow> 'f \<Rightarrow> 'g1" where
  "merge_points E points chi = fold (\<lambda>p acc. g1_mul E acc chi + p) (rev points) 0"

section \<open>The transcript rounds\<close>

definition DST_QUOTIENT_MERGE :: bytes where
  "DST_QUOTIENT_MERGE = ascii_bytes ''HINTS_SIG_BLS12381:FIAT_SHAMIR_V2_QUOTIENT_MERGE''"

definition DST_EVALUATION_POINT :: bytes where
  "DST_EVALUATION_POINT = ascii_bytes ''HINTS_SIG_BLS12381:FIAT_SHAMIR_V2_EVALUATION_POINT''"

definition DST_OPENING_BATCH :: bytes where
  "DST_OPENING_BATCH = ascii_bytes ''HINTS_SIG_BLS12381:FIAT_SHAMIR_V2_OPENING_BATCH''"

text \<open>The derived encoding of a verification key: its fields in order.\<close>

definition ser_verification_key ::
  "('f, 'g1, 'g2, 'gt, 'rng) ark \<Rightarrow> ('f, 'g1, 'g2) verification_key
   \<Rightarrow> (bytes, serialization_error) result" where
  "ser_verification_key E vk =
     and_then (collect id
       [ser_usize E (vk_n vk), ser_f E (vk_total_weight vk), ser_g1 E (vk_g_0 vk), ser_g2 E (vk_h_0 vk),
        ser_g2 E (vk_h_1 vk), ser_g1 E (vk_l_n_minus_1_of_tau_com vk), ser_g1 E (vk_w_of_tau_com vk),
        ser_g2 E (vk_sk_of_tau_com vk), ser_g2 E (vk_z_of_tau_com vk)]) (\<lambda>bss. Ok (concat bss))"

definition absorb_round_1 ::
  "('f, 'g1, 'g2, 'gt, 'rng) ark \<Rightarrow> transcript \<Rightarrow> ('f, 'g1, 'g2) verification_key \<Rightarrow> 'g1 \<Rightarrow> 'f
   \<Rightarrow> 'g1 \<Rightarrow> 'g1 \<Rightarrow> 'g1 \<Rightarrow> 'g1 \<Rightarrow> 'g1 \<Rightarrow> (transcript, hints_error) result" where
  "absorb_round_1 E t vk apk aggw b_com parsum_com qx_com qz_com qx_mul_tau_com =
     absorb_all t [ser_verification_key E vk, ser_g1 E apk, ser_f E aggw, ser_g1 E b_com,
       ser_g1 E parsum_com, ser_g1 E qx_com, ser_g1 E qz_com, ser_g1 E qx_mul_tau_com]"

definition absorb_round_2 ::
  "('f, 'g1, 'g2, 'gt, 'rng) ark \<Rightarrow> transcript \<Rightarrow> 'g1 \<Rightarrow> (transcript, hints_error) result" where
  "absorb_round_2 E t q_mrg_com = absorb_all t [ser_g1 E q_mrg_com]"

definition absorb_round_3 ::
  "('f, 'g1, 'g2, 'gt, 'rng) ark \<Rightarrow> transcript \<Rightarrow> 'f \<Rightarrow> 'f \<Rightarrow> 'f \<Rightarrow> 'f \<Rightarrow> 'f
   \<Rightarrow> (transcript, hints_error) result" where
  "absorb_round_3 E t parsum_r parsum_r_div w_r b_r q_mrg_r =
     absorb_all t [ser_f E parsum_r, ser_f E parsum_r_div, ser_f E w_r, ser_f E b_r, ser_f E q_mrg_r]"

definition derive_challenges ::
  "('f, 'g1, 'g2, 'gt, 'rng) ark \<Rightarrow> ('f, 'g1, 'g2) verification_key
   \<Rightarrow> ('f, 'g1, 'g2) threshold_signature \<Rightarrow> ('f \<times> 'f \<times> 'f, hints_error) result" where
  "derive_challenges E vk pi_sig =
     and_then (absorb_round_1 E transcript_new vk (agg_pk pi_sig) (agg_weight pi_sig)
         (b_of_tau_com pi_sig) (parsum_of_tau_com pi_sig) (qx_of_tau_com pi_sig)
         (qz_of_tau_com pi_sig) (qx_of_tau_mul_tau_com pi_sig)) (\<lambda>t1.
     let chi_q = transcript_challenge E t1 DST_QUOTIENT_MERGE in
     and_then (absorb_round_2 E t1 (q_mrg_of_tau_com pi_sig)) (\<lambda>t2.
     let r = transcript_challenge E t2 DST_EVALUATION_POINT in
     and_then (absorb_round_3 E t2 (parsum_of_r pi_sig) (parsum_of_r_div_omega pi_sig)
         (w_of_r pi_sig) (b_of_r pi_sig) (q_mrg_of_r pi_sig)) (\<lambda>t3.
     let chi_op = transcript_challenge E t3 DST_OPENING_BATCH in
     Ok (chi_q, r, chi_op))))"

section \<open>The prover\<close>

definition merged_relation ::
  "('f::field, 'g1, 'g2, 'gt, 'rng) ark \<Rightarrow> 'f dense_poly \<Rightarrow> 'f dense_poly \<Rightarrow> 'f dense_poly
   \<Rightarrow> 'f dense_poly \<Rightarrow> 'f dense_poly \<Rightarrow> 'f \<Rightarrow> 'f \<Rightarrow> 'f dense_poly" where
  "merged_relation E l_n_minus_1_of_x b_of_x psw_of_x psw_of_x_div_omega w_of_x aggw chi_q =
     (let w_adj_of_x = poly_sub E w_of_x (poly_eval_mult_c l_n_minus_1_of_x aggw);
          one = compute_constant_poly 1;
          p1_of_x = poly_sub E (poly_sub E psw_of_x psw_of_x_div_omega) (poly_mul E w_adj_of_x b_of_x);
          p2_of_x = poly_sub E (poly_mul E b_of_x b_of_x) b_of_x;
          p3_of_x = poly_mul E l_n_minus_1_of_x psw_of_x;
          p4_of_x = poly_mul E l_n_minus_1_of_x (poly_sub E b_of_x one)
      in merge_polys E [p1_of_x, p2_of_x, p3_of_x, p4_of_x] chi_q)"

definition prove ::
  "('f::field, 'g1, 'g2, 'gt, 'rng) ark \<Rightarrow> ('g1, 'g2) universal_params \<Rightarrow> ('f, 'g1) aggregation_key
   \<Rightarrow> ('f, 'g1, 'g2) verification_key \<Rightarrow> ('f, 'g1, 'g2) witness
   \<Rightarrow> (('f, 'g1, 'g2) threshold_signature \<times> bool, hints_error) result" where
  "prove E crs ak vk wit =
     (let n = ak_n ak in
      and_then (ok_or (CryptographyCatastrophe (domain_msg n)) (domain_group_gen E n)) (\<lambda>omega.
      and_then (interpolate E (wit_bitmap wit)) (\<lambda>b_of_x.
      and_then (interpolate E (wit_parsum wit)) (\<lambda>psw_of_x.
      and_then (interpolate E (ak_weights ak)) (\<lambda>w_of_x.
      and_then (lagrange_or_err E n (usize_sub n 1) (lagrange_i_msg (usize_sub n 1) n)) (\<lambda>l_n_minus_1_of_x.
      and_then (commit_g1 E crs b_of_x) (\<lambda>b_com.
      and_then (commit_g1 E crs psw_of_x) (\<lambda>parsum_com.
      and_then (absorb_round_1 E transcript_new vk (wit_agg_pk wit) (wit_agg_weight wit) b_com parsum_com
          (wit_qx_of_tau_com wit) (wit_qz_of_tau_com wit) (wit_qx_of_tau_mul_tau_com wit)) (\<lambda>t1.
      let chi_q = transcript_challenge E t1 DST_QUOTIENT_MERGE in
      and_then (field_div 1 omega) (\<lambda>omega_inv.
      and_then (poly_domain_mult_omega E psw_of_x omega_inv) (\<lambda>psw_of_x_div_omega.
      let p_mrg_of_x = merged_relation E l_n_minus_1_of_x b_of_x psw_of_x psw_of_x_div_omega w_of_x
            (wit_agg_weight wit) chi_q;
          (q_mrg_of_x, remainder) = divide_by_vanishing E p_mrg_of_x n;
          exact = list_all (\<lambda>c. c = 0) remainder in
      and_then (commit_g1 E crs q_mrg_of_x) (\<lambda>q_mrg_com.
      and_then (absorb_round_2 E t1 q_mrg_com) (\<lambda>t2.
      let r = transcript_challenge E t2 DST_EVALUATION_POINT in
      and_then (field_div r omega) (\<lambda>r_div_omega.
      let parsum_r = poly_evaluate E psw_of_x r;
          parsum_r_div = poly_evaluate E psw_of_x r_div_omega;
          w_r = poly_evaluate E w_of_x r;
          b_r = poly_evaluate E b_of_x r;
          q_mrg_r = poly_evaluate E q_mrg_of_x r in
      and_then (absorb_round_3 E t2 parsum_r parsum_r_div w_r b_r q_mrg_r) (\<lambda>t3.
      let chi_op = transcript_challenge E t3 DST_OPENING_BATCH;
          q_of_x = merge_polys E [q_mrg_of_x, psw_of_x, b_of_x, w_of_x] chi_op in
      and_then (compute_opening_proof E crs q_of_x r) (\<lambda>proof_r.
      and_then (compute_opening_proof E crs psw_of_x r_div_omega) (\<lambda>proof_r_div.
      Ok (\<lparr>agg_pk = wit_agg_pk wit, agg_weight = wit_agg_weight wit, agg_sig = wit_agg_sig wit,
           b_of_tau_com = b_com, qx_of_tau_com = wit_qx_of_tau_com wit,
           qx_of_tau_mul_tau_com = wit_qx_of_tau_mul_tau_com wit,
           qz_of_tau_com = wit_qz_of_tau_com wit, parsum_of_tau_com = parsum_com,
           q_mrg_of_tau_com = q_mrg_com, opening_proof_r = proof_r,
           opening_proof_r_div_omega = proof_r_div, parsum_of_r = parsum_r,
           parsum_of_r_div_omega = parsum_r_div, w_of_r = w_r, b_of_r = b_r,
           q_mrg_of_r = q_mrg_r\<rparr>, exact))))))))))))))))))"

definition aggregate ::
  "('f::field, 'g1::ab_group_add, 'g2::ab_group_add, 'gt, 'rng) ark \<Rightarrow> ('g1, 'g2) universal_params
   \<Rightarrow> ('f, 'g1) aggregation_key \<Rightarrow> ('f, 'g1, 'g2) verification_key \<Rightarrow> 'g2 hash_map
   \<Rightarrow> (('f, 'g1, 'g2) threshold_signature, hints_error) result" where
  "aggregate E crs ak vk partial_signatures =
     (let n = ak_n ak in
      if \<not> aggregation_key_is_well_formed ak then Err (InvalidInput (malformed_key_msg n))
      else if \<not> crs_supports crs n then Err (InsufficientCRS n)
      else if \<not> is_n_valid n then Err (InvalidNetworkSize n)
      else
        and_then (assemble_witness E ak partial_signatures) (\<lambda>wit.
        and_then (prove E crs ak vk wit) (\<lambda>(pi_sig, exact).
        if \<not> exact
        then Err (InvalidInput ''aggregation inputs do not satisfy the hinTS relations'')
        else Ok pi_sig)))"


section \<open>The witness in closed form\<close>

lemma running_sums_from_eq:
  "running_sums_from acc xs = map (\<lambda>i. acc + (\<Sum>k\<le>i. snd (xs ! k) * fst (xs ! k))) [0..<length xs]"
proof (induction acc xs rule: running_sums_from.induct)
  case (2 acc w b rest)
  have "[0..<length ((w, b) # rest)] = 0 # map Suc [0..<length rest]"
    by (metis length_Cons map_Suc_upt upt_conv_Cons zero_less_Suc)
  moreover have "(\<Sum>k\<le>Suc i. snd (((w, b) # rest) ! k) * fst (((w, b) # rest) ! k))
      = b * w + (\<Sum>k\<le>i. snd (rest ! k) * fst (rest ! k))" for i
    by (subst sum.atMost_Suc_shift) simp
  ultimately show ?case using 2 by (simp add: comp_def ac_simps del: sum.atMost_Suc upt_Suc)
qed simp

lemma running_sums_eq:
  assumes "length ws = n" "length bs = n"
  shows "running_sums ws bs = map (\<lambda>i. \<Sum>k\<le>i. bs ! k * ws ! k) [0..<n]"
  unfolding running_sums_def running_sums_from_eq
  using assms by (auto intro!: sum.cong)

lemma inner_product_eq:
  assumes "length xs = n" "length bs = n"
  shows "inner_product xs bs = (\<Sum>i<n. if bs ! i = 1 then xs ! i else 0)"
proof -
  have "inner_product xs bs = (\<Sum>(e, bit)\<leftarrow>zip xs bs. if bit = 1 then e else 0)"
    unfolding inner_product_def foldl_add_eq
    by (simp add: sum_list_map_filter' [symmetric] split_def)
  then show ?thesis using assms by (simp add: sum_list_map_zip)
qed

definition signer_bit :: "nat set \<Rightarrow> nat \<Rightarrow> nat \<Rightarrow> 'f::field" where
  "signer_bit S n i = (if i \<in> S \<or> i = n - 1 then 1 else 0)"

text \<open>The witness of an honest aggregator, for the set \<open>S\<close> of parties that signed.\<close>

definition witness_of ::
  "('f::field, 'g1::ab_group_add, 'g2::ab_group_add, 'gt, 'rng) ark \<Rightarrow> ('f, 'g1) aggregation_key
   \<Rightarrow> nat set \<Rightarrow> 'g2 \<Rightarrow> ('f, 'g1, 'g2) witness" where
  "witness_of E ak S sig_sum =
     (let n = ak_n ak;
          bit = signer_bit S n;
          aggw = (\<Sum>i\<in>S. ak_weights ak ! i);
          select = (\<lambda>xs. \<Sum>i\<in>insert (n - 1) S. xs ! i)
      in \<lparr>wit_bitmap = map bit [0..<n],
          wit_parsum = map (\<lambda>i. \<Sum>k\<le>i. bit k * (if k = n - 1 then - aggw else ak_weights ak ! k)) [0..<n],
          wit_agg_weight = aggw,
          wit_agg_pk = g1_mul E (select (ak_pks ak)) (1 / of_nat n),
          wit_agg_sig = g2_mul E sig_sum (1 / of_nat n),
          wit_qz_of_tau_com = select (ak_qz_terms ak),
          wit_qx_of_tau_com = select (ak_qx_terms ak),
          wit_qx_of_tau_mul_tau_com = select (ak_qx_mul_tau_terms ak)\<rparr>)"

lemma bitmap_loop:
  assumes "2 \<le> n" "\<And>i. i \<in> set ks \<Longrightarrow> i \<le> n - 2"
  shows "fold_result (\<lambda>i bitmap. if i > usize_sub n 2 then Err (InvalidInput (party_id_msg i n))
      else set_index bitmap i (1 :: 'f::field)) ks (map f [0..<n])
    = Ok (map (\<lambda>i. if i \<in> set ks then 1 else f i) [0..<n])"
  using assms(2)
proof (induction ks arbitrary: f)
  case (Cons k ks)
  have "(map f [0..<n])[k := 1] = map (f(k := 1)) [0..<n]"
    using Cons.prems [of k] assms(1) by (intro nth_equalityI) (auto simp: nth_list_update)
  then show ?case
    using Cons.IH [of "f(k := 1)"] Cons.prems assms(1)
    by (fastforce simp: fun_upd_def intro!: map_cong)
qed simp

lemma bitmap_loop_rejects:
  assumes "2 \<le> n" "i \<in> set ks" "i > n - 2" "length bitmap = n"
  shows "\<exists>j \<in> set ks. j > n - 2 \<and> fold_result (\<lambda>i bitmap.
      if i > usize_sub n 2 then Err (InvalidInput (party_id_msg i n))
      else set_index bitmap i (1 :: 'f::field)) ks bitmap = Err (InvalidInput (party_id_msg j n))"
  using assms(2,4)
proof (induction ks arbitrary: bitmap)
  case (Cons k ks)
  show ?case
  proof (cases "k > n - 2")
    case False
    then have "i \<in> set ks" using Cons.prems assms(3) by auto
    then show ?thesis using Cons.IH [of "bitmap[k := 1]"] Cons.prems False assms(1) by auto
  qed (use assms(1) in simp)
qed simp

lemma select_bits:
  fixes x :: "nat \<Rightarrow> 'a::comm_monoid_add"
  assumes "S \<subseteq> {..<n - 1}" "0 < n"
  shows "(\<Sum>i<n. if signer_bit S n i = (1 :: 'f::field) then x i else 0) = (\<Sum>i\<in>insert (n - 1) S. x i)"
proof -
  have "{i. i < n \<and> signer_bit S n i = (1 :: 'f)} = insert (n - 1) S"
    using assms by (auto simp: signer_bit_def split: if_splits)
  then show ?thesis by (simp add: sum.inter_filter [symmetric])
qed

lemma assemble_witness_eq:
  fixes E :: "('f::field, 'g1::ab_group_add, 'g2::ab_group_add, 'gt, 'rng) ark"
  assumes wf: "aggregation_key_is_well_formed ak" and n: "2 \<le> ak_n ak" "(of_nat (ak_n ak) :: 'f) \<noteq> 0"
    and keys: "\<And>i. i \<in> fst ` set ps \<Longrightarrow> i < ak_n ak - 1"
  shows "assemble_witness E ak ps = Ok (witness_of E ak (fst ` set ps) (sum_list (map snd ps)))"
proof -
  let ?n = "ak_n ak" and ?S = "fst ` set ps"
  let ?raw = "map (\<lambda>i. if i \<in> ?S then 1 else 0 :: 'f) [0..<?n]"
  let ?bits = "map (signer_bit ?S ?n :: _ \<Rightarrow> 'f) [0..<?n]"
  note len = wf [unfolded aggregation_key_is_well_formed_def]
  have S: "?S \<subseteq> {..<?n - 1}" using keys by auto
  have fin: "finite ?S" by simp
  have ks: "i \<le> ?n - 2" if "i \<in> set (map fst ps)" for i
    using keys [of i] that by (simp add: image_iff)
  have bl: "fold_result (\<lambda>i bitmap. if i > usize_sub ?n 2 then Err (InvalidInput (party_id_msg i ?n))
      else set_index bitmap i (1 :: 'f)) (map fst ps) (replicate ?n 0) = Ok ?raw"
    using bitmap_loop [OF n(1) ks, of "map fst ps" "\<lambda>i. 0"] by (simp add: map_replicate_const)
  have upd: "?raw[?n - 1 := 1] = ?bits"
    using n(1) by (intro nth_equalityI) (auto simp: nth_list_update signer_bit_def)
  have "foldl (\<lambda>acc (b, w). acc + b * w) 0 (zip ?raw (ak_weights ak))
      = (\<Sum>(b, w)\<leftarrow>zip ?raw (ak_weights ak). b * w)"
    using foldl_add_eq [of 0 "map (\<lambda>(b, w). b * w) (zip ?raw (ak_weights ak))"]
    by (simp add: foldl_map split_def)
  also have "\<dots> = (\<Sum>i<?n. (if i \<in> ?S then ak_weights ak ! i else 0))"
    using len by (subst sum_list_map_zip) (auto intro!: sum.cong)
  also have "\<dots> = (\<Sum>i\<in>?S. ak_weights ak ! i)"
    using S by (simp add: sum.inter_filter [symmetric]) (rule sum.cong; auto)
  finally have aggw: "foldl (\<lambda>acc (b, w). acc + b * w) 0 (zip ?raw (ak_weights ak))
      = (\<Sum>i\<in>?S. ak_weights ak ! i)" .
  have sel: "inner_product xs ?bits = (\<Sum>i\<in>insert (?n - 1) ?S. xs ! i)"
    if "length xs = ?n" for xs :: "'h::ab_group_add list"
    using inner_product_eq [OF that, of ?bits] select_bits [OF S, where x = "\<lambda>i. xs ! i" and 'f = 'f] n(1)
    by simp
  have ps: "running_sums ((ak_weights ak)[?n - 1 := 0 - a]) ?bits
      = map (\<lambda>i. \<Sum>k\<le>i. signer_bit ?S ?n k * (if k = ?n - 1 then - a else ak_weights ak ! k)) [0..<?n]" for a
    using len by (subst running_sums_eq [where n = ?n]) (auto intro!: sum.cong simp: nth_list_update)
  have idx: "usize_sub ?n 1 = ?n - 1" "field_div 1 (of_nat ?n :: 'f) = Ok (1 / of_nat ?n)"
    "set_index ?raw (?n - 1) 1 = Ok ?bits"
    "set_index (ak_weights ak) (?n - 1) a = Ok ((ak_weights ak)[?n - 1 := a])" for a
    using n len by (simp_all flip: upd)
  show ?thesis
    unfolding assemble_witness_def Let_def witness_of_def idx bl and_then.simps aggw ps
    using len by (simp add: sel [simplified] add_points_eq)
qed


section \<open>Merging is evaluation at the challenge\<close>

lemma merge_scalars_eq: "merge_scalars vs chi = peval vs chi"
  unfolding merge_scalars_def by (induction vs) (simp_all add: algebra_simps)

lemma merge_points_eq:
  assumes "curve_ok E"
  shows "merge_points E (map (in_g1 E) vs) chi = in_g1 E (peval vs chi)"
  unfolding merge_points_def
  by (induction vs) (simp_all add: exponent_simps [OF assms] algebra_simps in_group_arith(7) [OF assms])

lemma merge_polys_eq:
  assumes "poly_ok E" "\<And>p. p \<in> set ps \<Longrightarrow> pwf p \<and> length p \<le> m"
  shows "pwf (merge_polys E ps chi) \<and> length (merge_polys E ps chi) \<le> m \<and>
    (\<forall>x. peval (merge_polys E ps chi) x = peval (map (\<lambda>p. peval p x) ps) chi)"
  using assms(2) unfolding merge_polys_def
proof (induction ps)
  case (Cons p ps)
  let ?acc = "fold (\<lambda>p acc. poly_add E (poly_eval_mult_c acc chi) p) (rev ps) []"
  have IH: "pwf ?acc" "length ?acc \<le> m" "\<And>x. peval ?acc x = peval (map (\<lambda>p. peval p x) ps) chi"
    using Cons by auto
  have p: "pwf p" "length p \<le> m" using Cons.prems by auto
  note laws = poly_laws(1-3) [OF assms(1) pwf_poly_eval_mult_c [OF IH(1)] p(1), of chi]
  show ?case
    using laws IH(2,3) p(2) by (auto simp: poly_eval_mult_c_eval algebra_simps)
qed simp

section \<open>The merged relation\<close>

definition relation_value :: "'f::field \<Rightarrow> 'f \<Rightarrow> 'f \<Rightarrow> 'f \<Rightarrow> 'f \<Rightarrow> 'f \<Rightarrow> 'f \<Rightarrow> 'f" where
  "relation_value l b ps ps_prev wv aggw chi =
     peval [ps - ps_prev - (wv - aggw * l) * b, b * b - b, l * ps, l * (b - 1)] chi"

text \<open>The value at \<open>x\<close> of the polynomial that interpolates a vector over the domain.\<close>

definition vec_eval :: "nat \<Rightarrow> 'f::field \<Rightarrow> 'f list \<Rightarrow> 'f \<Rightarrow> 'f" where
  "vec_eval n w v x = (\<Sum>i<n. v ! i * lagrange n w i x)"

lemma vec_eval_at_point:
  assumes "primitive_root n w" "of_nat n \<noteq> (0 :: 'f::field)" "i < n"
  shows "vec_eval n w v (w ^ i :: 'f) = v ! i"
proof -
  have "vec_eval n w v (w ^ i) = (\<Sum>k<n. if k = i then v ! i else 0)"
    unfolding vec_eval_def using assms by (intro sum.cong) (auto simp: lagrange_at_point)
  then show ?thesis using assms(3) by simp
qed

lemma previous_point:
  assumes "primitive_root n w" "i < n"
  shows "w ^ i / w = w ^ (if i = 0 then n - 1 else i - 1)"
proof -
  have w: "w \<noteq> 0" "w ^ n = 1" "0 < n"
    using assms primitive_root_nonzero [OF assms(1)] by (simp_all add: primitive_root_def)
  have "w ^ (n - 1) * w = 1" using w by (metis Suc_diff_1 power_Suc2)
  then have "1 / w = w ^ (n - 1)" using w by (simp add: field_simps)
  then show ?thesis using w by (auto simp: power_diff)
qed

lemma setting_interpolate:
  fixes E :: "('f::field, 'g1::ab_group_add, 'g2::ab_group_add, 'gt::ab_group_add, 'rng) ark"
  assumes "hints_setting E crs tau n w" "length v = n"
  obtains p where "interpolate E v = Ok p" "pwf p" "length p \<le> n" "\<And>x. peval p x = vec_eval n w v x"
proof -
  note st = hints_settingD [OF assms(1)]
  show thesis
  proof (rule that [of "domain_interpolate E v"])
    show "interpolate E v = Ok (domain_interpolate E v)"
      using st(5) assms(2) by (simp add: interpolate_def interpolate_poly_over_mult_subgroup_def)
  qed (use domain_interpolate_laws(1,2) [OF st(8,3,5) assms(2)]
        interpolate_value [OF st(1,3,5) assms(2)] in \<open>simp_all add: vec_eval_def\<close>)
qed

lemma merged_relation_eq:
  assumes "poly_ok E" "1 < n" "pwf L" "pwf b" "pwf ps" "pwf psd" "pwf wp"
    "length L \<le> n" "length b \<le> n" "length ps \<le> n" "length psd \<le> n" "length wp \<le> n"
  shows "pwf (merged_relation E L b ps psd wp aggw chi)"
    "length (merged_relation E L b ps psd wp aggw chi) \<le> 2 * n - 1"
    "peval (merged_relation E L b ps psd wp aggw chi) x
      = relation_value (peval L x) (peval b x) (peval ps x) (peval psd x) (peval wp x) aggw chi"
proof -
  note laws = poly_laws [OF assms(1)]
  let ?wadj = "poly_sub E wp (poly_eval_mult_c L aggw)"
  have wadj: "pwf ?wadj" "length ?wadj \<le> n" "\<And>x. peval ?wadj x = peval wp x - aggw * peval L x"
    using laws(4,6) [OF assms(7) pwf_poly_eval_mult_c [OF assms(3)]]
      laws(5) [OF assms(7) pwf_poly_eval_mult_c [OF assms(3), of aggw]] assms(8,12)
    by (simp_all add: poly_eval_mult_c_eval)
  let ?d = "poly_sub E ps psd"
  have d: "pwf ?d" "length ?d \<le> n" "\<And>x. peval ?d x = peval ps x - peval psd x"
    using laws(4-6) [OF assms(5,6)] assms(10,11) by simp_all
  note wb = laws(7-9) [OF wadj(1) assms(4)] and bb = laws(7-9) [OF assms(4,4)]
  note p1 = laws(4-6) [OF d(1) wb(1)] and p2 = laws(4-6) [OF bb(1) assms(4)]
  note p3 = laws(7-9) [OF assms(3,5)] and b1 = laws(4-6) [OF assms(4) pwf_constant [of 1]]
  note p4 = laws(7-9) [OF assms(3) b1(1)]
  let ?ps = "[poly_sub E ?d (poly_mul E ?wadj b), poly_sub E (poly_mul E b b) b, poly_mul E L ps,
    poly_mul E L (poly_sub E b (compute_constant_poly 1))]"
  have b1l: "length (poly_sub E b (compute_constant_poly 1)) \<le> n"
    using b1(2) assms(2,9) by simp
  have "pwf p \<and> length p \<le> 2 * n - 1" if "p \<in> set ?ps" for p
    using that p1(1,2) p2(1,2) p3(1,2) p4(1,2) wb(2) bb(2) d(2) wadj(2) b1l assms(2,8-10) by auto
  from merge_polys_eq [OF assms(1) this, of ?ps chi]
  have m: "pwf (merge_polys E ?ps chi)" "length (merge_polys E ?ps chi) \<le> 2 * n - 1"
    "peval (merge_polys E ?ps chi) x = peval (map (\<lambda>p. peval p x) ?ps) chi" by blast+
  have eq: "merged_relation E L b ps psd wp aggw chi = merge_polys E ?ps chi"
    by (simp add: merged_relation_def Let_def)
  show "pwf (merged_relation E L b ps psd wp aggw chi)"
    "length (merged_relation E L b ps psd wp aggw chi) \<le> 2 * n - 1"
    unfolding eq by (rule m)+
  show "peval (merged_relation E L b ps psd wp aggw chi) x
      = relation_value (peval L x) (peval b x) (peval ps x) (peval psd x) (peval wp x) aggw chi"
    unfolding eq m(3) relation_value_def
    by (simp only: list.map p1(3) p2(3) p3(3) p4(3) b1(3) wb(3) bb(3) d(3) wadj(3) constant_poly_eval)
qed


definition relation_at ::
  "nat \<Rightarrow> 'f::field \<Rightarrow> 'f list \<Rightarrow> 'f list \<Rightarrow> 'f list \<Rightarrow> 'f \<Rightarrow> 'f \<Rightarrow> 'f \<Rightarrow> 'f" where
  "relation_at n w bits parsum weights aggw chi x =
     relation_value (lagrange n w (n - 1) x) (vec_eval n w bits x) (vec_eval n w parsum x)
       (vec_eval n w parsum (x / w)) (vec_eval n w weights x) aggw chi"

section \<open>The rounds never fail on well-behaved encodings\<close>

lemma collect_id_total: "(\<And>x. x \<in> set xs \<Longrightarrow> is_ok x) \<Longrightarrow> \<exists>ys. collect id xs = Ok ys"
proof (induction xs)
  case (Cons x xs)
  obtain y where "x = Ok y" using Cons.prems [of x] by (auto simp: is_ok_iff)
  moreover obtain ys where "collect id xs = Ok ys" using Cons.IH Cons.prems by (metis list.set_intros(2))
  ultimately show ?case by (simp add: id_def)
qed simp

lemma encoding_okD:
  assumes "encoding_ok E"
  shows "is_ok (ser_usize E n)" "is_ok (ser_f E a)" "is_ok (ser_g1 E P)" "is_ok (ser_g2 E Q)"
    "is_ok (map_to_g2 E dst msg)"
  using assms by (simp_all add: encoding_ok_def)

lemma ser_verification_key_total: "encoding_ok E \<Longrightarrow> is_ok (ser_verification_key E vk)"
proof -
  assume enc: "encoding_ok E"
  have "\<exists>ys. collect id
       [ser_usize E (vk_n vk), ser_f E (vk_total_weight vk), ser_g1 E (vk_g_0 vk), ser_g2 E (vk_h_0 vk),
        ser_g2 E (vk_h_1 vk), ser_g1 E (vk_l_n_minus_1_of_tau_com vk), ser_g1 E (vk_w_of_tau_com vk),
        ser_g2 E (vk_sk_of_tau_com vk), ser_g2 E (vk_z_of_tau_com vk)] = Ok ys"
    by (rule collect_id_total) (auto simp: encoding_okD [OF enc])
  then obtain ys where "collect id
       [ser_usize E (vk_n vk), ser_f E (vk_total_weight vk), ser_g1 E (vk_g_0 vk), ser_g2 E (vk_h_0 vk),
        ser_g2 E (vk_h_1 vk), ser_g1 E (vk_l_n_minus_1_of_tau_com vk), ser_g1 E (vk_w_of_tau_com vk),
        ser_g2 E (vk_sk_of_tau_com vk), ser_g2 E (vk_z_of_tau_com vk)] = Ok ys" by blast
  then show ?thesis unfolding ser_verification_key_def by (simp only: and_then.simps is_ok_simps)
qed

lemma rounds_total:
  assumes "encoding_ok E"
  shows "\<exists>t'. absorb_round_1 E t vk a b c d e f g = Ok t'" "\<exists>t'. absorb_round_2 E t h = Ok t'"
    "\<exists>t'. absorb_round_3 E t i j k l m = Ok t'"
  unfolding absorb_round_1_def absorb_round_2_def absorb_round_3_def absorb_all_eq
  by (rule tr.push_all_total; auto simp: encoding_okD [OF assms] ser_verification_key_total [OF assms])+

section \<open>The signature of any witness\<close>

lemma quotient_exact:
  assumes "hints_setting E crs tau n w" "pwf P" "divide_by_vanishing E P n = (Q, R)"
  shows "pwf Q" "length Q \<le> length P - n"
    "list_all (\<lambda>c. c = 0) R \<longleftrightarrow> (\<forall>i < n. peval P (w ^ i) = 0)"
    "list_all (\<lambda>c. c = 0) R \<Longrightarrow> peval P x = peval Q x * (x ^ n - 1)"
proof -
  note st = hints_settingD [OF assms(1)] and root = hints_setting_root [OF assms(1)]
  obtain k where k: "n = 2 ^ k" using st(3) by (auto simp: is_n_valid_iff)
  note laws = st(8) [unfolded domain_ok_def, THEN conjunct2, THEN conjunct2, THEN conjunct2,
      rule_format, OF st(5) [unfolded k] assms(2) assms(3) [unfolded k], folded k]
  show "pwf Q" "length Q \<le> length P - n" using laws by blast+
  have div: "peval P y = peval Q y * (y ^ n - 1) + peval R y" and len: "length R \<le> n" for y
    using laws by blast+
  have pz: "list_all (\<lambda>c. c = 0) R \<longleftrightarrow> pzero R" by (simp add: pzero_def list_all_iff)
  show ex: "list_all (\<lambda>c. c = 0) R \<Longrightarrow> peval P x = peval Q x * (x ^ n - 1)" for x
    using div [of x] by (simp add: pz peval_pzero)
  show "list_all (\<lambda>c. c = 0) R \<longleftrightarrow> (\<forall>i < n. peval P (w ^ i) = 0)"
  proof
    assume z: "list_all (\<lambda>c. c = 0) R"
    have "(w ^ i) ^ n = 1" for i
      using root(1) by (metis mult.commute power_mult power_one primitive_root_def)
    then show "\<forall>i < n. peval P (w ^ i) = 0" using ex [OF z] by simp
  next
    assume "\<forall>i < n. peval P (w ^ i) = 0"
    then show "list_all (\<lambda>c. c = 0) R"
      unfolding pz by (intro remainder_zero [OF root(1) len div]) simp
  qed
qed

text \<open>The two computations of \<open>prove\<close> on interpolated polynomials: an opening, and the quotient of the relation.\<close>

lemma setting_opening:
  fixes E :: "('f::field, 'g1::ab_group_add, 'g2::ab_group_add, 'gt::ab_group_add, 'rng) ark"
  assumes "hints_setting E crs tau n w" "pwf p" "length p \<le> n"
  obtains q where "compute_opening_proof E crs p z = Ok (in_g1 E q)" "peval p tau - peval p z = q * (tau - z)"
proof -
  note st = hints_settingD [OF assms(1)]
  have "length p \<le> length (powers_of_g crs)" "0 < length (powers_of_g crs)" using assms(3) st(12) by linarith+
  from compute_opening_proof_value [OF st(6,7,2) assms(2) this] that show thesis by blast
qed

lemma setting_quotient:
  fixes E :: "('f::field, 'g1::ab_group_add, 'g2::ab_group_add, 'gt::ab_group_add, 'rng) ark"
  assumes set: "hints_setting E crs tau n w"
    and L: "pwf L" "length L \<le> n" "\<And>x. peval L x = lagrange n w (n - 1) x"
    and B: "pwf B" "length B \<le> n" "\<And>x. peval B x = vec_eval n w bits x"
    and PS: "pwf PS" "length PS \<le> n" "\<And>x. peval PS x = vec_eval n w parsum x"
    and W: "pwf W" "length W \<le> n" "\<And>x. peval W x = vec_eval n w weights x"
  obtains psd Q R where "(poly_domain_mult_omega E PS (1 / w) :: (_, hints_error) result) = Ok psd"
    "divide_by_vanishing E (merged_relation E L B PS psd W aggw chi) n = (Q, R)" "pwf Q" "length Q \<le> n"
    "list_all (\<lambda>c. c = 0) R \<longleftrightarrow> (\<forall>i < n. relation_at n w bits parsum weights aggw chi (w ^ i) = 0)"
    "\<And>x. list_all (\<lambda>c. c = 0) R \<Longrightarrow> relation_at n w bits parsum weights aggw chi x = peval Q x * (x ^ n - 1)"
proof -
  note st = hints_settingD [OF set]
  have w0: "w \<noteq> 0" by (rule primitive_root_nonzero [OF hints_setting_root(1) [OF set]])
  obtain psd where psd: "(poly_domain_mult_omega E PS (1 / w) :: (_, hints_error) result) = Ok psd" "pwf psd"
    "length psd = length PS" "\<And>x. peval psd x = peval PS (1 / w * x)"
    using poly_domain_mult_omega_correct [OF st(7) PS(1), of "1 / w"] w0 by auto
  have psd_len: "length psd \<le> n" using psd(3) PS(2) by simp
  let ?P = "merged_relation E L B PS psd W aggw chi"
  note P = merged_relation_eq [OF st(7,11) L(1) B(1) PS(1) psd(2) W(1) L(2) B(2) PS(2) psd_len W(2), of aggw chi]
  have Pv: "peval ?P x = relation_at n w bits parsum weights aggw chi x" for x
    unfolding P(3) relation_at_def by (simp add: L(3) B(3) PS(3) psd(4) W(3))
  obtain Q R where QR: "divide_by_vanishing E ?P n = (Q, R)" by (cases "divide_by_vanishing E ?P n")
  note Q = quotient_exact [OF set P(1) QR, unfolded Pv]
  show thesis by (rule that [OF psd(1) QR Q(1) _ Q(3,4)]) (use Q(2) P(2) in simp_all)
qed

text \<open>
  The signature that \<open>prove\<close> emits for a witness, in the exponent: \<open>Q\<close> is the merged quotient, the
  two opening proofs are the quotients of the opened polynomials by \<open>X - r\<close> and \<open>X - r/\<omega>\<close> at \<open>\<tau>\<close>.
\<close>

definition signature_for ::
  "('f::field, 'g1, 'g2, 'gt, 'rng) ark \<Rightarrow> nat \<Rightarrow> 'f \<Rightarrow> 'f \<Rightarrow> 'f list \<Rightarrow> ('f, 'g1, 'g2) witness
   \<Rightarrow> 'f dense_poly \<Rightarrow> 'f \<Rightarrow> 'f \<Rightarrow> ('f, 'g1, 'g2) threshold_signature \<Rightarrow> bool" where
  "signature_for E n w tau weights wit Q r chi_op pi_sig \<longleftrightarrow>
     (let B = vec_eval n w (wit_bitmap wit); PS = vec_eval n w (wit_parsum wit); W = vec_eval n w weights in
      \<exists>op_r op_d.
        pi_sig = \<lparr>agg_pk = wit_agg_pk wit, agg_weight = wit_agg_weight wit, agg_sig = wit_agg_sig wit,
          b_of_tau_com = in_g1 E (B tau),
          qx_of_tau_com = wit_qx_of_tau_com wit, qx_of_tau_mul_tau_com = wit_qx_of_tau_mul_tau_com wit,
          qz_of_tau_com = wit_qz_of_tau_com wit, parsum_of_tau_com = in_g1 E (PS tau),
          q_mrg_of_tau_com = in_g1 E (peval Q tau), opening_proof_r = in_g1 E op_r,
          opening_proof_r_div_omega = in_g1 E op_d, parsum_of_r = PS r,
          parsum_of_r_div_omega = PS (r / w), w_of_r = W r, b_of_r = B r, q_mrg_of_r = peval Q r\<rparr> \<and>
        peval [peval Q tau, PS tau, B tau, W tau] chi_op - peval [peval Q r, PS r, B r, W r] chi_op
          = op_r * (tau - r) \<and>
        PS tau - PS (r / w) = op_d * (tau - r / w))"

lemma prove_correct:
  fixes E :: "('f::field, 'g1::ab_group_add, 'g2::ab_group_add, 'gt::ab_group_add, 'rng) ark"
  assumes set: "hints_setting E crs tau n w" and enc: "encoding_ok E" and n: "ak_n ak = n"
    and len: "length (ak_weights ak) = n" "length (wit_bitmap wit) = n" "length (wit_parsum wit) = n"
  obtains pi_sig exact Q chi_q r chi_op where
    "prove E crs ak vk wit = Ok (pi_sig, exact)"
    "derive_challenges E vk pi_sig = Ok (chi_q, r, chi_op)"
    "signature_for E n w tau (ak_weights ak) wit Q r chi_op pi_sig"
    "exact \<longleftrightarrow> (\<forall>i < n. relation_at n w (wit_bitmap wit) (wit_parsum wit) (ak_weights ak)
       (wit_agg_weight wit) chi_q (w ^ i) = 0)"
    "\<And>x. exact \<Longrightarrow> relation_at n w (wit_bitmap wit) (wit_parsum wit) (ak_weights ak)
       (wit_agg_weight wit) chi_q x = peval Q x * (x ^ n - 1)"
proof -
  note st = hints_settingD [OF set] and root = hints_setting_root [OF set] and com = setting_commit [OF set]
  have w0: "w \<noteq> 0" by (rule primitive_root_nonzero [OF root(1)])
  obtain B where B: "interpolate E (wit_bitmap wit) = Ok B" "pwf B" "length B \<le> n"
    "\<And>x. peval B x = vec_eval n w (wit_bitmap wit) x" using setting_interpolate [OF set len(2)] by blast
  obtain PS where PS: "interpolate E (wit_parsum wit) = Ok PS" "pwf PS" "length PS \<le> n"
    "\<And>x. peval PS x = vec_eval n w (wit_parsum wit) x" using setting_interpolate [OF set len(3)] by blast
  obtain W where W: "interpolate E (ak_weights ak) = Ok W" "pwf W" "length W \<le> n"
    "\<And>x. peval W x = vec_eval n w (ak_weights ak) x" using setting_interpolate [OF set len(1)] by blast
  have n1: "usize_sub n 1 = n - 1" "n - 1 < n" using st(11) by auto
  obtain L where L: "\<And>msg. lagrange_or_err E n (n - 1) msg = Ok L" "pwf L" "length L \<le> n"
    "\<And>x. peval L x = lagrange n w (n - 1) x" using setting_lagrange [OF set n1(2)] by blast
  have coms: "commit_g1 E crs B = Ok (in_g1 E (peval B tau))" "commit_g1 E crs PS = Ok (in_g1 E (peval PS tau))"
    using com(1) B PS by simp_all
  obtain t1 where t1: "absorb_round_1 E transcript_new vk (wit_agg_pk wit) (wit_agg_weight wit)
      (in_g1 E (peval B tau)) (in_g1 E (peval PS tau)) (wit_qx_of_tau_com wit) (wit_qz_of_tau_com wit)
      (wit_qx_of_tau_mul_tau_com wit) = Ok t1" using rounds_total(1) [OF enc] by blast
  define chi_q where "chi_q = transcript_challenge E t1 DST_QUOTIENT_MERGE"
  from setting_quotient [where aggw = "wit_agg_weight wit" and chi = chi_q, OF set L(2-) B(2-) PS(2-) W(2-)] obtain psd Q R where
    psd: "(poly_domain_mult_omega E PS (1 / w) :: (_, hints_error) result) = Ok psd"
    and QR: "divide_by_vanishing E (merged_relation E L B PS psd W (wit_agg_weight wit) chi_q) n = (Q, R)"
    and Q: "pwf Q" "length Q \<le> n"
      "list_all (\<lambda>c. c = 0) R \<longleftrightarrow> (\<forall>i < n. relation_at n w (wit_bitmap wit) (wit_parsum wit) (ak_weights ak) (wit_agg_weight wit) chi_q (w ^ i) = 0)"
      "\<And>x. list_all (\<lambda>c. c = 0) R \<Longrightarrow>
        relation_at n w (wit_bitmap wit) (wit_parsum wit) (ak_weights ak) (wit_agg_weight wit) chi_q x = peval Q x * (x ^ n - 1)"
    by blast
  have qcom: "commit_g1 E crs Q = Ok (in_g1 E (peval Q tau))" using com(1) [OF Q(1)] Q(2) by simp
  obtain t2 where t2: "absorb_round_2 E t1 (in_g1 E (peval Q tau)) = Ok t2" using rounds_total(2) [OF enc] by blast
  define r where "r = transcript_challenge E t2 DST_EVALUATION_POINT"
  obtain t3 where t3: "absorb_round_3 E t2 (peval PS r) (peval PS (r / w)) (peval W r) (peval B r) (peval Q r) = Ok t3"
    using rounds_total(3) [OF enc] by blast
  define chi_op where "chi_op = transcript_challenge E t3 DST_OPENING_BATCH"
  define M where "M = merge_polys E [Q, PS, B, W] chi_op"
  have M: "pwf M" "length M \<le> n" "\<And>x. peval M x = peval (map (\<lambda>p. peval p x) [Q, PS, B, W]) chi_op"
    using merge_polys_eq [OF st(7), of "[Q, PS, B, W]" n chi_op] Q(1,2) PS(2,3) B(2,3) W(2,3)
    unfolding M_def by auto
  from setting_opening [OF set M(1,2)] obtain op_r where op_r: "compute_opening_proof E crs M r = Ok (in_g1 E op_r)"
    "peval M tau - peval M r = op_r * (tau - r)" .
  from setting_opening [OF set PS(2,3)] obtain op_d where op_d: "compute_opening_proof E crs PS (r / w) = Ok (in_g1 E op_d)"
    "peval PS tau - peval PS (r / w) = op_d * (tau - r / w)" .
  let ?pi = "\<lparr>agg_pk = wit_agg_pk wit, agg_weight = wit_agg_weight wit, agg_sig = wit_agg_sig wit,
       b_of_tau_com = in_g1 E (peval B tau),
       qx_of_tau_com = wit_qx_of_tau_com wit, qx_of_tau_mul_tau_com = wit_qx_of_tau_mul_tau_com wit,
       qz_of_tau_com = wit_qz_of_tau_com wit, parsum_of_tau_com = in_g1 E (peval PS tau),
       q_mrg_of_tau_com = in_g1 E (peval Q tau), opening_proof_r = in_g1 E op_r,
       opening_proof_r_div_omega = in_g1 E op_d, parsum_of_r = peval PS r,
       parsum_of_r_div_omega = peval PS (r / w),
       w_of_r = peval W r, b_of_r = peval B r, q_mrg_of_r = peval Q r\<rparr>"
  have fd: "field_div 1 w = Ok (1 / w)" "\<And>a. field_div a w = Ok (a / w)" using w0 by simp_all
  have prv: "prove E crs ak vk wit = Ok (?pi, list_all (\<lambda>c. c = 0) R)"
    unfolding prove_def Let_def n st(5) B(1) PS(1) W(1) n1(1) L(1) ok_or_Some and_then.simps coms t1
      fd psd chi_q_def [symmetric] QR prod.case qcom t2 r_def [symmetric]
      poly_evaluate_eq [OF st(7)] t3 chi_op_def [symmetric] M_def [symmetric] op_r(1) op_d(1)
    by (rule refl)
  have der: "derive_challenges E vk ?pi = Ok (chi_q, r, chi_op)"
    by (simp add: derive_challenges_def Let_def t1 t2 t3 chi_q_def r_def chi_op_def)
       (simp add: r_def [symmetric] t3)
  have "signature_for E n w tau (ak_weights ak) wit Q r chi_op ?pi"
    unfolding signature_for_def Let_def
    by (intro exI [of _ op_r] exI [of _ op_d]) (use op_r(2) op_d(2) in \<open>simp add: M(3) B(4) PS(4) W(4)\<close>)
  then show thesis by (rule that [OF prv der]) (use Q(3,4) in simp_all)
qed

end
