(* ===== verification/HintsVerify.thy ===== *)
theory HintsVerify
  imports HintsAggregate
begin

text \<open>
  Verification of threshold signatures in \<^verbatim>\<open>hints.rs\<close>: the five checks and \<open>verify\<close>. The lemmas
  read each check in the exponent, show that the aggregator's output passes all of them, that a
  relation checked at more points than its degree holds on the whole domain, and what a relation
  on the whole domain says about the bitmap and the aggregate weight.
\<close>

section \<open>Operations\<close>

definition verify_opening ::
  "('f::field, 'g1::ab_group_add, 'g2::ab_group_add, 'gt, 'rng) ark \<Rightarrow> ('f, 'g1, 'g2) verification_key
   \<Rightarrow> 'g1 \<Rightarrow> 'f \<Rightarrow> 'f \<Rightarrow> 'g1 \<Rightarrow> bool" where
  "verify_opening E vp commitment point evaluation opening_proof =
     (let eval_com = g1_mul E (vk_g_0 vp) evaluation;
          point_com = g2_mul E (vk_h_0 vp) point;
          lhs = pairing E (commitment - eval_com) (vk_h_0 vp);
          rhs = pairing E opening_proof (vk_h_1 vp - point_com)
      in lhs = rhs)"

definition bls_check ::
  "('f, 'g1, 'g2, 'gt, 'rng) ark \<Rightarrow> bytes \<Rightarrow> ('f, 'g1, 'g2) verification_key
   \<Rightarrow> ('f, 'g1, 'g2) threshold_signature \<Rightarrow> (bool, hints_error) result" where
  "bls_check E msg vk pi_sig =
     and_then (hash_to_g2 E msg) (\<lambda>h.
       let lhs = pairing E (agg_pk pi_sig) h;
           rhs = pairing E (vk_g_0 vk) (agg_sig pi_sig)
       in Ok (lhs = rhs))"

definition merged_relation_check ::
  "('f::field, 'g1, 'g2) verification_key \<Rightarrow> ('f, 'g1, 'g2) threshold_signature \<Rightarrow> 'f \<Rightarrow> 'f \<Rightarrow> 'f
   \<Rightarrow> (bool, hints_error) result" where
  "merged_relation_check vk pi_sig omega chi_q r =
     (let vanishing_of_r = r ^ vk_n vk - 1 in
      if vanishing_of_r = 0 then Ok False
      else
        let omega_pow_n_minus_1 = omega ^ (usize_sub (vk_n vk) 1) in
        and_then (field_div omega_pow_n_minus_1 (of_nat (vk_n vk))) (\<lambda>f1.
        and_then (field_div vanishing_of_r (r - omega_pow_n_minus_1)) (\<lambda>f2.
        let l_n_minus_1_of_r = f1 * f2;
            p1 = parsum_of_r pi_sig - parsum_of_r_div_omega pi_sig
                 - (w_of_r pi_sig - agg_weight pi_sig * l_n_minus_1_of_r) * b_of_r pi_sig;
            p2 = b_of_r pi_sig * b_of_r pi_sig - b_of_r pi_sig;
            p3 = l_n_minus_1_of_r * parsum_of_r pi_sig;
            p4 = l_n_minus_1_of_r * (b_of_r pi_sig - 1)
        in Ok (merge_scalars [p1, p2, p3, p4] chi_q = q_mrg_of_r pi_sig * vanishing_of_r))))"

definition opening_at_r_check ::
  "('f::field, 'g1::ab_group_add, 'g2::ab_group_add, 'gt, 'rng) ark \<Rightarrow> ('f, 'g1, 'g2) verification_key
   \<Rightarrow> ('f, 'g1, 'g2) threshold_signature \<Rightarrow> 'f \<Rightarrow> 'f \<Rightarrow> bool" where
  "opening_at_r_check E vk pi_sig r chi_op =
     (let q_of_tau_com = merge_points E
            [q_mrg_of_tau_com pi_sig, parsum_of_tau_com pi_sig, b_of_tau_com pi_sig, vk_w_of_tau_com vk] chi_op;
          q_of_r = merge_scalars [q_mrg_of_r pi_sig, parsum_of_r pi_sig, b_of_r pi_sig, w_of_r pi_sig] chi_op
      in verify_opening E vk q_of_tau_com r q_of_r (opening_proof_r pi_sig))"

definition opening_at_r_div_omega_check ::
  "('f::field, 'g1::ab_group_add, 'g2::ab_group_add, 'gt, 'rng) ark \<Rightarrow> ('f, 'g1, 'g2) verification_key
   \<Rightarrow> ('f, 'g1, 'g2) threshold_signature \<Rightarrow> 'f \<Rightarrow> bool" where
  "opening_at_r_div_omega_check E vk pi_sig r_div_omega =
     verify_opening E vk (parsum_of_tau_com pi_sig) r_div_omega (parsum_of_r_div_omega pi_sig)
       (opening_proof_r_div_omega pi_sig)"

definition sumcheck_check ::
  "('f, 'g1, 'g2, 'gt::ab_group_add, 'rng) ark \<Rightarrow> ('f, 'g1, 'g2) verification_key
   \<Rightarrow> ('f, 'g1, 'g2) threshold_signature \<Rightarrow> 'gt \<Rightarrow> bool" where
  "sumcheck_check E vk pi_sig e_qx_tau =
     (let lhs = pairing E (b_of_tau_com pi_sig) (vk_sk_of_tau_com vk);
          x1 = pairing E (qz_of_tau_com pi_sig) (vk_z_of_tau_com vk);
          x3 = pairing E (agg_pk pi_sig) (vk_h_0 vk)
      in lhs = x1 + e_qx_tau + x3)"

definition degree_check ::
  "('f, 'g1, 'g2, 'gt, 'rng) ark \<Rightarrow> ('f, 'g1, 'g2) verification_key
   \<Rightarrow> ('f, 'g1, 'g2) threshold_signature \<Rightarrow> 'gt \<Rightarrow> bool" where
  "degree_check E vk pi_sig e_qx_tau \<longleftrightarrow>
     e_qx_tau = pairing E (qx_of_tau_mul_tau_com pi_sig) (vk_h_0 vk)"

text \<open>Field elements are compared by their canonical integer representatives.\<close>

definition fr_gt :: "('f, 'g1, 'g2, 'gt, 'rng) ark \<Rightarrow> 'f \<Rightarrow> 'f \<Rightarrow> bool" where
  "fr_gt E a b \<longleftrightarrow> into_bigint E a > into_bigint E b"

definition verify ::
  "('f::field, 'g1::ab_group_add, 'g2::ab_group_add, 'gt::ab_group_add, 'rng) ark \<Rightarrow> bytes
   \<Rightarrow> ('f, 'g1, 'g2) verification_key \<Rightarrow> ('f, 'g1, 'g2) threshold_signature \<Rightarrow> 'f \<times> 'f
   \<Rightarrow> (bool, hints_error) result" where
  "verify E msg vk pi_sig fraction =
     check_or_return_false (is_n_valid (vk_n vk)) (
     check_or_return_false (agg_pk pi_sig \<noteq> 0) (
     check_or_return_false (agg_sig pi_sig \<noteq> 0) (
     let (numerator, denominator) = fraction in
     check_or_return_false
       (fr_gt E (denominator * agg_weight pi_sig) (numerator * vk_total_weight vk)) (
     and_then (bls_check E msg vk pi_sig) (\<lambda>bls_ok.
     check_or_return_false bls_ok (
     and_then (ok_or (CryptographyCatastrophe (domain_msg (vk_n vk))) (nth_root_of_unity E (vk_n vk))) (\<lambda>omega.
     and_then (derive_challenges E vk pi_sig) (\<lambda>(chi_q, r, chi_op).
     and_then (merged_relation_check vk pi_sig omega chi_q r) (\<lambda>relation_ok.
     check_or_return_false relation_ok (
     check_or_return_false (opening_at_r_check E vk pi_sig r chi_op) (
     and_then (field_div r omega) (\<lambda>r_div_omega.
     check_or_return_false (opening_at_r_div_omega_check E vk pi_sig r_div_omega) (
     let e_qx_tau = pairing E (qx_of_tau_com pi_sig) (vk_h_1 vk) in
     check_or_return_false (sumcheck_check E vk pi_sig e_qx_tau) (
     check_or_return_false (degree_check E vk pi_sig e_qx_tau)
     (Ok True)))))))))))))))"

section \<open>The checks in the exponent\<close>

lemma vk_of_fields [simp]:
  "vk_n (vk_of E w tau n wt s) = n" "vk_total_weight (vk_of E w tau n wt s) = (\<Sum>i<n. wt i)"
  "vk_g_0 (vk_of E w tau n wt s) = in_g1 E 1" "vk_h_0 (vk_of E w tau n wt s) = in_g2 E 1"
  "vk_h_1 (vk_of E w tau n wt s) = in_g2 E tau"
  "vk_w_of_tau_com (vk_of E w tau n wt s) = in_g1 E (\<Sum>i<n. wt i * lagrange n w i tau)"
  "vk_sk_of_tau_com (vk_of E w tau n wt s) = in_g2 E (\<Sum>i<n. s i * lagrange n w i tau)"
  "vk_z_of_tau_com (vk_of E w tau n wt s) = in_g2 E (tau ^ n - 1)"
  by (simp_all add: vk_of_def)

lemma ak_of_fields [simp]:
  "ak_n (ak_of E w tau n wt s) = n" "ak_weights (ak_of E w tau n wt s) = map wt [0..<n]"
  "ak_pks (ak_of E w tau n wt s) = map (\<lambda>i. in_g1 E (s i)) [0..<n]"
  "aggregation_key_is_well_formed (ak_of E w tau n wt s)"
  by (simp_all add: ak_of_def aggregation_key_is_well_formed_def)

text \<open>An opening of \<open>[c]\<^sub>1\<close> to \<open>v\<close> at \<open>z\<close> with proof \<open>[q]\<^sub>1\<close> is accepted iff \<open>c - v = q (\<tau> - z)\<close>.\<close>

lemma verify_opening_iff:
  assumes "curve_ok E" "vk_g_0 vk = in_g1 E 1" "vk_h_0 vk = in_g2 E 1" "vk_h_1 vk = in_g2 E tau"
  shows "verify_opening E vk (in_g1 E c) z v (in_g1 E q) \<longleftrightarrow> c - v = q * (tau - z)"
  by (simp add: verify_opening_def assms(2-4) exponent_simps [OF assms(1)])

lemma merged_relation_check_eq:
  assumes "primitive_root (vk_n vk) w" "of_nat (vk_n vk) \<noteq> (0 :: 'f::field)" "0 < vk_n vk"
    and "r ^ vk_n vk \<noteq> (1 :: 'f)"
  shows "merged_relation_check vk pi_sig w chi_q r =
    Ok (relation_value (lagrange (vk_n vk) w (vk_n vk - 1) r) (b_of_r pi_sig) (parsum_of_r pi_sig)
          (parsum_of_r_div_omega pi_sig) (w_of_r pi_sig) (agg_weight pi_sig) chi_q
        = q_mrg_of_r pi_sig * (r ^ vk_n vk - 1))"
proof -
  let ?n = "vk_n vk"
  have ne: "r \<noteq> w ^ (?n - 1)"
    using assms(1,4) by (metis mult.commute power_mult power_one primitive_root_def)
  then have lag: "w ^ (?n - 1) / of_nat ?n * ((r ^ ?n - 1) / (r - w ^ (?n - 1))) = lagrange ?n w (?n - 1) r"
    using lagrange_times [OF assms(1), of r "?n - 1"]
    by (metis eq_iff_diff_eq_0 nonzero_mult_div_cancel_left times_divide_eq_right)
  have us: "usize_sub ?n 1 = ?n - 1" using assms(3) by (intro usize_sub_le) simp
  have f1: "field_div (w ^ (?n - 1)) (of_nat ?n :: 'f) = Ok (w ^ (?n - 1) / of_nat ?n)"
    "field_div (r ^ ?n - 1) (r - w ^ (?n - 1)) = Ok ((r ^ ?n - 1) / (r - w ^ (?n - 1)))"
    using assms(2) ne by (auto intro!: field_div_nonzero)
  have "r ^ ?n - 1 \<noteq> 0" using assms(4) by simp
  then show ?thesis
    unfolding merged_relation_check_def Let_def us f1 and_then.simps lag merge_scalars_eq relation_value_def
    by (simp only: if_False)
qed

lemma merged_relation_check_domain:
  "r ^ vk_n vk = 1 \<Longrightarrow> merged_relation_check vk pi_sig w chi_q r = Ok False"
  by (simp add: merged_relation_check_def)

text \<open>The generalized sumcheck, and the companion of the degree check, at the trapdoor.\<close>

lemma sumcheck_identity:
  fixes E :: "('f::field, 'g1::ab_group_add, 'g2::ab_group_add, 'gt::ab_group_add, 'rng) ark"
  assumes "hints_setting E crs tau n w"
  shows "(\<Sum>i<n. b i * lagrange n w i tau) * (\<Sum>j<n. s j * lagrange n w j tau)
    = (\<Sum>i<n. b i * (\<Sum>j<n. s j * cross_value E n tau j i)) * (tau ^ n - 1)
      + (\<Sum>i<n. b i * (s i * shift_value E n tau i)) * tau + (\<Sum>i<n. b i * s i) * (1 / of_nat n)"
proof -
  let ?L = "\<lambda>i. lagrange n w i tau" and ?Z = "tau ^ n - 1"
  have cr: "?L i * ?L j = cross_value E n tau j i * ?Z + (if j = i then ?L j else 0)" if "i < n" "j < n" for i j
    using cross_value_eq [OF assms that(2,1)] by (cases "j = i") (simp_all add: algebra_simps)
  have sh: "?L i = shift_value E n tau i * tau + 1 / of_nat n" if "i < n" for i
    using shift_value_eq [OF assms that] by simp
  have row: "b i * ?L i * (\<Sum>j<n. s j * ?L j)
      = b i * (\<Sum>j<n. s j * cross_value E n tau j i) * ?Z + b i * (s i * ?L i)" if i: "i < n" for i
  proof -
    have "?L i * (\<Sum>j<n. s j * ?L j) = (\<Sum>j<n. s j * (?L i * ?L j))"
      by (simp add: sum_distrib_left algebra_simps)
    also have "\<dots> = (\<Sum>j<n. s j * cross_value E n tau j i * ?Z + (if j = i then s i * ?L i else 0))"
    proof (intro sum.cong refl)
      fix j assume "j \<in> {..<n}"
      then have "?L i * ?L j = cross_value E n tau j i * ?Z + (if j = i then ?L j else 0)" using cr [OF i] by simp
      then show "s j * (?L i * ?L j) = s j * cross_value E n tau j i * ?Z + (if j = i then s i * ?L i else 0)"
        by (simp only:) (simp add: algebra_simps)
    qed
    also have "\<dots> = (\<Sum>j<n. s j * cross_value E n tau j i) * ?Z + s i * ?L i"
      using i by (simp add: sum.distrib sum_distrib_right)
    finally have eq: "?L i * (\<Sum>j<n. s j * ?L j) = (\<Sum>j<n. s j * cross_value E n tau j i) * ?Z + s i * ?L i" .
    show ?thesis unfolding mult.assoc [of "b i"] eq by (simp add: algebra_simps)
  qed
  have "(\<Sum>i<n. b i * ?L i) * (\<Sum>j<n. s j * ?L j)
      = (\<Sum>i<n. b i * (\<Sum>j<n. s j * cross_value E n tau j i) * ?Z + b i * (s i * ?L i))"
    using row by (simp add: sum_distrib_right)
  also have "\<dots> = (\<Sum>i<n. b i * (\<Sum>j<n. s j * cross_value E n tau j i)) * ?Z + (\<Sum>i<n. b i * (s i * ?L i))"
    by (simp add: sum.distrib sum_distrib_right)
  also have "(\<Sum>i<n. b i * (s i * ?L i)) = (\<Sum>i<n. b i * (s i * shift_value E n tau i) * tau + b i * s i * (1 / of_nat n))"
    by (intro sum.cong refl) (subst sh, auto simp: algebra_simps)
  also have "\<dots> = (\<Sum>i<n. b i * (s i * shift_value E n tau i)) * tau + (\<Sum>i<n. b i * s i) * (1 / of_nat n)"
    by (simp add: sum.distrib sum_distrib_right sum_divide_distrib)
  finally show ?thesis by (simp only: add.assoc)
qed

lemma degree_identity:
  fixes E :: "('f::field, 'g1::ab_group_add, 'g2::ab_group_add, 'gt::ab_group_add, 'rng) ark"
  assumes "hints_setting E crs tau n w"
  shows "(\<Sum>i<n. b i * (s i * shift_value E n tau i)) * tau
    = (\<Sum>i<n. b i * (s i * (lagrange n w i tau - 1 / of_nat n)))"
  unfolding sum_distrib_right
  by (intro sum.cong refl) (simp flip: shift_value_eq [OF assms] add: algebra_simps)


section \<open>The relations on the domain\<close>

lemma relation_on_domain:
  assumes "primitive_root n w" "of_nat n \<noteq> (0 :: 'f::field)" "i < n"
  shows "relation_at n w bits parsum weights aggw chi (w ^ i :: 'f) =
    relation_value (if i = n - 1 then 1 else 0) (bits ! i) (parsum ! i)
      (parsum ! (if i = 0 then n - 1 else i - 1)) (weights ! i) aggw chi"
proof -
  let ?j = "if i = 0 then n - 1 else i - 1"
  have j: "?j < n" "n - 1 < n" using assms(3) by auto
  have "vec_eval n w parsum (w ^ i / w) = parsum ! ?j"
    unfolding previous_point [OF assms(1,3)] by (rule vec_eval_at_point [OF assms(1,2) j(1)])
  moreover have "lagrange n w (n - 1) (w ^ i) = (if i = n - 1 then 1 else 0)"
    using lagrange_at_point [OF assms(1,2) j(2) assms(3)] by auto
  ultimately show ?thesis
    unfolding relation_at_def using vec_eval_at_point [OF assms] by simp
qed

text \<open>The four relations, separately, on the slots.\<close>

definition relations_hold :: "nat \<Rightarrow> 'f::field list \<Rightarrow> 'f list \<Rightarrow> 'f list \<Rightarrow> 'f \<Rightarrow> bool" where
  "relations_hold n bits parsum weights aggw \<longleftrightarrow>
     (\<forall>i < n. parsum ! i - parsum ! (if i = 0 then n - 1 else i - 1)
         - (weights ! i - aggw * (if i = n - 1 then 1 else 0)) * bits ! i = 0) \<and>
     (\<forall>i < n. bits ! i * bits ! i - bits ! i = 0) \<and>
     parsum ! (n - 1) = 0 \<and> bits ! (n - 1) = 1"

lemma relations_hold_merged:
  assumes "relations_hold n bits parsum weights aggw" "i < n"
  shows "relation_value (if i = n - 1 then 1 else 0) (bits ! i) (parsum ! i)
      (parsum ! (if i = 0 then n - 1 else i - 1)) (weights ! i) aggw chi = 0"
  using assms unfolding relations_hold_def relation_value_def by (auto simp del: eq_iff_diff_eq_0)

lemma relations_hold_on_domain:
  fixes w :: "'f::field"
  assumes "primitive_root n w" "of_nat n \<noteq> (0 :: 'f)" "relations_hold n bits parsum weights aggw" "i < n"
  shows "relation_at n w bits parsum weights aggw chi (w ^ i) = 0"
  unfolding relation_on_domain [OF assms(1,2,4)] by (rule relations_hold_merged [OF assms(3,4)])

lemma relations_sound:
  fixes bits :: "'f::field list"
  assumes "0 < n" "relations_hold n bits parsum weights aggw"
  shows "(\<forall>i < n. bits ! i = 0 \<or> bits ! i = 1) \<and> bits ! (n - 1) = 1 \<and>
    aggw = (\<Sum>i<n. bits ! i * weights ! i)"
proof -
  note rel = assms(2) [unfolded relations_hold_def]
  have bin: "bits ! i = 0 \<or> bits ! i = 1" if "i < n" for i
  proof -
    have "bits ! i * (bits ! i - 1) = 0" using rel that by (simp add: algebra_simps)
    then show ?thesis by auto
  qed
  have step: "parsum ! i = parsum ! (if i = 0 then n - 1 else i - 1)
      + (weights ! i - aggw * (if i = n - 1 then 1 else 0)) * bits ! i" if "i < n" for i
    using rel that by (metis add.commute add_diff_cancel_left' diff_add_cancel diff_eq_eq diff_0_right)
  have sums: "parsum ! i = (\<Sum>k\<le>i. bits ! k * (weights ! k - aggw * (if k = n - 1 then 1 else 0)))" if "i < n" for i
    using that
  proof (induction i)
    case 0
    then show ?case using step [of 0] rel by (simp add: mult.commute)
  next
    case (Suc i)
    then show ?case using step [of "Suc i"] by (simp add: mult.commute)
  qed
  have "{..n - 1} = {..<n}" using assms(1) by auto
  then have "0 = (\<Sum>k<n. bits ! k * (weights ! k - aggw * (if k = n - 1 then 1 else 0)))"
    using sums [of "n - 1"] rel assms(1) by simp
  also have "\<dots> = (\<Sum>k<n. bits ! k * weights ! k) - (\<Sum>k<n. if k = n - 1 then aggw else 0)"
    unfolding sum_subtractf [symmetric] using rel by (intro sum.cong) (auto simp: algebra_simps)
  finally show ?thesis using bin rel assms(1) by simp
qed

lemma sum_atMost_reserved:
  fixes x :: "nat \<Rightarrow> 'f::field"
  assumes "0 < n" "S \<subseteq> {..<n - 1}"
  shows "(\<Sum>i<n. signer_bit S n i * x i) = (\<Sum>i\<in>insert (n - 1) S. x i)"
proof -
  have "signer_bit S n i * x i = (if signer_bit S n i = (1 :: 'f) then x i else 0)" for i
    by (simp add: signer_bit_def)
  then show ?thesis using select_bits [OF assms(2,1), where x = x and 'f = 'f] by simp
qed

text \<open>The honest witness satisfies them, when the key gives the reserved slot no weight.\<close>

lemma honest_relations:
  fixes wt :: "nat \<Rightarrow> 'f::field"
  assumes "1 < n" "S \<subseteq> {..<n - 1}" "wt (n - 1) = 0"
  defines "aggw \<equiv> \<Sum>i\<in>S. wt i"
  shows "relations_hold n (map (signer_bit S n) [0..<n])
    (map (\<lambda>i. \<Sum>k\<le>i. signer_bit S n k * (if k = n - 1 then - aggw else wt k)) [0..<n])
    (map wt [0..<n]) aggw"
proof -
  define f where "f k = signer_bit S n k * (if k = n - 1 then - aggw else wt k)" for k
  have fin: "finite S" "n - 1 \<notin> S" using assms(2) finite_subset by auto
  have "{..n - 1} = {..<n}" using assms(1) by auto
  then have "(\<Sum>k\<le>n - 1. f k) = (\<Sum>k\<in>insert (n - 1) S. if k = n - 1 then - aggw else wt k)"
    using sum_atMost_reserved [OF _ assms(2), of "\<lambda>k. if k = n - 1 then - aggw else wt k"] assms(1)
    by (simp add: f_def)
  also have "\<dots> = - aggw + (\<Sum>k\<in>S. wt k)"
    using fin by (simp add: sum.insert) (intro sum.cong; auto)
  finally have last: "(\<Sum>k\<le>n - 1. f k) = 0" by (simp add: aggw_def)
  have step: "(\<Sum>k\<le>i. f k) - (\<Sum>k\<le>(if i = 0 then n - 1 else i - 1). f k) - f i = 0" for i
    using last by (cases i) simp_all
  have f: "f i = (wt i - aggw * (if i = n - 1 then 1 else 0)) * signer_bit S n i" for i
    using assms(3) by (simp add: f_def)
  show ?thesis
    unfolding relations_hold_def f_def [symmetric]
  proof (intro conjI allI impI)
    fix i assume i: "i < n"
    then have "(if i = 0 then n - 1 else i - 1) < n" by auto
    then show "map (\<lambda>i. \<Sum>k\<le>i. f k) [0..<n] ! i
        - map (\<lambda>i. \<Sum>k\<le>i. f k) [0..<n] ! (if i = 0 then n - 1 else i - 1)
        - (map wt [0..<n] ! i - aggw * (if i = n - 1 then 1 else 0)) * map (signer_bit S n) [0..<n] ! i = 0"
      using step [of i] f [of i] i by simp
    show "map (signer_bit S n) [0..<n] ! i * map (signer_bit S n) [0..<n] ! i
        - map (signer_bit S n) [0..<n] ! i = (0 :: 'f)"
      using i by (simp add: signer_bit_def)
  qed (use last assms(1) in \<open>simp_all add: signer_bit_def\<close>)
qed


section \<open>Soundness of the merged relation\<close>

lemma four_zero:
  fixes C :: "'f::field set"
  assumes "finite C" "4 \<le> card C" "\<And>chi. chi \<in> C \<Longrightarrow> relation_value l b ps psd wv aggw chi = 0"
  shows "ps - psd - (wv - aggw * l) * b = 0" "b * b - b = 0" "l * ps = 0" "l * (b - 1) = 0"
proof -
  have "pzero [ps - psd - (wv - aggw * l) * b, b * b - b, l * ps, l * (b - 1)]"
    by (rule roots_bound [OF assms(1)]) (use assms(2,3) in \<open>auto simp: relation_value_def\<close>)
  then show "ps - psd - (wv - aggw * l) * b = 0" "b * b - b = 0" "l * ps = 0" "l * (b - 1) = 0"
    by (simp_all add: pzero_def)
qed

lemma relation_polyf:
  fixes B PS W :: "'f::field list"
  assumes "length B \<le> n" "length PS \<le> n" "length W \<le> n" "0 < n"
  shows "polyf (2 * n) (\<lambda>x. relation_value (lagrange n w (n - 1) x) (peval B x) (peval PS x)
    (peval PS (x / w)) (peval W x) aggw chi)"
proof -
  note B = polyf_peval [OF assms(1)] and P = polyf_peval [OF assms(2)] and W = polyf_peval [OF assms(3)]
  note L = lagrange_polyf [of n w "n - 1"]
  have Pd: "polyf n (\<lambda>x. peval PS (x / w))" using polyf_scale_arg [OF P, of "1 / w"] by simp
  have up: "polyf n f \<Longrightarrow> polyf (2 * n) f" for f :: "'f \<Rightarrow> 'f" by (erule polyf_mono) simp
  have mul: "polyf n f \<Longrightarrow> polyf n g \<Longrightarrow> polyf (2 * n) (\<lambda>x. f x * g x)" for f g :: "'f \<Rightarrow> 'f"
    using polyf_mult [of n f n g] by (simp add: mult_2)
  have one: "polyf n (\<lambda>x. 1 :: 'f)" using assms(4) by (intro polyf_const) simp
  have p1: "polyf (2 * n) (\<lambda>x. peval PS x - peval PS (x / w) - (peval W x - aggw * lagrange n w (n - 1) x) * peval B x)"
    by (intro polyf_diff up P Pd mul polyf_scale W L B)
  have p2: "polyf (2 * n) (\<lambda>x. peval B x * peval B x - peval B x)" by (intro polyf_diff mul up B)
  have p3: "polyf (2 * n) (\<lambda>x. lagrange n w (n - 1) x * peval PS x)" by (intro mul L P)
  have p4: "polyf (2 * n) (\<lambda>x. lagrange n w (n - 1) x * (peval B x - 1))" by (intro mul polyf_diff L B one)
  have "polyf (2 * n) (\<lambda>x. 0 :: 'f)" using polyf_scale [OF up [OF one], of 0] by simp
  then show ?thesis
    unfolding relation_value_def peval.simps by (intro polyf_add polyf_scale p1 p2 p3 p4)
qed

text \<open>
  If the relation holds at \<open>2n + 1\<close> points outside the domain for each of four challenges, the
  four relations hold on every slot.
\<close>

lemma relation_points_sound:
  fixes B PS W :: "'f::field list"
  assumes prim: "primitive_root n w" and nz: "of_nat n \<noteq> (0 :: 'f)"
    and len: "length B \<le> n" "length PS \<le> n" "length W \<le> n"
    and C: "finite C" "4 \<le> card C"
    and pts: "\<And>chi. chi \<in> C \<Longrightarrow> \<exists>Q R. length Q \<le> n \<and> finite R \<and> 2 * n + 1 \<le> card R \<and>
      (\<forall>r \<in> R. relation_value (lagrange n w (n - 1) r) (peval B r) (peval PS r)
        (peval PS (r / w)) (peval W r) aggw chi = peval Q r * (r ^ n - 1))"
  shows "relations_hold n (map (\<lambda>i. peval B (w ^ i)) [0..<n]) (map (\<lambda>i. peval PS (w ^ i)) [0..<n])
    (map (\<lambda>i. peval W (w ^ i)) [0..<n]) aggw"
proof -
  have n: "0 < n" using prim by (simp add: primitive_root_def)
  have all: "relation_value (lagrange n w (n - 1) (w ^ i)) (peval B (w ^ i)) (peval PS (w ^ i))
      (peval PS (w ^ i / w)) (peval W (w ^ i)) aggw chi = 0" if chi: "chi \<in> C" for i chi
  proof -
    obtain Q R where QR: "length Q \<le> n" "finite R" "2 * n + 1 \<le> card R"
      "\<forall>r \<in> R. relation_value (lagrange n w (n - 1) r) (peval B r) (peval PS r)
        (peval PS (r / w)) (peval W r) aggw chi = peval Q r * (r ^ n - 1)" using pts [OF chi] by blast
    have "polyf (Suc n) (\<lambda>x :: 'f. x ^ n - 1)" by (intro polyf_diff polyf_power polyf_const) simp
    from polyf_mult [OF polyf_peval [OF QR(1)] this]
    have q: "polyf (2 * n + 1) (\<lambda>x. peval Q x * (x ^ n - 1))" by (simp add: mult_2)
    have "relation_value (lagrange n w (n - 1) (w ^ i)) (peval B (w ^ i)) (peval PS (w ^ i))
        (peval PS (w ^ i / w)) (peval W (w ^ i)) aggw chi = peval Q (w ^ i) * ((w ^ i) ^ n - 1)"
      by (rule polyf_unique [OF polyf_mono [OF relation_polyf [OF len n]] q QR(2,3)]) (use QR(4) in simp_all)
    moreover have "(w ^ i) ^ n = 1" using prim by (metis mult.commute power_mult power_one primitive_root_def)
    ultimately show ?thesis by simp
  qed
  note z = four_zero [OF C all]
  have L: "lagrange n w (n - 1) (w ^ i) = (if i = n - 1 then 1 else 0)" if "i < n" for i
    using lagrange_at_point [OF prim nz _ that, of "n - 1"] n by auto
  show ?thesis unfolding relations_hold_def
  proof (intro conjI allI impI)
    fix i assume i: "i < n"
    then have j: "(if i = 0 then n - 1 else i - 1) < n" by auto
    show "map (\<lambda>i. peval PS (w ^ i)) [0..<n] ! i
        - map (\<lambda>i. peval PS (w ^ i)) [0..<n] ! (if i = 0 then n - 1 else i - 1)
        - (map (\<lambda>i. peval W (w ^ i)) [0..<n] ! i - aggw * (if i = n - 1 then 1 else 0))
          * map (\<lambda>i. peval B (w ^ i)) [0..<n] ! i = 0"
      using z(1) [of i] i j unfolding L [OF i] previous_point [OF prim i] by simp
    show "map (\<lambda>i. peval B (w ^ i)) [0..<n] ! i * map (\<lambda>i. peval B (w ^ i)) [0..<n] ! i
        - map (\<lambda>i. peval B (w ^ i)) [0..<n] ! i = 0"
      using z(2) [of i] i by simp
  qed (use z(3,4) [of "n - 1"] n L [of "n - 1"] in simp_all)
qed

theorem merged_relation_sound:
  fixes B PS W :: "'f::field list" and w :: 'f
    and vk :: "('f, 'g1, 'g2) verification_key" and sig :: "'f \<Rightarrow> 'f \<Rightarrow> ('f, 'g1, 'g2) threshold_signature"
  assumes prim: "primitive_root (vk_n vk) w" and nz: "of_nat (vk_n vk) \<noteq> (0 :: 'f)"
    and len: "length B \<le> vk_n vk" "length PS \<le> vk_n vk" "length W \<le> vk_n vk"
    and C: "finite C" "4 \<le> card C"
    and pts: "\<And>chi. chi \<in> C \<Longrightarrow> length (Q chi) \<le> vk_n vk \<and> finite (R chi) \<and> 2 * vk_n vk + 1 \<le> card (R chi)"
    and claims: "\<And>chi r. chi \<in> C \<Longrightarrow> r \<in> R chi \<Longrightarrow>
      agg_weight (sig chi r) = aggw \<and> b_of_r (sig chi r) = peval B r \<and> parsum_of_r (sig chi r) = peval PS r \<and>
      parsum_of_r_div_omega (sig chi r) = peval PS (r / w) \<and> w_of_r (sig chi r) = peval W r \<and>
      q_mrg_of_r (sig chi r) = peval (Q chi) r"
    and accepted: "\<And>chi r. chi \<in> C \<Longrightarrow> r \<in> R chi \<Longrightarrow> merged_relation_check vk (sig chi r) w chi r = Ok True"
  shows "(\<forall>i < vk_n vk. peval B (w ^ i) = 0 \<or> peval B (w ^ i) = 1) \<and> peval B (w ^ (vk_n vk - 1)) = 1 \<and>
    aggw = (\<Sum>i<vk_n vk. peval B (w ^ i) * peval W (w ^ i))"
proof -
  let ?n = "vk_n vk"
  have n: "0 < ?n" using prim by (simp add: primitive_root_def)
  have rel: "relation_value (lagrange ?n w (?n - 1) r) (peval B r) (peval PS r)
        (peval PS (r / w)) (peval W r) aggw chi = peval (Q chi) r * (r ^ ?n - 1)"
    if cr: "chi \<in> C" "r \<in> R chi" for chi r
  proof -
    have "r ^ ?n \<noteq> 1" using accepted [OF cr] merged_relation_check_domain [of r vk] by force
    from merged_relation_check_eq [OF prim nz n this, of "sig chi r" chi]
    show ?thesis using accepted [OF cr] claims [OF cr] by simp
  qed
  have "relations_hold ?n (map (\<lambda>i. peval B (w ^ i)) [0..<?n]) (map (\<lambda>i. peval PS (w ^ i)) [0..<?n])
    (map (\<lambda>i. peval W (w ^ i)) [0..<?n]) aggw"
    by (rule relation_points_sound [OF prim nz len C]) (use pts rel in blast)
  from relations_sound [OF n this] show ?thesis using n by simp
qed

section \<open>Completeness\<close>

text \<open>
  An aggregate signature of the honest witness passes every check after the threshold, unless the
  evaluation point happens to lie in the domain.
\<close>

lemma wit_sums:
  fixes E :: "('f::field, 'g1::ab_group_add, 'g2::ab_group_add, 'gt::ab_group_add, 'rng) ark"
    and w tau :: 'f and wt s :: "nat \<Rightarrow> 'f" and sig_sum :: 'g2
  assumes "curve_ok E" "0 < n" "S \<subseteq> {..<n - 1}"
  defines "wit \<equiv> witness_of E (ak_of E w tau n wt s) S sig_sum"
  shows "wit_agg_pk wit = in_g1 E ((\<Sum>i<n. signer_bit S n i * s i) * (1 / of_nat n))"
    "wit_qz_of_tau_com wit = in_g1 E (\<Sum>i<n. signer_bit S n i * (\<Sum>j<n. s j * cross_value E n tau j i))"
    "wit_qx_of_tau_com wit = in_g1 E (\<Sum>i<n. signer_bit S n i * (s i * shift_value E n tau i))"
    "wit_qx_of_tau_mul_tau_com wit
      = in_g1 E (\<Sum>i<n. signer_bit S n i * (s i * (lagrange n w i tau - 1 / of_nat n)))"
    "wit_bitmap wit = map (signer_bit S n) [0..<n]" "length (wit_parsum wit) = n"
    "wit_agg_weight wit = (\<Sum>i\<in>S. wt i)"
    "wit_parsum wit = map (\<lambda>i. \<Sum>k\<le>i. signer_bit S n k *
        (if k = n - 1 then - (\<Sum>i\<in>S. wt i) else wt k)) [0..<n]"
proof -
  have sub: "i \<in> insert (n - 1) S \<Longrightarrow> i < n" for i using assms(2,3) by auto
  have sel: "(\<Sum>i\<in>insert (n - 1) S. map (\<lambda>i. in_g1 E (x i)) [0..<n] ! i)
      = in_g1 E (\<Sum>i<n. signer_bit S n i * x i)" for x
  proof -
    have "(\<Sum>i\<in>insert (n - 1) S. map (\<lambda>i. in_g1 E (x i)) [0..<n] ! i)
        = (\<Sum>i\<in>insert (n - 1) S. in_g1 E (x i))"
      using sub by (intro sum.cong) auto
    then show ?thesis by (simp only: in_group_sum [OF assms(1)] sum_atMost_reserved [OF assms(2,3)])
  qed
  have wsum: "(\<Sum>i\<in>S. map wt [0..<n] ! i) = (\<Sum>i\<in>S. wt i)"
    using sub by (intro sum.cong) auto
  have le: "(\<Sum>k\<le>i. signer_bit S n k * (if k = n - 1 then - a else map wt [0..<n] ! k))
      = (\<Sum>k\<le>i. signer_bit S n k * (if k = n - 1 then - a else wt k))" if "i < n" for i a
    using that by (intro sum.cong) auto
  note defs = wit_def witness_of_def Let_def ak_of_def
  show "wit_agg_pk wit = in_g1 E ((\<Sum>i<n. signer_bit S n i * s i) * (1 / of_nat n))"
    "wit_qz_of_tau_com wit = in_g1 E (\<Sum>i<n. signer_bit S n i * (\<Sum>j<n. s j * cross_value E n tau j i))"
    "wit_qx_of_tau_com wit = in_g1 E (\<Sum>i<n. signer_bit S n i * (s i * shift_value E n tau i))"
    "wit_qx_of_tau_mul_tau_com wit
      = in_g1 E (\<Sum>i<n. signer_bit S n i * (s i * (lagrange n w i tau - 1 / of_nat n)))"
    unfolding defs aggregation_key.select_convs witness.select_convs sel in_group_arith(5) [OF assms(1)]
    by (rule refl)+
  show "wit_agg_weight wit = (\<Sum>i\<in>S. wt i)" by (simp add: defs wsum)
  show "wit_parsum wit = map (\<lambda>i. \<Sum>k\<le>i. signer_bit S n k *
        (if k = n - 1 then - (\<Sum>i\<in>S. wt i) else wt k)) [0..<n]"
    unfolding defs aggregation_key.select_convs witness.select_convs wsum
    by (rule map_cong [OF refl]) (use le in auto)
qed (simp_all add: wit_def witness_of_def Let_def)

lemma signature_sum:
  assumes "curve_ok E" "hash_map_ok ps" "h = in_g2 E a"
    and "\<And>i sig. (i, sig) \<in> set ps \<Longrightarrow> sig = g2_mul E h (s i)"
  shows "sum_list (map snd ps) = in_g2 E (a * (\<Sum>i\<in>fst ` set ps. s i))"
proof -
  have "map snd ps = map (\<lambda>i. in_g2 E (a * s i)) (map fst ps)"
    using assms(4) by (auto simp: assms(3) exponent_simps [OF assms(1)])
  then have "sum_list (map snd ps) = (\<Sum>i\<in>fst ` set ps. in_g2 E (a * s i))"
    using assms(2) by (simp add: hash_map_ok_def sum_list_distinct_conv_sum_set del: map_map)
  then show ?thesis by (simp add: in_group_sum [OF assms(1)] sum_distrib_left)
qed

lemma registered_reserved:
  assumes "registered E w tau n signer_info wt s" "\<forall>i \<in> fst ` set signer_info. i < n - 1" "0 < n"
  shows "wt (n - 1) = 0" "s (n - 1) = 0"
proof -
  have "map_of signer_info (n - 1) = None"
    using assms(2) by (auto simp: map_of_eq_None_iff)
  then show "wt (n - 1) = 0" "s (n - 1) = 0"
    using assms(1,3) by (auto simp: registered_def dest!: spec [of _ "n - 1"])
qed

lemma opening_checks_pass:
  fixes E :: "('f::field, 'g1::ab_group_add, 'g2::ab_group_add, 'gt::ab_group_add, 'rng) ark"
  assumes "curve_ok E" "signature_for E n w tau (map wt [0..<n]) wit Q r chi_op pi_sig"
  shows "opening_at_r_check E (vk_of E w tau n wt s) pi_sig r chi_op"
    "opening_at_r_div_omega_check E (vk_of E w tau n wt s) pi_sig (r / w)"
proof -
  let ?vk = "vk_of E w tau n wt s"
  note op = verify_opening_iff [OF assms(1), of ?vk tau]
  have W: "vec_eval n w (map wt [0..<n]) tau = (\<Sum>i<n. wt i * lagrange n w i tau)"
    by (simp add: vec_eval_def)
  note sf = assms(2) [unfolded signature_for_def Let_def]
  have "merge_points E [q_mrg_of_tau_com pi_sig, parsum_of_tau_com pi_sig, b_of_tau_com pi_sig, vk_w_of_tau_com ?vk] chi_op
      = in_g1 E (peval [peval Q tau, vec_eval n w (wit_parsum wit) tau, vec_eval n w (wit_bitmap wit) tau,
          vec_eval n w (map wt [0..<n]) tau] chi_op)"
    using sf merge_points_eq [OF assms(1), of "[peval Q tau, vec_eval n w (wit_parsum wit) tau,
          vec_eval n w (wit_bitmap wit) tau, vec_eval n w (map wt [0..<n]) tau]" chi_op]
    unfolding W by auto
  then show "opening_at_r_check E ?vk pi_sig r chi_op"
    unfolding opening_at_r_check_def Let_def merge_scalars_eq using sf by (auto simp: op simp del: peval.simps)
  show "opening_at_r_div_omega_check E ?vk pi_sig (r / w)"
    unfolding opening_at_r_div_omega_check_def using sf by (auto simp: op)
qed

lemma relation_check_iff:
  fixes E :: "('f::field, 'g1::ab_group_add, 'g2::ab_group_add, 'gt::ab_group_add, 'rng) ark"
  assumes "hints_setting E crs tau n w" "signature_for E n w tau (map wt [0..<n]) wit Q r chi_op pi_sig"
    and "relation_at n w (wit_bitmap wit) (wit_parsum wit) (map wt [0..<n]) (wit_agg_weight wit) chi_q r
      = peval Q r * (r ^ n - 1)"
  shows "merged_relation_check (vk_of E w tau n wt s) pi_sig w chi_q r = Ok (r ^ n \<noteq> 1)"
proof (cases "r ^ n = 1")
  case True
  then show ?thesis by (simp add: merged_relation_check_domain)
next
  case False
  then show ?thesis
    using merged_relation_check_eq [of "vk_of E w tau n wt s" w r pi_sig chi_q] assms(2,3)
      hints_setting_root [OF assms(1)] hints_settingD(10) [OF assms(1)]
    by (auto simp: signature_for_def relation_at_def Let_def)
qed

lemma sum_checks_pass:
  fixes E :: "('f::field, 'g1::ab_group_add, 'g2::ab_group_add, 'gt::ab_group_add, 'rng) ark"
  assumes set: "hints_setting E crs tau n w" and S: "S \<subseteq> {..<n - 1}"
    and wit: "wit = witness_of E (ak_of E w tau n wt s) S sig_sum"
    and sf: "signature_for E n w tau (map wt [0..<n]) wit Q r chi_op pi_sig"
  defines "e \<equiv> pairing E (qx_of_tau_com pi_sig) (in_g2 E tau)"
  shows "sumcheck_check E (vk_of E w tau n wt s) pi_sig e" "degree_check E (vk_of E w tau n wt s) pi_sig e"
proof -
  note st = hints_settingD [OF set]
  note ws = wit_sums [OF st(6,10) S, of w tau wt s sig_sum, folded wit]
  have B: "vec_eval n w (wit_bitmap wit) tau = (\<Sum>i<n. signer_bit S n i * lagrange n w i tau)"
    by (simp add: vec_eval_def ws(5))
  have pi: "b_of_tau_com pi_sig = in_g1 E (\<Sum>i<n. signer_bit S n i * lagrange n w i tau)"
    "qz_of_tau_com pi_sig = wit_qz_of_tau_com wit" "qx_of_tau_com pi_sig = wit_qx_of_tau_com wit"
    "qx_of_tau_mul_tau_com pi_sig = wit_qx_of_tau_mul_tau_com wit" "agg_pk pi_sig = wit_agg_pk wit"
    using sf unfolding signature_for_def Let_def B by auto
  show "sumcheck_check E (vk_of E w tau n wt s) pi_sig e"
    by (simp add: sumcheck_check_def e_def pi ws(1-4) exponent_simps [OF st(6)] sumcheck_identity [OF set])
  show "degree_check E (vk_of E w tau n wt s) pi_sig e"
    by (simp add: degree_check_def e_def pi ws(1-4) exponent_simps [OF st(6)] degree_identity [OF set])
qed

lemma bls_check_passes:
  fixes E :: "('f::field, 'g1::ab_group_add, 'g2::ab_group_add, 'gt::ab_group_add, 'rng) ark"
  assumes "curve_ok E" "0 < n" "S \<subseteq> {..<n - 1}" "s (n - 1) = 0"
    and "hash_to_g2 E msg = Ok (in_g2 E a)" "sig_sum = in_g2 E (a * (\<Sum>i\<in>S. s i))"
    and "wit = witness_of E (ak_of E w tau n wt s) S sig_sum"
    and "signature_for E n w tau (map wt [0..<n]) wit Q r chi_op pi_sig"
  shows "bls_check E msg (vk_of E w tau n wt s) pi_sig = Ok True"
proof -
  have "finite S" "n - 1 \<notin> S" using assms(3) finite_subset by auto
  then have sum: "(\<Sum>i<n. signer_bit S n i * s i) = (\<Sum>i\<in>S. s i)"
    using assms(4) by (simp add: sum_atMost_reserved [OF assms(2,3)])
  have pi: "agg_pk pi_sig = wit_agg_pk wit" "agg_sig pi_sig = wit_agg_sig wit"
    using assms(8) by (auto simp: signature_for_def Let_def)
  have "wit_agg_sig wit = g2_mul E sig_sum (1 / of_nat n)"
    by (simp add: assms(7) witness_of_def Let_def)
  then show ?thesis
    using wit_sums(1) [OF assms(1-3), of w tau wt s sig_sum, folded assms(7), unfolded sum]
    by (simp add: bls_check_def assms(5,6) pi sum exponent_simps [OF assms(1)] ac_simps)
qed

theorem aggregate_verifies:
  fixes E :: "('f::field, 'g1::ab_group_add, 'g2::ab_group_add, 'gt::ab_group_add, 'rng) ark"
  assumes set: "hints_setting E crs tau n w" and enc: "encoding_ok E" and psok: "hash_map_ok ps"
    and pre: "preprocess E n crs signer_info = Ok (vk, ak)"
    and parts: "\<And>i sig. (i, sig) \<in> set ps \<Longrightarrow> partial_verify E msg ak i sig = Ok True"
  shows "\<exists>pi_sig chi_q r chi_op. aggregate E crs ak vk ps = Ok pi_sig \<and>
    agg_weight pi_sig = (\<Sum>i\<in>fst ` set ps. ak_weights ak ! i) \<and>
    derive_challenges E vk pi_sig = Ok (chi_q, r, chi_op) \<and>
    (verify E msg vk pi_sig (num, den) = Ok True \<longleftrightarrow>
       agg_pk pi_sig \<noteq> 0 \<and> agg_sig pi_sig \<noteq> 0 \<and>
       fr_gt E (den * agg_weight pi_sig) (num * vk_total_weight vk) \<and> r ^ n \<noteq> 1)"
proof -
  note st = hints_settingD [OF set] and root = hints_setting_root [OF set]
  let ?S = "fst ` set ps"
  from pre obtain wt s where keys: "\<forall>i \<in> fst ` set signer_info. i < n - 1"
    and reg: "registered E w tau n signer_info wt s"
    and vk: "vk = vk_of E w tau n wt s" and ak: "ak = ak_of E w tau n wt s"
    unfolding preprocess_iff [OF set enc] by blast
  note zero = registered_reserved [OF reg keys st(10)]
  have rng: "i < n - 1" if "i \<in> ?S" for i
    using that parts partial_verify_range [of E msg ak] by (force simp: ak)
  then have S: "?S \<subseteq> {..<n - 1}" by auto
  obtain h where h: "hash_to_g2 E msg = Ok h"
    using encoding_okD(5) [OF enc] by (auto simp: hash_to_g2_def is_ok_iff)
  obtain a where a: "h = in_g2 E a" using ex_in_g2 [OF st(6)] by blast
  have sigs: "sig = g2_mul E h (s i)" if "(i, sig) \<in> set ps" for i sig
  proof -
    have "i < n - 1" using rng that by force
    then show ?thesis
      using partial_verify_iff [OF st(6) _ _ h, of ak i "s i" sig] parts [OF that] st(3)
      by (simp add: ak valid_key_def)
  qed
  note sum = signature_sum [OF st(6) psok a sigs]
  define wit where "wit = witness_of E ak ?S (sum_list (map snd ps))"
  have asm: "assemble_witness E ak ps = Ok wit"
    unfolding wit_def by (rule assemble_witness_eq) (use st(11) root(2) rng in \<open>auto simp: ak\<close>)
  note ws = wit_sums [OF st(6,10) S, of w tau wt s "sum_list (map snd ps)", folded ak wit_def]
  obtain pi_sig exact Q chi_q r chi_op where prv: "prove E crs ak vk wit = Ok (pi_sig, exact)"
    and der: "derive_challenges E vk pi_sig = Ok (chi_q, r, chi_op)"
    and sf: "signature_for E n w tau (ak_weights ak) wit Q r chi_op pi_sig"
    and exact: "exact \<longleftrightarrow> (\<forall>i < n. relation_at n w (wit_bitmap wit) (wit_parsum wit) (ak_weights ak)
       (wit_agg_weight wit) chi_q (w ^ i) = 0)"
    and rel: "\<And>x. exact \<Longrightarrow> relation_at n w (wit_bitmap wit) (wit_parsum wit) (ak_weights ak)
       (wit_agg_weight wit) chi_q x = peval Q x * (x ^ n - 1)"
    by (rule prove_correct [OF set enc, of ak wit vk]) (use ak ws(5,6) in auto)
  have rh: "relations_hold n (wit_bitmap wit) (wit_parsum wit) (ak_weights ak) (wit_agg_weight wit)"
    using honest_relations [OF st(11) S, of wt] zero(1) by (simp add: ws(5,7,8) ak)
  have ex: exact
    unfolding exact by (intro allI impI relations_hold_on_domain [OF root rh])
  have agg: "aggregate E crs ak vk ps = Ok pi_sig"
    using st(3,4) ex by (simp add: aggregate_def Let_def ak asm [unfolded ak] prv [unfolded ak])
  note sf' = sf [unfolded ak ak_of_fields] and wit' = wit_def [unfolded ak]
  have aggw: "agg_weight pi_sig = (\<Sum>i\<in>?S. ak_weights ak ! i)"
  proof -
    have "(\<Sum>i\<in>?S. ak_weights ak ! i) = (\<Sum>i\<in>?S. wt i)"
      using rng by (intro sum.cong refl) (fastforce simp: ak)
    then show ?thesis using sf ws(7) by (auto simp: signature_for_def Let_def)
  qed
  have "verify E msg vk pi_sig (num, den) = Ok True \<longleftrightarrow>
       agg_pk pi_sig \<noteq> 0 \<and> agg_sig pi_sig \<noteq> 0 \<and>
       fr_gt E (den * agg_weight pi_sig) (num * vk_total_weight vk) \<and> r ^ n \<noteq> 1"
    using st(3,5) primitive_root_nonzero [OF root(1)] der [unfolded vk]
      bls_check_passes [OF st(6,10) S zero(2) h [unfolded a] sum wit' sf']
      relation_check_iff [OF set sf' rel [OF ex, unfolded ak ak_of_fields]]
      opening_checks_pass [OF st(6) sf'] sum_checks_pass [OF set S wit' sf']
    by (auto simp: verify_def Let_def vk nth_root_of_unity_def)
  then show ?thesis using agg aggw der by blast
qed

end
