(* ===== verification/HintsExact.thy ===== *)
theory HintsExact
  imports HintsVerify
begin

text \<open>
  Exactness results about the hinTS operations: \<open>aggregate\<close> succeeds on a well-formed key exactly
  when the key gives the reserved slot no weight; the threshold comparison in the field is the
  comparison of integers as long as the products stay below the modulus; an opening accepted for
  two values at one point yields a solution of the strong Diffie-Hellman problem; the challenges
  bind every field that enters the transcript.
\<close>

section \<open>When aggregation succeeds\<close>

lemma relation_value_shift:
  "relation_value l b ps psd wv aggw chi = relation_value l b ps psd wv' aggw chi - (wv - wv') * b"
  by (simp add: relation_value_def algebra_simps)

lemma witness_relation_at:
  fixes E :: "('f::field, 'g1::ab_group_add, 'g2::ab_group_add, 'gt, 'rng) ark" and w :: 'f and sig_sum :: 'g2
  assumes root: "primitive_root n w" "of_nat n \<noteq> (0 :: 'f)" and n: "1 < n" "ak_n ak = n"
    and len: "length (ak_weights ak) = n" and S: "S \<subseteq> {..<n - 1}" and i: "i < n"
  defines "wit \<equiv> witness_of E ak S sig_sum"
  shows "relation_at n w (wit_bitmap wit) (wit_parsum wit) (ak_weights ak) (wit_agg_weight wit) chi (w ^ i)
    = (if i = n - 1 then - ak_weights ak ! (n - 1) else 0)"
proof -
  define wt where "wt k = (if k = n - 1 then 0 else ak_weights ak ! k)" for k
  have wtS: "(\<Sum>k\<in>S. wt k) = (\<Sum>k\<in>S. ak_weights ak ! k)"
    using S by (intro sum.cong) (auto simp: wt_def)
  have fields: "wit_bitmap wit = map (signer_bit S n) [0..<n]" "wit_agg_weight wit = (\<Sum>k\<in>S. wt k)"
    "wit_parsum wit = map (\<lambda>i. \<Sum>k\<le>i. signer_bit S n k * (if k = n - 1 then - (\<Sum>k\<in>S. wt k) else wt k)) [0..<n]"
    unfolding wtS by (auto simp: wit_def witness_of_def n(2) Let_def wt_def intro!: sum.cong)
  have "relations_hold n (wit_bitmap wit) (wit_parsum wit) (map wt [0..<n]) (wit_agg_weight wit)"
    unfolding fields by (rule honest_relations [OF n(1) S]) (simp add: wt_def)
  from relations_hold_on_domain [OF root this i, of chi]
  have "relation_value (if i = n - 1 then 1 else 0) (wit_bitmap wit ! i) (wit_parsum wit ! i)
      (wit_parsum wit ! (if i = 0 then n - 1 else i - 1)) (wt i) (wit_agg_weight wit) chi = 0"
    unfolding relation_on_domain [OF root i] using i by simp
  then show ?thesis
    unfolding relation_on_domain [OF root i]
    using i by (subst relation_value_shift [where wv' = "wt i"]) (auto simp: wt_def fields(1) signer_bit_def)
qed

lemma aggregate_exact:
  fixes E :: "('f::field, 'g1::ab_group_add, 'g2::ab_group_add, 'gt::ab_group_add, 'rng) ark"
  assumes set: "hints_setting E crs tau n w" and enc: "encoding_ok E"
    and wf: "aggregation_key_is_well_formed ak" "ak_n ak = n"
    and keys: "\<And>i. i \<in> fst ` set ps \<Longrightarrow> i < n - 1"
  shows "if ak_weights ak ! (n - 1) = 0
    then \<exists>pi_sig. aggregate E crs ak vk ps = Ok pi_sig \<and>
      agg_weight pi_sig = (\<Sum>i\<in>fst ` set ps. ak_weights ak ! i)
    else aggregate E crs ak vk ps = Err (InvalidInput ''aggregation inputs do not satisfy the hinTS relations'')"
proof -
  note st = hints_settingD [OF set] and root = hints_setting_root [OF set]
  let ?S = "fst ` set ps"
  have S: "?S \<subseteq> {..<n - 1}" using keys by auto
  have len: "length (ak_weights ak) = n" using wf by (simp add: aggregation_key_is_well_formed_def)
  define wit where "wit = witness_of E ak ?S (sum_list (map snd ps))"
  have asm: "assemble_witness E ak ps = Ok wit"
    unfolding wit_def by (rule assemble_witness_eq [OF wf(1)]) (use wf(2) st(11) root(2) keys in auto)
  have lens: "length (wit_bitmap wit) = n" "length (wit_parsum wit) = n"
    by (simp_all add: wit_def witness_of_def Let_def wf(2))
  obtain pi_sig exact Q chi_q r chi_op where prv: "prove E crs ak vk wit = Ok (pi_sig, exact)"
    and sf: "signature_for E n w tau (ak_weights ak) wit Q r chi_op pi_sig"
    and exact: "exact \<longleftrightarrow> (\<forall>i < n. relation_at n w (wit_bitmap wit) (wit_parsum wit) (ak_weights ak)
       (wit_agg_weight wit) chi_q (w ^ i) = 0)"
    using prove_correct [OF set enc wf(2) len lens] by metis
  have rel: "relation_at n w (wit_bitmap wit) (wit_parsum wit) (ak_weights ak) (wit_agg_weight wit) chi_q (w ^ i)
      = (if i = n - 1 then - ak_weights ak ! (n - 1) else 0)" if "i < n" for i
    unfolding wit_def by (rule witness_relation_at [OF root st(11) wf(2) len S that])
  have "exact \<longleftrightarrow> ak_weights ak ! (n - 1) = 0"
  proof
    assume exact
    then show "ak_weights ak ! (n - 1) = 0" using exact rel [of "n - 1"] st(10) by simp
  qed (use exact rel in auto)
  moreover have "agg_weight pi_sig = (\<Sum>i\<in>?S. ak_weights ak ! i)"
    using sf by (auto simp: signature_for_def Let_def wit_def witness_of_def)
  ultimately show ?thesis
    using st(3,4) wf by (simp add: aggregate_def Let_def asm prv)
qed

lemma aggregate_out_of_range:
  fixes E :: "('f::field, 'g1::ab_group_add, 'g2::ab_group_add, 'gt::ab_group_add, 'rng) ark"
  assumes "curve_ok E" "aggregation_key_is_well_formed ak" "is_n_valid (ak_n ak)" "crs_supports crs (ak_n ak)"
    and "(i, sig) \<in> set ps" "i \<ge> ak_n ak - 1"
  shows "\<exists>j \<in> fst ` set ps. j \<ge> ak_n ak - 1 \<and>
    aggregate E crs ak vk ps = Err (InvalidInput (party_id_msg j (ak_n ak)))"
proof -
  let ?n = "ak_n ak"
  have n: "2 \<le> ?n" using is_n_valid_gt_1 [OF assms(3)] by simp
  have fd: "field_div 1 (of_nat ?n :: 'f) = Ok (1 / of_nat ?n)"
    using valid_size_nonzero [OF curve_okD(1) [OF assms(1)] assms(3)] by simp
  have "i \<in> set (map fst ps)" "i > ?n - 2" using assms(5,6) n by (force, linarith)
  from bitmap_loop_rejects [OF n this, of "replicate ?n (0 :: 'f)"]
  obtain j where j: "j \<in> set (map fst ps)" "j > ?n - 2"
    "fold_result (\<lambda>i bitmap. if i > usize_sub ?n 2 then Err (InvalidInput (party_id_msg i ?n))
      else set_index bitmap i (1 :: 'f)) (map fst ps) (replicate ?n 0) = Err (InvalidInput (party_id_msg j ?n))"
    by auto
  have "assemble_witness E ak ps = Err (InvalidInput (party_id_msg j ?n))"
    unfolding assemble_witness_def Let_def fd and_then.simps j(3) by (rule refl)
  then have "aggregate E crs ak vk ps = Err (InvalidInput (party_id_msg j ?n))"
    using assms(2-4) by (simp add: aggregate_def Let_def)
  then show ?thesis using j(1,2) n by (intro bexI [of _ j]) auto
qed

section \<open>The threshold in integers\<close>

lemma into_bigint_of_nat:
  "field_ok E \<Longrightarrow> into_bigint E (of_nat k) = k mod fr_modulus E"
  by (simp add: field_ok_def)

lemma threshold_no_wrap:
  assumes "field_ok E" "den * aggw < fr_modulus E" "num * tot < fr_modulus E"
  shows "fr_gt E (of_nat den * of_nat aggw) (of_nat num * of_nat tot) \<longleftrightarrow> den * aggw > num * tot"
  using assms into_bigint_of_nat [OF assms(1), of "den * aggw"] into_bigint_of_nat [OF assms(1), of "num * tot"]
  by (simp add: fr_gt_def)

section \<open>Openings bind\<close>

lemma opening_binding:
  fixes E :: "('f::field, 'g1::ab_group_add, 'g2::ab_group_add, 'gt::ab_group_add, 'rng) ark"
  assumes "curve_ok E" "vk_g_0 vk = in_g1 E 1" "vk_h_0 vk = in_g2 E 1" "vk_h_1 vk = in_g2 E tau"
    and "verify_opening E vk com z v P" "verify_opening E vk com z v' P'" "v \<noteq> v'"
  shows "tau \<noteq> z \<and> g1_mul E (P - P') (1 / (v' - v)) = in_g1 E (1 / (tau - z))"
proof -
  obtain c where c: "com = in_g1 E c" using ex_in_g1 [OF assms(1)] by blast
  obtain q where q: "P = in_g1 E q" using ex_in_g1 [OF assms(1)] by blast
  obtain q' where q': "P' = in_g1 E q'" using ex_in_g1 [OF assms(1)] by blast
  have e: "c - v = q * (tau - z)" "c - v' = q' * (tau - z)"
    using assms(5,6) verify_opening_iff [OF assms(1-4)] by (auto simp: c q q')
  have "v' - v = (c - v) - (c - v')" by simp
  then have d: "v' - v = (q - q') * (tau - z)" unfolding e by (simp add: algebra_simps)
  then have nz: "tau - z \<noteq> 0" "v' - v \<noteq> 0" using assms(7) by auto
  then have "(q - q') * (1 / (v' - v)) = 1 / (tau - z)"
    using d by (simp add: divide_simps)
  then show ?thesis using nz by (simp add: q q' exponent_simps [OF assms(1)])
qed

section \<open>The challenges bind the signature\<close>

text \<open>
  Documented behaviour of the canonical encodings: each type is encoded injectively at a fixed
  width.
\<close>

definition fixed_width :: "('a \<Rightarrow> (bytes, serialization_error) result) \<Rightarrow> bool" where
  "fixed_width ser \<longleftrightarrow>
     (\<forall>a b x y. ser a = Ok x \<longrightarrow> ser b = Ok y \<longrightarrow> length x = length y \<and> (x = y \<longrightarrow> a = b))"

definition canonical_encodings :: "('f, 'g1, 'g2, 'gt, 'rng) ark \<Rightarrow> bool" where
  "canonical_encodings E \<longleftrightarrow> fixed_width (ser_f E) \<and> fixed_width (ser_g1 E)"

lemma fixed_widthD:
  assumes "fixed_width ser" "ser a = Ok x" "ser b = Ok y"
  shows "length x = length y" "x = y \<Longrightarrow> a = b"
  using assms unfolding fixed_width_def by blast+

text \<open>Everything the verifier reads of a signature apart from the aggregate signature and the openings.\<close>

definition transcript_fields :: "('f, 'g1, 'g2) threshold_signature \<Rightarrow> 'g1 list \<times> 'f list" where
  "transcript_fields s =
     ([agg_pk s, b_of_tau_com s, parsum_of_tau_com s, qx_of_tau_com s, qz_of_tau_com s,
       qx_of_tau_mul_tau_com s, q_mrg_of_tau_com s],
      [agg_weight s, parsum_of_r s, parsum_of_r_div_omega s, w_of_r s, b_of_r s, q_mrg_of_r s])"

definition transcript_items ::
  "('f, 'g1, 'g2, 'gt, 'rng) ark \<Rightarrow> ('f, 'g1, 'g2) verification_key \<Rightarrow> ('f, 'g1, 'g2) threshold_signature
   \<Rightarrow> (bytes, serialization_error) result list" where
  "transcript_items E vk s =
     [ser_verification_key E vk, ser_g1 E (agg_pk s), ser_f E (agg_weight s),
      ser_g1 E (b_of_tau_com s), ser_g1 E (parsum_of_tau_com s), ser_g1 E (qx_of_tau_com s),
      ser_g1 E (qz_of_tau_com s), ser_g1 E (qx_of_tau_mul_tau_com s), ser_g1 E (q_mrg_of_tau_com s),
      ser_f E (parsum_of_r s), ser_f E (parsum_of_r_div_omega s), ser_f E (w_of_r s), ser_f E (b_of_r s),
      ser_f E (q_mrg_of_r s)]"

definition final_transcript ::
  "('f, 'g1, 'g2, 'gt, 'rng) ark \<Rightarrow> ('f, 'g1, 'g2) verification_key \<Rightarrow> ('f, 'g1, 'g2) threshold_signature
   \<Rightarrow> (transcript, hints_error) result" where
  "final_transcript E vk s = absorb_all transcript_new (transcript_items E vk s)"

lemma final_transcript_content:
  "final_transcript E vk s = Ok t \<Longrightarrow> \<exists>bss. transcript_items E vk s = map Ok bss \<and> tr_bytes t = concat bss"
  unfolding final_transcript_def absorb_all_eq
  using tr.push_all_content [of transcript_new "transcript_items E vk s" t] by (simp add: transcript_new_def)

lemma absorb_all_append:
  "absorb_all t (xs @ ys) = and_then (absorb_all t xs) (\<lambda>t'. absorb_all t' ys)"
proof (induction xs arbitrary: t)
  case (Cons x xs)
  then show ?case by (cases "absorb t x") simp_all
qed simp

lemma derive_challenges_final:
  assumes "derive_challenges E vk s = Ok (chi_q, r, chi_op)"
  obtains t where "final_transcript E vk s = Ok t" "chi_op = transcript_challenge E t DST_OPENING_BATCH"
proof -
  from assms obtain t1 t2 t3 where t: "absorb_round_1 E transcript_new vk (agg_pk s) (agg_weight s)
         (b_of_tau_com s) (parsum_of_tau_com s) (qx_of_tau_com s) (qz_of_tau_com s) (qx_of_tau_mul_tau_com s) = Ok t1"
    "absorb_round_2 E t1 (q_mrg_of_tau_com s) = Ok t2"
    "absorb_round_3 E t2 (parsum_of_r s) (parsum_of_r_div_omega s) (w_of_r s) (b_of_r s) (q_mrg_of_r s) = Ok t3"
    "chi_op = transcript_challenge E t3 DST_OPENING_BATCH"
    by (auto simp: derive_challenges_def Let_def)
  let ?i1 = "[ser_verification_key E vk, ser_g1 E (agg_pk s), ser_f E (agg_weight s), ser_g1 E (b_of_tau_com s),
     ser_g1 E (parsum_of_tau_com s), ser_g1 E (qx_of_tau_com s), ser_g1 E (qz_of_tau_com s), ser_g1 E (qx_of_tau_mul_tau_com s)]"
  let ?i2 = "[ser_g1 E (q_mrg_of_tau_com s)]"
  let ?i3 = "[ser_f E (parsum_of_r s), ser_f E (parsum_of_r_div_omega s), ser_f E (w_of_r s), ser_f E (b_of_r s), ser_f E (q_mrg_of_r s)]"
  have "absorb_all transcript_new (?i1 @ ?i2 @ ?i3) = Ok t3"
    using t(1-3) unfolding absorb_round_1_def absorb_round_2_def absorb_round_3_def absorb_all_append
    by (simp only: and_then.simps)
  then have "final_transcript E vk s = Ok t3" unfolding final_transcript_def transcript_items_def by (simp only: append.simps)
  then show thesis using t(4) that by blast
qed

text \<open>Two signatures with the same transcript content have the same items.\<close>

lemma transcript_items_inj:
  assumes "canonical_encodings E" "final_transcript E vk s = Ok t" "final_transcript E vk s' = Ok t'"
    and "tr_bytes t = tr_bytes t'"
  shows "transcript_items E vk s = transcript_items E vk s'"
    and "\<forall>u \<in> set (transcript_items E vk s). \<exists>x. u = Ok x"
proof -
  note fw = assms(1) [unfolded canonical_encodings_def]
  obtain bss where b: "transcript_items E vk s = map Ok bss" "tr_bytes t = concat bss"
    using final_transcript_content [OF assms(2)] by blast
  obtain bss' where b': "transcript_items E vk s' = map Ok bss'" "tr_bytes t' = concat bss'"
    using final_transcript_content [OF assms(3)] by blast
  have eq: "concat bss = concat bss'" using b(2) b'(2) assms(4) by simp
  have "length bss = 14" "length bss' = 14"
    using arg_cong [OF b(1), of length] arg_cong [OF b'(1), of length] by (simp_all add: transcript_items_def)
  have widths: "list_all2 (\<lambda>u v. \<forall>x y. u = Ok x \<longrightarrow> v = Ok y \<longrightarrow> length x = length y)
      (transcript_items E vk s) (transcript_items E vk s')"
    unfolding transcript_items_def list_all2_Cons list.rel_inject(1) simp_thms
    by (intro conjI allI impI; (simp; fail | erule (1) fixed_widthD(1) [OF fw [THEN conjunct1]]
          | erule (1) fixed_widthD(1) [OF fw [THEN conjunct2]]))
  have "map length bss = map length bss'"
    using widths \<open>length bss = 14\<close> \<open>length bss' = 14\<close>
    unfolding b(1) b'(1) by (auto simp: list_all2_conv_all_nth intro: nth_equalityI)
  then have "bss = bss'" by (rule concat_fixed_width_inj [OF _ eq])
  then show "transcript_items E vk s = transcript_items E vk s'" using b(1) b'(1) by simp
  show "\<forall>u \<in> set (transcript_items E vk s). \<exists>x. u = Ok x" using b(1) by auto
qed

lemma final_transcript_binds:
  assumes "canonical_encodings E" "final_transcript E vk s = Ok t" "final_transcript E vk s' = Ok t'"
    and "tr_bytes t = tr_bytes t'"
  shows "transcript_fields s = transcript_fields s'"
proof -
  note fw = assms(1) [unfolded canonical_encodings_def]
  have g: "ser_g1 E a = ser_g1 E a' \<Longrightarrow> \<exists>x. ser_g1 E a = Ok x \<Longrightarrow> a = a'" for a a'
    using fixed_widthD(2) [OF fw [THEN conjunct2]] by metis
  have f: "ser_f E a = ser_f E a' \<Longrightarrow> \<exists>x. ser_f E a = Ok x \<Longrightarrow> a = a'" for a a'
    using fixed_widthD(2) [OF fw [THEN conjunct1]] by metis
  note eqs = transcript_items_inj(1) [OF assms, unfolded transcript_items_def list.inject]
  note oks = transcript_items_inj(2) [OF assms, unfolded transcript_items_def, simplified]
  have "agg_pk s = agg_pk s'" by (rule g) (use eqs oks in simp_all)
  moreover have "agg_weight s = agg_weight s'" by (rule f) (use eqs oks in simp_all)
  moreover have "b_of_tau_com s = b_of_tau_com s'" by (rule g) (use eqs oks in simp_all)
  moreover have "parsum_of_tau_com s = parsum_of_tau_com s'" by (rule g) (use eqs oks in simp_all)
  moreover have "qx_of_tau_com s = qx_of_tau_com s'" by (rule g) (use eqs oks in simp_all)
  moreover have "qz_of_tau_com s = qz_of_tau_com s'" by (rule g) (use eqs oks in simp_all)
  moreover have "qx_of_tau_mul_tau_com s = qx_of_tau_mul_tau_com s'" by (rule g) (use eqs oks in simp_all)
  moreover have "q_mrg_of_tau_com s = q_mrg_of_tau_com s'" by (rule g) (use eqs oks in simp_all)
  moreover have "parsum_of_r s = parsum_of_r s'" by (rule f) (use eqs oks in simp_all)
  moreover have "parsum_of_r_div_omega s = parsum_of_r_div_omega s'" by (rule f) (use eqs oks in simp_all)
  moreover have "w_of_r s = w_of_r s'" by (rule f) (use eqs oks in simp_all)
  moreover have "b_of_r s = b_of_r s'" by (rule f) (use eqs oks in simp_all)
  moreover have "q_mrg_of_r s = q_mrg_of_r s'" by (rule f) (use eqs oks in simp_all)
  ultimately show ?thesis by (simp add: transcript_fields_def)
qed


section \<open>Verification never panics\<close>

lemma merged_relation_check_total:
  assumes "primitive_root (vk_n vk) w" "of_nat (vk_n vk) \<noteq> (0 :: 'f::field)"
  shows "is_ok (merged_relation_check vk pi_sig (w :: 'f) chi r)"
proof (cases "r ^ vk_n vk = 1")
  case True
  then show ?thesis by (simp add: merged_relation_check_domain)
next
  case False
  moreover have "0 < vk_n vk" using assms(1) by (simp add: primitive_root_def)
  ultimately show ?thesis by (simp add: merged_relation_check_eq [OF assms])
qed

lemma derive_challenges_total:
  assumes "encoding_ok E"
  shows "\<exists>chi_q r chi_op. derive_challenges E vk pi_sig = Ok (chi_q, r, chi_op)"
proof -
  obtain t1 where t1: "absorb_round_1 E transcript_new vk (agg_pk pi_sig) (agg_weight pi_sig)
         (b_of_tau_com pi_sig) (parsum_of_tau_com pi_sig) (qx_of_tau_com pi_sig)
         (qz_of_tau_com pi_sig) (qx_of_tau_mul_tau_com pi_sig) = Ok t1" using rounds_total(1) [OF assms] by blast
  obtain t2 where t2: "absorb_round_2 E t1 (q_mrg_of_tau_com pi_sig) = Ok t2" using rounds_total(2) [OF assms] by blast
  obtain t3 where "absorb_round_3 E t2 (parsum_of_r pi_sig) (parsum_of_r_div_omega pi_sig)
         (w_of_r pi_sig) (b_of_r pi_sig) (q_mrg_of_r pi_sig) = Ok t3" using rounds_total(3) [OF assms] by blast
  then show ?thesis by (simp add: derive_challenges_def Let_def t1 t2)
qed

lemma verify_not_panicked:
  fixes E :: "('f::field, 'g1::ab_group_add, 'g2::ab_group_add, 'gt::ab_group_add, 'rng) ark"
  assumes ok: "ark_ok E" and enc: "encoding_ok E"
  shows "(\<exists>b. verify E msg vk pi_sig fraction = Ok b) \<or>
    (domain_group_gen E (vk_n vk) = None \<and>
     verify E msg vk pi_sig fraction = Err (CryptographyCatastrophe (domain_msg (vk_n vk))))"
proof (cases "is_n_valid (vk_n vk)")
  case False
  then show ?thesis by (auto simp: verify_def check_or_return_false_def)
next
  case True
  obtain h where "hash_to_g2 E msg = Ok h"
    using encoding_okD(5) [OF enc] by (auto simp: hash_to_g2_def is_ok_iff)
  then obtain b where bls: "bls_check E msg vk pi_sig = Ok b" by (simp add: bls_check_def)
  obtain chi_q r chi_op where der: "derive_challenges E vk pi_sig = Ok (chi_q, r, chi_op)"
    using derive_challenges_total [OF enc] by blast
  have total: "is_ok (verify E msg vk pi_sig fraction)" if w: "domain_group_gen E (vk_n vk) = Some w" for w
  proof -
    have prim: "primitive_root (vk_n vk) w" by (rule domain_primitive [OF ark_okD(3) [OF ok] True w])
    have nz: "(of_nat (vk_n vk) :: 'f) \<noteq> 0"
      by (rule valid_size_nonzero [OF curve_okD(1) [OF ark_okD(1) [OF ok]] True])
    obtain c where "merged_relation_check vk pi_sig w chi_q r = Ok c"
      using merged_relation_check_total [OF prim nz] unfolding is_ok_iff by blast
    then show ?thesis
      using w primitive_root_nonzero [OF prim] bls der
      by (simp add: verify_def is_ok_check nth_root_of_unity_def Let_def split_def)
  qed
  show ?thesis
  proof (cases "domain_group_gen E (vk_n vk)")
    case None
    then show ?thesis
      using bls by (auto simp: verify_def nth_root_of_unity_def check_or_return_false_def ok_or_def split_def)
  qed (use total in \<open>auto simp: is_ok_iff\<close>)
qed

section \<open>Openings are complete and correct\<close>

lemma opening_correct:
  fixes E :: "('f::field, 'g1::ab_group_add, 'g2::ab_group_add, 'gt::ab_group_add, 'rng) ark"
  assumes "curve_ok E" "poly_ok E" "structured_crs E tau crs" "pwf p"
    and "length p \<le> length (powers_of_g crs)" "0 < length (powers_of_g crs)"
    and vk: "vk_g_0 vk = in_g1 E 1" "vk_h_0 vk = in_g2 E 1" "vk_h_1 vk = in_g2 E tau"
  shows "\<exists>com prf. commit_g1 E crs p = Ok com \<and> compute_opening_proof E crs p z = Ok prf \<and>
    (\<forall>v. verify_opening E vk com z v prf \<longleftrightarrow> v = poly_evaluate E p z)"
proof -
  obtain q where q: "compute_opening_proof E crs p z = Ok (in_g1 E q)"
    "peval p tau - peval p z = q * (tau - z)"
    using compute_opening_proof_value [OF assms(1-6)] by metis
  have "verify_opening E vk (in_g1 E (peval p tau)) z v (in_g1 E q) \<longleftrightarrow> v = poly_evaluate E p z" for v
    unfolding verify_opening_iff [OF assms(1) vk] poly_evaluate_eq [OF assms(2)] q(2) [symmetric] by auto
  then show ?thesis using q(1) commit_g1_value [OF assms(1-6)] by blast
qed

end
