(* ===== verification/Gf17.thy ===== *)
theory Gf17
  imports Polynomials
begin

text \<open>
  The prime field with 17 elements, as an enumerated type with executable operations, and
  schoolbook polynomial arithmetic over any field. They make up the concrete instance of the
  third-party interface that the witnesses of the development evaluate.
\<close>

section \<open>The field\<close>

datatype gf17 = Z0 | Z1 | Z2 | Z3 | Z4 | Z5 | Z6 | Z7 | Z8 | Z9 | Z10 | Z11 | Z12 | Z13 | Z14 | Z15 | Z16

primrec to_int17 :: "gf17 \<Rightarrow> int" where
  "to_int17 Z0 = 0"
| "to_int17 Z1 = 1"
| "to_int17 Z2 = 2"
| "to_int17 Z3 = 3"
| "to_int17 Z4 = 4"
| "to_int17 Z5 = 5"
| "to_int17 Z6 = 6"
| "to_int17 Z7 = 7"
| "to_int17 Z8 = 8"
| "to_int17 Z9 = 9"
| "to_int17 Z10 = 10"
| "to_int17 Z11 = 11"
| "to_int17 Z12 = 12"
| "to_int17 Z13 = 13"
| "to_int17 Z14 = 14"
| "to_int17 Z15 = 15"
| "to_int17 Z16 = 16"

definition from_int17 :: "int \<Rightarrow> gf17" where
  "from_int17 k =
     (let r = k mod 17 in
      if r = 0 then Z0 else if r = 1 then Z1 else if r = 2 then Z2 else if r = 3 then Z3 else if
      r = 4 then Z4 else if r = 5 then Z5 else if r = 6 then Z6 else if r = 7 then Z7 else if r
      = 8 then Z8 else if r = 9 then Z9 else if r = 10 then Z10 else if r = 11 then Z11 else if
      r = 12 then Z12 else if r = 13 then Z13 else if r = 14 then Z14 else if r = 15 then Z15
      else Z16)"

primrec inverse17 :: "gf17 \<Rightarrow> gf17" where
  "inverse17 Z0 = Z0"
| "inverse17 Z1 = Z1"
| "inverse17 Z2 = Z9"
| "inverse17 Z3 = Z6"
| "inverse17 Z4 = Z13"
| "inverse17 Z5 = Z7"
| "inverse17 Z6 = Z3"
| "inverse17 Z7 = Z5"
| "inverse17 Z8 = Z15"
| "inverse17 Z9 = Z2"
| "inverse17 Z10 = Z12"
| "inverse17 Z11 = Z14"
| "inverse17 Z12 = Z10"
| "inverse17 Z13 = Z4"
| "inverse17 Z14 = Z11"
| "inverse17 Z15 = Z8"
| "inverse17 Z16 = Z16"

lemma to_int17_range: "0 \<le> to_int17 x \<and> to_int17 x < 17"
  by (cases x) simp_all

lemma from_to17: "from_int17 (to_int17 x) = x"
  by (cases x) (simp_all add: from_int17_def)

lemma to_from17: "to_int17 (from_int17 k) = k mod 17"
proof -
  have "0 \<le> k mod 17" "k mod 17 < 17" by simp_all
  then have "k mod 17 \<in> set [0..16]" by simp
  then show ?thesis unfolding from_int17_def Let_def by (simp add: upto_rec1) (elim disjE; simp)
qed

lemma to_int17_inject: "to_int17 x = to_int17 y \<longleftrightarrow> x = y"
  by (metis from_to17)

instantiation gf17 :: field
begin

definition zero_gf17 :: gf17 where "zero_gf17 = Z0"

definition one_gf17 :: gf17 where "one_gf17 = Z1"

definition plus_gf17 :: "gf17 \<Rightarrow> gf17 \<Rightarrow> gf17" where
  "plus_gf17 x y = from_int17 (to_int17 x + to_int17 y)"

definition uminus_gf17 :: "gf17 \<Rightarrow> gf17" where
  "uminus_gf17 x = from_int17 (- to_int17 x)"

definition minus_gf17 :: "gf17 \<Rightarrow> gf17 \<Rightarrow> gf17" where
  "minus_gf17 x y = from_int17 (to_int17 x - to_int17 y)"

definition times_gf17 :: "gf17 \<Rightarrow> gf17 \<Rightarrow> gf17" where
  "times_gf17 x y = from_int17 (to_int17 x * to_int17 y)"

definition inverse_gf17 :: "gf17 \<Rightarrow> gf17" where
  "inverse_gf17 x = inverse17 x"

definition divide_gf17 :: "gf17 \<Rightarrow> gf17 \<Rightarrow> gf17" where
  "divide_gf17 x y = x * inverse17 y"

instance
proof
  fix a b c :: gf17
  show "a + b + c = a + (b + c)"
    by (simp add: plus_gf17_def to_int17_inject [symmetric] to_from17 mod_add_left_eq mod_add_right_eq add.assoc)
  show "a + b = b + a" by (simp add: plus_gf17_def add.commute)
  show "0 + a = a" by (simp add: plus_gf17_def zero_gf17_def from_to17)
  show "- a + a = 0"
    by (simp add: plus_gf17_def uminus_gf17_def zero_gf17_def to_int17_inject [symmetric] to_from17 mod_add_left_eq)
  show "a - b = a + - b"
    by (simp add: plus_gf17_def minus_gf17_def uminus_gf17_def to_int17_inject [symmetric] to_from17 mod_add_right_eq)
  show "a * b * c = a * (b * c)"
    by (simp add: times_gf17_def to_int17_inject [symmetric] to_from17 mod_mult_left_eq mod_mult_right_eq mult.assoc)
  show "a * b = b * a" by (simp add: times_gf17_def mult.commute)
  show "1 * a = a" by (simp add: times_gf17_def one_gf17_def from_to17)
  show "(a + b) * c = a * c + b * c"
    by (simp add: times_gf17_def plus_gf17_def to_int17_inject [symmetric] to_from17 mod_mult_left_eq
        mod_add_left_eq mod_add_right_eq mod_add_eq distrib_right)
  show "(0 :: gf17) \<noteq> 1" by (simp add: zero_gf17_def one_gf17_def)
  show "a \<noteq> 0 \<Longrightarrow> inverse a * a = 1"
    by (cases a) (simp_all add: times_gf17_def inverse_gf17_def zero_gf17_def one_gf17_def from_int17_def)
  show "a div b = a * inverse b" by (simp add: divide_gf17_def inverse_gf17_def)
  show "inverse (0 :: gf17) = 0" by (simp add: inverse_gf17_def zero_gf17_def)
qed

end

lemma of_nat_gf17: "of_nat k = from_int17 (int k)"
proof (induction k)
  case 0
  show ?case by (simp add: zero_gf17_def from_int17_def)
next
  case (Suc k)
  then show ?case
    by (simp add: plus_gf17_def one_gf17_def to_int17_inject [symmetric] to_from17 mod_add_right_eq)
qed

section \<open>Schoolbook polynomials\<close>

fun trim :: "'f::zero list \<Rightarrow> 'f list" where
  "trim [] = []"
| "trim (a # p) = (let q = trim p in if q = [] \<and> a = 0 then [] else a # q)"

lemma trim_pzero: "trim p = [] \<longleftrightarrow> pzero p"
  by (induction p) (auto simp: Let_def pzero_def)

lemma trim_pwf [simp]: "pwf (trim p)"
proof -
  have "trim p \<noteq> [] \<Longrightarrow> last (trim p) \<noteq> 0"
    by (induction p) (auto simp: Let_def split: if_splits)
  then show ?thesis by (cases "trim p = []") (auto simp: pwf_def)
qed

lemma trim_length: "length (trim p) \<le> length p"
  by (induction p) (auto simp: Let_def)

lemma trim_peval [simp]: "peval (trim p) x = peval p x"
proof (induction p)
  case (Cons a p)
  then show ?case by (cases "trim p = [] \<and> a = 0") (auto simp: Let_def)
qed simp

fun pmul :: "'f::comm_ring_1 list \<Rightarrow> 'f list \<Rightarrow> 'f list" where
  "pmul [] q = []"
| "pmul (a # p) q = padd (map (\<lambda>b. a * b) q) (if p = [] then [] else 0 # pmul p q)"

lemma peval_map_times: "peval (map (\<lambda>b. a * b) q) x = a * peval q x"
  using peval_map_mult [of a q x] by (simp add: mult.commute)

lemma peval_pmul: "peval (pmul p q) x = peval p x * peval q x"
  by (induction p q rule: pmul.induct) (auto simp: peval_map_times algebra_simps)

lemma length_pmul: "length (pmul p q) \<le> length p + length q - 1"
proof (induction p q rule: pmul.induct)
  case (2 a p q)
  then show ?case by (cases p) auto
qed simp

text \<open>Long division, from the highest coefficient down.\<close>

fun pdivmod :: "'f::field list \<Rightarrow> 'f list \<Rightarrow> 'f list \<times> 'f list" where
  "pdivmod [] d = ([], [])"
| "pdivmod (c # p) d =
     (let (q, r) = pdivmod p d; r1 = c # r in
      if length r1 < length d then ([], r1)
      else let t = last r1 / last d in (t # q, butlast (map2 (\<lambda>a b. a - t * b) r1 d)))"

lemma peval_map2_diff:
  "length r = length d \<Longrightarrow> peval (map2 (\<lambda>a b. a - t * b) r d) x = peval r x - t * peval d x"
proof (induction r d rule: list_induct2)
  case (Cons a r b d)
  have "peval (map2 (\<lambda>a b. a - t * b) (a # r) (b # d)) x
      = a - t * b + x * peval (map2 (\<lambda>a b. a - t * b) r d) x" by simp
  then show ?case unfolding Cons.IH by (simp add: algebra_simps)
qed simp

lemma last_map2: "length xs = length ys \<Longrightarrow> xs \<noteq> [] \<Longrightarrow> last (map2 f xs ys) = f (last xs) (last ys)"
  by (induction xs ys rule: list_induct2) auto

lemma peval_butlast: "p \<noteq> [] \<Longrightarrow> last p = 0 \<Longrightarrow> peval (butlast p) x = peval p x"
  by (induction p) auto

lemma pdivmod_correct:
  assumes "d \<noteq> []" "last d \<noteq> (0 :: 'f::field)"
  shows "length (snd (pdivmod p d)) = min (length p) (length d - 1) \<and>
    length (fst (pdivmod p d)) = length p - (length d - 1) \<and>
    (\<forall>x. peval p x = peval (fst (pdivmod p d)) x * peval d x + peval (snd (pdivmod p d)) x)"
proof (induction p)
  case (Cons c p)
  obtain q r where qr: "pdivmod p d = (q, r)" by (cases "pdivmod p d")
  then have IH: "length r = min (length p) (length d - 1)" "length q = length p - (length d - 1)"
    "\<And>x. peval p x = peval q x * peval d x + peval r x" using Cons by auto
  show ?case
  proof (cases "length (c # r) < length d")
    case True
    then have "q = []" using IH(1,2) by auto
    then show ?thesis using True qr IH by (auto simp: Let_def algebra_simps)
  next
    case False
    have d: "length d \<noteq> 0" using assms(1) by simp
    then have len: "length (c # r) = length d" and le: "length d - 1 \<le> length p"
      using False IH(1) unfolding length_Cons by linarith+
    let ?t = "last (c # r) / last d"
    let ?m = "map2 (\<lambda>a b. a - ?t * b) (c # r) d"
    have "last ?m = last (c # r) - ?t * last d"
      using last_map2 [OF len] by blast
    then have "last ?m = 0" "?m \<noteq> []" using assms len by auto
    then have "peval (butlast ?m) x = peval (c # r) x - ?t * peval d x" for x
      using peval_butlast [of ?m x] peval_map2_diff [OF len, of ?t x] by simp
    then have "peval (c # p) x = peval (?t # q) x * peval d x + peval (butlast ?m) x" for x
      using IH(3) [of x] by (simp add: algebra_simps)
    moreover have "pdivmod (c # p) d = (?t # q, butlast ?m)" using False qr by (simp add: Let_def)
    ultimately show ?thesis using len IH(2) le d by (simp add: Suc_diff_le)
  qed
qed simp

end
