(* ===== verification/Instance17.thy ===== *)
theory Instance17
  imports Gf17 Kzg
begin

text \<open>
  A concrete instance of the third-party interface: all three groups are the additive group of the
  field with 17 elements, the pairing is multiplication, polynomials are schoolbook, and the hash
  functions are small checksums. It satisfies every hypothesis of the development, so no theorem
  is vacuous, and the witnesses evaluate the model on it.
\<close>

definition gen17 :: "nat \<Rightarrow> gf17 option" where
  "gen17 n = (if n = 1 then Some Z1 else if n = 2 then Some Z16 else if n = 4 then Some Z4
     else if n = 8 then Some Z2 else if n = 16 then Some Z3 else None)"

definition interpolate17 :: "gf17 list \<Rightarrow> gf17 list" where
  "interpolate17 evals =
     (case gen17 (length evals) of
        None \<Rightarrow> trim evals
      | Some w \<Rightarrow> trim (map (\<lambda>k. \<Sum>i\<leftarrow>[0..<length evals].
          evals ! i * (w ^ i / of_nat (length evals) * (w ^ i) ^ (length evals - 1 - k))) [0..<length evals]))"

definition checksum :: "bytes \<Rightarrow> gf17" where
  "checksum bs = foldl (\<lambda>acc b. acc * Z3 + from_int17 (uint b) + Z1) 0 bs"

definition byte17 :: "gf17 \<Rightarrow> bytes" where
  "byte17 x = [word_of_int (to_int17 x)]"

definition vanishing17 :: "nat \<Rightarrow> gf17 list" where
  "vanishing17 n = (-1) # replicate (n - 1) 0 @ [1]"

definition E17 :: "(gf17, gf17, gf17, gf17, gf17) ark" where
  "E17 = \<lparr>
     fr_modulus = 17, into_bigint = (\<lambda>x. nat (to_int17 x)), g1_generator = Z1, g2_generator = Z1,
     g1_mul = (\<lambda>P a. P * a), g2_mul = (\<lambda>Q a. Q * a), pairing = (\<lambda>P Q. P * Q),
     g1_msm_bigint = (\<lambda>bs ks. \<Sum>(b, k)\<leftarrow>zip bs ks. b * of_nat k),
     g2_msm_bigint = (\<lambda>bs ks. \<Sum>(b, k)\<leftarrow>zip bs ks. b * of_nat k),
     g1_msm_unchecked = (\<lambda>bs ss. \<Sum>(b, s)\<leftarrow>zip bs ss. b * s),
     g2_msm_unchecked = (\<lambda>bs ss. \<Sum>(b, s)\<leftarrow>zip bs ss. b * s),
     g1_msm = (\<lambda>bs ss. if length bs = length ss then Ok (\<Sum>(b, s)\<leftarrow>zip bs ss. b * s)
        else Err (min (length bs) (length ss))),
     g2_msm = (\<lambda>bs ss. if length bs = length ss then Ok (\<Sum>(b, s)\<leftarrow>zip bs ss. b * s)
        else Err (min (length bs) (length ss))),
     poly_degree = (\<lambda>p. if list_all (\<lambda>c. c = 0) p then Some 0
        else if last p = 0 then None else Some (length p - 1)),
     poly_evaluate = peval, poly_from_coefficients = trim,
     poly_add = (\<lambda>p q. trim (padd p q)),
     poly_sub = (\<lambda>p q. trim (padd p (map uminus q))),
     poly_mul = (\<lambda>p q. trim (pmul p q)),
     poly_div = (\<lambda>p d. if d = [] \<or> last d = 0 then None else Some (trim (fst (pdivmod p d)))),
     divide_by_vanishing = (\<lambda>p n. let (q, r) = pdivmod p (vanishing17 n) in (trim q, trim r)),
     domain_group_gen = gen17, domain_interpolate = interpolate17,
     ser_usize = (\<lambda>n. Ok [of_nat n]), ser_f = (\<lambda>a. Ok (byte17 a)),
     ser_g1 = (\<lambda>P. Ok (byte17 P)), ser_g2 = (\<lambda>Q. Ok (byte17 Q)),
     hash_to_field = (\<lambda>dst msg. checksum (dst @ msg)),
     map_to_g2 = (\<lambda>dst msg. let h = checksum msg in Ok (if h = 0 then 1 else h)),
     sha256 = (\<lambda>bs. concat (replicate 32 (byte17 (checksum bs)))),
     from_le_bytes_mod_order = (\<lambda>bs. foldr (\<lambda>b acc. from_int17 (uint b) + acc) bs 0),
     rng_from_seed = checksum,
     rng_fill_bytes = (\<lambda>k s. (replicate (k - 1) 0 @ byte17 s, s + 1)),
     f_rand = (\<lambda>s. (s + Z2, s + 1))\<rparr>"

section \<open>The hypotheses hold\<close>

lemma field_ok_E17: "field_ok E17"
  using to_int17_range
  by (simp add: field_ok_def E17_def of_nat_gf17 from_to17 to_from17 nat_mod_distrib)

lemma curve_ok_E17: "curve_ok E17"
proof -
  have "group_ok E17" by (simp add: group_ok_def E17_def algebra_simps flip: one_gf17_def)
  moreover have "cyclic_ok E17" by (simp add: cyclic_ok_def E17_def flip: one_gf17_def)
  moreover have "pairing_ok E17" by (simp add: pairing_ok_def E17_def algebra_simps flip: one_gf17_def)
  moreover have "msm_ok E17" by (simp add: msm_ok_def E17_def)
  ultimately show ?thesis using field_ok_E17 by (simp add: curve_ok_def)
qed

lemma last_nonzero: "pwf d \<Longrightarrow> \<not> pzero d \<Longrightarrow> d \<noteq> [] \<and> last d \<noteq> 0"
  by (auto simp: pwf_def)

lemma peval_uminus: "peval (map uminus q) x = - peval q (x :: 'f::comm_ring_1)"
  by (induction q) (simp_all add: algebra_simps)

lemma div17:
  assumes "pwf d" "\<not> pzero d"
  shows "\<exists>q r. poly_div E17 p d = Some q \<and> pwf q \<and> length q \<le> length p - (length d - 1) \<and>
     length r < length d \<and> (\<forall>x. peval p x = peval q x * peval d x + peval r x)"
proof -
  have d: "d \<noteq> []" "last d \<noteq> 0" using last_nonzero assms by auto
  let ?q = "fst (pdivmod p d)" and ?r = "snd (pdivmod p d)"
  note c = pdivmod_correct [OF d, of p]
  have "poly_div E17 p d = Some (trim ?q)" using d by (simp add: E17_def)
  moreover have "length (trim ?q) \<le> length p - (length d - 1)" using c trim_length [of ?q] by simp
  moreover have "length ?r < length d" using c d(1) by (cases d) auto
  moreover have "\<forall>x. peval p x = peval (trim ?q) x * peval d x + peval ?r x" using c by simp
  ultimately show ?thesis using trim_pwf by blast
qed

lemma poly_ok_E17: "poly_ok E17"
  unfolding poly_ok_def
proof (intro conjI allI impI)
  fix p :: "gf17 list" assume "pwf p"
  moreover have "list_all (\<lambda>c. c = 0) p \<longleftrightarrow> pzero p" by (simp add: list_all_iff pzero_def)
  ultimately show "poly_degree E17 p = Some (if pzero p then 0 else length p - 1)"
    by (auto simp: E17_def pwf_def)
next
  fix p q :: "gf17 list"
  show "length (poly_add E17 p q) \<le> max (length p) (length q)"
    using trim_length [of "padd p q"] by (simp add: E17_def)
  show "length (poly_sub E17 p q) \<le> max (length p) (length q)"
    using trim_length [of "padd p (map uminus q)"] by (simp add: E17_def)
  show "length (poly_mul E17 p q) \<le> length p + length q - 1"
    using trim_length [of "pmul p q"] length_pmul [of p q] by (simp add: E17_def)
qed (simp_all add: E17_def trim_length peval_uminus peval_pmul div17 [unfolded E17_def, simplified])


lemma primitive_check:
  "0 < n \<Longrightarrow> w ^ n = 1 \<Longrightarrow> list_all (\<lambda>i. w ^ i \<noteq> 1) [1..<n] \<Longrightarrow> primitive_root n w"
  by (auto simp: primitive_root_def list_all_iff)

lemma gen17_primitive: "gen17 n = Some w \<Longrightarrow> primitive_root n w \<and> of_nat n \<noteq> (0 :: gf17)"
proof -
  assume "gen17 n = Some w"
  then consider "n = 1" "w = Z1" | "n = 2" "w = Z16" | "n = 4" "w = Z4" | "n = 8" "w = Z2" | "n = 16" "w = Z3"
    by (auto simp: gen17_def split: if_splits)
  then show ?thesis
  proof cases
    case 1
    then show ?thesis by (auto intro!: primitive_check simp flip: one_gf17_def)
  next
    case 2
    moreover have "primitive_root 2 Z16" by (rule primitive_check; code_simp)
    moreover have "of_nat 2 \<noteq> (0 :: gf17)" by code_simp
    ultimately show ?thesis by simp
  next
    case 3
    moreover have "primitive_root 4 Z4" by (rule primitive_check; code_simp)
    moreover have "of_nat 4 \<noteq> (0 :: gf17)" by code_simp
    ultimately show ?thesis by simp
  next
    case 4
    moreover have "primitive_root 8 Z2" by (rule primitive_check; code_simp)
    moreover have "of_nat 8 \<noteq> (0 :: gf17)" by code_simp
    ultimately show ?thesis by simp
  next
    case 5
    moreover have "primitive_root 16 Z3" by (rule primitive_check; code_simp)
    moreover have "of_nat 16 \<noteq> (0 :: gf17)" by code_simp
    ultimately show ?thesis by simp
  qed
qed

lemma interpolate17_value:
  assumes "gen17 (length evals) = Some w"
  shows "peval (interpolate17 evals) x = (\<Sum>i<length evals. evals ! i * lagrange (length evals) w i x)"
proof -
  let ?n = "length evals"
  let ?c = "\<lambda>i k. evals ! i * (w ^ i / of_nat ?n * (w ^ i) ^ (?n - 1 - k))"
  have "peval (interpolate17 evals) x = (\<Sum>k<?n. (\<Sum>i<?n. ?c i k) * x ^ k)"
    using assms by (simp add: interpolate17_def peval_conv_sum [of "map _ _"] sum_list_map_upt)
  also have "\<dots> = (\<Sum>i<?n. \<Sum>k<?n. ?c i k * x ^ k)"
    unfolding sum_distrib_right by (rule sum.swap)
  also have "\<dots> = (\<Sum>i<?n. evals ! i * lagrange ?n w i x)"
    by (simp add: lagrange_def sum_distrib_left mult.commute mult.left_commute mult.assoc)
  finally show ?thesis .
qed

lemma domain_ok_E17: "domain_ok E17"
  unfolding domain_ok_def
proof (intro conjI allI impI)
  fix k and w :: gf17 assume "domain_group_gen E17 (2 ^ k) = Some w"
  then show "primitive_root (2 ^ k) w" using gen17_primitive by (simp add: E17_def)
next
  fix k i :: nat and w :: gf17 and evals :: "gf17 list"
  assume a: "domain_group_gen E17 (2 ^ k) = Some w" "length evals = 2 ^ k" "i < 2 ^ k"
  then have g: "gen17 (length evals) = Some w" by (simp add: E17_def)
  note root = gen17_primitive [OF g]
  have "peval (interpolate17 evals) (w ^ i) = (\<Sum>j<length evals. if j = i then evals ! i else 0)"
    unfolding interpolate17_value [OF g]
    using root a(2,3) by (intro sum.cong) (auto simp: lagrange_at_point)
  then show "peval (domain_interpolate E17 evals) (w ^ i) = evals ! i"
    using a(2,3) by (simp add: E17_def)
next
  fix k :: nat and evals :: "gf17 list" assume len: "length evals = 2 ^ k"
  have "pwf (interpolate17 evals) \<and> length (interpolate17 evals) \<le> length evals"
  proof (cases "gen17 (length evals)")
    case (Some w)
    then show ?thesis unfolding interpolate17_def by (auto intro: order_trans [OF trim_length])
  qed (auto simp: interpolate17_def trim_length)
  then show "pwf (domain_interpolate E17 evals)" "length (domain_interpolate E17 evals) \<le> 2 ^ k"
    by (simp_all add: E17_def len)
next
  fix k :: nat and p q r :: "gf17 list"
  define n :: nat where "n = 2 ^ k"
  assume "divide_by_vanishing E17 p (2 ^ k) = (q, r)"
  then have n: "0 < n" and d: "divide_by_vanishing E17 p n = (q, r)" by (simp_all add: n_def)
  have v: "vanishing17 n \<noteq> []" "last (vanishing17 n) \<noteq> 0" "length (vanishing17 n) = n + 1"
    using n by (simp_all add: vanishing17_def)
  have ev: "peval (vanishing17 n) x = x ^ n - 1" for x
    using n by (cases n) (simp_all add: vanishing17_def peval_append)
  let ?q = "fst (pdivmod p (vanishing17 n))" and ?r = "snd (pdivmod p (vanishing17 n))"
  have qr: "q = trim ?q" "r = trim ?r" using d by (simp_all add: E17_def split_def Let_def)
  note c = pdivmod_correct [OF v(1,2), of p]
  show "pwf q" "pwf r" by (simp_all add: qr)
  show "length q \<le> length p - 2 ^ k" "length r \<le> 2 ^ k"
    unfolding n_def [symmetric] using c v(3) trim_length [of ?q] trim_length [of ?r] by (simp_all add: qr)
  show "peval p x = peval q x * (x ^ 2 ^ k - 1) + peval r x" for x
    unfolding n_def [symmetric] using c ev by (simp add: qr)
qed

lemma ark_ok_E17: "ark_ok E17"
  using curve_ok_E17 poly_ok_E17 domain_ok_E17 by (simp add: ark_ok_def)

lemma encoding_ok_E17: "encoding_ok E17"
  by (simp add: encoding_ok_def E17_def Let_def)

end
