(* ===== verification/Scenario17.thy ===== *)
theory Scenario17
  imports HintsVerify Instance17
begin

text \<open>
  A run of the whole scheme on the instance of \<open>Instance17\<close>: a network of size 4 with three
  registered parties of weights 1, 2 and 3, of which parties 0 and 2 sign. Every value is
  computed from the model by rewriting; the witnesses of the properties refer to these facts.
\<close>

section \<open>Rewriting the model on the instance\<close>

definition checksum_from :: "gf17 \<Rightarrow> bytes \<Rightarrow> gf17" where
  "checksum_from acc bs = foldl (\<lambda>acc b. acc * Z3 + from_int17 (uint b) + Z1) acc bs"

lemma checksum_append: "checksum (xs @ ys) = checksum_from (checksum xs) ys"
  by (simp add: checksum_def checksum_from_def)

lemma uint_byte17: "from_int17 (uint (word_of_int (to_int17 x) :: 8 word)) = x"
  by (cases x) (simp_all add: from_int17_def)

lemma checksum_from_simps:
  "checksum_from acc [] = acc"
  "checksum_from acc (byte17 x) = acc * Z3 + x + Z1"
  "checksum_from acc (byte17 x @ m) = checksum_from (acc * Z3 + x + Z1) m"
  "checksum_from acc (b # m) = checksum_from (acc * Z3 + from_int17 (uint b) + Z1) m"
  by (simp_all add: checksum_from_def byte17_def uint_byte17)

lemma checksum_simps: "checksum (b # m) = checksum_from (from_int17 (uint b) + Z1) m"
  "checksum (byte17 x) = x + Z1" "checksum [] = Z0"
  by (simp_all add: checksum_from_def checksum_def byte17_def uint_byte17 zero_gf17_def [symmetric])

lemma E17_select:
  "fr_modulus E17 = 17" "into_bigint E17 x = nat (to_int17 x)" "g1_generator E17 = Z1"
  "g2_generator E17 = Z1" "g1_mul E17 P a = P * a" "g2_mul E17 P a = P * a" "pairing E17 P Q = P * Q"
  "g1_msm_bigint E17 bs ks = (\<Sum>(b, k)\<leftarrow>zip bs ks. b * of_nat k)"
  "g2_msm_bigint E17 bs ks = (\<Sum>(b, k)\<leftarrow>zip bs ks. b * of_nat k)"
  "g1_msm_unchecked E17 bs ss = (\<Sum>(b, s)\<leftarrow>zip bs ss. b * s)"
  "g2_msm_unchecked E17 bs ss = (\<Sum>(b, s)\<leftarrow>zip bs ss. b * s)"
  "poly_degree E17 p = (if list_all (\<lambda>c. c = Z0) p then Some 0
     else if last p = Z0 then None else Some (length p - 1))"
  "poly_evaluate E17 p y = peval p y" "poly_from_coefficients E17 p = trim p"
  "poly_add E17 p q = trim (padd p q)" "poly_sub E17 p q = trim (padd p (map uminus q))"
  "poly_mul E17 p q = trim (pmul p q)"
  "poly_div E17 p d = (if d = [] \<or> last d = Z0 then None else Some (trim (fst (pdivmod p d))))"
  "divide_by_vanishing E17 p n = (trim (fst (pdivmod p (vanishing17 n))), trim (snd (pdivmod p (vanishing17 n))))"
  "domain_group_gen E17 n = gen17 n" "domain_interpolate E17 p = interpolate17 p"
  "ser_usize E17 n = Ok [of_nat n]" "ser_f E17 a = Ok (byte17 a)" "ser_g1 E17 a = Ok (byte17 a)"
  "ser_g2 E17 a = Ok (byte17 a)" "hash_to_field E17 dst m = checksum_from (checksum dst) m"
  "map_to_g2 E17 dst m = Ok (if checksum m = Z0 then Z1 else checksum m)"
  "rng_from_seed E17 seed = checksum seed" "f_rand E17 z = (z + Z2, z + Z1)"
  "rng_fill_bytes E17 k z = (replicate (k - 1) 0 @ byte17 z, z + Z1)"
  by (simp_all add: E17_def checksum_append Let_def split_def zero_gf17_def one_gf17_def)

text \<open>Evaluate the first argument before the continuation.\<close>

lemma eval_cong:
  "r = r' \<Longrightarrow> and_then r k = and_then r' k"
  "xs = ys \<Longrightarrow> collect f xs = collect f ys"
  "xs = ys \<Longrightarrow> all_checks g xs = all_checks g ys"
  "xs = ys \<Longrightarrow> s = s' \<Longrightarrow> fold_result h xs s = fold_result h ys s'"
  "xs = ys \<Longrightarrow> map m xs = map m ys"
  "c = c' \<Longrightarrow> check_or_return_false c rest = check_or_return_false c' rest"
  "v = v' \<Longrightarrow> Let v body = Let v' body"
  by simp_all

text \<open>Residues are reduced only once their representative is a numeral.\<close>

lemmas gf17_eval = plus_gf17_def times_gf17_def minus_gf17_def uminus_gf17_def divide_gf17_def
  from_int17_def [of "numeral k" for k] from_int17_def [of "- numeral k" for k]
  from_int17_def [of 0] from_int17_def [of 1] from_int17_def [of "- 1"]
  zero_gf17_def one_gf17_def of_nat_gf17

lemma checksum_dsts:
  "checksum POP_DST = Z14" "checksum DST_QUOTIENT_MERGE = Z6"
  "checksum DST_EVALUATION_POINT = Z6" "checksum DST_OPENING_BATCH = Z4"
  by (simp_all add: POP_DST_def DST_QUOTIENT_MERGE_def DST_EVALUATION_POINT_def DST_OPENING_BATCH_def
      ascii_bytes_def checksum_simps checksum_from_simps gf17_eval)

lemma checksum_zeros: "checksum (replicate 31 0) = Z11"
  by (simp add: numeral_eq_Suc checksum_simps checksum_from_simps gf17_eval)

lemmas poly_eval17 = compute_vanishing_poly_def poly_eval_mult_c_def compute_x_monomial_def
  compute_constant_poly_def vanishing17_def upt_rec numeral_eq_Suc

lemma power17: "x ^ 2 = x * (x :: gf17)" "x ^ 3 = x * (x * (x :: gf17))"
  by (simp_all add: power2_eq_square power3_eq_cube mult.assoc)

section \<open>Setup\<close>

definition crs17 :: "(gf17, gf17) universal_params" where
  "crs17 = kzg_setup E17 5 Z3 Z1 Z1"

lemma crs17_eq:
  "crs17 = \<lparr>powers_of_g = [Z1, Z3, Z9, Z10, Z13, Z5], powers_of_h = [Z1, Z3, Z9, Z10, Z13, Z5]\<rparr>"
  unfolding crs17_def kzg_setup_def by (simp add: E17_select gf17_eval numeral_eq_Suc Let_def)

lemma setting17: "hints_setting E17 crs17 Z3 4 Z4"
proof -
  have "structured_crs E17 Z3 crs17"
    using kzg_setup_structured [of E17 Z3 5] by (simp add: crs17_def E17_select)
  moreover have "is_n_valid 4" by (simp add: is_n_valid_iff) (rule exI [of _ 2]; simp)
  moreover have "crs_supports crs17 4" by (simp add: crs_supports_def crs17_eq)
  ultimately show ?thesis by (simp add: hints_setting_def ark_ok_E17 E17_select gen17_def)
qed

lemma lagrange17:
  "lagrange_poly E17 4 0 = Ok (Some [Z13, Z13, Z13, Z13])"
  "lagrange_poly E17 4 (Suc 0) = Ok (Some [Z13, Z16, Z4, Z1])"
  "lagrange_poly E17 4 2 = Ok (Some [Z13, Z4, Z13, Z4])"
  "lagrange_poly E17 4 3 = Ok (Some [Z13, Z1, Z4, Z16])"
  by (simp_all add: E17_select lagrange_poly_def nth_root_of_unity_def gen17_def gf17_eval
      field_div_def poly_eval17 cong: eval_cong)

lemma interpolate_values17:
  "interpolate17 [Z1, Z2, Z3, Z0] = [Z10, Z6, Z9, Z10]"
  "interpolate17 [Z1, Z0, Z1, Z1] = [Z5, Z1, Z13, Z16]"
  "interpolate17 [Z1, Z1, Z4, Z0] = [Z10, Z11, Z1, Z13]"
  by (simp_all add: interpolate17_def gen17_def upt_rec numeral_eq_Suc gf17_eval)

lemma sizes17:
  "replicate 4 x = [x, x, x, x]" "[0..<4] = [0, Suc 0, 2, 3]" "compute_vanishing_poly 4 = [Z16, Z0, Z0, Z0, Z1]"
  by (simp_all add: poly_eval17 gf17_eval)

section \<open>Keys and hints\<close>

definition sk17 :: "nat \<Rightarrow> (gf17, gf17) secret_key" where
  "sk17 i = (if i = 0 then \<lparr>secret = Z4, pop = \<lparr>pop_commitment = Z5, pop_challenge = Z9, pop_response = Z7\<rparr>\<rparr>
     else if i = 1 then \<lparr>secret = Z5, pop = \<lparr>pop_commitment = Z6, pop_challenge = Z13, pop_response = Z3\<rparr>\<rparr>
     else \<lparr>secret = Z8, pop = \<lparr>pop_commitment = Z9, pop_challenge = Z8, pop_response = Z5\<rparr>\<rparr>)"

lemma keygen17:
  "keygen E17 [1] = Ok (sk17 0)" "keygen E17 [2] = Ok (sk17 1)" "keygen E17 [5] = Ok (sk17 2)"
  by (simp_all add: keygen_def generate_proof_of_knowledge_def proof_of_knowledge_random_oracle_def
      E17_select gf17_eval checksum_simps checksum_from_simps checksum_append checksum_dsts checksum_zeros
      sk17_def Let_def)

definition hint17 :: "nat \<Rightarrow> (gf17, gf17, gf17) extended_public_key" where
  "hint17 i = (if i = 0 then
       \<lparr>epk_i = 0, epk_n = 4, pk_i = Z4, pok_i = pop (sk17 0), sk_i_l_i_of_tau_com_1 = Z6,
        sk_i_l_i_of_tau_com_2 = Z6, qz_i_terms = [Z13, Z11, Z6, Z4], qx_i_term = Z13, qx_i_term_mul_tau = Z5\<rparr>
     else if i = 1 then
       \<lparr>epk_i = 1, epk_n = 4, pk_i = Z5, pok_i = pop (sk17 1), sk_i_l_i_of_tau_com_1 = Z8,
        sk_i_l_i_of_tau_com_2 = Z8, qz_i_terms = [Z1, Z14, Z8, Z11], qx_i_term = Z15, qx_i_term_mul_tau = Z11\<rparr>
     else
       \<lparr>epk_i = 2, epk_n = 4, pk_i = Z8, pok_i = pop (sk17 2), sk_i_l_i_of_tau_com_1 = Z11,
        sk_i_l_i_of_tau_com_2 = Z11, qz_i_terms = [Z12, Z6, Z3, Z13], qx_i_term = Z3, qx_i_term_mul_tau = Z9\<rparr>)"

lemmas hint_defs17 = lagrange_or_err_def lagrange17 cross_quotient_def commit_g1_def commit_g2_def
  convert_to_bigints_def crs_supports_def crs17_eq E17_select sk17_def hint17_def sizes17
  poly_eval_mult_c_def compute_x_monomial_def compute_constant_poly_def


lemma hint_gen17:
  "hint_gen E17 crs17 4 0 (sk17 0) = Ok (hint17 0)"
  "hint_gen E17 crs17 4 1 (sk17 1) = Ok (hint17 1)"
  "hint_gen E17 crs17 4 2 (sk17 2) = Ok (hint17 2)"
  using hints_settingD(3) [OF setting17]
  by (simp_all add: hint_gen_def hint_defs17 gf17_eval Let_def cong: eval_cong)


lemmas pok_defs17 = verify_proof_of_knowledge_def generate_proof_of_knowledge_def
  proof_of_knowledge_random_oracle_def checksum_simps checksum_from_simps checksum_append checksum_dsts checksum_zeros

lemma verify_hint17:
  "verify_hint E17 crs17 4 0 (hint17 0) = Ok True"
  "verify_hint E17 crs17 4 1 (hint17 1) = Ok True"
  "verify_hint E17 crs17 4 2 (hint17 2) = Ok True"
  using hints_settingD(3) [OF setting17]
  by (simp_all add: verify_hint_def hint_defs17 pok_defs17 gf17_eval Let_def cong: eval_cong)

section \<open>Preprocessing\<close>

definition info17 :: "(gf17 \<times> (gf17, gf17, gf17) extended_public_key) hash_map" where
  "info17 = [(2, (Z3, hint17 2)), (0, (Z1, hint17 0)), (1, (Z2, hint17 1))]"

definition vk17 :: "(gf17, gf17, gf17) verification_key" where
  "vk17 = \<lparr>vk_n = 4, vk_total_weight = Z6, vk_g_0 = Z1, vk_h_0 = Z1, vk_h_1 = Z3,
     vk_l_n_minus_1_of_tau_com = Z8, vk_w_of_tau_com = Z5, vk_sk_of_tau_com = Z8, vk_z_of_tau_com = Z12\<rparr>"

definition ak17 :: "(gf17, gf17) aggregation_key" where
  "ak17 = \<lparr>ak_n = 4, ak_weights = [Z1, Z2, Z3, Z0], ak_pks = [Z4, Z5, Z8, Z0],
     ak_qz_terms = [Z9, Z14, Z0, Z11], ak_qx_terms = [Z13, Z15, Z3, Z0],
     ak_qx_mul_tau_terms = [Z5, Z11, Z9, Z0]\<rparr>"

definition zero_pop17 :: "(gf17, gf17) proof_of_possession" where
  "zero_pop17 = \<lparr>pop_commitment = Z2, pop_challenge = Z11, pop_response = Z2\<rparr>"

definition zero_hint17 :: "(gf17, gf17, gf17) extended_public_key" where
  "zero_hint17 = \<lparr>epk_i = 3, epk_n = 4, pk_i = Z0, pok_i = zero_pop17, sk_i_l_i_of_tau_com_1 = Z0,
     sk_i_l_i_of_tau_com_2 = Z0, qz_i_terms = [Z0, Z0, Z0, Z0], qx_i_term = Z0, qx_i_term_mul_tau = Z0\<rparr>"

lemma zero_slot17:
  "generate_proof_of_knowledge E17 0 (replicate RANDOM_SIZE 0) = Ok zero_pop17"
  "hint_gen E17 crs17 4 3 \<lparr>secret = 0, pop = zero_pop17\<rparr> = Ok zero_hint17"
proof -
  have "checksum (replicate 32 0) = Z0"
    by (simp add: numeral_eq_Suc checksum_simps checksum_from_simps gf17_eval)
  then show "generate_proof_of_knowledge E17 0 (replicate RANDOM_SIZE 0) = Ok zero_pop17"
    by (simp add: RANDOM_SIZE_def zero_pop17_def pok_defs17 E17_select gf17_eval Let_def)
  show "hint_gen E17 crs17 4 3 \<lparr>secret = 0, pop = zero_pop17\<rparr> = Ok zero_hint17"
    using hints_settingD(3) [OF setting17]
    by (simp add: hint_gen_def hint_defs17 zero_hint17_def gf17_eval Let_def cong: eval_cong)
qed

lemma entries17:
  "collect (preprocess_entry E17 4 crs17 info17) [0..<4]
    = Ok [(Z1, hint17 0), (Z2, hint17 1), (Z3, hint17 2), (Z0, zero_hint17)]"
proof -
  have n: "epk_n (hint17 0) = 4" "epk_n (hint17 1) = 4" "epk_n (hint17 2) = 4"
    by (simp_all add: hint17_def)
  show ?thesis
    using verify_hint17 zero_slot17 n
    by (simp add: sizes17 preprocess_entry_def info17_def zero_gf17_def)
qed

lemma preprocess17: "preprocess E17 4 crs17 info17 = Ok (vk17, ak17)"
proof -
  have f: "find (\<lambda>i. i \<ge> 4 - 1) (map fst info17) = None" "length info17 + 1 \<le> 4"
    by (simp_all add: info17_def)
  show ?thesis
    unfolding preprocess_def entries17 f
    using hints_settingD(3,4) [OF setting17] f(2)
    by (simp add: interpolate_poly_over_mult_subgroup_def place_contribution_def empty_contributions_def
      gen17_def hint_defs17 interpolate_values17 zero_hint17_def Let_def
      preprocess_qz_contributions_def add_points_def aggregation_key_is_well_formed_def
      vk17_def ak17_def gf17_eval cong: eval_cong)
qed


section \<open>Signing and aggregating\<close>

lemmas sign_defs17 = hash_to_g2_def E17_select checksum_simps checksum_from_simps gf17_eval

lemma sign17: "sign E17 [7] (sk17 0) = Ok Z15" "sign E17 [7] (sk17 2) = Ok Z13"
  by (simp_all add: sign_def sk17_def sign_defs17)

definition sigs17 :: "gf17 hash_map" where
  "sigs17 = [(2, Z13), (0, Z15)]"

lemma partial_verify17:
  "partial_verify E17 [7] ak17 0 Z15 = Ok True" "partial_verify E17 [7] ak17 2 Z13 = Ok True"
  using hints_settingD(3) [OF setting17]
  by (simp_all add: partial_verify_def ak17_def aggregation_key_is_well_formed_def sign_defs17 Let_def)

definition sig17 :: "(gf17, gf17, gf17) threshold_signature" where
  "sig17 = \<lparr>agg_pk = Z3, agg_weight = Z4, agg_sig = Z7, b_of_tau_com = Z13,
    qx_of_tau_com = Z16, qx_of_tau_mul_tau_com = Z14, qz_of_tau_com = Z3,
    parsum_of_tau_com = Z12, q_mrg_of_tau_com = Z15, opening_proof_r = Z12,
    opening_proof_r_div_omega = Z12, parsum_of_r = Z13,
    parsum_of_r_div_omega = Z11, w_of_r = Z14, b_of_r = Z8, q_mrg_of_r = Z9\<rparr>"

definition wit17 :: "(gf17, gf17, gf17) witness" where
  "wit17 = \<lparr>wit_bitmap = [Z1, Z0, Z1, Z1], wit_parsum = [Z1, Z1, Z4, Z0], wit_agg_weight = Z4,
     wit_agg_pk = Z3, wit_agg_sig = Z7, wit_qz_of_tau_com = Z3, wit_qx_of_tau_com = Z16,
     wit_qx_of_tau_mul_tau_com = Z14\<rparr>"

lemma assemble17: "assemble_witness E17 ak17 sigs17 = Ok wit17"
  by (simp add: assemble_witness_def ak17_def sigs17_def wit17_def field_div_def sizes17 E17_select
      running_sums_def inner_product_def add_points_def gf17_eval Let_def cong: eval_cong)

lemmas round_defs17 = absorb_round_1_def absorb_round_2_def absorb_round_3_def ser_verification_key_def
  absorb_def transcript_new_def transcript_challenge_def checksum_simps checksum_from_simps checksum_dsts

lemma derive17: "derive_challenges E17 vk17 sig17 = Ok (Z8, Z6, Z15)"
  by (simp add: derive_challenges_def vk17_def sig17_def round_defs17 E17_select gf17_eval Let_def)

text \<open>The polynomials of the prover: shifted running sum, merged relation, its quotient, the opened sum.\<close>

lemma prover_polys17:
  "poly_domain_mult_omega E17 [Z10, Z11, Z1, Z13] Z13 = (Ok [Z10, Z7, Z16, Z1] :: (_, hints_error) result)"
  "merged_relation E17 [Z13, Z1, Z4, Z16] [Z5, Z1, Z13, Z16] [Z10, Z11, Z1, Z13] [Z10, Z7, Z16, Z1]
     [Z10, Z6, Z9, Z10] Z4 Z8 = [Z5, Z6, Z9, Z0, Z12, Z11, Z8]"
  "divide_by_vanishing E17 [Z5, Z6, Z9, Z0, Z12, Z11, Z8] 4 = ([Z12, Z11, Z8], [])"
  "merge_polys E17 [[Z12, Z11, Z8], [Z10, Z11, Z1, Z13], [Z5, Z1, Z13, Z16], [Z10, Z6, Z9, Z10]] Z15
     = [Z0, Z13, Z3, Z9]"
  "compute_opening_proof E17 crs17 [Z0, Z13, Z3, Z9] Z6 = Ok Z12"
  "compute_opening_proof E17 crs17 [Z10, Z11, Z1, Z13] Z10 = Ok Z12"
  by (simp_all add: poly_domain_mult_omega_def merged_relation_def merge_polys_def hint_defs17
      vanishing17_def numeral_eq_Suc compute_opening_proof_def gf17_eval Let_def cong: eval_cong)

lemma prove17: "prove E17 crs17 ak17 vk17 wit17 = Ok (sig17, True)"
proof -
  have coms: "commit_g1 E17 crs17 [Z5, Z1, Z13, Z16] = Ok Z13" "commit_g1 E17 crs17 [Z10, Z11, Z1, Z13] = Ok Z12"
    "commit_g1 E17 crs17 [Z12, Z11, Z8] = Ok Z15"
    by (simp_all add: hint_defs17 gf17_eval)
  have evals: "peval [Z10, Z11, Z1, Z13] Z6 = Z13" "peval [Z10, Z11, Z1, Z13] Z10 = Z11"
    "peval [Z10, Z6, Z9, Z10] Z6 = Z14" "peval [Z5, Z1, Z13, Z16] Z6 = Z8" "peval [Z12, Z11, Z8] Z6 = Z9"
    by (simp_all add: gf17_eval)
  have dom: "domain_group_gen E17 4 = Some Z4" "interpolate E17 [Z1, Z2, Z3, Z0] = Ok [Z10, Z6, Z9, Z10]"
    "interpolate E17 [Z1, Z0, Z1, Z1] = Ok [Z5, Z1, Z13, Z16]" "interpolate E17 [Z1, Z1, Z4, Z0] = Ok [Z10, Z11, Z1, Z13]"
    "lagrange_or_err E17 4 (usize_sub 4 1) msg = Ok [Z13, Z1, Z4, Z16]" for msg
    by (simp_all add: interpolate_def interpolate_poly_over_mult_subgroup_def interpolate_values17 gen17_def
        E17_select lagrange_or_err_def lagrange17)
  have divs: "field_div 1 Z4 = (Ok Z13 :: (_, hints_error) result)" "field_div Z6 Z4 = (Ok Z10 :: (_, hints_error) result)"
    by (simp_all add: field_div_def gf17_eval)
  obtain t1 t2 t3 where ts: "absorb_round_1 E17 transcript_new vk17 Z3 Z4 Z13 Z12 Z16 Z3 Z14 = Ok t1"
    "transcript_challenge E17 t1 DST_QUOTIENT_MERGE = Z8" "absorb_round_2 E17 t1 Z15 = Ok t2"
    "transcript_challenge E17 t2 DST_EVALUATION_POINT = Z6" "absorb_round_3 E17 t2 Z13 Z11 Z14 Z8 Z9 = Ok t3"
    "transcript_challenge E17 t3 DST_OPENING_BATCH = Z15"
    using derive17 unfolding derive_challenges_def by (auto simp: sig17_def Let_def)
  have ak: "ak_n ak17 = 4" "ak_weights ak17 = [Z1, Z2, Z3, Z0]" by (simp_all add: ak17_def)
  show ?thesis
    unfolding prove_def Let_def ak wit17_def witness.select_convs dom ok_or_Some and_then.simps coms ts divs
      prover_polys17 prod.case E17_select(13) evals sig17_def
    by simp
qed

lemma aggregate17: "aggregate E17 crs17 ak17 vk17 sigs17 = Ok sig17"
  using hints_settingD(3,4) [OF setting17]
  by (simp add: aggregate_def assemble17 prove17 Let_def)
     (simp add: ak17_def aggregation_key_is_well_formed_def)

end
