(* ===== verification/HintsProperties.thy ===== *)
theory HintsProperties
  imports HintsExact Scenario17
begin

text \<open>
  The properties of the \<open>hints\<close> scheme, each with a run on the four-slot instance over the
  integers modulo 17 that meets its hypotheses.
\<close>

section \<open>Completeness\<close>

text \<open>
  C1. Whatever verified partial signatures a holder of preprocessed keys combines, \<open>aggregate\<close>
  returns a threshold signature whose claimed weight is the total weight of the signers, and
  \<open>verify\<close> accepts it exactly when the aggregate key and signature are not the identity, the
  weight exceeds the threshold, and the evaluation challenge is not a point of the domain.
\<close>

theorem threshold_signature_complete:
  fixes E :: "('f::field, 'g1::ab_group_add, 'g2::ab_group_add, 'gt::ab_group_add, 'rng) ark"
  assumes "hints_setting E crs tau n w" "encoding_ok E" "hash_map_ok ps"
    and "preprocess E n crs signer_info = Ok (vk, ak)"
    and "\<And>i sig. (i, sig) \<in> set ps \<Longrightarrow> partial_verify E msg ak i sig = Ok True"
  shows "\<exists>pi_sig chi_q r chi_op. aggregate E crs ak vk ps = Ok pi_sig \<and>
    agg_weight pi_sig = (\<Sum>i\<in>fst ` set ps. ak_weights ak ! i) \<and>
    derive_challenges E vk pi_sig = Ok (chi_q, r, chi_op) \<and>
    (verify E msg vk pi_sig (num, den) = Ok True \<longleftrightarrow>
       agg_pk pi_sig \<noteq> 0 \<and> agg_sig pi_sig \<noteq> 0 \<and>
       fr_gt E (den * agg_weight pi_sig) (num * vk_total_weight vk) \<and> r ^ n \<noteq> 1)"
  by (rule aggregate_verifies [OF assms])

lemma sigs_verify17: "(i, sig) \<in> set sigs17 \<Longrightarrow> partial_verify E17 [7] ak17 i sig = Ok True"
  using partial_verify17 by (auto simp: sigs17_def)

lemma accepted17:
  "hash_map_ok sigs17" "agg_pk sig17 \<noteq> 0" "agg_sig sig17 \<noteq> 0" "Z6 ^ 4 \<noteq> 1"
  "fr_gt E17 (Z3 * agg_weight sig17) (Z1 * vk_total_weight vk17)"
  by (simp_all add: hash_map_ok_def sigs17_def sig17_def vk17_def fr_gt_def E17_select gf17_eval numeral_eq_Suc)

lemma verify17: "verify E17 [7] vk17 sig17 (Z1, Z3) = Ok True"
  using aggregate_verifies [OF setting17 encoding_ok_E17 accepted17(1) preprocess17 sigs_verify17, of Z1 Z3] accepted17
  by (simp add: aggregate17 derive17)

theorem threshold_signature_complete_witness:
  "aggregate E17 crs17 ak17 vk17 sigs17 = Ok sig17 \<and> verify E17 [7] vk17 sig17 (Z1, Z3) = Ok True"
  using threshold_signature_complete [OF setting17 encoding_ok_E17 accepted17(1) preprocess17 sigs_verify17, of Z1 Z3]
    accepted17
  by (simp add: aggregate17 derive17)

section \<open>Soundness of the verifier\<close>

text \<open>
  C2. The verifier decides exactly the hinTS equations. For a key of \<open>preprocess\<close> and any
  signature, written in the exponent, \<open>verify\<close> accepts iff the aggregate key and signature are
  not the identity, the threshold comparison holds, the signature is the aggregate key's, the
  merged relation holds at a challenge outside the domain, both openings are those of the
  committed values, and the sumcheck and degree equations hold.
\<close>

theorem verify_exact:
  fixes E :: "('f::field, 'g1::ab_group_add, 'g2::ab_group_add, 'gt::ab_group_add, 'rng) ark"
  assumes set: "hints_setting E crs tau n w" and vk: "vk = vk_of E w tau n wt s"
    and h: "hash_to_g2 E msg = Ok (in_g2 E h)"
    and der: "derive_challenges E vk sig = Ok (chi_q, r, chi_op)"
    and g1: "agg_pk sig = in_g1 E a" "b_of_tau_com sig = in_g1 E b" "qx_of_tau_com sig = in_g1 E x"
      "qx_of_tau_mul_tau_com sig = in_g1 E y" "qz_of_tau_com sig = in_g1 E z"
      "parsum_of_tau_com sig = in_g1 E ps" "q_mrg_of_tau_com sig = in_g1 E q"
      "opening_proof_r sig = in_g1 E o_r" "opening_proof_r_div_omega sig = in_g1 E o_rw"
    and g2: "agg_sig sig = in_g2 E sg"
  shows "verify E msg vk sig (num, den) = Ok True \<longleftrightarrow>
    a \<noteq> 0 \<and> sg \<noteq> 0 \<and> fr_gt E (den * agg_weight sig) (num * (\<Sum>i<n. wt i)) \<and> sg = a * h \<and>
    r ^ n \<noteq> 1 \<and>
    relation_value (lagrange n w (n - 1) r) (b_of_r sig) (parsum_of_r sig) (parsum_of_r_div_omega sig)
      (w_of_r sig) (agg_weight sig) chi_q = q_mrg_of_r sig * (r ^ n - 1) \<and>
    peval [q - q_mrg_of_r sig, ps - parsum_of_r sig, b - b_of_r sig,
      (\<Sum>i<n. wt i * lagrange n w i tau) - w_of_r sig] chi_op = o_r * (tau - r) \<and>
    ps - parsum_of_r_div_omega sig = o_rw * (tau - r / w) \<and>
    b * (\<Sum>i<n. s i * lagrange n w i tau) = z * (tau ^ n - 1) + x * tau + a \<and> x * tau = y"
proof -
  note st = hints_settingD [OF set] and root = hints_setting_root [OF set]
  note ex = exponent_simps [OF st(6)] and w = primitive_root_nonzero [OF root(1)]
  have n: "vk_n vk = n" "0 < vk_n vk" using st(10) by (simp_all add: vk)
  note op = verify_opening_iff [OF st(6), of vk tau]
  have open_r: "opening_at_r_check E vk sig r chi_op \<longleftrightarrow>
    peval [q - q_mrg_of_r sig, ps - parsum_of_r sig, b - b_of_r sig,
      (\<Sum>i<n. wt i * lagrange n w i tau) - w_of_r sig] chi_op = o_r * (tau - r)"
    using merge_points_eq [OF st(6), of "[q, ps, b, \<Sum>i<n. wt i * lagrange n w i tau]" chi_op] op
    by (simp add: opening_at_r_check_def g1 vk merge_scalars_eq Let_def algebra_simps)
  have open_rw: "opening_at_r_div_omega_check E vk sig (r / w) \<longleftrightarrow>
    ps - parsum_of_r_div_omega sig = o_rw * (tau - r / w)"
    using op by (simp add: opening_at_r_div_omega_check_def g1 vk)
  have bls: "bls_check E msg vk sig = Ok (sg = a * h)"
    using h by (auto simp: bls_check_def g1 g2 vk ex Let_def)
  have rel: "merged_relation_check vk sig w chi_q r = Ok (r ^ n \<noteq> 1 \<and>
    relation_value (lagrange n w (n - 1) r) (b_of_r sig) (parsum_of_r sig) (parsum_of_r_div_omega sig)
      (w_of_r sig) (agg_weight sig) chi_q = q_mrg_of_r sig * (r ^ n - 1))"
    using merged_relation_check_eq [of vk w r sig chi_q] merged_relation_check_domain [of r vk sig w chi_q] root n
    by (cases "r ^ n = 1") simp_all
  have sums: "sumcheck_check E vk sig (pairing E (qx_of_tau_com sig) (vk_h_1 vk)) \<longleftrightarrow>
      b * (\<Sum>i<n. s i * lagrange n w i tau) = z * (tau ^ n - 1) + x * tau + a"
    "degree_check E vk sig (pairing E (qx_of_tau_com sig) (vk_h_1 vk)) \<longleftrightarrow> x * tau = y"
    by (simp_all add: sumcheck_check_def degree_check_def g1 vk ex Let_def)
  have tw: "vk_total_weight vk = (\<Sum>i<n. wt i)" by (simp add: vk)
  have nz: "agg_pk sig \<noteq> 0 \<longleftrightarrow> a \<noteq> 0" "agg_sig sig \<noteq> 0 \<longleftrightarrow> sg \<noteq> 0" by (simp_all add: g1 g2 ex)
  show ?thesis
    unfolding verify_def bls der n(1) nth_root_of_unity_def st(5) tw prod.case ok_or_Some and_then.simps rel
      field_div_nonzero [OF w] Let_def check_simps open_r open_rw sums nz
    using st(3) by blast
qed

lemma vk17_exponents:
  "vk17 = vk_of E17 Z4 Z3 4 (\<lambda>i. if i = 0 then Z1 else if i = 1 then Z2 else if i = 2 then Z3 else Z0)
     (\<lambda>i. if i = 0 then Z4 else if i = 1 then Z5 else if i = 2 then Z8 else Z0)"
  by (simp add: vk17_def vk_of_def in_g1_def in_g2_def E17_select lagrange_def gf17_eval numeral_eq_Suc lessThan_Suc)

theorem verify_exact_witness:
  "verify E17 [7] vk17 sig17 (Z1, Z3) = Ok True \<and> verify E17 [7] vk17 sig17 (Z2, Z3) \<noteq> Ok True"
proof -
  have h: "hash_to_g2 E17 [7] = Ok (in_g2 E17 Z8)"
    by (simp add: in_g2_def sign_defs17)
  have g: "agg_pk sig17 = in_g1 E17 Z3" "b_of_tau_com sig17 = in_g1 E17 Z13" "qx_of_tau_com sig17 = in_g1 E17 Z16"
    "qx_of_tau_mul_tau_com sig17 = in_g1 E17 Z14" "qz_of_tau_com sig17 = in_g1 E17 Z3"
    "parsum_of_tau_com sig17 = in_g1 E17 Z12" "q_mrg_of_tau_com sig17 = in_g1 E17 Z15"
    "opening_proof_r sig17 = in_g1 E17 Z12" "opening_proof_r_div_omega sig17 = in_g1 E17 Z12"
    "agg_sig sig17 = in_g2 E17 Z7"
    by (simp_all add: sig17_def in_g1_def in_g2_def E17_select gf17_eval)
  note exact = verify_exact [OF setting17 vk17_exponents h derive17 g]
  show ?thesis
    unfolding exact
    by (simp add: sig17_def fr_gt_def E17_select relation_value_def lagrange_def gf17_eval numeral_eq_Suc lessThan_Suc)
qed

text \<open>
  C3. A merged relation that holds for enough challenges is a relation of the polynomials behind
  the claims. If the claimed values are those of fixed polynomials of degree below \<open>n\<close> and of one
  quotient per merge challenge, and \<open>merged_relation_check\<close> accepts for four merge challenges and
  \<open>2 n + 1\<close> evaluation points each, then the bitmap polynomial is 0 or 1 on every slot and 1 on
  the reserved slot, and the claimed aggregate weight is the weight of the slots it selects.
\<close>

theorem merged_relation_check_sound:
  fixes B PS W :: "'f::field list" and w :: 'f
    and vk :: "('f, 'g1, 'g2) verification_key" and sig :: "'f \<Rightarrow> 'f \<Rightarrow> ('f, 'g1, 'g2) threshold_signature"
  assumes "primitive_root (vk_n vk) w" "of_nat (vk_n vk) \<noteq> (0 :: 'f)"
    and "length B \<le> vk_n vk" "length PS \<le> vk_n vk" "length W \<le> vk_n vk"
    and "finite C" "4 \<le> card C"
    and "\<And>chi. chi \<in> C \<Longrightarrow> length (Q chi) \<le> vk_n vk \<and> finite (R chi) \<and> 2 * vk_n vk + 1 \<le> card (R chi)"
    and "\<And>chi r. chi \<in> C \<Longrightarrow> r \<in> R chi \<Longrightarrow>
      agg_weight (sig chi r) = aggw \<and> b_of_r (sig chi r) = peval B r \<and> parsum_of_r (sig chi r) = peval PS r \<and>
      parsum_of_r_div_omega (sig chi r) = peval PS (r / w) \<and> w_of_r (sig chi r) = peval W r \<and>
      q_mrg_of_r (sig chi r) = peval (Q chi) r"
    and "\<And>chi r. chi \<in> C \<Longrightarrow> r \<in> R chi \<Longrightarrow> merged_relation_check vk (sig chi r) w chi r = Ok True"
  shows "(\<forall>i < vk_n vk. peval B (w ^ i) = 0 \<or> peval B (w ^ i) = 1) \<and> peval B (w ^ (vk_n vk - 1)) = 1 \<and>
    aggw = (\<Sum>i<vk_n vk. peval B (w ^ i) * peval W (w ^ i))"
  by (rule merged_relation_sound [OF assms])

lemma relation_points17:
  fixes chi r :: gf17
  assumes "chi \<in> {Z1, Z2, Z3, Z4}" "r \<in> {Z2, Z3, Z4, Z5, Z6}"
  shows "merged_relation_check (vk17\<lparr>vk_n := 2\<rparr>)
    (sig17\<lparr>agg_weight := Z4, b_of_r := Z1, parsum_of_r := peval [Z2, Z2] r,
       parsum_of_r_div_omega := peval [Z2, Z2] (r / Z16), w_of_r := peval [Z2, Z2] r,
       q_mrg_of_r := - (chi * chi)\<rparr>) Z16 chi r = Ok True"
  using assms
  by (elim insertE emptyE; hypsubst;
      simp add: merged_relation_check_def merge_scalars_def field_div_def gf17_eval Let_def power17)

theorem merged_relation_check_sound_witness:
  "peval [Z1] (Z16 ^ 1) = 1 \<and> (Z4 :: gf17) = (\<Sum>i<2. peval [Z1] (Z16 ^ i) * peval [Z2, Z2] (Z16 ^ i))"
proof -
  let ?C = "{Z1, Z2, Z3, Z4}" and ?R = "\<lambda>_ :: gf17. {Z2, Z3, Z4, Z5, Z6}"
  let ?sig = "\<lambda>chi r. sig17\<lparr>agg_weight := Z4, b_of_r := Z1, parsum_of_r := peval [Z2, Z2] r,
       parsum_of_r_div_omega := peval [Z2, Z2] (r / Z16), w_of_r := peval [Z2, Z2] r,
       q_mrg_of_r := - (chi * chi)\<rparr>"
  have prim: "primitive_root 2 Z16"
    by (auto simp: primitive_root_def gf17_eval numeral_eq_Suc less_Suc_eq)
  have two: "of_nat 2 \<noteq> (0 :: gf17)" by (simp add: gf17_eval)
  let ?vk = "vk17\<lparr>vk_n := 2\<rparr>"
  have "(\<forall>i < vk_n ?vk. peval [Z1] (Z16 ^ i) = 0 \<or> peval [Z1] (Z16 ^ i) = 1) \<and>
    peval [Z1] (Z16 ^ (vk_n ?vk - 1)) = 1 \<and>
    Z4 = (\<Sum>i<vk_n ?vk. peval [Z1] (Z16 ^ i) * peval [Z2, Z2] (Z16 ^ i))"
    by (rule merged_relation_check_sound [of ?vk Z16 "[Z1]" "[Z2, Z2]" "[Z2, Z2]" ?C
          "\<lambda>chi. [- (chi * chi)]" ?R ?sig Z4])
       (use prim two relation_points17 in simp_all)
  then show ?thesis by (simp del: peval.simps)
qed

section \<open>Hints and keys\<close>

text \<open>
  C7. \<open>preprocess\<close> succeeds exactly when the registered positions leave the last slot free and
  every registered hint is the well-formed, non-degenerate hint of some secret whose possession is
  proved; its keys are then the commitments, in the exponent, to the registered weights and
  secrets, with weight zero and the zero key everywhere else.
\<close>

theorem preprocess_exact:
  fixes E :: "('f::field, 'g1::ab_group_add, 'g2::ab_group_add, 'gt::ab_group_add, 'rng) ark"
  assumes "hints_setting E crs tau n w" "encoding_ok E"
  shows "preprocess E n crs signer_info = Ok (vk, ak) \<longleftrightarrow>
    length signer_info + 1 \<le> n \<and> (\<forall>i \<in> fst ` set signer_info. i < n - 1) \<and>
    (\<exists>wt s. registered E w tau n signer_info wt s \<and>
       vk = vk_of E w tau n wt s \<and> ak = ak_of E w tau n wt s)"
  by (rule preprocess_iff [OF assms])

theorem preprocess_exact_witness:
  "\<exists>wt s. registered E17 Z4 Z3 4 info17 wt s \<and> vk17 = vk_of E17 Z4 Z3 4 wt s \<and> ak17 = ak_of E17 Z4 Z3 4 wt s"
  using preprocess_exact [OF setting17 encoding_ok_E17, of info17 vk17 ak17] preprocess17 by blast

text \<open>
  C11. \<open>verify_hint\<close> accepts a hint for position \<open>i\<close> exactly when it is the honest hint of some
  secret, none of its points is the identity, and it carries a valid proof of possession.
\<close>

theorem verify_hint_exact:
  fixes E :: "('f::field, 'g1::ab_group_add, 'g2::ab_group_add, 'gt::ab_group_add, 'rng) ark"
  assumes "hints_setting E crs tau n w" "i < n"
  shows "verify_hint E crs n i hint = Ok True \<longleftrightarrow>
    (\<exists>s. hint = hint_of E w tau n i s (pok_i hint) \<and> nondegenerate E w tau n i s \<and>
       verify_proof_of_knowledge E (pok_i hint) (in_g1 E s) = Ok True)"
  by (rule verify_hint_iff [OF assms])

theorem verify_hint_exact_witness:
  "\<exists>s. hint17 1 = hint_of E17 Z4 Z3 4 1 s (pok_i (hint17 1)) \<and> nondegenerate E17 Z4 Z3 4 1 s"
  using verify_hint_exact [OF setting17, of 1 "hint17 1"] verify_hint17(2) by auto

text \<open>
  C12. \<open>hint_gen\<close> computes the hint of its secret key in the exponent: the key, the key times the
  position's Lagrange polynomial in both groups, and the key times quotients at the trapdoor. Quotient
  \<open>j\<close> of the cross terms is a polynomial that times the vanishing polynomial gives \<open>L\<^sub>i L\<^sub>j\<close>, less
  \<open>L\<^sub>i\<close> when \<open>j = i\<close>, at every point; the shifted quotient times \<open>x\<close> gives \<open>L\<^sub>i - L\<^sub>i(0)\<close>. On an
  invalid size, a position out of range or a short reference string it returns the corresponding error.
\<close>

theorem hint_gen_refines:
  fixes E :: "('f::field, 'g1::ab_group_add, 'g2::ab_group_add, 'gt::ab_group_add, 'rng) ark"
  shows "(hints_setting E crs tau n w \<and> i < n \<longrightarrow>
      (\<exists>f q. hint_gen E crs n i sk = Ok
          \<lparr>epk_i = i, epk_n = n, pk_i = in_g1 E (secret sk), pok_i = pop sk,
           sk_i_l_i_of_tau_com_1 = in_g1 E (secret sk * lagrange n w i tau),
           sk_i_l_i_of_tau_com_2 = in_g2 E (secret sk * lagrange n w i tau),
           qz_i_terms = map (\<lambda>j. in_g1 E (secret sk * peval (f j) tau)) [0..<n],
           qx_i_term = in_g1 E (secret sk * peval q tau),
           qx_i_term_mul_tau = in_g1 E (secret sk * (lagrange n w i tau - 1 / of_nat n))\<rparr> \<and>
        (\<forall>j < n. \<forall>x. peval (f j) x * (x ^ n - 1) = lagrange n w i x * lagrange n w j x - (if j = i then lagrange n w i x else 0)) \<and>
        (\<forall>x. peval q x * x = lagrange n w i x - lagrange n w i 0) \<and>
        (\<forall>j < n. length (f j) \<le> n) \<and> length q \<le> n)) \<and>
    (\<not> is_n_valid n \<longrightarrow> hint_gen E crs n i sk = Err (InvalidNetworkSize n)) \<and>
    (is_n_valid n \<and> n \<le> i \<longrightarrow> hint_gen E crs n i sk = Err (InvalidInput (invalid_index_msg i n))) \<and>
    (is_n_valid n \<and> i < n \<and> \<not> crs_supports crs n \<longrightarrow> hint_gen E crs n i sk = Err (InsufficientCRS n))"
  by (intro conjI impI; (elim conjE)?) (rule hint_gen_quotients, assumption+, simp_all add: hint_gen_rejects)

text \<open>
  At the trapdoor 3, outside of the domain, the quotient of the cross term of positions 2 and 1 is the
  product of the two Lagrange polynomials divided in the field.
\<close>

theorem hint_gen_refines_witness:
  "(\<exists>hint c. hint_gen E17 crs17 4 2 (sk17 2) = Ok hint \<and> qz_i_terms hint ! 1 = in_g1 E17 (Z8 * c) \<and>
     c * (Z3 ^ 4 - 1) = lagrange 4 Z4 2 Z3 * lagrange 4 Z4 1 Z3) \<and>
   hint_gen E17 crs17 5 2 (sk17 2) = Err (InvalidNetworkSize 5)"
proof -
  have s: "secret (sk17 2) = Z8" "\<not> is_n_valid 5" by (simp_all add: sk17_def is_n_valid_def)
  obtain f q where h: "hint_gen E17 crs17 4 2 (sk17 2) = Ok
      \<lparr>epk_i = 2, epk_n = 4, pk_i = in_g1 E17 (secret (sk17 2)), pok_i = pop (sk17 2),
       sk_i_l_i_of_tau_com_1 = in_g1 E17 (secret (sk17 2) * lagrange 4 Z4 2 Z3),
       sk_i_l_i_of_tau_com_2 = in_g2 E17 (secret (sk17 2) * lagrange 4 Z4 2 Z3),
       qz_i_terms = map (\<lambda>j. in_g1 E17 (secret (sk17 2) * peval (f j) Z3)) [0..<4],
       qx_i_term = in_g1 E17 (secret (sk17 2) * peval q Z3),
       qx_i_term_mul_tau = in_g1 E17 (secret (sk17 2) * (lagrange 4 Z4 2 Z3 - 1 / of_nat 4))\<rparr>"
    and f: "\<forall>j < 4. \<forall>x. peval (f j) x * (x ^ 4 - 1) = lagrange 4 Z4 2 x * lagrange 4 Z4 j x - (if j = 2 then lagrange 4 Z4 2 x else 0)"
    using hint_gen_refines [of E17 crs17 Z3 4 Z4 2 "sk17 2"] setting17 by auto
  have "peval (f 1) Z3 * (Z3 ^ 4 - 1) = lagrange 4 Z4 2 Z3 * lagrange 4 Z4 1 Z3"
    using f [rule_format, of 1 Z3] by simp
  moreover have "hint_gen E17 crs17 5 2 (sk17 2) = Err (InvalidNetworkSize 5)"
    using hint_gen_refines [of E17 crs17 Z3 5 Z4 2 "sk17 2"] s(2) by blast
  moreover obtain hint where "hint_gen E17 crs17 4 2 (sk17 2) = Ok hint" "qz_i_terms hint ! 1 = in_g1 E17 (Z8 * peval (f 1) Z3)"
    using h s(1) by simp
  ultimately show ?thesis by blast
qed

text \<open>
  A generated proof of possession verifies for the public key, and \<open>keygen\<close> always returns a
  key with such a proof.
\<close>

theorem keygen_proof_verifies:
  fixes E :: "('f::field, 'g1::ab_group_add, 'g2::ab_group_add, 'gt::ab_group_add, 'rng) ark"
  assumes "group_ok E" "encoding_ok E"
  shows "\<exists>sk. keygen E seed = Ok sk \<and>
    verify_proof_of_knowledge E (pop sk) (g1_mul E (g1_generator E) (secret sk)) = Ok True"
proof -
  let ?fill = "rng_fill_bytes E 32"
  let ?x = "fst (f_rand E (rng_from_seed E (fst (?fill (rng_from_seed E seed)))))"
  obtain p where p: "generate_proof_of_knowledge E ?x (fst (?fill (snd (?fill (rng_from_seed E seed))))) = Ok p"
    using generate_pok_total [OF assms(2)] by blast
  then show ?thesis
    using generated_pok_verifies [OF assms(1) p] by (simp add: keygen_def Let_def split_def)
qed

theorem keygen_proof_verifies_witness:
  "\<exists>sk. keygen E17 [1] = Ok sk \<and>
    verify_proof_of_knowledge E17 (pop sk) (g1_mul E17 (g1_generator E17) (secret sk)) = Ok True"
  by (rule keygen_proof_verifies [OF curve_okD(2) [OF curve_ok_E17] encoding_ok_E17])

text \<open>
  Special soundness of the proof of possession: two accepted proofs with the same commitment
  and different challenges, under two random oracles, give the secret key.
\<close>

theorem possession_special_sound:
  fixes E :: "('f::field, 'g1::ab_group_add, 'g2::ab_group_add, 'gt::ab_group_add, 'rng) ark"
  assumes "group_ok E"
    and "verify_proof_of_knowledge E p pk = Ok True"
    and "verify_proof_of_knowledge (E\<lparr>hash_to_field := H\<rparr>) p' pk = Ok True"
    and "pop_commitment p = pop_commitment p'" "pop_challenge p \<noteq> pop_challenge p'"
  shows "pk = g1_mul E (g1_generator E)
      ((pop_response p - pop_response p') / (pop_challenge p - pop_challenge p'))"
  by (rule pok_extraction [OF assms])

theorem possession_special_sound_witness:
  "Z4 = g1_mul E17 (g1_generator E17) ((Z7 - Z5) / (Z9 - Z0))"
proof -
  have "verify_proof_of_knowledge E17 (pop (sk17 0)) Z4 = Ok True"
    by (simp add: sk17_def pok_defs17 E17_select gf17_eval Let_def)
  moreover have "verify_proof_of_knowledge (E17\<lparr>hash_to_field := \<lambda>_ _. Z0\<rparr>)
      \<lparr>pop_commitment = Z5, pop_challenge = Z0, pop_response = Z5\<rparr> Z4 = Ok True"
    by (simp add: pok_defs17 E17_select gf17_eval Let_def)
  ultimately show ?thesis
    using possession_special_sound [OF curve_okD(2) [OF curve_ok_E17], of "pop (sk17 0)" Z4 "\<lambda>_ _. Z0"
        "\<lparr>pop_commitment = Z5, pop_challenge = Z0, pop_response = Z5\<rparr>"]
    by (simp add: sk17_def)
qed

section \<open>Partial signatures\<close>

text \<open>
  C13. \<open>partial_verify\<close> accepts exactly the signature of the slot's key: for slot \<open>i\<close> with public
  key \<open>[s]\<^sub>1\<close> and message point \<open>h\<close> it accepts \<open>sig\<close> iff \<open>s\<close> and \<open>h\<close> are not zero and \<open>sig\<close> is
  \<open>s\<close> times \<open>h\<close>.
\<close>

theorem partial_verify_exact:
  fixes E :: "('f::field, 'g1::ab_group_add, 'g2::ab_group_add, 'gt::ab_group_add, 'rng) ark"
  assumes "curve_ok E" "is_n_valid (ak_n ak)" "aggregation_key_is_well_formed ak" "i < ak_n ak - 1"
    and "hash_to_g2 E msg = Ok h" "ak_pks ak ! i = in_g1 E s"
  shows "partial_verify E msg ak i sig = Ok True \<longleftrightarrow> s \<noteq> 0 \<and> h \<noteq> 0 \<and> sig = g2_mul E h s"
  by (rule partial_verify_iff [OF assms(1) _ assms(4-6)]) (simp add: valid_key_def assms(2,3))

lemma ak17_key:
  "is_n_valid (ak_n ak17)" "aggregation_key_is_well_formed ak17" "ak_n ak17 = 4"
  "ak_weights ak17 = [Z1, Z2, Z3, Z0]" "ak_pks ak17 = [Z4, Z5, Z8, Z0]"
  using hints_settingD(3) [OF setting17] by (simp_all add: ak17_def aggregation_key_is_well_formed_def)

theorem partial_verify_exact_witness:
  "partial_verify E17 [7] ak17 2 Z13 = Ok True \<and> partial_verify E17 [7] ak17 2 Z12 \<noteq> Ok True"
proof -
  have "hash_to_g2 E17 [7] = Ok Z8" "ak_pks ak17 ! 2 = in_g1 E17 Z8" "2 < ak_n ak17 - 1"
    by (simp_all add: ak17_key in_g1_def sign_defs17)
  then show ?thesis
    using partial_verify_exact [OF curve_ok_E17 ak17_key(1,2), of 2 "[7]" Z8 Z8] by (simp add: E17_select gf17_eval)
qed

text \<open>
  C14. The batch verifier is complete: signatures that verify one by one verify as a batch,
  whatever random coefficient is drawn.
\<close>

theorem partial_verify_batch_complete:
  fixes E :: "('f::field, 'g1::ab_group_add, 'g2::ab_group_add, 'gt::ab_group_add, 'rng) ark"
  assumes "curve_ok E" "length ids = length sigs" "ids \<noteq> []"
    and "\<And>k. k < length ids \<Longrightarrow> partial_verify E msg ak (ids ! k) (sigs ! k) = Ok True"
  shows "partial_verify_batch E r msg ak ids sigs = Ok True"
  by (rule batch_complete [OF assms])

theorem partial_verify_batch_complete_witness: "partial_verify_batch E17 Z11 [7] ak17 [0, 2] [Z15, Z13] = Ok True"
proof (rule partial_verify_batch_complete [OF curve_ok_E17])
  fix k :: nat assume "k < length [0, 2 :: nat]"
  then show "partial_verify E17 [7] ak17 ([0, 2] ! k) ([Z15, Z13] ! k) = Ok True"
    using partial_verify17 by (auto simp: less_Suc_eq)
qed simp_all

text \<open>
  C15. The batch verifier is sound: if some signature of the batch does not verify on its own,
  fewer random coefficients than there are signatures make the batch verify.
\<close>

theorem partial_verify_batch_sound:
  fixes E :: "('f::field, 'g1::ab_group_add, 'g2::ab_group_add, 'gt::ab_group_add, 'rng) ark"
  assumes "curve_ok E" "k < length sigs" "partial_verify E msg ak (ids ! k) (sigs ! k) \<noteq> Ok True"
  shows "finite {r. partial_verify_batch E r msg ak ids sigs = Ok True} \<and>
    card {r. partial_verify_batch E r msg ak ids sigs = Ok True} < length sigs"
  by (rule batch_sound [OF assms])

theorem partial_verify_batch_sound_witness:
  "card {r. partial_verify_batch E17 r [7] ak17 [0, 2] [Z15, Z12] = Ok True} < 2"
proof -
  have "partial_verify E17 [7] ak17 ([0, 2] ! 1) ([Z15, Z12] ! 1) \<noteq> Ok True"
    using ak17_key by (simp add: partial_verify_def sign_defs17 Let_def check_or_return_false_def)
  then show ?thesis
    using partial_verify_batch_sound [OF curve_ok_E17, of 1 "[Z15, Z12]" "[7]" ak17 "[0, 2]"] by simp
qed

section \<open>Aggregation\<close>

text \<open>
  C16. \<open>aggregate\<close> on a well-formed key and signers in range returns a signature that claims the
  total weight of the signers, if the reserved slot has weight zero; if a key gives the reserved
  slot weight, it returns the error that the relations do not hold, and never a signature.
\<close>

theorem aggregate_reserved_slot:
  fixes E :: "('f::field, 'g1::ab_group_add, 'g2::ab_group_add, 'gt::ab_group_add, 'rng) ark"
  assumes "hints_setting E crs tau n w" "encoding_ok E"
    and "aggregation_key_is_well_formed ak" "ak_n ak = n"
    and "\<And>i. i \<in> fst ` set ps \<Longrightarrow> i < n - 1"
  shows "if ak_weights ak ! (n - 1) = 0
    then \<exists>pi_sig. aggregate E crs ak vk ps = Ok pi_sig \<and>
      agg_weight pi_sig = (\<Sum>i\<in>fst ` set ps. ak_weights ak ! i)
    else aggregate E crs ak vk ps = Err (InvalidInput ''aggregation inputs do not satisfy the hinTS relations'')"
  by (rule aggregate_exact [OF assms])

theorem aggregate_reserved_slot_witness:
  "aggregate E17 crs17 (ak17\<lparr>ak_weights := [Z1, Z2, Z3, Z5]\<rparr>) vk17 sigs17
     = Err (InvalidInput ''aggregation inputs do not satisfy the hinTS relations'') \<and>
   is_ok (aggregate E17 crs17 ak17 vk17 sigs17)"
proof -
  have wf: "aggregation_key_is_well_formed (ak17\<lparr>ak_weights := [Z1, Z2, Z3, Z5]\<rparr>)"
    "ak_n (ak17\<lparr>ak_weights := [Z1, Z2, Z3, Z5]\<rparr>) = 4"
    using ak17_key by (simp_all add: aggregation_key_is_well_formed_def)
  have keys: "i < 4 - 1" if "i \<in> fst ` set sigs17" for i using that by (auto simp: sigs17_def)
  have z: "[Z1, Z2, Z3, Z0] ! 3 = 0" "[Z1, Z2, Z3, Z5] ! 3 \<noteq> 0" by (simp_all add: gf17_eval)
  show ?thesis
    using aggregate_reserved_slot [OF setting17 encoding_ok_E17 wf keys, of sigs17]
      aggregate_reserved_slot [OF setting17 encoding_ok_E17 ak17_key(2,3) keys, of sigs17] z
    by (auto simp: ak17_key is_ok_iff)
qed

text \<open>
  A party id in the reserved slot or beyond the key makes \<open>aggregate\<close> return the error that
  names such an id, without panicking.
\<close>

theorem aggregate_rejects_out_of_range:
  fixes E :: "('f::field, 'g1::ab_group_add, 'g2::ab_group_add, 'gt::ab_group_add, 'rng) ark"
  assumes "curve_ok E" "aggregation_key_is_well_formed ak" "is_n_valid (ak_n ak)" "crs_supports crs (ak_n ak)"
    and "(i, sig) \<in> set ps" "i \<ge> ak_n ak - 1"
  shows "\<exists>j \<in> fst ` set ps. j \<ge> ak_n ak - 1 \<and>
    aggregate E crs ak vk ps = Err (InvalidInput (party_id_msg j (ak_n ak)))"
  by (rule aggregate_out_of_range [OF assms])

theorem aggregate_rejects_out_of_range_witness:
  "aggregate E17 crs17 ak17 vk17 [(0, Z15), (3, Z1)] = Err (InvalidInput (party_id_msg 3 4))"
  using aggregate_rejects_out_of_range [OF curve_ok_E17 ak17_key(2,1), of crs17 3 Z1 "[(0, Z15), (3, Z1)]" vk17]
    hints_settingD(4) [OF setting17]
  by (simp add: ak17_key)

section \<open>The verifier on every input\<close>

text \<open>
  C17. The comparison of \<open>verify\<close> is over field elements; an accepted signature passes the
  threshold over the integers whenever the two cross products stay below the field modulus.
\<close>

theorem verify_threshold_sound:
  fixes E :: "('f::field, 'g1::ab_group_add, 'g2::ab_group_add, 'gt::ab_group_add, 'rng) ark"
  assumes "field_ok E" "agg_weight pi_sig = of_nat aggw" "vk_total_weight vk = of_nat tot"
    and "den * aggw < fr_modulus E" "num * tot < fr_modulus E"
    and acc: "verify E msg vk pi_sig (of_nat num, of_nat den) = Ok True"
  shows "num * tot < den * aggw"
proof -
  have "fr_gt E (of_nat den * agg_weight pi_sig) (of_nat num * vk_total_weight vk)"
    using acc by (simp add: verify_def)
  then show ?thesis using threshold_no_wrap [OF assms(1,4,5)] by (simp add: assms(2,3))
qed

theorem verify_threshold_sound_witness: "1 * 6 < 3 * (4 :: nat) \<and> vk_total_weight vk17 = of_nat 6"
proof -
  have w: "agg_weight sig17 = of_nat 4" "vk_total_weight vk17 = of_nat 6" "of_nat 1 = Z1" "of_nat 3 = Z3"
    by (simp_all add: sig17_def vk17_def gf17_eval)
  have "verify E17 [7] vk17 sig17 (Z1, Z3) = Ok True" by (rule verify17)
  then have "1 * 6 < 3 * (4 :: nat)"
    using verify_threshold_sound [OF field_ok_E17 w(1,2), of 3 1 "[7]"] by (simp add: w(3,4) E17_select del: of_nat_numeral of_nat_1)
  then show ?thesis using w(2) by simp
qed

text \<open>
  C18. \<open>verify\<close> never panics, on any key, signature, message and threshold: it returns a boolean,
  or the domain error when the field has no evaluation domain of the key's size.
\<close>

theorem verify_no_panic:
  fixes E :: "('f::field, 'g1::ab_group_add, 'g2::ab_group_add, 'gt::ab_group_add, 'rng) ark"
  assumes "ark_ok E" "encoding_ok E"
  shows "(\<exists>b. verify E msg vk pi_sig fraction = Ok b) \<or>
    (domain_group_gen E (vk_n vk) = None \<and>
     verify E msg vk pi_sig fraction = Err (CryptographyCatastrophe (domain_msg (vk_n vk))))"
  by (rule verify_not_panicked [OF assms])

theorem verify_no_panic_witness: "\<exists>b. verify E17 [9] vk17 (sig17\<lparr>b_of_r := Z0\<rparr>) (Z1, Z2) = Ok b"
  using verify_no_panic [OF ark_ok_E17 encoding_ok_E17, of "[9]" vk17 "sig17\<lparr>b_of_r := Z0\<rparr>" "(Z1, Z2)"]
    hints_settingD(5) [OF setting17] by (auto simp: vk17_def)

section \<open>Commitments, challenges and domains\<close>

text \<open>
  Openings of the polynomial commitment are complete and correct: the proof that
  \<open>compute_opening_proof\<close> returns makes \<open>verify_opening\<close> accept the polynomial's value at the
  point and no other value.
\<close>

theorem opening_complete_and_correct:
  fixes E :: "('f::field, 'g1::ab_group_add, 'g2::ab_group_add, 'gt::ab_group_add, 'rng) ark"
  assumes "curve_ok E" "poly_ok E" "structured_crs E tau crs" "pwf p"
    and "length p \<le> length (powers_of_g crs)" "0 < length (powers_of_g crs)"
    and "vk_g_0 vk = in_g1 E 1" "vk_h_0 vk = in_g2 E 1" "vk_h_1 vk = in_g2 E tau"
  shows "\<exists>com prf. commit_g1 E crs p = Ok com \<and> compute_opening_proof E crs p z = Ok prf \<and>
    (\<forall>v. verify_opening E vk com z v prf \<longleftrightarrow> v = poly_evaluate E p z)"
  by (rule opening_correct [OF assms])

lemma vk17_points: "vk_g_0 vk17 = in_g1 E17 1" "vk_h_0 vk17 = in_g2 E17 1" "vk_h_1 vk17 = in_g2 E17 Z3"
  by (simp_all add: vk17_exponents)

theorem opening_complete_and_correct_witness:
  "verify_opening E17 vk17 Z12 Z10 Z11 Z12 \<and> \<not> verify_opening E17 vk17 Z12 Z10 Z5 Z12"
proof -
  have com: "commit_g1 E17 crs17 [Z10, Z11, Z1, Z13] = Ok Z12" "poly_evaluate E17 [Z10, Z11, Z1, Z13] Z10 = Z11"
    by (simp_all add: hint_defs17 gf17_eval)
  have "pwf [Z10, Z11, Z1, Z13]" by (simp add: pwf_def gf17_eval)
  then show ?thesis
    using opening_complete_and_correct [OF curve_ok_E17 poly_ok_E17 hints_settingD(2) [OF setting17] _ _ _ vk17_points,
        of "[Z10, Z11, Z1, Z13]" Z10] com prover_polys17(6)
    by (simp add: crs17_eq)
qed

text \<open>
  C37. Openings are binding: two accepted openings of one commitment at one point to different
  values give the strong Diffie-Hellman solution \<open>[1 / (\<tau> - z)]\<^sub>1\<close>, computed from the two proofs.
\<close>

theorem opening_is_binding:
  fixes E :: "('f::field, 'g1::ab_group_add, 'g2::ab_group_add, 'gt::ab_group_add, 'rng) ark"
  assumes "curve_ok E" "vk_g_0 vk = in_g1 E 1" "vk_h_0 vk = in_g2 E 1" "vk_h_1 vk = in_g2 E tau"
    and "verify_opening E vk com z v P" "verify_opening E vk com z v' P'" "v \<noteq> v'"
  shows "tau \<noteq> z \<and> g1_mul E (P - P') (1 / (v' - v)) = in_g1 E (1 / (tau - z))"
  by (rule opening_binding [OF assms])

theorem opening_is_binding_witness: "g1_mul E17 (Z1 - Z2) (1 / (Z6 - Z5)) = in_g1 E17 (1 / (Z3 - Z4))"
proof -
  have "verify_opening E17 vk17 Z4 Z4 Z5 Z1" "verify_opening E17 vk17 Z4 Z4 Z6 Z2"
    by (simp_all add: verify_opening_def vk17_def E17_select gf17_eval)
  then show ?thesis using opening_is_binding [OF curve_ok_E17 vk17_points, of Z4 Z4 Z5 Z1 Z6 Z2] by simp
qed

text \<open>
  C38. The last challenge is drawn from a transcript that binds the signature: two signatures whose
  final transcripts have the same bytes, under one verification key, agree in every commitment and
  every claimed value that the verifier reads.
\<close>

theorem challenges_bind_signature:
  fixes E :: "('f, 'g1, 'g2, 'gt, 'rng) ark"
  assumes "canonical_encodings E"
    and "derive_challenges E vk s = Ok (chi_q, r, chi_op)" "derive_challenges E vk s' = Ok (chi_q', r', chi_op')"
  shows "\<exists>t t'. final_transcript E vk s = Ok t \<and> final_transcript E vk s' = Ok t' \<and>
    chi_op = hash_to_field E DST_OPENING_BATCH (tr_bytes t) \<and>
    chi_op' = hash_to_field E DST_OPENING_BATCH (tr_bytes t') \<and>
    (tr_bytes t = tr_bytes t' \<longrightarrow> transcript_fields s = transcript_fields s')"
proof -
  obtain t where t: "final_transcript E vk s = Ok t" "chi_op = transcript_challenge E t DST_OPENING_BATCH"
    by (rule derive_challenges_final [OF assms(2)])
  obtain t' where t': "final_transcript E vk s' = Ok t'" "chi_op' = transcript_challenge E t' DST_OPENING_BATCH"
    by (rule derive_challenges_final [OF assms(3)])
  show ?thesis
    using final_transcript_binds [OF assms(1) t(1) t'(1)] t t' unfolding transcript_challenge_def by blast
qed

lemma byte17_inj: "byte17 a = byte17 b \<Longrightarrow> a = b"
proof -
  assume "byte17 a = byte17 b"
  then have "uint (word_of_int (to_int17 a) :: byte) = uint (word_of_int (to_int17 b) :: byte)"
    by (simp add: byte17_def)
  then have "to_int17 a = to_int17 b"
    using to_int17_range [of a] to_int17_range [of b] by (simp add: uint_word_of_int)
  then show "a = b" by (metis from_to17)
qed

lemma canonical17: "canonical_encodings E17"
  using byte17_inj by (simp add: canonical_encodings_def fixed_width_def E17_select) (simp add: byte17_def)

theorem challenges_bind_signature_witness:
  "\<exists>t. final_transcript E17 vk17 sig17 = Ok t \<and> Z15 = hash_to_field E17 DST_OPENING_BATCH (tr_bytes t)"
  using challenges_bind_signature [OF canonical17 derive17 derive17] by blast

text \<open>
  \<open>is_n_valid\<close>, a test on the bits of \<open>n\<close>, accepts exactly the powers of two above one.
\<close>

theorem is_n_valid_powers_of_two: "is_n_valid n \<longleftrightarrow> (\<exists>k. 0 < k \<and> n = 2 ^ k)"
  by (rule is_n_valid_iff)

text \<open>
  \<open>lagrange_poly\<close> returns a polynomial of degree below \<open>n\<close> that is one at its own point of
  the domain and zero at every other point.
\<close>

theorem lagrange_poly_indicator:
  fixes E :: "('f::field, 'g1::ab_group_add, 'g2::ab_group_add, 'gt::ab_group_add, 'rng) ark"
  assumes "ark_ok E" "is_n_valid n" "domain_group_gen E n = Some w" "i < n"
  shows "\<exists>L. (lagrange_poly E n i :: ('f dense_poly option, 'e) result) = Ok (Some L) \<and> length L \<le> n \<and>
    (\<forall>j < n. poly_evaluate E L (w ^ j) = (if j = i then 1 else 0))"
proof -
  have nz: "(of_nat n :: 'f) \<noteq> 0"
    by (rule valid_size_nonzero [OF curve_okD(1) [OF ark_okD(1) [OF assms(1)]] assms(2)])
  have prim: "primitive_root n w" by (rule domain_primitive [OF ark_okD(3) [OF assms(1)] assms(2,3)])
  obtain L where L: "(lagrange_poly E n i :: ('f dense_poly option, 'e) result) = Ok (Some L)" "length L \<le> n"
    "\<And>x. peval L x = lagrange n w i x"
    using lagrange_poly_correct [OF assms, where 'e = 'e] by metis
  have "poly_evaluate E L (w ^ j) = (if j = i then 1 else 0)" if "j < n" for j
    using L(3) lagrange_at_point [OF prim nz assms(4) that] poly_evaluate_eq [OF ark_okD(2) [OF assms(1)]] by auto
  then show ?thesis using L(1,2) by blast
qed

theorem lagrange_poly_indicator_witness:
  "\<exists>L. (lagrange_poly E17 4 1 :: (gf17 dense_poly option, hints_error) result) = Ok (Some L) \<and> length L \<le> 4 \<and>
    poly_evaluate E17 L (Z4 ^ 1) = 1 \<and> poly_evaluate E17 L (Z4 ^ 2) = 0"
proof -
  have "1 < (4 :: nat)" "2 < (4 :: nat)" "2 \<noteq> (1 :: nat)" by simp_all
  then show ?thesis
    using lagrange_poly_indicator [OF ark_ok_E17 hints_settingD(3,5) [OF setting17], of 1, where 'e = hints_error]
    by metis
qed

end
