(* ===== verification/Setup.thy ===== *)
theory Setup
  imports SigmaProtocol Kzg HintsSign
begin

text \<open>
  The powers-of-tau ceremony of \<^verbatim>\<open>setup.rs\<close>: the initial reference string, contributions, their
  proofs and their verification. Uncompressed serialization of a reference string, which only feeds
  the random coefficients of \<open>check2\<close>, is the argument \<open>ser_crs\<close>.
\<close>

record ('f, 'g1) contribution_proof =
  p1_mul_z :: 'g1
  z_plus_hr :: 'f

section \<open>Operations\<close>

text \<open>The slice \<open>xs[a..=b]\<close>.\<close>

definition slice_inclusive :: "'a list \<Rightarrow> nat \<Rightarrow> nat \<Rightarrow> ('a list, 'e) result" where
  "slice_inclusive xs a b =
     (if a \<le> b + 1 \<and> b + 1 \<le> length xs then Ok (take (b + 1 - a) (drop a xs)) else Panicked)"

definition tower_lengths_msg :: "nat \<Rightarrow> nat \<Rightarrow> nat \<Rightarrow> nat \<Rightarrow> string" where
  "tower_lengths_msg pg ph ng nh =
     ''CRS tower lengths are inconsistent: previous G1 = '' @ fmt_usize pg @ '', previous G2 = '' @ fmt_usize ph @
     '', next G1 = '' @ fmt_usize ng @ '', next G2 = '' @ fmt_usize nh"

definition validate_crs_tower_lengths ::
  "('g1, 'g2) universal_params \<Rightarrow> ('g1, 'g2) universal_params \<Rightarrow> (nat, hints_error) result" where
  "validate_crs_tower_lengths prev_crs next_crs =
     (let prev_powers_of_g_len = length (powers_of_g prev_crs);
          prev_powers_of_h_len = length (powers_of_h prev_crs);
          next_powers_of_g_len = length (powers_of_g next_crs);
          next_powers_of_h_len = length (powers_of_h next_crs)
      in if prev_powers_of_g_len < 3 then Err (InsufficientCRS prev_powers_of_g_len)
         else if prev_powers_of_g_len \<noteq> next_powers_of_g_len \<or> prev_powers_of_h_len \<noteq> next_powers_of_h_len
           \<or> prev_powers_of_g_len \<noteq> prev_powers_of_h_len
         then Err (InvalidInput (tower_lengths_msg prev_powers_of_g_len prev_powers_of_h_len
                next_powers_of_g_len next_powers_of_h_len))
         else Ok prev_powers_of_g_len)"

definition init_crs :: "('f, 'g1, 'g2, 'gt, 'rng) ark \<Rightarrow> nat \<Rightarrow> ('g1, 'g2) universal_params" where
  "init_crs E degree =
     \<lparr>powers_of_g = replicate (degree + 1) (g1_generator E),
      powers_of_h = replicate (degree + 1) (g2_generator E)\<rparr>"

definition prune_crs ::
  "('g1, 'g2) universal_params \<Rightarrow> nat \<Rightarrow> (('g1, 'g2) universal_params, hints_error) result" where
  "prune_crs crs new_degree =
     and_then (validate_crs_tower_lengths crs crs) (\<lambda>crs_len.
       if new_degree \<ge> crs_len then Err (InsufficientCRS new_degree)
       else
         and_then (slice_inclusive (powers_of_g crs) 0 new_degree) (\<lambda>gs.
         and_then (slice_inclusive (powers_of_h crs) 0 new_degree) (\<lambda>hs.
         Ok \<lparr>powers_of_g = gs, powers_of_h = hs\<rparr>)))"

definition SETUP_DST :: bytes where
  "SETUP_DST = ascii_bytes ''HINTS_POWERS_OF_TAU_BLS12381:FIAT_SHAMIR''"

definition random_oracle ::
  "('f, 'g1, 'g2, 'gt, 'rng) ark \<Rightarrow> 'g1 \<Rightarrow> 'g1 \<Rightarrow> 'g1 \<Rightarrow> ('f, hints_error) result" where
  "random_oracle E prev_p1 next_p1 prev_p1_mul_z =
     and_then (from_serialization_error (ser_g1 E prev_p1)) (\<lambda>b1.
     and_then (from_serialization_error (ser_g1 E next_p1)) (\<lambda>b2.
     and_then (from_serialization_error (ser_g1 E prev_p1_mul_z)) (\<lambda>b3.
     Ok (hash_to_field E SETUP_DST (b1 @ b2 @ b3)))))"

definition schnorr_nizk ::
  "('f::field, 'g1, 'g2, 'gt, 'rng) ark \<Rightarrow> 'g1 \<Rightarrow> 'g1 \<Rightarrow> 'f \<Rightarrow> 'rng
   \<Rightarrow> (('f, 'g1) contribution_proof, hints_error) result" where
  "schnorr_nizk E prev_p1 next_p1 r rng =
     (let z = fst (f_rand E rng);
          prev_p1_mul_z = g1_mul E prev_p1 z in
      and_then (random_oracle E prev_p1 next_p1 prev_p1_mul_z) (\<lambda>h.
      let z_plus_hr = z + h * r
      in Ok \<lparr>p1_mul_z = prev_p1_mul_z, z_plus_hr = z_plus_hr\<rparr>))"

definition contribute ::
  "('f::field, 'g1, 'g2, 'gt, 'rng) ark \<Rightarrow> ('g1, 'g2) universal_params \<Rightarrow> bytes
   \<Rightarrow> (('g1, 'g2) universal_params \<times> ('f, 'g1) contribution_proof, hints_error) result" where
  "contribute E crs seed =
     (let rng = rng_from_seed E seed;
          (r, rng) = f_rand E rng in
      and_then (validate_crs_tower_lengths crs crs) (\<lambda>crs_len.
      let degree = crs_len - 1;
          powers_of_r = map (\<lambda>i. r ^ i) [0..<degree + 1];
          next_crs = \<lparr>powers_of_g = map (\<lambda>(g, s). g1_mul E g s) (zip (powers_of_g crs) powers_of_r),
                      powers_of_h = map (\<lambda>(h, s). g2_mul E h s) (zip (powers_of_h crs) powers_of_r)\<rparr> in
      and_then (index (powers_of_g crs) 1) (\<lambda>prev_p1.
      and_then (index (powers_of_g next_crs) 1) (\<lambda>next_p1.
      and_then (schnorr_nizk E prev_p1 next_p1 r rng) (\<lambda>prf.
      Ok (next_crs, prf))))))"

definition check1 ::
  "('f, 'g1::ab_group_add, 'g2, 'gt, 'rng) ark \<Rightarrow> 'g1 \<Rightarrow> 'g1 \<Rightarrow> ('f, 'g1) contribution_proof
   \<Rightarrow> (bool, hints_error) result" where
  "check1 E prev_p1 next_p1 prf =
     and_then (random_oracle E prev_p1 next_p1 (p1_mul_z prf)) (\<lambda>h.
       let lhs = g1_mul E prev_p1 (z_plus_hr prf);
           rhs = p1_mul_z prf + g1_mul E next_p1 h
       in Ok (lhs = rhs))"

definition check2_unoptimized ::
  "('f, 'g1, 'g2, 'gt, 'rng) ark \<Rightarrow> ('g1, 'g2) universal_params \<Rightarrow> (bool, hints_error) result" where
  "check2_unoptimized E crs =
     (let n = usize_sub (length (powers_of_g crs)) 1 in
      all_checks (\<lambda>i.
        and_then (index (powers_of_g crs) i) (\<lambda>g_i.
        and_then (index (powers_of_h crs) (i + 1)) (\<lambda>h_next.
        and_then (index (powers_of_g crs) (i + 1)) (\<lambda>g_next.
        and_then (index (powers_of_h crs) i) (\<lambda>h_i.
        Ok (pairing E g_i h_next = pairing E g_next h_i)))))) [0..<n])"

definition compute_sha256 :: "('f, 'g1, 'g2, 'gt, 'rng) ark \<Rightarrow> bytes list \<Rightarrow> bytes" where
  "compute_sha256 E inputs = sha256 E (concat inputs)"

text \<open>The pairing equation of \<open>check2\<close> for the coefficients \<open>rho1\<close> and \<open>rho2\<close>.\<close>

definition check2_at ::
  "('f::field, 'g1::ab_group_add, 'g2::ab_group_add, 'gt, 'rng) ark \<Rightarrow> ('g1, 'g2) universal_params
   \<Rightarrow> 'f \<Rightarrow> 'f \<Rightarrow> (bool, nat) result" where
  "check2_at E crs rho1 rho2 =
     (let n = usize_sub (length (powers_of_g crs)) 1 in
      and_then (slice_inclusive (powers_of_g crs) 1 n) (\<lambda>gs.
      and_then (g1_msm E gs (map (\<lambda>i. rho1 ^ i) [0..<usize_sub n 1 + 1])) (\<lambda>lhs_lhs.
      and_then (slice_inclusive (powers_of_h crs) 1 (usize_sub n 1)) (\<lambda>hs.
      and_then (g2_msm E hs (map (\<lambda>i. rho2 ^ i) [1..<usize_sub n 1 + 1])) (\<lambda>m1.
      and_then (index (powers_of_h crs) 0) (\<lambda>h0.
      let lhs_rhs = m1 + h0 in
      and_then (slice_inclusive (powers_of_g crs) 1 (usize_sub n 1)) (\<lambda>gs'.
      and_then (g1_msm E gs' (map (\<lambda>i. rho1 ^ i) [1..<usize_sub n 1 + 1])) (\<lambda>m2.
      and_then (index (powers_of_g crs) 0) (\<lambda>g0.
      let rhs_lhs = m2 + g0 in
      and_then (slice_inclusive (powers_of_h crs) 1 n) (\<lambda>hs'.
      and_then (g2_msm E hs' (map (\<lambda>i. rho2 ^ i) [0..<usize_sub n 1 + 1])) (\<lambda>rhs_rhs.
      Ok (pairing E lhs_lhs lhs_rhs = pairing E rhs_lhs rhs_rhs))))))))))))"

definition check2 ::
  "('f::field, 'g1::ab_group_add, 'g2::ab_group_add, 'gt, 'rng) ark
   \<Rightarrow> (('g1, 'g2) universal_params \<Rightarrow> (bytes, serialization_error) result)
   \<Rightarrow> ('g1, 'g2) universal_params \<Rightarrow> (bool, nat) result" where
  "check2 E ser_crs crs =
     and_then (map_err (\<lambda>_. 0) (ser_crs crs)) (\<lambda>crs_bytes.
       let rho1 = from_le_bytes_mod_order E (compute_sha256 E [crs_bytes, [1]]);
           rho2 = from_le_bytes_mod_order E (compute_sha256 E [crs_bytes, [2]])
       in check2_at E crs rho1 rho2)"

definition check3 ::
  "('f, 'g1::zero, 'g2::zero, 'gt, 'rng) ark \<Rightarrow> ('g1, 'g2) universal_params \<Rightarrow> (bool, hints_error) result" where
  "check3 E crs =
     and_then (index (powers_of_g crs) 0) (\<lambda>g0.
     and_then (index (powers_of_h crs) 0) (\<lambda>h0.
     and_then (index (powers_of_g crs) 1) (\<lambda>g1.
     and_then (index (powers_of_h crs) 1) (\<lambda>h1.
     let c1 = (g0 = g1_generator E \<and> h0 = g2_generator E);
         c2 = (g1 \<noteq> 0 \<and> h1 \<noteq> 0)
     in Ok (c1 \<and> c2)))))"

primrec false_on_error :: "(bool, 'e) result \<Rightarrow> (bool, 'd) result" where
  "false_on_error (Ok b) = Ok b"
| "false_on_error (Err e) = Ok False"
| "false_on_error Panicked = Panicked"

definition verify_contribution ::
  "('f::field, 'g1::ab_group_add, 'g2::ab_group_add, 'gt, 'rng) ark
   \<Rightarrow> (('g1, 'g2) universal_params \<Rightarrow> (bytes, serialization_error) result)
   \<Rightarrow> ('g1, 'g2) universal_params \<Rightarrow> ('g1, 'g2) universal_params \<Rightarrow> ('f, 'g1) contribution_proof
   \<Rightarrow> (bool, hints_error) result" where
  "verify_contribution E ser_crs prev_crs next_crs prf =
     (if \<not> is_ok (validate_crs_tower_lengths prev_crs next_crs) then Ok False
      else
        and_then (index (powers_of_g prev_crs) 1) (\<lambda>prev_p1.
        and_then (index (powers_of_g next_crs) 1) (\<lambda>next_p1.
        and_then (false_on_error (check1 E prev_p1 next_p1 prf)) (\<lambda>c1.
        and_then (false_on_error (check2 E ser_crs next_crs)) (\<lambda>c2.
        and_then (check3 E next_crs) (\<lambda>c3.
        Ok (c1 \<and> c2 \<and> c3)))))))"

section \<open>Shape\<close>

definition tower :: "nat \<Rightarrow> ('g1, 'g2) universal_params \<Rightarrow> bool" where
  "tower m crs \<longleftrightarrow> length (powers_of_g crs) = m \<and> length (powers_of_h crs) = m \<and> 3 \<le> m"

lemma validate_iff:
  "validate_crs_tower_lengths prev_crs next_crs = Ok m \<longleftrightarrow> tower m prev_crs \<and> tower m next_crs"
  by (auto simp: validate_crs_tower_lengths_def tower_def Let_def)

lemma validate_not_panicked: "validate_crs_tower_lengths prev_crs next_crs \<noteq> Panicked"
  by (simp add: validate_crs_tower_lengths_def Let_def)

text \<open>The exponents of a tower.\<close>

lemma tower_exponents:
  fixes E :: "('f::field, 'g1::ab_group_add, 'g2::ab_group_add, 'gt::ab_group_add, 'rng) ark"
  assumes "curve_ok E" "tower m crs"
  obtains a b where "powers_of_g crs = map (\<lambda>i. in_g1 E (a i)) [0..<m]"
    "powers_of_h crs = map (\<lambda>i. in_g2 E (b i)) [0..<m]"
proof -
  obtain a b where "\<And>i. powers_of_g crs ! i = in_g1 E (a i)" "\<And>i. powers_of_h crs ! i = in_g2 E (b i)"
    using ex_exponents [OF assms(1), of "\<lambda>i. powers_of_g crs ! i" "\<lambda>i. powers_of_h crs ! i"] by blast
  then show thesis
    using assms(2) by (intro that [of a b] nth_equalityI) (auto simp: tower_def)
qed

section \<open>The pairing check in the exponent\<close>

lemma slice_map_upt:
  "a \<le> b + 1 \<Longrightarrow> b < m \<Longrightarrow> slice_inclusive (map f [0..<m]) a b = Ok (map f [a..<b + 1])"
  by (simp add: slice_inclusive_def take_map drop_map)

lemma msm_exponents:
  fixes E :: "('f::field, 'g1::ab_group_add, 'g2::ab_group_add, 'gt::ab_group_add, 'rng) ark"
  assumes "curve_ok E"
  shows "g1_msm E (map (\<lambda>i. in_g1 E (f i)) xs) (map g xs) = Ok (in_g1 E (\<Sum>i\<leftarrow>xs. f i * g i))"
    and "g2_msm E (map (\<lambda>i. in_g2 E (f i)) xs) (map g xs) = Ok (in_g2 E (\<Sum>i\<leftarrow>xs. f i * g i))"
proof -
  note msm = curve_okD(5) [OF assms, unfolded msm_ok_def]
  note ar = in_group_arith [OF assms]
  have "(\<Sum>(b, s)\<leftarrow>zip (map (\<lambda>i. in_g1 E (f i)) xs) (map g xs). g1_mul E b s) = in_g1 E (\<Sum>i\<leftarrow>xs. f i * g i)"
    by (induction xs) (simp_all add: ar)
  then show "g1_msm E (map (\<lambda>i. in_g1 E (f i)) xs) (map g xs) = Ok (in_g1 E (\<Sum>i\<leftarrow>xs. f i * g i))"
    using msm by simp
  have "(\<Sum>(b, s)\<leftarrow>zip (map (\<lambda>i. in_g2 E (f i)) xs) (map g xs). g2_mul E b s) = in_g2 E (\<Sum>i\<leftarrow>xs. f i * g i)"
    by (induction xs) (simp_all add: ar)
  then show "g2_msm E (map (\<lambda>i. in_g2 E (f i)) xs) (map g xs) = Ok (in_g2 E (\<Sum>i\<leftarrow>xs. f i * g i))"
    using msm by simp
qed

lemma sum_tail: "0 < n \<Longrightarrow> (\<Sum>i\<leftarrow>[1..<n]. f i) + f 0 = (\<Sum>i<n. f i :: 'a::comm_monoid_add)"
proof -
  assume "0 < n"
  then have "[0..<n] = 0 # [1..<n]" by (simp add: upt_conv_Cons)
  then have "(\<Sum>i\<leftarrow>[0..<n]. f i) = f 0 + (\<Sum>i\<leftarrow>[1..<n]. f i)" by simp
  then show ?thesis by (simp add: sum_list_map_upt add.commute)
qed

lemma map_upt_Suc_Suc: "map f [Suc 0..<Suc n] = map (\<lambda>i. f (Suc i)) [0..<n]"
  by (simp add: map_Suc_upt [symmetric] comp_def del: upt_Suc)

lemma check2_at_eq:
  fixes E :: "('f::field, 'g1::ab_group_add, 'g2::ab_group_add, 'gt::ab_group_add, 'rng) ark"
  assumes cur: "curve_ok E" and n: "2 \<le> n"
    and crs: "powers_of_g crs = map (\<lambda>i. in_g1 E (a i)) [0..<n + 1]"
      "powers_of_h crs = map (\<lambda>i. in_g2 E (b i)) [0..<n + 1]"
  shows "check2_at E crs rho1 rho2 =
    Ok ((\<Sum>i<n. a (Suc i) * rho1 ^ i) * (\<Sum>j<n. b j * rho2 ^ j)
      = (\<Sum>i<n. a i * rho1 ^ i) * (\<Sum>j<n. b (Suc j) * rho2 ^ j))"
proof -
  have us: "usize_sub (length (powers_of_g crs)) 1 = n" "usize_sub n 1 = n - 1" "n - 1 + 1 = n"
    using n by (simp_all add: crs)
  have sl: "slice_inclusive (powers_of_g crs) 1 n = Ok (map (\<lambda>i. in_g1 E (a (Suc i))) [0..<n])"
    "slice_inclusive (powers_of_h crs) 1 n = Ok (map (\<lambda>i. in_g2 E (b (Suc i))) [0..<n])"
    "slice_inclusive (powers_of_g crs) 1 (n - 1) = Ok (map (\<lambda>i. in_g1 E (a i)) [1..<n])"
    "slice_inclusive (powers_of_h crs) 1 (n - 1) = Ok (map (\<lambda>i. in_g2 E (b i)) [1..<n])"
    using n by (simp_all add: crs slice_map_upt map_upt_Suc_Suc us del: upt_Suc)
  have ix: "index (powers_of_g crs) 0 = Ok (in_g1 E (a 0))" "index (powers_of_h crs) 0 = Ok (in_g2 E (b 0))"
    by (simp_all add: crs del: upt_Suc)
  have sums: "(\<Sum>i\<leftarrow>[1..<n]. a i * rho1 ^ i) + a 0 = (\<Sum>i<n. a i * rho1 ^ i)"
    "(\<Sum>i\<leftarrow>[1..<n]. b i * rho2 ^ i) + b 0 = (\<Sum>i<n. b i * rho2 ^ i)"
    using sum_tail [of n "\<lambda>i. a i * rho1 ^ i"] sum_tail [of n "\<lambda>i. b i * rho2 ^ i"] n by simp_all
  show ?thesis
    unfolding check2_at_def Let_def us sl ix and_then.simps msm_exponents [OF cur] result.inject
      in_group_arith(1,2) [OF cur] sums sum_list_map_upt pairing_in [OF cur] in_gt_inj [OF cur]
    by simp
qed

section \<open>Structured towers\<close>

text \<open>Generators at position 0 and the same trapdoor in both towers.\<close>

lemma structured_exponents:
  fixes E :: "('f::field, 'g1::ab_group_add, 'g2::ab_group_add, 'gt::ab_group_add, 'rng) ark"
  assumes "curve_ok E" "powers_of_g crs = map (\<lambda>i. in_g1 E (a i)) [0..<m]"
    "powers_of_h crs = map (\<lambda>i. in_g2 E (b i)) [0..<m]"
  shows "structured_crs E tau crs \<longleftrightarrow> (\<forall>i < m. a i = tau ^ i \<and> b i = tau ^ i)"
  by (auto simp: structured_crs_def assms exponent_simps [OF assms(1)] simp del: upt_Suc)

text \<open>A tower whose two exponent sequences satisfy all cross equations is structured.\<close>

lemma cross_structured:
  fixes a b :: "nat \<Rightarrow> 'f::field"
  assumes "a 0 = 1" "b 0 = 1" "\<And>i j. i < n \<Longrightarrow> j < n \<Longrightarrow> a (Suc i) * b j = a i * b (Suc j)" "0 < n"
  shows "k \<le> n \<Longrightarrow> a k = a 1 ^ k \<and> b k = a 1 ^ k"
proof (induction k)
  case 0
  then show ?case using assms(1,2) by simp
next
  case (Suc k)
  have one: "a 1 = b 1" using assms(3) [of 0 0] assms(1,2,4) by simp
  have "a (Suc k) = a k * b 1" using assms(3) [of k 0] assms(2,4) Suc.prems by simp
  moreover have "b (Suc k) = a 1 * b k" using assms(3) [of 0 k] assms(1,4) Suc.prems by simp
  ultimately show ?case using Suc one by simp
qed

lemma few_power_roots:
  fixes c :: "nat \<Rightarrow> 'f::field"
  assumes "c j \<noteq> 0" "j < n"
  shows "finite {x. (\<Sum>i<n. c i * x ^ i) = 0}" "card {x. (\<Sum>i<n. c i * x ^ i) = 0} < n"
proof -
  let ?p = "map c [0..<n]"
  have "\<not> pzero ?p" using assms by (auto simp: pzero_def)
  moreover have "peval ?p x = (\<Sum>i<n. c i * x ^ i)" for x by (simp add: peval_conv_sum)
  ultimately show "finite {x. (\<Sum>i<n. c i * x ^ i) = 0}" "card {x. (\<Sum>i<n. c i * x ^ i) = 0} < n"
    using few_roots [of ?p] by simp_all
qed

text \<open>
  A tower that starts at the generators and is not structured is rejected for nearly all
  coefficients: with fewer than \<open>n\<close> exceptions for \<open>\<rho>\<^sub>1\<close>, fewer than \<open>n\<close> choices of \<open>\<rho>\<^sub>2\<close> pass.
\<close>

lemma check2_at_sound:
  fixes E :: "('f::field, 'g1::ab_group_add, 'g2::ab_group_add, 'gt::ab_group_add, 'rng) ark"
  assumes cur: "curve_ok E" and tow: "tower (n + 1) crs"
    and gen: "powers_of_g crs ! 0 = g1_generator E" "powers_of_h crs ! 0 = g2_generator E"
    and bad: "\<nexists>tau. structured_crs E tau crs"
  defines "pass \<equiv> \<lambda>rho1. {rho2. check2_at E crs rho1 rho2 = Ok True}"
  shows "finite {rho1. \<not> (finite (pass rho1) \<and> card (pass rho1) < n)} \<and>
    card {rho1. \<not> (finite (pass rho1) \<and> card (pass rho1) < n)} < n"
proof -
  obtain a b where ab: "powers_of_g crs = map (\<lambda>i. in_g1 E (a i)) [0..<n + 1]"
    "powers_of_h crs = map (\<lambda>i. in_g2 E (b i)) [0..<n + 1]" by (rule tower_exponents [OF cur tow])
  have n: "2 \<le> n" using tow by (simp add: tower_def)
  have ab0: "a 0 = 1" "b 0 = 1"
    using gen by (simp_all add: ab in_group_arith(9,10) [OF cur] exponent_simps [OF cur] del: upt_Suc)
  define d where "d i j = a (Suc i) * b j - a i * b (Suc j)" for i j
  have "\<exists>i j. i < n \<and> j < n \<and> d i j \<noteq> 0"
  proof (rule ccontr)
    assume "\<not> ?thesis"
    then have cross: "a (Suc i) * b j = a i * b (Suc j)" if "i < n" "j < n" for i j
      using that by (auto simp: d_def)
    have "structured_crs E (a 1) crs"
      unfolding structured_exponents [OF cur ab]
      by (intro allI impI cross_structured [of a b n, OF ab0 cross]) (use n in simp_all)
    then show False using bad by blast
  qed
  then obtain i j where ij: "i < n" "j < n" "d i j \<noteq> 0" by blast
  have acc: "pass rho1 = {rho2. (\<Sum>j<n. (\<Sum>i<n. d i j * rho1 ^ i) * rho2 ^ j) = 0}" for rho1
  proof -
    have "(\<Sum>j<n. (\<Sum>i<n. d i j * rho1 ^ i) * rho2 ^ j)
        = (\<Sum>i<n. a (Suc i) * rho1 ^ i) * (\<Sum>j<n. b j * rho2 ^ j)
          - (\<Sum>i<n. a i * rho1 ^ i) * (\<Sum>j<n. b (Suc j) * rho2 ^ j)" for rho2
      unfolding d_def sum_distrib_right sum_distrib_left
      by (subst (2 3) sum.swap) (simp add: sum_subtractf [symmetric] algebra_simps)
    then show ?thesis unfolding pass_def check2_at_eq [OF cur n ab] by simp
  qed
  let ?R = "{rho1. (\<Sum>i<n. d i j * rho1 ^ i) = 0}"
  have R: "finite ?R" "card ?R < n" using few_power_roots [of "\<lambda>i. d i j" i n] ij by simp_all
  have "{rho1. \<not> (finite (pass rho1) \<and> card (pass rho1) < n)} \<subseteq> ?R"
    using few_power_roots [of "\<lambda>j. \<Sum>i<n. d i j * rho1 ^ i" j n for rho1] ij(2) unfolding acc by blast
  then show ?thesis using R finite_subset card_mono by (metis (no_types, lifting) le_less_trans)
qed

section \<open>Contributions\<close>

lemma random_oracle_total: "encoding_ok E \<Longrightarrow> \<exists>h. random_oracle E p q z = Ok h"
proof -
  assume "encoding_ok E"
  then have "\<exists>b. ser_g1 E P = Ok b" for P by (simp add: encoding_ok_def is_ok_iff)
  then obtain x y u where "ser_g1 E p = Ok x" "ser_g1 E q = Ok y" "ser_g1 E z = Ok u" by metis
  then show ?thesis by (simp add: random_oracle_def from_serialization_error_def)
qed

lemma check1_total: "encoding_ok E \<Longrightarrow> \<exists>b. check1 E p q pf = Ok b"
  using random_oracle_total [of E p q "p1_mul_z pf"] by (auto simp: check1_def Let_def)

lemma check1_iff:
  "check1 E p q pf = Ok True \<longleftrightarrow> (\<exists>h. random_oracle E p q (p1_mul_z pf) = Ok h \<and>
     g1_mul E p (z_plus_hr pf) = p1_mul_z pf + g1_mul E q h)"
  by (auto simp: check1_def Let_def)

lemma nizk_verifies:
  assumes "group_ok E" "schnorr_nizk E p (g1_mul E p r) r rng = Ok pf"
  shows "check1 E p (g1_mul E p r) pf = Ok True"
  using assms(2) g1.response_complete [OF assms(1)] by (auto simp: schnorr_nizk_def check1_iff Let_def)

text \<open>The exponent of a contribution, drawn from its seed.\<close>

definition contributed :: "('f, 'g1, 'g2, 'gt, 'rng) ark \<Rightarrow> bytes \<Rightarrow> 'f" where
  "contributed E seed = fst (f_rand E (rng_from_seed E seed))"

lemma contribute_structured:
  fixes E :: "('f::field, 'g1::ab_group_add, 'g2::ab_group_add, 'gt::ab_group_add, 'rng) ark"
  assumes cur: "curve_ok E" and enc: "encoding_ok E" and st: "structured_crs E tau crs" and tow: "tower m crs"
  obtains nxt pf where "contribute E crs seed = Ok (nxt, pf)" "tower m nxt"
    "structured_crs E (tau * contributed E seed) nxt"
    "check1 E (powers_of_g crs ! 1) (powers_of_g nxt ! 1) pf = Ok True"
proof -
  let ?r = "contributed E seed"
  obtain rng where fr: "f_rand E (rng_from_seed E seed) = (?r, rng)" by (metis contributed_def prod.collapse)
  let ?pr = "map (\<lambda>i. ?r ^ i) [0..<m - 1 + 1]"
  let ?nxt = "\<lparr>powers_of_g = map (\<lambda>(g, s). g1_mul E g s) (zip (powers_of_g crs) ?pr),
     powers_of_h = map (\<lambda>(h, s). g2_mul E h s) (zip (powers_of_h crs) ?pr)\<rparr>"
  have len: "length (powers_of_g crs) = m" "length (powers_of_h crs) = m" "3 \<le> m"
    using tow by (simp_all add: tower_def)
  have towN: "tower m ?nxt" using len by (simp add: tower_def)
  have stN: "structured_crs E (tau * ?r) ?nxt"
    using st len by (simp add: structured_crs_def in_group_arith [OF cur] power_mult_distrib del: upt_Suc)
  have p1: "powers_of_g ?nxt ! 1 = g1_mul E (powers_of_g crs ! 1) ?r"
    using len by (simp add: nth_map del: upt_Suc)
  obtain pf where pf: "schnorr_nizk E (powers_of_g crs ! 1) (g1_mul E (powers_of_g crs ! 1) ?r) ?r rng = Ok pf"
    using random_oracle_total [OF enc] by (force simp: schnorr_nizk_def Let_def)
  have "contribute E crs seed = Ok (?nxt, pf)"
  proof -
    have "validate_crs_tower_lengths crs crs = Ok m" using tow by (simp add: validate_iff)
    moreover have "1 < length (powers_of_g crs)" "1 < length (powers_of_g ?nxt)" using len by simp_all
    ultimately show ?thesis
      unfolding contribute_def Let_def fr by (simp only: prod.case and_then.simps index_in_range p1 pf)
  qed
  then show thesis
    using that [OF _ towN stN] nizk_verifies [OF curve_okD(2) [OF cur] pf] by (simp only: p1)
qed

lemma check3_structured:
  fixes E :: "('f::field, 'g1::ab_group_add, 'g2::ab_group_add, 'gt::ab_group_add, 'rng) ark"
  assumes "curve_ok E" "structured_crs E tau crs" "tower m crs"
  shows "check3 E crs = Ok (tau \<noteq> 0)"
proof -
  have "0 < length (powers_of_g crs)" "0 < length (powers_of_h crs)" "1 < length (powers_of_g crs)"
    "1 < length (powers_of_h crs)" using assms(3) by (auto simp: tower_def)
  then show ?thesis
    using assms(2) by (simp add: check3_def structured_crs_def in_group_arith(9,10) [OF assms(1)]
        exponent_simps [OF assms(1)] Let_def)
qed

lemma check3_generators:
  assumes "tower m crs" "check3 E crs = Ok True"
  shows "powers_of_g crs ! 0 = g1_generator E \<and> powers_of_h crs ! 0 = g2_generator E"
proof -
  have "0 < length (powers_of_g crs)" "0 < length (powers_of_h crs)" "1 < length (powers_of_g crs)"
    "1 < length (powers_of_h crs)" using assms(1) by (auto simp: tower_def)
  then show ?thesis using assms(2) by (simp add: check3_def Let_def)
qed

lemma check2_structured:
  fixes E :: "('f::field, 'g1::ab_group_add, 'g2::ab_group_add, 'gt::ab_group_add, 'rng) ark"
  assumes cur: "curve_ok E" and st: "structured_crs E tau crs" and tow: "tower m crs" and ser: "is_ok (ser_crs crs)"
  shows "check2 E ser_crs crs = Ok True"
proof -
  define n where "n = m - 1"
  have m: "m = n + 1" "2 \<le> n" using tow by (auto simp: tower_def n_def)
  have ab: "powers_of_g crs = map (\<lambda>i. in_g1 E (tau ^ i)) [0..<n + 1]"
    "powers_of_h crs = map (\<lambda>i. in_g2 E (tau ^ i)) [0..<n + 1]"
    using st tow by (auto intro!: nth_equalityI simp: structured_crs_def tower_def m simp del: upt_Suc)
  have "check2_at E crs rho1 rho2 = Ok True" for rho1 rho2
    unfolding check2_at_eq [OF cur m(2) ab]
    by (simp add: sum_distrib_left [symmetric] mult.assoc mult.left_commute)
  then show ?thesis using ser by (auto simp: check2_def is_ok_iff Let_def)
qed

lemma verify_contribution_reduces:
  assumes "tower m prev_crs" "tower m next_crs"
  shows "verify_contribution E ser_crs prev_crs next_crs pf =
    and_then (false_on_error (check1 E (powers_of_g prev_crs ! 1) (powers_of_g next_crs ! 1) pf)) (\<lambda>c1.
    and_then (false_on_error (check2 E ser_crs next_crs)) (\<lambda>c2.
    and_then (check3 E next_crs) (\<lambda>c3. Ok (c1 \<and> c2 \<and> c3))))"
proof -
  have "validate_crs_tower_lengths prev_crs next_crs = Ok m" using assms by (simp add: validate_iff)
  then show ?thesis using assms by (simp add: verify_contribution_def tower_def)
qed

lemma false_on_error_True: "false_on_error r = Ok True \<longleftrightarrow> r = Ok True"
  by (cases r) auto

lemma three_checks:
  "and_then x (\<lambda>a. and_then y (\<lambda>b. and_then z (\<lambda>c. Ok (a \<and> b \<and> c)))) = Ok True
    \<longleftrightarrow> x = Ok True \<and> y = Ok True \<and> z = Ok True"
  by (cases x; cases y; cases z) auto

lemma verify_contribution_iff:
  "verify_contribution E ser_crs prev_crs next_crs pf = Ok True \<longleftrightarrow>
    (\<exists>m. tower m prev_crs \<and> tower m next_crs) \<and>
    check1 E (powers_of_g prev_crs ! 1) (powers_of_g next_crs ! 1) pf = Ok True \<and>
    check2 E ser_crs next_crs = Ok True \<and> check3 E next_crs = Ok True"
proof (cases "\<exists>m. tower m prev_crs \<and> tower m next_crs")
  case True
  then obtain m where t: "tower m prev_crs" "tower m next_crs" by blast
  show ?thesis
    unfolding verify_contribution_reduces [OF t] three_checks false_on_error_True using True by simp
next
  case False
  then have "\<not> is_ok (validate_crs_tower_lengths prev_crs next_crs)" by (auto simp: is_ok_iff validate_iff)
  then show ?thesis using False by (simp add: verify_contribution_def)
qed

lemma contribution_accepted:
  fixes E :: "('f::field, 'g1::ab_group_add, 'g2::ab_group_add, 'gt::ab_group_add, 'rng) ark"
  assumes "curve_ok E" "encoding_ok E" "\<And>crs. is_ok (ser_crs crs)" "structured_crs E tau crs" "tower m crs"
  shows "\<exists>nxt pf. contribute E crs seed = Ok (nxt, pf) \<and> tower m nxt \<and>
    structured_crs E (tau * contributed E seed) nxt \<and>
    verify_contribution E ser_crs crs nxt pf = Ok (tau * contributed E seed \<noteq> 0)"
proof -
  obtain nxt pf where c: "contribute E crs seed = Ok (nxt, pf)" "tower m nxt"
    "structured_crs E (tau * contributed E seed) nxt"
    "check1 E (powers_of_g crs ! 1) (powers_of_g nxt ! 1) pf = Ok True"
    by (rule contribute_structured [OF assms(1,2,4,5)])
  then have "verify_contribution E ser_crs crs nxt pf = Ok (tau * contributed E seed \<noteq> 0)"
    using check2_structured [OF assms(1) c(3,2) assms(3)] check3_structured [OF assms(1) c(3,2)]
    by (simp add: verify_contribution_reduces [OF assms(5) c(2)])
  then show ?thesis using c by blast
qed

section \<open>The ceremony\<close>

text \<open>
  The reference strings that a sequence of contributions reaches from the initial one; the seeds
  are listed latest first.
\<close>

inductive ceremony ::
  "('f::field, 'g1, 'g2, 'gt, 'rng) ark \<Rightarrow> nat \<Rightarrow> bytes list \<Rightarrow> ('g1, 'g2) universal_params \<Rightarrow> bool"
  for E degree where
  ceremony_init: "ceremony E degree [] (init_crs E degree)"
| ceremony_step: "ceremony E degree seeds crs \<Longrightarrow> contribute E crs seed = Ok (nxt, pf) \<Longrightarrow>
    ceremony E degree (seed # seeds) nxt"

inductive_cases ceremony_nilE: "ceremony E degree [] crs"
inductive_cases ceremony_consE: "ceremony E degree (seed # seeds) crs"

lemma init_structured:
  fixes E :: "('f::field, 'g1::ab_group_add, 'g2::ab_group_add, 'gt::ab_group_add, 'rng) ark"
  assumes "curve_ok E"
  shows "structured_crs E 1 (init_crs E degree)"
  by (simp add: structured_crs_def init_crs_def in_group_arith(9,10) [OF assms] del: replicate_Suc)

lemma ceremony_invariant:
  fixes E :: "('f::field, 'g1::ab_group_add, 'g2::ab_group_add, 'gt::ab_group_add, 'rng) ark"
  assumes "ceremony E degree seeds crs" "curve_ok E" "encoding_ok E" "2 \<le> degree"
  shows "tower (degree + 1) crs \<and> structured_crs E (\<Prod>seed\<leftarrow>seeds. contributed E seed) crs"
  using assms
proof (induction rule: ceremony.induct)
  case ceremony_init
  then show ?case using init_structured [of E degree] by (simp add: tower_def init_crs_def)
next
  case (ceremony_step seeds crs seed nxt pf)
  then have IH: "tower (degree + 1) crs" "structured_crs E (\<Prod>seed\<leftarrow>seeds. contributed E seed) crs" by auto
  obtain nxt' pf' where c: "contribute E crs seed = Ok (nxt', pf')" "tower (degree + 1) nxt'"
    "structured_crs E ((\<Prod>seed\<leftarrow>seeds. contributed E seed) * contributed E seed) nxt'"
    by (rule contribute_structured [OF ceremony_step.prems(1,2) IH(2,1)])
  then show ?case using ceremony_step.hyps(2) by (simp add: mult.commute)
qed

lemma prune_structured:
  assumes "structured_crs E tau crs" "tower m crs"
  shows "prune_crs crs d = (if d < m then Ok \<lparr>powers_of_g = take (d + 1) (powers_of_g crs),
      powers_of_h = take (d + 1) (powers_of_h crs)\<rparr> else Err (InsufficientCRS d))"
    and "prune_crs crs d = Ok pruned \<Longrightarrow> structured_crs E tau pruned \<and>
      length (powers_of_g pruned) = d + 1 \<and> length (powers_of_h pruned) = d + 1"
proof -
  have v: "validate_crs_tower_lengths crs crs = Ok m" using assms(2) by (simp add: validate_iff)
  show eq: "prune_crs crs d = (if d < m then Ok \<lparr>powers_of_g = take (d + 1) (powers_of_g crs),
      powers_of_h = take (d + 1) (powers_of_h crs)\<rparr> else Err (InsufficientCRS d))"
    using assms(2) by (simp add: prune_crs_def v slice_inclusive_def tower_def)
  show "prune_crs crs d = Ok pruned \<Longrightarrow> structured_crs E tau pruned \<and>
      length (powers_of_g pruned) = d + 1 \<and> length (powers_of_h pruned) = d + 1"
    using assms unfolding eq by (auto simp: structured_crs_def tower_def split: if_splits)
qed

lemma verify_contribution_returns:
  fixes E :: "('f::field, 'g1::ab_group_add, 'g2::ab_group_add, 'gt::ab_group_add, 'rng) ark"
  assumes "curve_ok E" "encoding_ok E" "\<And>crs. ser_crs crs \<noteq> Panicked"
  shows "\<exists>b. verify_contribution E ser_crs prev_crs next_crs pf = Ok b"
proof (cases "\<exists>m. tower m prev_crs \<and> tower m next_crs")
  case True
  then obtain m where t: "tower m prev_crs" "tower m next_crs" by blast
  obtain c1 where c1: "check1 E (powers_of_g prev_crs ! 1) (powers_of_g next_crs ! 1) pf = Ok c1"
    using check1_total [OF assms(2)] by blast
  obtain a b where ab: "powers_of_g next_crs = map (\<lambda>i. in_g1 E (a i)) [0..<m]"
    "powers_of_h next_crs = map (\<lambda>i. in_g2 E (b i)) [0..<m]" by (rule tower_exponents [OF assms(1) t(2)])
  have m: "m = (m - 1) + 1" "2 \<le> m - 1" using t by (auto simp: tower_def)
  have "check2 E ser_crs next_crs \<noteq> Panicked"
    using assms(3) check2_at_eq [OF assms(1) m(2), of next_crs a b] ab m(1)
    by (simp add: check2_def and_then_eq_Panicked Let_def)
  then obtain c2 where c2: "(false_on_error (check2 E ser_crs next_crs) :: (bool, hints_error) result) = Ok c2"
    by (cases "check2 E ser_crs next_crs") auto
  have "0 < length (powers_of_g next_crs)" "1 < length (powers_of_g next_crs)"
    "0 < length (powers_of_h next_crs)" "1 < length (powers_of_h next_crs)" using t(2) by (auto simp: tower_def)
  then obtain c3 where c3: "check3 E next_crs = Ok c3"
    unfolding check3_def Let_def by (simp only: index_in_range and_then.simps)
  show ?thesis unfolding verify_contribution_reduces [OF t] by (simp add: c1 [unfolded One_nat_def] c2 c3)
next
  case False
  then have "\<not> is_ok (validate_crs_tower_lengths prev_crs next_crs)" by (auto simp: is_ok_iff validate_iff)
  then have "verify_contribution E ser_crs prev_crs next_crs pf = Ok False" by (simp add: verify_contribution_def)
  then show ?thesis by blast
qed

lemma unoptimized_exponents:
  fixes E :: "('f::field, 'g1::ab_group_add, 'g2::ab_group_add, 'gt::ab_group_add, 'rng) ark"
  assumes cur: "curve_ok E" and m: "0 < m"
    and crs: "powers_of_g crs = map (\<lambda>i. in_g1 E (a i)) [0..<m]" "powers_of_h crs = map (\<lambda>i. in_g2 E (b i)) [0..<m]"
  shows "check2_unoptimized E crs = Ok True \<longleftrightarrow> (\<forall>i < m - 1. a i * b (i + 1) = a (i + 1) * b i)"
proof -
  have us: "usize_sub (length (powers_of_g crs)) 1 = m - 1" using m by (simp add: crs)
  show ?thesis
    unfolding check2_unoptimized_def Let_def us all_checks_eq_True
    by (auto simp: crs pairing_in [OF cur] in_gt_inj [OF cur] simp del: upt_Suc)
qed

end
