(* ===== verification/SetupProperties.thy ===== *)
theory SetupProperties
  imports Setup Instance17
begin

text \<open>The properties of the setup ceremony, with runs over the integers modulo 17.\<close>

lemma E17_setup [simp]:
  "g1_generator E17 = Z1" "g2_generator E17 = Z1" "g1_mul E17 P a = P * a" "g2_mul E17 P a = P * a"
  by (simp_all add: E17_def)

text \<open>
  An honest contribution to a structured reference string is always produced, is structured
  with the trapdoor multiplied by the contributed exponent, keeps the tower lengths, and is
  accepted exactly when the new trapdoor is not zero.
\<close>

theorem honest_contribution_accepted:
  fixes E :: "('f::field, 'g1::ab_group_add, 'g2::ab_group_add, 'gt::ab_group_add, 'rng) ark"
  assumes "curve_ok E" "encoding_ok E" "\<And>crs. is_ok (ser_crs crs)" "structured_crs E tau crs" "tower m crs"
  shows "\<exists>nxt pf. contribute E crs seed = Ok (nxt, pf) \<and> tower m nxt \<and>
    structured_crs E (tau * contributed E seed) nxt \<and>
    verify_contribution E ser_crs crs nxt pf = Ok (tau * contributed E seed \<noteq> 0)"
  by (rule contribution_accepted [OF assms])

theorem honest_contribution_accepted_witness:
  "\<exists>nxt pf. contribute E17 (init_crs E17 2) [1] = Ok (nxt, pf) \<and>
    verify_contribution E17 (\<lambda>crs. Ok []) (init_crs E17 2) nxt pf = Ok True"
proof -
  have nz: "1 * contributed E17 [1] \<noteq> 0"
    by (simp add: contributed_def E17_def checksum_def plus_gf17_def times_gf17_def zero_gf17_def one_gf17_def from_int17_def)
  have t: "tower 3 (init_crs E17 2)" by (simp add: tower_def init_crs_def)
  show ?thesis
    using honest_contribution_accepted [OF curve_ok_E17 encoding_ok_E17 _ init_structured [OF curve_ok_E17] t,
        of "\<lambda>crs. Ok []" "[1]"] nz by auto
qed

text \<open>
  C20. A reference string of the right shape that is not structured fails \<open>check2\<close> or \<open>check3\<close> for nearly
  all random coefficients: for all but fewer than \<open>n\<close> values of the first coefficient, fewer than \<open>n\<close>
  values of the second one pass both checks.
\<close>

theorem malformed_crs_rejected:
  fixes E :: "('f::field, 'g1::ab_group_add, 'g2::ab_group_add, 'gt::ab_group_add, 'rng) ark"
  assumes "curve_ok E" "tower (n + 1) crs" "\<nexists>tau. structured_crs E tau crs"
  shows "let pass = (\<lambda>rho1. {rho2. check2_at E crs rho1 rho2 = Ok True \<and> check3 E crs = Ok True}) in
    finite {rho1. \<not> (finite (pass rho1) \<and> card (pass rho1) < n)} \<and>
    card {rho1. \<not> (finite (pass rho1) \<and> card (pass rho1) < n)} < n"
proof (cases "check3 E crs = Ok True")
  case True
  with check3_generators [OF assms(2)] have "powers_of_g crs ! 0 = g1_generator E" "powers_of_h crs ! 0 = g2_generator E" by blast+
  from check2_at_sound [OF assms(1,2) this assms(3)] show ?thesis by (simp add: True)
next
  case False
  then show ?thesis using assms(2) by (simp add: tower_def)
qed

lemma malformed17:
  "\<nexists>tau. structured_crs E17 tau \<lparr>powers_of_g = [Z1, Z3, Z5], powers_of_h = [Z1, Z3, Z5]\<rparr>"
proof
  assume "\<exists>tau. structured_crs E17 tau \<lparr>powers_of_g = [Z1, Z3, Z5], powers_of_h = [Z1, Z3, Z5]\<rparr>"
  then obtain tau where s: "\<And>i. i < 3 \<Longrightarrow> [Z1, Z3, Z5] ! i = in_g1 E17 (tau ^ i)"
    by (auto simp: structured_crs_def)
  have "tau = Z3" using s [of 1] by (simp add: in_g1_def flip: one_gf17_def)
  then show False using s [of 2] by (simp add: in_g1_def power2_eq_square times_gf17_def from_int17_def)
qed

lemma malformed17_check3: "check3 E17 \<lparr>powers_of_g = [Z1, Z3, Z5], powers_of_h = [Z1, Z3, Z5]\<rparr> = Ok True"
  by (simp add: check3_def Let_def zero_gf17_def)

theorem malformed_crs_rejected_witness:
  "card {rho1. \<not> (finite {rho2. check2_at E17 \<lparr>powers_of_g = [Z1, Z3, Z5], powers_of_h = [Z1, Z3, Z5]\<rparr> rho1 rho2 = Ok True} \<and>
     card {rho2. check2_at E17 \<lparr>powers_of_g = [Z1, Z3, Z5], powers_of_h = [Z1, Z3, Z5]\<rparr> rho1 rho2 = Ok True} < 2)} < 2"
  using malformed_crs_rejected [OF curve_ok_E17 _ malformed17, of 2] by (simp add: tower_def malformed17_check3)

text \<open>
  C19. After every sequence of contributions the reference string keeps its length and is structured,
  with the product of all contributed exponents as its trapdoor. One more contribution is always
  produced, continues the ceremony, and is accepted by \<open>verify_contribution\<close> exactly when the new trapdoor is
  not zero.
\<close>

theorem ceremony_structured:
  fixes E :: "('f::field, 'g1::ab_group_add, 'g2::ab_group_add, 'gt::ab_group_add, 'rng) ark"
  assumes "ceremony E degree seeds crs" "curve_ok E" "encoding_ok E" "2 \<le> degree" "\<And>crs. is_ok (ser_crs crs)"
  shows "tower (degree + 1) crs \<and> structured_crs E (\<Prod>seed\<leftarrow>seeds. contributed E seed) crs \<and>
    (\<forall>seed. \<exists>nxt pf. contribute E crs seed = Ok (nxt, pf) \<and> ceremony E degree (seed # seeds) nxt \<and>
       verify_contribution E ser_crs crs nxt pf = Ok ((\<Prod>seed\<leftarrow>seed # seeds. contributed E seed) \<noteq> 0))"
proof -
  have inv: "tower (degree + 1) crs" "structured_crs E (\<Prod>seed\<leftarrow>seeds. contributed E seed) crs"
    using ceremony_invariant [OF assms(1-4)] by blast+
  have "\<exists>nxt pf. contribute E crs seed = Ok (nxt, pf) \<and> ceremony E degree (seed # seeds) nxt \<and>
       verify_contribution E ser_crs crs nxt pf = Ok ((\<Prod>seed\<leftarrow>seed # seeds. contributed E seed) \<noteq> 0)" for seed
  proof -
    from contribution_accepted [where ser_crs = ser_crs and seed = seed, OF assms(2,3,5) inv(2,1)] obtain nxt pf where
      c: "contribute E crs seed = Ok (nxt, pf)"
      "verify_contribution E ser_crs crs nxt pf = Ok ((\<Prod>seed\<leftarrow>seeds. contributed E seed) * contributed E seed \<noteq> 0)"
      by blast
    show ?thesis using ceremony_step [OF assms(1) c(1)] c by (auto simp: mult.commute)
  qed
  then show ?thesis using inv by blast
qed

theorem ceremony_structured_witness:
  "\<exists>crs nxt pf. ceremony E17 2 [[1]] crs \<and> tower 3 crs \<and> structured_crs E17 (contributed E17 [1]) crs \<and>
     contribute E17 crs [2] = Ok (nxt, pf) \<and> verify_contribution E17 (\<lambda>crs. Ok []) crs nxt pf = Ok True"
proof -
  have nz: "contributed E17 [2] * contributed E17 [1] \<noteq> 0"
    by (simp add: contributed_def E17_def checksum_def plus_gf17_def times_gf17_def zero_gf17_def one_gf17_def from_int17_def)
  note run = ceremony_structured [OF _ curve_ok_E17 encoding_ok_E17, where degree = 2 and ser_crs = "\<lambda>crs. Ok []"]
  obtain crs where c: "ceremony E17 2 [[1]] crs" using run [OF ceremony_init] by fastforce
  then show ?thesis using run [OF c] nz by fastforce
qed

text \<open>
  C21. \<open>verify_contribution\<close> returns a boolean for every pair of reference strings and every proof;
  the indexing after the length check never panics.
\<close>

theorem verify_contribution_no_panic:
  fixes E :: "('f::field, 'g1::ab_group_add, 'g2::ab_group_add, 'gt::ab_group_add, 'rng) ark"
  assumes "curve_ok E" "encoding_ok E" "\<And>crs. ser_crs crs \<noteq> Panicked"
  shows "\<exists>b. verify_contribution E ser_crs prev_crs next_crs pf = Ok b"
  by (rule verify_contribution_returns [OF assms])

theorem verify_contribution_no_panic_witness:
  "\<exists>b. verify_contribution E17 (\<lambda>crs. Ok []) \<lparr>powers_of_g = [Z1], powers_of_h = []\<rparr>
     \<lparr>powers_of_g = [Z1, Z3, Z5], powers_of_h = [Z1, Z3, Z5]\<rparr> \<lparr>p1_mul_z = Z1, z_plus_hr = Z1\<rparr> = Ok b"
  by (rule verify_contribution_no_panic [OF curve_ok_E17 encoding_ok_E17]) simp

text \<open>
  The unoptimized variant of the well-formedness check compares only neighbouring powers, and so
  accepts a reference string that starts at the generators and is not structured.
\<close>

theorem unoptimized_check_incomplete:
  "\<exists>crs. check2_unoptimized E17 crs = Ok True \<and> check3 E17 crs = Ok True \<and> tower 3 crs \<and>
     (\<nexists>tau. structured_crs E17 tau crs)"
proof -
  let ?crs = "\<lparr>powers_of_g = [Z1, Z3, Z5], powers_of_h = [Z1, Z3, Z5]\<rparr>"
  have "check2_unoptimized E17 ?crs = Ok True"
    by (simp add: check2_unoptimized_def Let_def E17_def upt_rec)
  then show ?thesis using malformed17 malformed17_check3 by (intro exI [of _ ?crs]) (simp add: tower_def)
qed

end
