(* ===== verification/JniCache.thy ===== *)
theory JniCache
  imports Prelude "HOL-Library.AList"
begin

text \<open>
  The cache of deserialized keys in \<^verbatim>\<open>jni_cache.rs\<close>: the bounded least-recently-used cache
  \<open>LRUCache\<close>, its lock-protected wrapper \<open>JNIMapCache\<close>, and the interleavings of concurrent callers.
  The hash map is an association list; an \<open>Arc\<close> is the value it shares; a Java byte array is
  \<open>Some\<close> of its bytes, or \<open>None\<close> when it cannot be read.
\<close>

text \<open>The boxed errors of a lookup: the array cannot be read, or its bytes are malformed.\<close>

datatype jni_cache_error = JniError | DeserializeError string

section \<open>The LRU cache\<close>

record ('k, 'v) lru_cache =
  cache_map :: "('k \<times> 'v) list"
  lru_list :: "'k list"

definition lru_new :: "('k, 'v) lru_cache" where
  "lru_new = \<lparr>cache_map = [], lru_list = []\<rparr>"

definition push_back_key :: "'k \<Rightarrow> ('k, 'v) lru_cache \<Rightarrow> ('k, 'v) lru_cache" where
  "push_back_key key c = c\<lparr>lru_list := filter (\<lambda>v. v \<noteq> key) (lru_list c) @ [key]\<rparr>"

definition get_if_hit :: "'k \<Rightarrow> ('k, 'v) lru_cache \<Rightarrow> 'v option \<times> ('k, 'v) lru_cache" where
  "get_if_hit key c =
     (case map_of (cache_map c) key of
        Some v \<Rightarrow> (Some v, push_back_key key c)
      | None \<Rightarrow> (None, c))"

text \<open>Eviction of the front key, when the list has outgrown the capacity.\<close>

definition evict :: "nat \<Rightarrow> ('k, 'v) lru_cache \<Rightarrow> (('k, 'v) lru_cache, jni_cache_error) result" where
  "evict SIZE c =
     (if length (lru_list c) > SIZE
      then case lru_list c of
          [] \<Rightarrow> Panicked
        | k # ks \<Rightarrow> Ok (c\<lparr>lru_list := ks, cache_map := AList.delete k (cache_map c)\<rparr>)
      else Ok c)"

definition lru_insert ::
  "nat \<Rightarrow> 'k \<Rightarrow> 'v \<Rightarrow> ('k, 'v) lru_cache \<Rightarrow> ('v \<times> ('k, 'v) lru_cache, jni_cache_error) result" where
  "lru_insert SIZE key value c =
     (case get_if_hit key c of
        (Some v, c') \<Rightarrow> Ok (v, c')
      | (None, c') \<Rightarrow>
          (let c1 = push_back_key key c';
               c2 = c1\<lparr>cache_map := AList.update key value (cache_map c1)\<rparr> in
           and_then (evict SIZE c2) (\<lambda>c3.
             if length (lru_list c3) = length (cache_map c3) then Ok (value, c3) else Panicked)))"

definition lru_reset :: "('k, 'v) lru_cache \<Rightarrow> ('k, 'v) lru_cache" where
  "lru_reset c = c\<lparr>lru_list := [], cache_map := []\<rparr>"

section \<open>The synchronized wrapper\<close>

text \<open>
  \<open>cell\<close> is the content of the lock. A panic while the lock is held poisons it, and every later
  \<^verbatim>\<open>write().unwrap()\<close> panics. \<open>get\<close> takes the lock twice: \<open>get_lookup\<close> is its first part, up to the
  end of the fast path, and \<open>get_store\<close> its second part.
\<close>

record 'v jni_map_cache =
  option_cache_cell :: "(bytes, 'v) lru_cache option"
  poisoned :: bool

definition jni_map_cache_new :: "'v jni_map_cache" where
  "jni_map_cache_new = \<lparr>option_cache_cell = None, poisoned = False\<rparr>"

definition get_lookup ::
  "bytes \<Rightarrow> 'v jni_map_cache \<Rightarrow> ('v option, jni_cache_error) result \<times> 'v jni_map_cache" where
  "get_lookup vec s =
     (if poisoned s then (Panicked, s)
      else case option_cache_cell s of
          None \<Rightarrow> (Ok None, s\<lparr>option_cache_cell := Some lru_new\<rparr>)
        | Some c \<Rightarrow> (let (option_arc, c') = get_if_hit vec c
                     in (Ok option_arc, s\<lparr>option_cache_cell := Some c'\<rparr>)))"

definition get_store ::
  "nat \<Rightarrow> bytes \<Rightarrow> 'v \<Rightarrow> 'v jni_map_cache \<Rightarrow> ('v, jni_cache_error) result \<times> 'v jni_map_cache" where
  "get_store SIZE vec val s =
     (if poisoned s then (Panicked, s)
      else case option_cache_cell s of
          None \<Rightarrow> (Panicked, s\<lparr>poisoned := True\<rparr>)
        | Some c \<Rightarrow> (case lru_insert SIZE vec val c of
              Ok (v, c') \<Rightarrow> (Ok v, s\<lparr>option_cache_cell := Some c'\<rparr>)
            | Err e \<Rightarrow> (Err e, s)
            | Panicked \<Rightarrow> (Panicked, s\<lparr>poisoned := True\<rparr>)))"

definition cache_get ::
  "nat \<Rightarrow> (bytes \<Rightarrow> ('v, string) result) \<Rightarrow> bytes option \<Rightarrow> 'v jni_map_cache
   \<Rightarrow> ('v, jni_cache_error) result \<times> 'v jni_map_cache" where
  "cache_get SIZE deserialize jarray s =
     (case jarray of
        None \<Rightarrow> (Err JniError, s)
      | Some vec \<Rightarrow>
          (case get_lookup vec s of
             (Ok (Some v), s') \<Rightarrow> (Ok v, s')
           | (Ok None, s') \<Rightarrow>
               (case deserialize vec of
                  Ok val \<Rightarrow> get_store SIZE vec val s'
                | Err e \<Rightarrow> (Err (DeserializeError e), s')
                | Panicked \<Rightarrow> (Panicked, s'))
           | (Err e, s') \<Rightarrow> (Err e, s')
           | (Panicked, s') \<Rightarrow> (Panicked, s')))"

definition cache_reset :: "'v jni_map_cache \<Rightarrow> (unit, jni_cache_error) result \<times> 'v jni_map_cache" where
  "cache_reset s =
     (if poisoned s then (Panicked, s)
      else case option_cache_cell s of
          None \<Rightarrow> (Ok (), s)
        | Some c \<Rightarrow> (Ok (), s\<lparr>option_cache_cell := Some (lru_reset c)\<rparr>))"

section \<open>The cache interface\<close>

text \<open>
  What the wrapper relies on: lookups return the stored value and change no value, an insertion
  does not panic, returns the stored value or else the new one, and only adds that binding.
\<close>

locale cache_provider =
  fixes inv :: "'c \<Rightarrow> bool"
    and contents :: "'c \<Rightarrow> 'k \<Rightarrow> 'v option"
    and fresh :: 'c
    and hit :: "'k \<Rightarrow> 'c \<Rightarrow> 'v option \<times> 'c"
    and store :: "'k \<Rightarrow> 'v \<Rightarrow> 'c \<Rightarrow> ('v \<times> 'c, 'e) result"
    and clear :: "'c \<Rightarrow> 'c"
  assumes fresh_law: "inv fresh \<and> contents fresh = Map.empty"
    and clear_law: "inv (clear c) \<and> contents (clear c) = Map.empty"
    and hit_law: "inv c \<Longrightarrow> fst (hit k c) = contents c k \<and> inv (snd (hit k c)) \<and>
      contents (snd (hit k c)) = contents c"
    and store_law: "inv c \<Longrightarrow> \<exists>v' c'. store k v c = Ok (v', c') \<and> inv c' \<and>
      v' = (case contents c k of Some u \<Rightarrow> u | None \<Rightarrow> v) \<and>
      contents c' \<subseteq>\<^sub>m (contents c)(k \<mapsto> v')"
begin

definition faithful :: "('k \<Rightarrow> 'v \<Rightarrow> bool) \<Rightarrow> 'c \<Rightarrow> bool" where
  "faithful ok c \<longleftrightarrow> inv c \<and> (\<forall>k v. contents c k = Some v \<longrightarrow> ok k v)"

lemma faithful_fresh: "faithful ok fresh"
  using fresh_law by (simp add: faithful_def)

lemma faithful_clear: "faithful ok (clear c)"
  using clear_law by (simp add: faithful_def)

lemma faithful_hit:
  assumes "faithful ok c"
  shows "faithful ok (snd (hit k c))" and "fst (hit k c) = Some v \<Longrightarrow> ok k v"
  using assms hit_law [of c k] by (auto simp: faithful_def)

lemma faithful_store:
  assumes "faithful ok c" "ok k v"
  obtains v' c' where "store k v c = Ok (v', c')" "faithful ok c'" "ok k v'"
proof -
  obtain v' c' where s: "store k v c = Ok (v', c')" "inv c'"
    "v' = (case contents c k of Some u \<Rightarrow> u | None \<Rightarrow> v)" "contents c' \<subseteq>\<^sub>m (contents c)(k \<mapsto> v')"
    using store_law [of c k v] assms(1) by (auto simp: faithful_def)
  have "ok k v'" using assms s(3) by (auto simp: faithful_def split: option.splits)
  moreover have "faithful ok c'"
    unfolding faithful_def
  proof (intro conjI allI impI s(2))
    fix q u assume "contents c' q = Some u"
    then have "((contents c)(k \<mapsto> v')) q = Some u" using s(4) by (force simp: map_le_def)
    then show "ok q u" using assms(1) calculation by (auto simp: faithful_def split: if_splits)
  qed
  ultimately show thesis using that s(1) by blast
qed

end

section \<open>The LRU cache provides it\<close>

definition lru_inv :: "nat \<Rightarrow> ('k, 'v) lru_cache \<Rightarrow> bool" where
  "lru_inv SIZE c \<longleftrightarrow>
     distinct (map fst (cache_map c)) \<and> distinct (lru_list c) \<and>
     set (lru_list c) = fst ` set (cache_map c) \<and> length (lru_list c) \<le> SIZE"

lemma lru_inv_lengths: "lru_inv SIZE c \<Longrightarrow> length (lru_list c) = length (cache_map c)"
  by (metis lru_inv_def distinct_card length_map set_map)

lemma lru_inv_new: "lru_inv SIZE lru_new"
  by (simp add: lru_inv_def lru_new_def)

lemma lru_inv_reset: "lru_inv SIZE (lru_reset c)"
  by (simp add: lru_inv_def lru_reset_def)

lemma push_back_key_simps [simp]:
  "cache_map (push_back_key k c) = cache_map c"
  "lru_list (push_back_key k c) = filter (\<lambda>v. v \<noteq> k) (lru_list c) @ [k]"
  by (simp_all add: push_back_key_def)

lemma distinct_push_back: "distinct xs \<Longrightarrow> distinct (filter (\<lambda>v. v \<noteq> k) xs @ [k])"
  by simp

lemma length_push_back:
  "distinct xs \<Longrightarrow> length (filter (\<lambda>v. v \<noteq> k) xs @ [k]) = (if k \<in> set xs then length xs else Suc (length xs))"
  by (induction xs) auto

lemma get_if_hit_law:
  assumes "lru_inv SIZE c"
  shows "fst (get_if_hit k c) = map_of (cache_map c) k" "lru_inv SIZE (snd (get_if_hit k c))"
    "cache_map (snd (get_if_hit k c)) = cache_map c"
    "lru_list (snd (get_if_hit k c)) =
       (if k \<in> set (lru_list c) then filter (\<lambda>v. v \<noteq> k) (lru_list c) @ [k] else lru_list c)"
proof -
  show "fst (get_if_hit k c) = map_of (cache_map c) k" "cache_map (snd (get_if_hit k c)) = cache_map c"
    by (simp_all add: get_if_hit_def split: option.splits)
  have dom: "k \<in> set (lru_list c) \<longleftrightarrow> map_of (cache_map c) k \<noteq> None"
    using assms by (simp add: lru_inv_def map_of_eq_None_iff)
  then show "lru_list (snd (get_if_hit k c)) =
       (if k \<in> set (lru_list c) then filter (\<lambda>v. v \<noteq> k) (lru_list c) @ [k] else lru_list c)"
    by (auto simp: get_if_hit_def split: option.splits)
  have "length (filter (\<lambda>v. v \<noteq> k) (lru_list c) @ [k]) = length (lru_list c)" if "k \<in> set (lru_list c)"
    using assms that length_push_back [of "lru_list c" k] by (simp add: lru_inv_def)
  then show "lru_inv SIZE (snd (get_if_hit k c))"
    using assms dom by (auto simp: get_if_hit_def lru_inv_def split: option.splits)
qed

text \<open>An insertion of a missing key, before eviction.\<close>

lemma insert_unbounded:
  fixes c :: "('k, 'v) lru_cache" and v :: 'v
  assumes "lru_inv SIZE c" "map_of (cache_map c) k = None"
  defines "c2 \<equiv> c\<lparr>lru_list := lru_list c @ [k], cache_map := AList.update k v (cache_map c)\<rparr>"
  shows "(push_back_key k c)\<lparr>cache_map := AList.update k v (cache_map c)\<rparr> = c2"
    and "lru_inv (Suc SIZE) c2" "k \<notin> set (lru_list c)"
proof -
  show k: "k \<notin> set (lru_list c)"
    using assms(1,2) by (simp add: lru_inv_def map_of_eq_None_iff)
  then have "filter (\<lambda>v. v \<noteq> k) (lru_list c) = lru_list c" by (auto intro: filter_True)
  then show "(push_back_key k c)\<lparr>cache_map := AList.update k v (cache_map c)\<rparr> = c2"
    by (simp add: c2_def push_back_key_def)
  show "lru_inv (Suc SIZE) c2"
    using assms(1) k distinct_update [of "cache_map c" k v] by (auto simp: lru_inv_def c2_def dom_update)
qed

lemma lru_insert_miss:
  fixes c c3 :: "('k, 'v) lru_cache"
  assumes "lru_inv SIZE c" "map_of (cache_map c) k = None" "lru_inv SIZE c3"
    and "evict SIZE (c\<lparr>lru_list := lru_list c @ [k], cache_map := AList.update k v (cache_map c)\<rparr>) = Ok c3"
  shows "lru_insert SIZE k v c = Ok (v, c3)"
proof -
  have "get_if_hit k c = (None, c)" using assms(2) by (simp add: get_if_hit_def)
  then show ?thesis
    using assms(4) lru_inv_lengths [OF assms(3)]
    by (simp add: lru_insert_def insert_unbounded(1) [OF assms(1,2)] Let_def)
qed

lemma lru_insert_law:
  assumes "lru_inv SIZE c"
  obtains v' c' where "lru_insert SIZE k v c = Ok (v', c')" "lru_inv SIZE c'"
    "v' = (case map_of (cache_map c) k of Some u \<Rightarrow> u | None \<Rightarrow> v)"
    "map_of (cache_map c') \<subseteq>\<^sub>m (map_of (cache_map c))(k \<mapsto> v')"
    "lru_list c' = (let xs = filter (\<lambda>v. v \<noteq> k) (lru_list c) @ [k] in drop (length xs - SIZE) xs)"
proof (cases "map_of (cache_map c) k")
  case (Some u)
  then have "k \<in> set (lru_list c)" using assms by (metis lru_inv_def map_of_eq_None_iff option.discI)
  moreover have "get_if_hit k c = (Some u, push_back_key k c)" using Some by (simp add: get_if_hit_def)
  moreover have "lru_inv SIZE (push_back_key k c)" using get_if_hit_law(2) [OF assms, of k] calculation(2) by simp
  ultimately show thesis
    using Some length_push_back [of "lru_list c" k] assms
    by (intro that [of u "push_back_key k c"])
       (auto simp: lru_insert_def lru_inv_def map_upd_triv Let_def)
next
  case None
  let ?c2 = "c\<lparr>lru_list := lru_list c @ [k], cache_map := AList.update k v (cache_map c)\<rparr>"
  note ub = insert_unbounded(1,2) [OF assms None, of v] insert_unbounded(3) [OF assms None]
  have flt: "filter (\<lambda>v. v \<noteq> k) (lru_list c) = lru_list c" using ub(3) by (auto intro: filter_True)
  show thesis
  proof (cases "length (lru_list c) < SIZE")
    case True
    then have ev: "evict SIZE ?c2 = Ok ?c2" by (simp add: evict_def)
    have inv: "lru_inv SIZE ?c2" using ub(2) True by (simp add: lru_inv_def)
    show thesis
      by (rule that [OF lru_insert_miss [OF assms None inv ev] inv])
         (use None True flt in \<open>auto simp: Let_def update_conv'\<close>)
  next
    case False
    then have full: "length (lru_list c) = SIZE" using assms by (simp add: lru_inv_def)
    obtain q qs where q: "lru_list c @ [k] = q # qs" by (cases "lru_list c") auto
    let ?c3 = "c\<lparr>lru_list := qs, cache_map := AList.delete q (AList.update k v (cache_map c))\<rparr>"
    have len: "length qs = SIZE" using q full by (metis length_Cons length_append_singleton nat.inject)
    have ev: "evict SIZE ?c2 = Ok ?c3" using len q by (simp add: evict_def)
    have inv: "lru_inv SIZE ?c3"
    proof -
      have "distinct (q # qs)" "set (q # qs) = fst ` set (AList.update k v (cache_map c))"
        using ub(2) q by (simp_all add: lru_inv_def)
      moreover have "distinct (map fst (AList.update k v (cache_map c)))" using ub(2) by (simp add: lru_inv_def)
      moreover have "fst ` set (AList.delete q al) = fst ` set al - {q}" for al :: "('a \<times> 'b) list"
        by (metis delete_keys set_map set_removeAll)
      ultimately show ?thesis using len distinct_delete [of "AList.update k v (cache_map c)" q]
        by (auto simp: lru_inv_def)
    qed
    show thesis
    proof (rule that [of v ?c3])
      show "lru_insert SIZE k v c = Ok (v, ?c3)" by (rule lru_insert_miss [OF assms None inv ev])
      show "map_of (cache_map ?c3) \<subseteq>\<^sub>m (map_of (cache_map c))(k \<mapsto> v)"
        by (auto simp: delete_conv' update_conv' map_le_def)
      show "lru_list ?c3 = (let xs = filter (\<lambda>v. v \<noteq> k) (lru_list c) @ [k] in drop (length xs - SIZE) xs)"
        using flt q len by (simp add: Let_def)
    qed (use inv None in auto)
  qed
qed

interpretation lru: cache_provider "lru_inv SIZE" "\<lambda>c. map_of (cache_map c)" lru_new get_if_hit "lru_insert SIZE" lru_reset
  for SIZE
proof unfold_locales
  fix c :: "('a, 'b) lru_cache" and k v
  show "lru_inv SIZE lru_new \<and> map_of (cache_map lru_new) = Map.empty"
    by (simp add: lru_inv_new) (simp add: lru_new_def)
  show "lru_inv SIZE (lru_reset c) \<and> map_of (cache_map (lru_reset c)) = Map.empty"
    by (simp add: lru_inv_reset) (simp add: lru_reset_def)
  assume inv: "lru_inv SIZE c"
  show "fst (get_if_hit k c) = map_of (cache_map c) k \<and> lru_inv SIZE (snd (get_if_hit k c)) \<and>
      map_of (cache_map (snd (get_if_hit k c))) = map_of (cache_map c)"
    using get_if_hit_law [OF inv, of k] by simp
  show "\<exists>v' c'. lru_insert SIZE k v c = Ok (v', c') \<and> lru_inv SIZE c' \<and>
      v' = (case map_of (cache_map c) k of Some u \<Rightarrow> u | None \<Rightarrow> v) \<and>
      map_of (cache_map c') \<subseteq>\<^sub>m (map_of (cache_map c))(k \<mapsto> v')"
    by (rule lru_insert_law [OF inv, of k v]) blast
qed

section \<open>Recency\<close>

text \<open>
  The reference behaviour: after a sequence of insertions the cache holds the last \<open>SIZE\<close> distinct
  keys, in the order of their last use.
\<close>

fun insert_all :: "nat \<Rightarrow> ('k \<times> 'v) list \<Rightarrow> ('k, 'v) lru_cache \<Rightarrow> (('k, 'v) lru_cache, jni_cache_error) result" where
  "insert_all SIZE [] c = Ok c"
| "insert_all SIZE ((k, v) # kvs) c = and_then (lru_insert SIZE k v c) (\<lambda>(_, c'). insert_all SIZE kvs c')"

definition most_recent :: "nat \<Rightarrow> 'k list \<Rightarrow> 'k list" where
  "most_recent SIZE ks = (let xs = remdups ks in drop (length xs - SIZE) xs)"

lemma remdups_snoc: "remdups (xs @ [x]) = filter (\<lambda>v. v \<noteq> x) (remdups xs) @ [x]"
  by (induction xs) auto

lemma filter_last_part:
  assumes "distinct xs" "SIZE \<le> length xs"
  shows "(let ys = filter (\<lambda>v. v \<noteq> x) (drop (length xs - SIZE) xs) @ [x] in drop (length ys - SIZE) ys)
    = (let ys = filter (\<lambda>v. v \<noteq> x) xs @ [x] in drop (length ys - SIZE) ys)"
proof -
  let ?f = "filter (\<lambda>v. v \<noteq> x)"
  let ?a = "take (length xs - SIZE) xs" and ?b = "drop (length xs - SIZE) xs"
  have b: "length ?b = SIZE" "distinct ?b" using assms by simp_all
  have split: "?f xs @ [x] = ?f ?a @ (?f ?b @ [x])" by (metis append_assoc append_take_drop_id filter_append)
  have "SIZE \<le> length (?f ?b @ [x])"
    unfolding length_push_back [OF b(2)] b(1) by simp
  then show ?thesis unfolding split Let_def by simp
qed

lemma most_recent_snoc:
  "most_recent SIZE (ks @ [k]) = (let ys = filter (\<lambda>v. v \<noteq> k) (most_recent SIZE ks) @ [k] in drop (length ys - SIZE) ys)"
proof (cases "SIZE \<le> length (remdups ks)")
  case True
  then show ?thesis
    using filter_last_part [OF distinct_remdups True, of k] by (simp add: most_recent_def remdups_snoc Let_def)
next
  case False
  then show ?thesis by (simp add: most_recent_def remdups_snoc Let_def)
qed

lemma insert_all_snoc:
  "insert_all SIZE (kvs @ [(k, v)]) c = and_then (insert_all SIZE kvs c) (\<lambda>c'. and_then (lru_insert SIZE k v c') (\<lambda>(_, c''). Ok c''))"
proof (induction kvs arbitrary: c)
  case (Cons kv kvs)
  then show ?case by (cases kv) (simp add: split_def and_then_assoc)
qed (simp add: split_def)

lemma lru_holds_most_recent:
  "\<exists>c. insert_all SIZE kvs lru_new = Ok c \<and> lru_inv SIZE c \<and> lru_list c = most_recent SIZE (map fst kvs)"
proof (induction kvs rule: rev_induct)
  case Nil
  then show ?case using lru_inv_new by (auto simp: lru_new_def most_recent_def Let_def)
next
  case (snoc kv kvs)
  obtain k v where kv: "kv = (k, v)" by fastforce
  obtain c where c: "insert_all SIZE kvs lru_new = Ok c" "lru_inv SIZE c" "lru_list c = most_recent SIZE (map fst kvs)"
    using snoc by blast
  obtain v' c' where "lru_insert SIZE k v c = Ok (v', c')" "lru_inv SIZE c'"
    "lru_list c' = (let xs = filter (\<lambda>v. v \<noteq> k) (lru_list c) @ [k] in drop (length xs - SIZE) xs)"
    by (rule lru_insert_law [OF c(2)])
  then show ?case
    unfolding kv insert_all_snoc c(1) by (simp add: c(3) most_recent_snoc)
qed

section \<open>Concurrent callers\<close>

text \<open>
  A caller is idle, in the slow path with the bytes it is deserializing, or finished with the
  outcome of its call and the array it was called with. Each critical section is one step, in any
  interleaving; a reset may happen at any time.
\<close>

datatype 'v caller =
    Idle
  | Deserializing bytes
  | Finished "bytes option" "('v, jni_cache_error) result"

type_synonym 'v system = "'v jni_map_cache \<times> (nat \<Rightarrow> 'v caller)"

inductive cache_step ::
  "nat \<Rightarrow> (bytes \<Rightarrow> ('v, string) result) \<Rightarrow> 'v system \<Rightarrow> 'v system \<Rightarrow> bool"
  for SIZE deserialize where
  step_unreadable: "ts t = Idle \<Longrightarrow>
    cache_step SIZE deserialize (s, ts) (s, ts(t := Finished None (Err JniError)))"
| step_hit: "ts t = Idle \<Longrightarrow> get_lookup vec s = (Ok (Some v), s') \<Longrightarrow>
    cache_step SIZE deserialize (s, ts) (s', ts(t := Finished (Some vec) (Ok v)))"
| step_miss: "ts t = Idle \<Longrightarrow> get_lookup vec s = (Ok None, s') \<Longrightarrow>
    cache_step SIZE deserialize (s, ts) (s', ts(t := Deserializing vec))"
| step_lookup_panic: "ts t = Idle \<Longrightarrow> get_lookup vec s = (Panicked, s') \<Longrightarrow>
    cache_step SIZE deserialize (s, ts) (s', ts(t := Finished (Some vec) Panicked))"
| step_malformed: "ts t = Deserializing vec \<Longrightarrow> deserialize vec = Err e \<Longrightarrow>
    cache_step SIZE deserialize (s, ts) (s, ts(t := Finished (Some vec) (Err (DeserializeError e))))"
| step_store: "ts t = Deserializing vec \<Longrightarrow> deserialize vec = Ok val \<Longrightarrow> get_store SIZE vec val s = (r, s') \<Longrightarrow>
    cache_step SIZE deserialize (s, ts) (s', ts(t := Finished (Some vec) r))"
| step_reset: "cache_reset s = (r, s') \<Longrightarrow> cache_step SIZE deserialize (s, ts) (s', ts)"
| step_return: "cache_step SIZE deserialize (s, ts) (s, ts(t := Idle))"
  if "ts t = Finished a r"

inductive cache_reachable :: "nat \<Rightarrow> (bytes \<Rightarrow> ('v, string) result) \<Rightarrow> 'v system \<Rightarrow> bool"
  for SIZE deserialize where
  reach_start: "cache_reachable SIZE deserialize (jni_map_cache_new, \<lambda>_. Idle)"
| reach_step: "cache_reachable SIZE deserialize x \<Longrightarrow> cache_step SIZE deserialize x y \<Longrightarrow>
    cache_reachable SIZE deserialize y"

text \<open>What a call without a cache would return.\<close>

definition uncached :: "(bytes \<Rightarrow> ('v, string) result) \<Rightarrow> bytes option \<Rightarrow> ('v, jni_cache_error) result" where
  "uncached deserialize jarray =
     (case jarray of None \<Rightarrow> Err JniError | Some vec \<Rightarrow> map_err DeserializeError (deserialize vec))"

definition decodes :: "(bytes \<Rightarrow> ('v, string) result) \<Rightarrow> bytes \<Rightarrow> 'v \<Rightarrow> bool" where
  "decodes deserialize k v \<longleftrightarrow> deserialize k = Ok v"

definition cache_good :: "nat \<Rightarrow> (bytes \<Rightarrow> ('v, string) result) \<Rightarrow> 'v jni_map_cache \<Rightarrow> bool" where
  "cache_good SIZE deserialize s \<longleftrightarrow> \<not> poisoned s \<and>
     (\<forall>c. option_cache_cell s = Some c \<longrightarrow> lru.faithful SIZE (decodes deserialize) c)"

definition system_good :: "nat \<Rightarrow> (bytes \<Rightarrow> ('v, string) result) \<Rightarrow> 'v system \<Rightarrow> bool" where
  "system_good SIZE deserialize x \<longleftrightarrow> cache_good SIZE deserialize (fst x) \<and>
     (\<forall>t vec. snd x t = Deserializing vec \<longrightarrow> option_cache_cell (fst x) \<noteq> None) \<and>
     (\<forall>t jarray r. snd x t = Finished jarray r \<longrightarrow> r = uncached deserialize jarray)"

lemma cache_goodD:
  assumes "cache_good SIZE deserialize s"
  shows "\<not> poisoned s" "option_cache_cell s = Some c \<Longrightarrow> lru.faithful SIZE (decodes deserialize) c"
  using assms by (simp_all add: cache_good_def)

lemma lookup_good:
  assumes "cache_good SIZE deserialize s" "get_lookup vec s = (r, s')"
  shows "cache_good SIZE deserialize s' \<and> option_cache_cell s' \<noteq> None \<and>
    (\<exists>x. r = Ok x \<and> (\<forall>v. x = Some v \<longrightarrow> deserialize vec = Ok v))"
proof (cases "option_cache_cell s")
  case None
  then have s': "s' = s\<lparr>option_cache_cell := Some lru_new\<rparr>" "r = Ok None"
    using assms cache_goodD(1) [OF assms(1)] by (auto simp: get_lookup_def)
  have "cache_good SIZE deserialize s'"
    using cache_goodD(1) [OF assms(1)] lru.faithful_fresh by (simp add: cache_good_def s')
  then show ?thesis using s' by simp
next
  case (Some c)
  then have s': "s' = s\<lparr>option_cache_cell := Some (snd (get_if_hit vec c))\<rparr>" "r = Ok (fst (get_if_hit vec c))"
    using assms cache_goodD(1) [OF assms(1)] by (auto simp: get_lookup_def split_def Let_def)
  note f = lru.faithful_hit [OF cache_goodD(2) [OF assms(1) Some], of vec]
  have "cache_good SIZE deserialize s'"
    using cache_goodD(1) [OF assms(1)] f(1) by (simp add: cache_good_def s')
  then show ?thesis using s' f(2) by (simp add: decodes_def)
qed

lemma store_good:
  assumes "cache_good SIZE deserialize s" "option_cache_cell s \<noteq> None" "deserialize vec = Ok val"
    and "get_store SIZE vec val s = (r, s')"
  shows "cache_good SIZE deserialize s' \<and> option_cache_cell s' \<noteq> None \<and> r = Ok val"
proof -
  obtain c where c: "option_cache_cell s = Some c" using assms(2) by blast
  obtain v' c' where st: "lru_insert SIZE vec val c = Ok (v', c')" "lru.faithful SIZE (decodes deserialize) c'"
    "decodes deserialize vec v'"
    by (rule lru.faithful_store [OF cache_goodD(2) [OF assms(1) c], of vec val]) (simp add: decodes_def assms(3))
  then show ?thesis
    using assms(3,4) c cache_goodD(1) [OF assms(1)]
    by (auto simp: get_store_def cache_good_def decodes_def)
qed

lemma reset_good:
  assumes "cache_good SIZE deserialize s" "cache_reset s = (r, s')"
  shows "cache_good SIZE deserialize s' \<and> r = Ok () \<and> (option_cache_cell s \<noteq> None \<longrightarrow> option_cache_cell s' \<noteq> None)"
  using assms lru.faithful_clear by (auto simp: cache_reset_def cache_good_def split: option.splits if_splits)

lemma step_good:
  assumes "cache_step SIZE deserialize x y" "system_good SIZE deserialize x"
  shows "system_good SIZE deserialize y"
  using assms
proof (induction rule: cache_step.induct)
  case (step_hit ts t vec s v s')
  then have "cache_good SIZE deserialize s' \<and> option_cache_cell s' \<noteq> None \<and> deserialize vec = Ok v"
    using lookup_good [OF _ step_hit(2), of SIZE deserialize] by (auto simp: system_good_def)
  then show ?case using step_hit(3) by (auto simp: system_good_def uncached_def)
next
  case (step_miss ts t vec s s')
  then show ?case using lookup_good [OF _ step_miss(2), of SIZE deserialize] by (auto simp: system_good_def)
next
  case (step_lookup_panic ts t vec s s')
  then show ?case using lookup_good [OF _ step_lookup_panic(2), of SIZE deserialize] by (auto simp: system_good_def)
next
  case (step_store ts t vec val s r s')
  then have "cache_good SIZE deserialize s' \<and> option_cache_cell s' \<noteq> None \<and> r = Ok val"
    by (intro store_good [where vec = vec and s = s]) (auto simp: system_good_def)
  then show ?case using step_store(2,4) by (auto simp: system_good_def uncached_def)
next
  case (step_reset s r s' ts)
  then show ?case using reset_good [OF _ step_reset(1), of SIZE deserialize] by (auto simp: system_good_def)
qed (auto simp: system_good_def uncached_def)

lemma reachable_good:
  "cache_reachable SIZE deserialize x \<Longrightarrow> system_good SIZE deserialize x"
proof (induction rule: cache_reachable.induct)
  case reach_start
  then show ?case by (simp add: system_good_def cache_good_def jni_map_cache_new_def)
next
  case (reach_step x y)
  then show ?case using step_good by blast
qed

lemma cache_get_transparent:
  assumes "cache_good SIZE deserialize s" "\<And>vec. deserialize vec \<noteq> Panicked"
  shows "\<exists>s'. cache_get SIZE deserialize jarray s = (uncached deserialize jarray, s') \<and> cache_good SIZE deserialize s'"
proof (cases jarray)
  case None
  then show ?thesis using assms(1) by (simp add: cache_get_def uncached_def)
next
  case (Some vec)
  obtain r s1 where l: "get_lookup vec s = (r, s1)" by fastforce
  then obtain x where x: "cache_good SIZE deserialize s1" "option_cache_cell s1 \<noteq> None" "r = Ok x"
    "\<forall>v. x = Some v \<longrightarrow> deserialize vec = Ok v"
    using lookup_good [OF assms(1)] by blast
  show ?thesis
  proof (cases x)
    case (Some v)
    then show ?thesis using x l \<open>jarray = Some vec\<close> by (simp add: cache_get_def uncached_def)
  next
    case None
    show ?thesis
    proof (cases "deserialize vec")
      case (Ok val)
      obtain r' s2 where st: "get_store SIZE vec val s1 = (r', s2)" by fastforce
      then show ?thesis
        using store_good [OF x(1,2) Ok st] Ok None x(3) l \<open>jarray = Some vec\<close> by (simp add: cache_get_def uncached_def)
    qed (use assms(2) None x l \<open>jarray = Some vec\<close> in \<open>auto simp: cache_get_def uncached_def\<close>)
  qed
qed

section \<open>Properties\<close>

text \<open>
  C8. The cache is transparent under every interleaving of callers and resets: whenever a call has
  finished, its outcome is what reading and deserializing its array without a cache gives; the lock
  is never poisoned, so no call panics on it, and the stored cache keeps its invariant.
\<close>

theorem concurrent_cache_transparent:
  assumes "cache_reachable SIZE deserialize (s, ts)"
  shows "(\<forall>t jarray r. ts t = Finished jarray r \<longrightarrow> r = uncached deserialize jarray) \<and> \<not> poisoned s \<and>
    (\<forall>c. option_cache_cell s = Some c \<longrightarrow> lru_inv SIZE c)"
  using reachable_good [OF assms] by (auto simp: system_good_def cache_good_def lru.faithful_def)

definition decode_length :: "bytes \<Rightarrow> (nat, string) result" where
  "decode_length bs = (if bs = [] then Err ''empty'' else Ok (length bs))"

theorem concurrent_cache_transparent_witness:
  "\<exists>s ts. cache_reachable 1 decode_length (s, ts) \<and> ts 3 = Finished (Some [5]) (Ok 1) \<and>
     Ok 1 = uncached decode_length (Some [5])"
proof -
  let ?s = "jni_map_cache_new\<lparr>option_cache_cell := Some lru_new\<rparr> :: nat jni_map_cache"
  have mid: "cache_reachable 1 decode_length (?s, (\<lambda>_. Idle)(3 := Deserializing [5]))"
    by (rule reach_step [OF reach_start step_miss]) (simp_all add: get_lookup_def jni_map_cache_new_def)
  obtain s' where st: "get_store 1 [5] 1 ?s = (Ok 1, s')"
    by (simp add: get_store_def jni_map_cache_new_def lru_insert_def get_if_hit_def push_back_key_def
        lru_new_def evict_def Let_def)
  have "cache_reachable 1 decode_length (s', (\<lambda>_. Idle)(3 := Finished (Some [5]) (Ok 1)))"
    using reach_step [OF mid step_store [of _ 3 "[5]" decode_length 1 1 ?s "Ok 1" s']] st
    by (simp add: decode_length_def)
  from this concurrent_cache_transparent [OF this] show ?thesis by (metis fun_upd_same)
qed

text \<open>
  The cache is a least-recently-used cache: any sequence of insertions into a fresh cache
  succeeds, without the internal assertion failing, and leaves exactly the last \<open>SIZE\<close> distinct keys,
  in the order of their last use.
\<close>

theorem lru_keeps_most_recent:
  "\<exists>c. insert_all SIZE kvs lru_new = Ok c \<and> lru_inv SIZE c \<and> lru_list c = most_recent SIZE (map fst kvs)"
  by (rule lru_holds_most_recent)

end
