(* ===== verification/JniEnv.thy ===== *)
theory JniEnv
  imports Prelude
begin

text \<open>
  The Java side as the native methods of both crates see it: nullable arrays, the calls of the \<^verbatim>\<open>jni\<close>
  crate that read and build them, the casts of Java integers, and the shape of a native method, a
  closure with early returns under \<^verbatim>\<open>catch_unwind\<close>. The Java environment decides which allocations
  succeed, so it is a parameter.
\<close>

section \<open>Java values\<close>

text \<open>
  An array is \<open>Some\<close> of its elements, or \<open>None\<close> when it is null or cannot be read. A \<^verbatim>\<open>jbyte\<close> is an 8-bit
  word, like a \<^verbatim>\<open>u8\<close>, read as signed. An object is its class and constructor arguments.
\<close>

type_synonym jbyte_array = "bytes option"
type_synonym jobject_array = "jbyte_array list option"
type_synonym jint_array = "32 word list option"
type_synonym jlong_array = "64 word list option"
type_synonym jboolean_array = "byte list option"
type_synonym jobject = "(string \<times> jbyte_array list) option"

text \<open>What may fail: the allocation and the filling of a byte array, finding a class, and a constructor.\<close>

record jni_env =
  new_byte_array :: "32 word \<Rightarrow> bool"
  set_byte_array_region :: "bytes \<Rightarrow> bool"
  find_class :: "string \<Rightarrow> bool"
  new_object :: "string \<Rightarrow> jbyte_array list \<Rightarrow> bool"

definition env_allocates :: "jni_env \<Rightarrow> bool" where
  "env_allocates env \<longleftrightarrow> (\<forall>n. new_byte_array env n) \<and> (\<forall>bs. set_byte_array_region env bs) \<and>
     (\<forall>cls. find_class env cls) \<and> (\<forall>cls args. new_object env cls args)"

definition get_array_length :: "'a list option \<Rightarrow> (nat, unit) result" where
  "get_array_length arr = ok_or () (map_option length arr)"

text \<open>A region of the first \<open>n\<close> elements: an exception when the array is null or shorter.\<close>

definition get_array_region :: "'a list option \<Rightarrow> nat \<Rightarrow> ('a list, unit) result" where
  "get_array_region arr n =
     and_then (ok_or () arr) (\<lambda>xs. if n \<le> length xs then Ok (take n xs) else Err ())"

definition get_object_array_element :: "jobject_array \<Rightarrow> nat \<Rightarrow> (jbyte_array, unit) result" where
  "get_object_array_element arr i =
     and_then (ok_or () arr) (\<lambda>xs. if i < length xs then Ok (xs ! i) else Err ())"

definition construct_object :: "jni_env \<Rightarrow> string \<Rightarrow> jbyte_array list \<Rightarrow> jobject" where
  "construct_object env cls args =
     (if find_class env cls then if new_object env cls args then Some (cls, args) else None else None)"

text \<open>The casts \<^verbatim>\<open>as usize\<close> of a \<^verbatim>\<open>jint\<close> and of a \<^verbatim>\<open>jshort\<close> extend the sign.\<close>

definition jint_as_usize :: "32 word \<Rightarrow> nat" where
  "jint_as_usize x = unat (scast x :: 64 word)"

definition jshort_as_usize :: "16 word \<Rightarrow> nat" where
  "jshort_as_usize x = unat (scast x :: 64 word)"

section \<open>Native methods\<close>

text \<open>The value of a native method that catches panics: the fallback of \<^verbatim>\<open>unwrap_or_else\<close> on a panic.\<close>

definition catch_unwind :: "'a \<Rightarrow> ('a, 'e) result \<Rightarrow> 'a" where
  "catch_unwind fallback r = (case r of Ok v \<Rightarrow> v | _ \<Rightarrow> fallback)"

text \<open>
  The body of a method acts on the static variables of its library. \<open>or_return\<close> is a \<^verbatim>\<open>match\<close> whose
  error arm returns the fallback from the body.
\<close>

type_synonym ('r, 's) body = "'s \<Rightarrow> ('r, unit) result \<times> 's"

definition return_value :: "'r \<Rightarrow> ('r, 's) body" where
  "return_value v s = (Ok v, s)"

definition or_return :: "'r \<Rightarrow> ('v, 'e) result \<Rightarrow> ('v \<Rightarrow> ('r, 's) body) \<Rightarrow> ('r, 's) body" where
  "or_return fallback r k s =
     (case r of Ok v \<Rightarrow> k v s | Err _ \<Rightarrow> (Ok fallback, s) | Panicked \<Rightarrow> (Panicked, s))"

text \<open>A \<^verbatim>\<open>match\<close> on a call that itself acts on a static variable.\<close>

definition match_static :: "'r \<Rightarrow> ('s \<Rightarrow> ('v, 'e) result \<times> 's) \<Rightarrow> ('v \<Rightarrow> ('r, 's) body) \<Rightarrow> ('r, 's) body" where
  "match_static fallback call k s = (let (r, s') = call s in or_return fallback r k s')"

definition native_method :: "'r \<Rightarrow> ('r, 's) body \<Rightarrow> 's \<Rightarrow> 'r \<times> 's" where
  "native_method fallback body s = (let (r, s') = body s in (catch_unwind fallback r, s'))"

lemma or_return_simps [simp]:
  "or_return fallback (Ok v) k s = k v s" "or_return fallback (Err e) k s = (Ok fallback, s)"
  "or_return fallback Panicked k s = (Panicked, s)"
  by (simp_all add: or_return_def)

text \<open>What a body gives its caller: the fallback stands for an error and for a panic.\<close>

definition outcome :: "'r \<Rightarrow> ('r, 's) body \<Rightarrow> 's \<Rightarrow> 'r" where
  "outcome fallback body s = catch_unwind fallback (fst (body s))"

lemma native_method_sel:
  "fst (native_method fallback body s) = outcome fallback body s" "snd (native_method fallback body s) = snd (body s)"
  by (simp_all add: native_method_def outcome_def split_def Let_def)

lemma outcome_return [simp]: "outcome fallback (return_value v) s = v"
  by (simp add: outcome_def return_value_def catch_unwind_def)

lemma outcome_or_return [simp]:
  "outcome fallback (or_return fallback r k) s = (case r of Ok v \<Rightarrow> outcome fallback (k v) s | _ \<Rightarrow> fallback)"
  by (cases r) (simp_all add: outcome_def or_return_def catch_unwind_def)

text \<open>A body whose outcome does not depend on which good state it starts from, and that stays in good states.\<close>

definition stateless :: "('s \<Rightarrow> bool) \<Rightarrow> 'r \<Rightarrow> ('r, 's) body \<Rightarrow> bool" where
  "stateless good fallback body \<longleftrightarrow> (\<exists>v. \<forall>s. good s \<longrightarrow> outcome fallback body s = v \<and> good (snd (body s)))"

lemma stateless_return [intro!]: "stateless good fallback (return_value v)"
  by (auto simp: stateless_def return_value_def)

lemma stateless_or_return [intro!]:
  assumes "\<And>v. stateless good fallback (k v)"
  shows "stateless good fallback (or_return fallback r k)"
proof (cases r)
  case (Ok v)
  then show ?thesis using assms [of v] by (simp add: stateless_def)
qed (simp_all add: stateless_def)

lemma stateless_native:
  assumes "stateless good fallback body" "good s" "good s'"
  shows "fst (native_method fallback body s) = fst (native_method fallback body s')"
    "good (snd (native_method fallback body s))"
  using assms by (auto simp: stateless_def native_method_sel)

text \<open>
  What a method needs from a cache in a static variable: on a good state a lookup gives what the
  uncached computation gives, and leaves a good state.
\<close>

locale static_cache =
  fixes good :: "'s \<Rightarrow> bool" and lookup :: "'k \<Rightarrow> 's \<Rightarrow> ('v, 'e) result \<times> 's" and direct :: "'k \<Rightarrow> ('v, 'e) result"
  assumes lookup_law: "good s \<Longrightarrow> fst (lookup key s) = direct key \<and> good (snd (lookup key s))"
begin

lemma lookup_outcome:
  assumes "good s"
  shows "outcome fallback (match_static fallback (lookup key) k) s =
    (case direct key of Ok v \<Rightarrow> outcome fallback (k v) (snd (lookup key s)) | _ \<Rightarrow> fallback)"
proof -
  have "match_static fallback (lookup key) k s = or_return fallback (direct key) k (snd (lookup key s))"
    using lookup_law [OF assms, of key] by (simp add: match_static_def split_def Let_def)
  then show ?thesis by (cases "direct key") (simp_all add: outcome_def catch_unwind_def)
qed

lemma lookup_keeps: "good s \<Longrightarrow> good (snd (lookup key s))"
  using lookup_law by blast

lemma stateless_lookup:
  assumes "\<And>v. stateless good fallback (k v)"
  shows "stateless good fallback (match_static fallback (lookup key) k)"
proof -
  obtain f where f: "\<And>v s. good s \<Longrightarrow> outcome fallback (k v) s = f v \<and> good (snd (k v s))"
    using assms unfolding stateless_def by metis
  have "good (snd (match_static fallback (lookup key) k s))" if "good s" for s
    using lookup_law [OF that, of key] f
    by (cases "direct key") (auto simp: match_static_def split_def Let_def)
  then show ?thesis
    using f lookup_keeps unfolding stateless_def
    by (intro exI [of _ "case direct key of Ok v \<Rightarrow> f v | _ \<Rightarrow> fallback"]) (auto simp: lookup_outcome split: result.splits)
qed

end

section \<open>Arrays\<close>

lemma get_array_length_iff [simp]: "get_array_length arr = Ok n \<longleftrightarrow> (\<exists>xs. arr = Some xs \<and> n = length xs)"
  by (cases arr) (auto simp: get_array_length_def ok_or_def)

lemma get_array_region_iff [simp]:
  "get_array_region arr n = Ok ys \<longleftrightarrow> (\<exists>xs. arr = Some xs \<and> n \<le> length xs \<and> ys = take n xs)"
  by (cases arr) (auto simp: get_array_region_def ok_or_def)

lemma get_object_array_element_iff [simp]:
  "get_object_array_element arr i = Ok x \<longleftrightarrow> (\<exists>xs. arr = Some xs \<and> i < length xs \<and> x = xs ! i)"
  by (cases arr) (auto simp: get_object_array_element_def ok_or_def)

lemma array_reads_not_panicked [simp]:
  "get_array_length arr \<noteq> Panicked" "get_array_region arr' n \<noteq> Panicked" "get_object_array_element arr'' i \<noteq> Panicked"
  by (simp_all add: get_array_length_def get_array_region_def get_object_array_element_def and_then_eq_Panicked)

lemma construct_object_allocates: "env_allocates env \<Longrightarrow> construct_object env cls args = Some (cls, args)"
  by (simp add: construct_object_def env_allocates_def)

lemma jint_as_usize_nonneg: "0 \<le> sint x \<Longrightarrow> jint_as_usize x = nat (sint x)"
proof -
  assume "0 \<le> sint x"
  moreover have "sint x < 2 ^ 64" using sint_lt [of x] by simp
  ultimately have "uint (word_of_int (sint x) :: 64 word) = sint x"
    unfolding uint_word_of_int by (intro mod_pos_pos_trivial) simp_all
  then show ?thesis unfolding jint_as_usize_def scast_eq unat_eq_nat_uint by (rule arg_cong)
qed

end
