(* ===== verification/JniUtil.thy ===== *)
theory JniUtil
  imports JniEnv JniCache HintsKeys
begin

text \<open>
  The marshalling helpers of \<^verbatim>\<open>jni_util.rs\<close> in the hints crate, and \<^verbatim>\<open>serialize\<close> of \<^verbatim>\<open>hints.rs\<close>. The
  uncompressed encoding of a type is a parameter, a pair of a writer and a reader.
\<close>

record 'v canonical =
  serialize_uncompressed :: "'v \<Rightarrow> (bytes, serialization_error) result"
  deserialize_uncompressed :: "bytes \<Rightarrow> ('v, string) result"

text \<open>Documented behaviour: writing into a vector succeeds, reading returns the value written and never panics.\<close>

definition canonical_ok :: "'v canonical \<Rightarrow> bool" where
  "canonical_ok C \<longleftrightarrow>
     (\<forall>v. \<exists>bs. serialize_uncompressed C v = Ok bs \<and> deserialize_uncompressed C bs = Ok v) \<and>
     (\<forall>bs. deserialize_uncompressed C bs \<noteq> Panicked)"

definition serialize :: "'v canonical \<Rightarrow> 'v \<Rightarrow> (bytes, hints_error) result" where
  "serialize C t = and_then (from_serialization_error (serialize_uncompressed C t)) (\<lambda>buf. Ok buf)"

definition jbyte_vec_to_jbyte_array :: "jni_env \<Rightarrow> bytes \<Rightarrow> jbyte_array" where
  "jbyte_vec_to_jbyte_array env vec =
     (if new_byte_array env (of_nat (length vec))
      then if set_byte_array_region env vec then Some vec else None
      else None)"

definition u8_vec_to_jbyte_array :: "jni_env \<Rightarrow> bytes \<Rightarrow> jbyte_array" where
  "u8_vec_to_jbyte_array env vec = jbyte_vec_to_jbyte_array env (map (\<lambda>x. x) vec)"

definition two_u8_vec_to_jbyte_array :: "jni_env \<Rightarrow> bytes \<Rightarrow> bytes \<Rightarrow> jbyte_array" where
  "two_u8_vec_to_jbyte_array env vec1 vec2 = jbyte_vec_to_jbyte_array env (map (\<lambda>x. x) (vec1 @ vec2))"

definition jbyte_arrays_to_u8_vecs :: "jobject_array \<Rightarrow> (bytes list, unit) result" where
  "jbyte_arrays_to_u8_vecs jarray =
     and_then (ok_or () jarray) (\<lambda>elements. collect (ok_or ()) elements)"

definition build_entropy_array :: "jbyte_array \<Rightarrow> (bytes, unit) result" where
  "build_entropy_array random_array =
     and_then (ok_or () random_array) (\<lambda>random_vec.
       if length random_vec = RANDOM_SIZE then Ok random_vec else Err ())"

definition deserialize_jbyte_array :: "'v canonical \<Rightarrow> jbyte_array \<Rightarrow> ('v, jni_cache_error) result" where
  "deserialize_jbyte_array C jarray =
     and_then (ok_or JniError jarray) (\<lambda>vec. map_err DeserializeError (deserialize_uncompressed C vec))"

definition serialize_object :: "jni_env \<Rightarrow> 'v canonical \<Rightarrow> 'v \<Rightarrow> (jbyte_array, hints_error) result" where
  "serialize_object env C obj =
     and_then (serialize C obj) (\<lambda>vec. Ok (u8_vec_to_jbyte_array env vec))"

lemma jbyte_arrays_to_u8_vecs_iff:
  "jbyte_arrays_to_u8_vecs jarray = Ok vecs \<longleftrightarrow> jarray = Some (map Some vecs)"
proof -
  have "collect (ok_or ()) xs = Ok vecs \<longleftrightarrow> xs = map Some vecs" for xs
    unfolding collect_eq_Ok by (induction xs arbitrary: vecs) (auto simp: list_all2_Cons1 split: list.splits)
  then show ?thesis by (cases jarray) (auto simp: jbyte_arrays_to_u8_vecs_def ok_or_def)
qed

lemma jbyte_arrays_not_panicked: "jbyte_arrays_to_u8_vecs jarray \<noteq> Panicked"
proof
  assume "jbyte_arrays_to_u8_vecs jarray = Panicked"
  then obtain xs where "collect (ok_or ()) xs = (Panicked :: (bytes list, unit) result)"
    by (auto simp: jbyte_arrays_to_u8_vecs_def and_then_eq_Panicked)
  then show False using collect_panics by fastforce
qed

lemma build_entropy_array_iff:
  "build_entropy_array a = Ok seed \<longleftrightarrow> a = Some seed \<and> length seed = RANDOM_SIZE"
  by (cases a) (auto simp: build_entropy_array_def ok_or_def)

lemma canonical_roundtrip:
  assumes "canonical_ok C"
  obtains bs where "serialize C v = Ok bs" "deserialize_uncompressed C bs = Ok v"
  using assms by (auto simp: canonical_ok_def serialize_def from_serialization_error_def)

lemma canonical_no_panic: "canonical_ok C \<Longrightarrow> deserialize_uncompressed C bs \<noteq> Panicked"
  by (simp add: canonical_ok_def)

lemma deserialize_jbyte_array_iff:
  "deserialize_jbyte_array C jarray = Ok v \<longleftrightarrow> (\<exists>bs. jarray = Some bs \<and> deserialize_uncompressed C bs = Ok v)"
  by (cases jarray) (auto simp: deserialize_jbyte_array_def ok_or_def)

lemma serialize_object_allocates:
  "env_allocates env \<Longrightarrow> serialize_object env C v = and_then (serialize C v) (\<lambda>bs. Ok (Some bs))"
  by (simp add: serialize_object_def u8_vec_to_jbyte_array_def jbyte_vec_to_jbyte_array_def env_allocates_def)

lemma build_entropy_not_panicked: "build_entropy_array a \<noteq> Panicked"
  by (cases a) (auto simp: build_entropy_array_def ok_or_def)

end
