(* ===== verification/Eip2537.thy ===== *)
theory Eip2537
  imports JniUtil
begin

text \<open>
  The EIP-2537 encoding of points and the verification of Ethereum sync aggregates: \<^verbatim>\<open>jni_blst.rs\<close>
  and \<^verbatim>\<open>jni_eth.rs\<close>. The library \<^verbatim>\<open>blst\<close> is a record of parameters: its base field elements, affine
  points with their public coordinates, the group of projective points, and its verification.
\<close>

unbundle bit_operations_syntax

record 'fp p1_affine =
  p1_x :: 'fp
  p1_y :: 'fp

record 'fp p2_affine =
  p2_x_c0 :: 'fp
  p2_x_c1 :: 'fp
  p2_y_c0 :: 'fp
  p2_y_c1 :: 'fp

record ('fp, 'g1) blst =
  bendian_from_fp :: "'fp \<Rightarrow> bytes"
  p1_deserialize :: "bytes \<Rightarrow> 'fp p1_affine option"
  p1_uncompress :: "bytes \<Rightarrow> 'fp p1_affine option"
  p1_affine_in_g1 :: "'fp p1_affine \<Rightarrow> bool"
  p2_deserialize :: "bytes \<Rightarrow> 'fp p2_affine option"
  p2_uncompress :: "bytes \<Rightarrow> 'fp p2_affine option"
  p2_affine_in_g2 :: "'fp p2_affine \<Rightarrow> bool"
  p1_from_affine :: "'fp p1_affine \<Rightarrow> 'g1"
  p1_to_affine :: "'g1 \<Rightarrow> 'fp p1_affine"
  core_verify_pk_in_g1 :: "'fp p1_affine \<Rightarrow> 'fp p2_affine \<Rightarrow> bytes \<Rightarrow> bytes \<Rightarrow> bool"

section \<open>Encoding\<close>

definition fq_to_be48 :: "('fp, 'g1) blst \<Rightarrow> 'fp \<Rightarrow> bytes" where
  "fq_to_be48 B fq = bendian_from_fp B fq"

text \<open>\<open>result[a..a + len].copy_from_slice(src)\<close>, for a source of the right length.\<close>

definition copy_at :: "nat \<Rightarrow> bytes \<Rightarrow> bytes \<Rightarrow> bytes" where
  "copy_at a src dst = take a dst @ src @ drop (a + length src) dst"

definition g1_to_eip2537 :: "('fp, 'g1) blst \<Rightarrow> 'fp p1_affine \<Rightarrow> bytes" where
  "g1_to_eip2537 B point =
     (let r0 = replicate 128 0;
          r1 = copy_at 16 (fq_to_be48 B (p1_x point)) r0;
          r2 = copy_at 80 (fq_to_be48 B (p1_y point)) r1
      in r2)"

definition g2_to_eip2537 :: "('fp, 'g1) blst \<Rightarrow> 'fp p2_affine \<Rightarrow> bytes" where
  "g2_to_eip2537 B point =
     (let r0 = replicate 256 0;
          r1 = copy_at 16 (fq_to_be48 B (p2_x_c0 point)) r0;
          r2 = copy_at 80 (fq_to_be48 B (p2_x_c1 point)) r1;
          r3 = copy_at 144 (fq_to_be48 B (p2_y_c0 point)) r2;
          r4 = copy_at 208 (fq_to_be48 B (p2_y_c1 point)) r3
      in r4)"

definition decompressG1ToEip2537Impl ::
  "('fp, 'g1) blst \<Rightarrow> jni_env \<Rightarrow> jbyte_array \<Rightarrow> jbyte_array" where
  "decompressG1ToEip2537Impl B env compressed_jarray =
     (case compressed_jarray of None \<Rightarrow> None
      | Some compressed \<Rightarrow>
          if length compressed \<noteq> 48 then None
          else case p1_uncompress B compressed of None \<Rightarrow> None
            | Some point \<Rightarrow>
                if \<not> p1_affine_in_g1 B point then None
                else u8_vec_to_jbyte_array env (g1_to_eip2537 B point))"

definition decompressG2ToEip2537Impl ::
  "('fp, 'g1) blst \<Rightarrow> jni_env \<Rightarrow> jbyte_array \<Rightarrow> jbyte_array" where
  "decompressG2ToEip2537Impl B env compressed_jarray =
     (case compressed_jarray of None \<Rightarrow> None
      | Some compressed \<Rightarrow>
          if length compressed \<noteq> 96 then None
          else case p2_uncompress B compressed of None \<Rightarrow> None
            | Some point \<Rightarrow>
                if \<not> p2_affine_in_g2 B point then None
                else u8_vec_to_jbyte_array env (g2_to_eip2537 B point))"

section \<open>Decoding\<close>

definition ETHEREUM_DST :: bytes where
  "ETHEREUM_DST = ascii_bytes ''BLS_SIG_BLS12381G2_XMD:SHA-256_SSWU_RO_POP_''"

definition FP_LENGTH_BYTES :: nat where "FP_LENGTH_BYTES = 48"
definition EIP2537_FP_PADDING_LENGTH_BYTES :: nat where "EIP2537_FP_PADDING_LENGTH_BYTES = 16"
definition EIP2537_FP_LENGTH_BYTES :: nat where
  "EIP2537_FP_LENGTH_BYTES = EIP2537_FP_PADDING_LENGTH_BYTES + FP_LENGTH_BYTES"
definition ZCASH_FLAGS_MASK :: byte where "ZCASH_FLAGS_MASK = 0xe0"

text \<open>The slice \<open>xs[a..b]\<close>. In this part \<open>Err ()\<close> is the value \<open>None\<close> of an \<open>Option\<close>.\<close>

definition slice_range :: "'a list \<Rightarrow> nat \<Rightarrow> nat \<Rightarrow> ('a list, 'e) result" where
  "slice_range xs a b = (if a \<le> b \<and> b \<le> length xs then Ok (take (b - a) (drop a xs)) else Panicked)"

definition eip2537_element :: "bytes \<Rightarrow> nat \<Rightarrow> (bytes, unit) result" where
  "eip2537_element encoded element =
     and_then (slice_range encoded (element * EIP2537_FP_LENGTH_BYTES) ((element + 1) * EIP2537_FP_LENGTH_BYTES)) (\<lambda>padded.
       let padding = take EIP2537_FP_PADDING_LENGTH_BYTES padded;
           fp = drop EIP2537_FP_PADDING_LENGTH_BYTES padded
       in if list_ex (\<lambda>byte. byte \<noteq> 0) padding then Err () else Ok fp)"

definition eip2537_to_zcash :: "bytes \<Rightarrow> nat list \<Rightarrow> (bytes, unit) result" where
  "eip2537_to_zcash encoded order =
     (if length encoded \<noteq> length order * EIP2537_FP_LENGTH_BYTES \<or> list_all (\<lambda>byte. byte = 0) encoded
      then Err ()
      else
        and_then (collect (eip2537_element encoded) order) (\<lambda>fps.
        let serialized = concat fps in
        and_then (index serialized 0) (\<lambda>first.
          if first AND ZCASH_FLAGS_MASK \<noteq> 0 then Err () else Ok serialized)))"

definition g1_from_eip2537 :: "('fp, 'g1) blst \<Rightarrow> bytes \<Rightarrow> ('fp p1_affine, unit) result" where
  "g1_from_eip2537 B encoded =
     and_then (eip2537_to_zcash encoded [0, 1]) (\<lambda>serialized.
       case p1_deserialize B serialized of
         None \<Rightarrow> Err ()
       | Some point \<Rightarrow> if \<not> p1_affine_in_g1 B point then Err () else Ok point)"

definition g2_from_eip2537 :: "('fp, 'g1) blst \<Rightarrow> bytes \<Rightarrow> ('fp p2_affine, unit) result" where
  "g2_from_eip2537 B encoded =
     and_then (eip2537_to_zcash encoded [1, 0, 3, 2]) (\<lambda>serialized.
       case p2_deserialize B serialized of
         None \<Rightarrow> Err ()
       | Some point \<Rightarrow> if \<not> p2_affine_in_g2 B point then Err () else Ok point)"

definition validate_g1_eip2537_public_keys :: "('fp, 'g1) blst \<Rightarrow> bytes list \<Rightarrow> (bool, unit) result" where
  "validate_g1_eip2537_public_keys B public_keys =
     (if public_keys = [] then Ok False
      else all_checks (\<lambda>public_key. case g1_from_eip2537 B public_key of
          Ok _ \<Rightarrow> Ok True | Err _ \<Rightarrow> Ok False | Panicked \<Rightarrow> Panicked) public_keys)"

definition verify_signers ::
  "('fp, 'g1::ab_group_add) blst \<Rightarrow> 'g1 \<Rightarrow> bytes \<Rightarrow> 'fp p2_affine \<Rightarrow> bool" where
  "verify_signers B signers message signature =
     (if signers = 0 then False
      else core_verify_pk_in_g1 B (p1_to_affine B signers) signature message ETHEREUM_DST)"

definition subtract_non_signer ::
  "('fp, 'g1::ab_group_add) blst \<Rightarrow> bytes \<Rightarrow> 'g1 \<Rightarrow> ('g1, unit) result" where
  "subtract_non_signer B encoded signers =
     and_then (g1_from_eip2537 B encoded) (\<lambda>non_signer.
       let negated = - p1_from_affine B non_signer in Ok (signers + negated))"

definition verify_sync_aggregate ::
  "('fp, 'g1::ab_group_add) blst \<Rightarrow> bytes \<Rightarrow> bytes list \<Rightarrow> bytes \<Rightarrow> bytes \<Rightarrow> (bool, unit) result" where
  "verify_sync_aggregate B aggregate_public_key non_signer_public_keys message signature =
     (case and_then (g1_from_eip2537 B aggregate_public_key) (\<lambda>aggregate.
           and_then (g2_from_eip2537 B signature) (\<lambda>sig.
           and_then (fold_result (subtract_non_signer B) non_signer_public_keys (p1_from_affine B aggregate)) (\<lambda>signers.
           Ok (verify_signers B signers message sig)))) of
        Ok b \<Rightarrow> Ok b | Err _ \<Rightarrow> Ok False | Panicked \<Rightarrow> Panicked)"

definition validateG1Eip2537PublicKeysImpl :: "('fp, 'g1) blst \<Rightarrow> jobject_array \<Rightarrow> bool" where
  "validateG1Eip2537PublicKeysImpl B public_keys_jarray =
     catch_unwind False
       (case jbyte_arrays_to_u8_vecs public_keys_jarray of
          Ok public_keys \<Rightarrow> validate_g1_eip2537_public_keys B public_keys
        | Err _ \<Rightarrow> Ok False
        | Panicked \<Rightarrow> Panicked)"

definition verifySyncAggregateImpl ::
  "('fp, 'g1::ab_group_add) blst \<Rightarrow> jbyte_array \<Rightarrow> jobject_array \<Rightarrow> jbyte_array \<Rightarrow> jbyte_array \<Rightarrow> bool" where
  "verifySyncAggregateImpl B aggregate_public_key_jarray non_signer_public_keys_jarray message_jarray signature_jarray =
     catch_unwind False
       (case aggregate_public_key_jarray of None \<Rightarrow> Ok False | Some aggregate_public_key \<Rightarrow>
        (case jbyte_arrays_to_u8_vecs non_signer_public_keys_jarray of
           Err _ \<Rightarrow> Ok False | Panicked \<Rightarrow> Panicked
         | Ok non_signer_public_keys \<Rightarrow>
        (case message_jarray of None \<Rightarrow> Ok False | Some message \<Rightarrow>
        (case signature_jarray of None \<Rightarrow> Ok False | Some signature \<Rightarrow>
           verify_sync_aggregate B aggregate_public_key non_signer_public_keys message signature))))"

section \<open>The layout of an encoded point\<close>

lemmas eip_sizes = FP_LENGTH_BYTES_def EIP2537_FP_PADDING_LENGTH_BYTES_def EIP2537_FP_LENGTH_BYTES_def

text \<open>Padded elements, one after the other.\<close>

definition padded_elements :: "bytes list \<Rightarrow> bytes" where
  "padded_elements fps = concat (map (\<lambda>fp. replicate 16 0 @ fp) fps)"

lemma all_zero_iff: "length xs = n \<Longrightarrow> \<not> list_ex (\<lambda>b. b \<noteq> 0) xs \<longleftrightarrow> xs = replicate n 0"
  by (auto simp: list_ex_iff intro!: replicate_eqI) (metis in_set_replicate)

lemma element_iff:
  assumes "(i + 1) * 64 \<le> length encoded"
  shows "eip2537_element encoded i = Ok fp \<longleftrightarrow> take 64 (drop (i * 64) encoded) = replicate 16 0 @ fp"
proof -
  let ?chunk = "take 64 (drop (i * 64) encoded)"
  have sl: "slice_range encoded (i * 64) ((i + 1) * 64) = (Ok ?chunk :: (bytes, unit) result)" using assms by (simp add: slice_range_def)
  have "length (take 16 ?chunk) = 16" using assms by simp
  then have pad: "\<not> list_ex (\<lambda>b. b \<noteq> 0) (take 16 ?chunk) \<longleftrightarrow> take 16 ?chunk = replicate 16 0"
    by (rule all_zero_iff)
  have "eip2537_element encoded i =
      (if list_ex (\<lambda>b. b \<noteq> 0) (take 16 ?chunk) then Err () else Ok (drop 16 ?chunk))"
    using sl by (simp add: eip2537_element_def eip_sizes Let_def)
  then have "eip2537_element encoded i = Ok fp \<longleftrightarrow> take 16 ?chunk = replicate 16 0 \<and> fp = drop 16 ?chunk"
    unfolding pad [symmetric] by auto
  also have "\<dots> \<longleftrightarrow> ?chunk = replicate 16 0 @ fp"
  proof
    assume "take 16 ?chunk = replicate 16 0 \<and> fp = drop 16 ?chunk"
    then show "?chunk = replicate 16 0 @ fp" using append_take_drop_id [of 16 ?chunk] by simp
  next
    assume "?chunk = replicate 16 0 @ fp"
    then show "take 16 ?chunk = replicate 16 0 \<and> fp = drop 16 ?chunk" by simp
  qed
  finally show ?thesis .
qed

lemma element_not_panicked: "(i + 1) * 64 \<le> length encoded \<Longrightarrow> eip2537_element encoded i \<noteq> Panicked"
  by (simp add: eip2537_element_def eip_sizes slice_range_def Let_def)

lemma concat_chunks: "concat (map (\<lambda>i. take 64 (drop (i * 64) xs)) [0..<k]) = take (k * 64) xs"
  by (induction k) (simp_all add: take_add [symmetric] add.commute)

lemma chunk_of_padded:
  assumes "\<forall>fp \<in> set fps. length fp = 48" "i < length fps"
  shows "take 64 (drop (i * 64) (padded_elements fps)) = replicate 16 0 @ fps ! i"
  using assms
proof (induction fps arbitrary: i)
  case (Cons fp fps)
  then show ?case by (cases i) (auto simp: padded_elements_def)
qed simp

lemma length_padded: "\<forall>fp \<in> set fps. length fp = 48 \<Longrightarrow> length (padded_elements fps) = length fps * 64"
  by (induction fps) (auto simp: padded_elements_def)

lemma elements_iff:
  assumes "length encoded = k * 64"
  shows "(\<forall>i < k. eip2537_element encoded i = Ok (f i)) \<longleftrightarrow>
    encoded = padded_elements (map f [0..<k]) \<and> (\<forall>i < k. length (f i) = 48)" (is "?L \<longleftrightarrow> ?R")
proof -
  have rng: "(i + 1) * 64 \<le> length encoded" if "i < k" for i using that assms by auto
  have el: "eip2537_element encoded i = Ok (f i) \<longleftrightarrow> take 64 (drop (i * 64) encoded) = replicate 16 0 @ f i" if "i < k" for i
    by (rule element_iff [OF rng [OF that]])
  show ?thesis
  proof
    assume L: ?L
    have "length (f i) = 48" if "i < k" for i
    proof -
      have "length (take 64 (drop (i * 64) encoded)) = 64" using rng [OF that] by simp
      then have "length (replicate 16 (0 :: byte) @ f i) = 64" using L el [OF that] that by metis
      then show ?thesis by simp
    qed
    moreover have "encoded = padded_elements (map f [0..<k])"
    proof -
      have "encoded = concat (map (\<lambda>i. take 64 (drop (i * 64) encoded)) [0..<k])"
        unfolding concat_chunks using assms by simp
      also have "map (\<lambda>i. take 64 (drop (i * 64) encoded)) [0..<k] = map (\<lambda>fp. replicate 16 0 @ fp) (map f [0..<k])"
        using L el by simp
      finally show ?thesis by (simp add: padded_elements_def)
    qed
    ultimately show ?R by blast
  next
    assume R: ?R
    then show ?L using el chunk_of_padded [of "map f [0..<k]"] by simp
  qed
qed

lemma to_zcash_iff:
  assumes "set order = {..<length order}" "order \<noteq> []"
  shows "eip2537_to_zcash encoded order = Ok s \<longleftrightarrow>
    (\<exists>f. encoded = padded_elements (map f [0..<length order]) \<and> (\<forall>i < length order. length (f i) = 48) \<and>
       s = concat (map f order) \<and> \<not> list_all (\<lambda>b. b = 0) encoded \<and> hd s AND ZCASH_FLAGS_MASK = 0)"
    (is "?L \<longleftrightarrow> (\<exists>f. ?R f)")
proof
  assume L: ?L
  then have len: "length encoded = length order * 64" and nz: "\<not> list_all (\<lambda>b. b = 0) encoded"
    by (auto simp: eip2537_to_zcash_def eip_sizes split: if_splits)
  obtain fps where fps: "collect (eip2537_element encoded) order = Ok fps" "s = concat fps" "s \<noteq> []"
    "s ! 0 AND ZCASH_FLAGS_MASK = 0"
    using L by (auto simp: eip2537_to_zcash_def Let_def split: if_splits)
  let ?f = "\<lambda>i. case eip2537_element encoded i of Ok fp \<Rightarrow> fp | _ \<Rightarrow> []"
  have "fps = map ?f order"
    using collect_length [OF fps(1)] collect_nth [OF fps(1)] by (intro nth_equalityI) auto
  moreover have "\<forall>i < length order. eip2537_element encoded i = Ok (?f i)"
  proof (intro allI impI)
    fix i assume "i < length order"
    then have "i \<in> set order" using assms(1) by simp
    then obtain j where "j < length order" "order ! j = i" by (metis in_set_conv_nth)
    then show "eip2537_element encoded i = Ok (?f i)" using collect_nth [OF fps(1)] by auto
  qed
  ultimately show "\<exists>f. ?R f"
    using elements_iff [OF len, of ?f] fps nz by (intro exI [of _ ?f]) (simp add: hd_conv_nth)
next
  assume "\<exists>f. ?R f"
  then obtain f where R: "?R f" by blast
  have len: "length encoded = length order * 64" using R length_padded [of "map f [0..<length order]"] by simp
  have el: "eip2537_element encoded i = Ok (f i)" if "i \<in> set order" for i
    using that R elements_iff [OF len, of f] assms(1) by auto
  have s: "s \<noteq> []"
  proof -
    have "length (f (hd order)) = 48" using R assms by (metis hd_in_set lessThan_iff)
    then show ?thesis using R assms(2) by (cases order) auto
  qed
  have col: "collect (eip2537_element encoded) order = Ok (map f order)" using el by (rule collect_map)
  have guard: "length encoded = length order * EIP2537_FP_LENGTH_BYTES" "\<not> list_all (\<lambda>b. b = 0) encoded"
    using len R by (simp add: eip_sizes, blast)
  have first: "index s 0 = (Ok (hd s) :: (byte, unit) result)" using s by (simp add: hd_conv_nth)
  have "concat (map f order) = s" "hd s AND ZCASH_FLAGS_MASK = 0" using R by blast+
  then show ?L
    unfolding eip2537_to_zcash_def col Let_def and_then.simps using guard first by simp
qed

section \<open>Round trips and canonicity\<close>

lemma orders: "set [0, 1] = {..<length [0, 1 :: nat]}" "set [1, 0, 3, 2] = {..<length [1, 0, 3, 2 :: nat]}"
  by (auto simp: lessThan_Suc)

lemma to_zcash_inj:
  assumes "set order = {..<length order}" "order \<noteq> []"
    and "eip2537_to_zcash e order = Ok s" "eip2537_to_zcash e' order = Ok s"
  shows "e = e'"
proof -
  obtain f where f: "e = padded_elements (map f [0..<length order])" "\<forall>i < length order. length (f i) = 48"
    "s = concat (map f order)" using assms(3) unfolding to_zcash_iff [OF assms(1,2)] by blast
  obtain g where g: "e' = padded_elements (map g [0..<length order])" "\<forall>i < length order. length (g i) = 48"
    "s = concat (map g order)" using assms(4) unfolding to_zcash_iff [OF assms(1,2)] by blast
  have "map f order = map g order"
  proof (rule concat_injective)
    show "\<forall>(x, y) \<in> set (zip (map f order) (map g order)). length x = length y"
    proof (clarsimp simp: set_zip)
      fix i assume "i < length order"
      then have "order ! i < length order" using assms(1) by (metis lessThan_iff nth_mem)
      then show "length (f (order ! i)) = length (g (order ! i))" using f(2) g(2) by simp
    qed
  qed (use f(3) g(3) in simp_all)
  then have "map f [0..<length order] = map g [0..<length order]" using assms(1) by simp
  then show ?thesis unfolding f(1) g(1) by (rule arg_cong)
qed

text \<open>
  Documented behaviour of the base field encoding: 48 bytes, big-endian, so that the three flag
  bits above a 381-bit modulus are clear.
\<close>

definition fp_ok :: "('fp, 'g1) blst \<Rightarrow> bool" where
  "fp_ok B \<longleftrightarrow> (\<forall>x. length (bendian_from_fp B x) = 48 \<and> hd (bendian_from_fp B x) AND ZCASH_FLAGS_MASK = 0)"

definition zcash_g1 :: "('fp, 'g1) blst \<Rightarrow> 'fp p1_affine \<Rightarrow> bytes" where
  "zcash_g1 B p = bendian_from_fp B (p1_x p) @ bendian_from_fp B (p1_y p)"

definition zcash_g2 :: "('fp, 'g1) blst \<Rightarrow> 'fp p2_affine \<Rightarrow> bytes" where
  "zcash_g2 B p = bendian_from_fp B (p2_x_c1 p) @ bendian_from_fp B (p2_x_c0 p) @
     bendian_from_fp B (p2_y_c1 p) @ bendian_from_fp B (p2_y_c0 p)"

lemma g1_layout:
  assumes "fp_ok B"
  shows "g1_to_eip2537 B p = padded_elements [bendian_from_fp B (p1_x p), bendian_from_fp B (p1_y p)]"
  using assms by (simp add: fp_ok_def g1_to_eip2537_def copy_at_def fq_to_be48_def padded_elements_def
      append_replicate_commute [symmetric] flip: replicate_add)

lemma g2_layout:
  assumes "fp_ok B"
  shows "g2_to_eip2537 B p = padded_elements [bendian_from_fp B (p2_x_c0 p), bendian_from_fp B (p2_x_c1 p),
    bendian_from_fp B (p2_y_c0 p), bendian_from_fp B (p2_y_c1 p)]"
  using assms by (simp add: fp_ok_def g2_to_eip2537_def copy_at_def fq_to_be48_def padded_elements_def)

lemma padded_zero: "list_all (\<lambda>b. b = 0) (padded_elements fps) \<longleftrightarrow> list_all (list_all (\<lambda>b. b = 0)) fps"
  by (induction fps) (auto simp: padded_elements_def list_all_iff)

lemma g1_roundtrip:
  assumes "fp_ok B" "p1_deserialize B (zcash_g1 B p) = Some p" "p1_affine_in_g1 B p"
    and "\<not> list_all (\<lambda>b. b = 0) (zcash_g1 B p)"
  shows "g1_from_eip2537 B (g1_to_eip2537 B p) = Ok p"
proof -
  let ?f = "\<lambda>i. [bendian_from_fp B (p1_x p), bendian_from_fp B (p1_y p)] ! i"
  have len: "length (bendian_from_fp B x) = 48" "hd (bendian_from_fp B x) AND ZCASH_FLAGS_MASK = 0" for x
    using assms(1) by (simp_all add: fp_ok_def)
  then have ne: "bendian_from_fp B x \<noteq> []" for x by (metis length_0_conv zero_neq_numeral)
  have "eip2537_to_zcash (g1_to_eip2537 B p) [0, 1] = Ok (zcash_g1 B p)"
    unfolding to_zcash_iff [OF orders(1) list.distinct(2)]
    using len ne assms(4)
    by (intro exI [of _ ?f]) (auto simp: g1_layout [OF assms(1)] zcash_g1_def padded_zero less_Suc_eq upt_rec)
  then show ?thesis using assms(2,3) by (simp add: g1_from_eip2537_def)
qed

lemma g2_roundtrip:
  assumes "fp_ok B" "p2_deserialize B (zcash_g2 B p) = Some p" "p2_affine_in_g2 B p"
    and "\<not> list_all (\<lambda>b. b = 0) (zcash_g2 B p)"
  shows "g2_from_eip2537 B (g2_to_eip2537 B p) = Ok p"
proof -
  let ?f = "\<lambda>i. [bendian_from_fp B (p2_x_c0 p), bendian_from_fp B (p2_x_c1 p),
     bendian_from_fp B (p2_y_c0 p), bendian_from_fp B (p2_y_c1 p)] ! i"
  have len: "length (bendian_from_fp B x) = 48" "hd (bendian_from_fp B x) AND ZCASH_FLAGS_MASK = 0" for x
    using assms(1) by (simp_all add: fp_ok_def)
  then have ne: "bendian_from_fp B x \<noteq> []" for x by (metis length_0_conv zero_neq_numeral)
  have upt: "[0..<4] = [0, 1, 2, 3]" by (simp add: upt_rec)
  have "eip2537_to_zcash (g2_to_eip2537 B p) [1, 0, 3, 2] = Ok (zcash_g2 B p)"
    unfolding to_zcash_iff [OF orders(2) list.distinct(2)]
    using len ne assms(4)
    by (intro exI [of _ ?f])
       (auto simp: g2_layout [OF assms(1)] zcash_g2_def padded_zero less_Suc_eq upt numeral_eq_Suc)
  then show ?thesis using assms(2,3) by (simp add: g2_from_eip2537_def)
qed

section \<open>Sync aggregates\<close>

lemma non_signers_fold:
  fixes B :: "('fp, 'g1::ab_group_add) blst"
  shows "fold_result (subtract_non_signer B) encs acc = Ok S \<longleftrightarrow>
    (\<exists>ps. list_all2 (\<lambda>e p. g1_from_eip2537 B e = Ok p) encs ps \<and> S = acc - (\<Sum>p\<leftarrow>ps. p1_from_affine B p))"
proof (induction encs arbitrary: acc)
  case (Cons e encs)
  show ?case
  proof (cases "g1_from_eip2537 B e")
    case (Ok p)
    have "(\<exists>ps. list_all2 (\<lambda>e p. g1_from_eip2537 B e = Ok p) (e # encs) ps \<and> S = acc - (\<Sum>p\<leftarrow>ps. p1_from_affine B p))
      \<longleftrightarrow> (\<exists>ps. list_all2 (\<lambda>e p. g1_from_eip2537 B e = Ok p) encs ps \<and>
          S = acc - (p1_from_affine B p + (\<Sum>p\<leftarrow>ps. p1_from_affine B p)))"
      using Ok by (auto simp: list_all2_Cons1)
    then show ?thesis using Ok Cons.IH [of "acc - p1_from_affine B p"] by (simp add: subtract_non_signer_def Let_def diff_diff_eq)
  qed (auto simp: list_all2_Cons1 subtract_non_signer_def)
qed auto

lemma sync_aggregate_iff:
  fixes B :: "('fp, 'g1::ab_group_add) blst"
  shows "verify_sync_aggregate B aggregate non_signers message signature = Ok True \<longleftrightarrow>
    (\<exists>agg sig ps. g1_from_eip2537 B aggregate = Ok agg \<and> g2_from_eip2537 B signature = Ok sig \<and>
       list_all2 (\<lambda>e p. g1_from_eip2537 B e = Ok p) non_signers ps \<and>
       (let signers = p1_from_affine B agg - (\<Sum>p\<leftarrow>ps. p1_from_affine B p)
        in signers \<noteq> 0 \<and> core_verify_pk_in_g1 B (p1_to_affine B signers) sig message ETHEREUM_DST))"
proof -
  have c: "(case r of Ok b \<Rightarrow> Ok b | Err _ \<Rightarrow> Ok False | Panicked \<Rightarrow> Panicked) = (Ok True :: (bool, unit) result)
      \<longleftrightarrow> r = Ok True" for r :: "(bool, unit) result"
    by (cases r) auto
  have vs: "verify_signers B S message sig \<longleftrightarrow> S \<noteq> 0 \<and> core_verify_pk_in_g1 B (p1_to_affine B S) sig message ETHEREUM_DST" for S sig
    by (simp add: verify_signers_def)
  show ?thesis
    unfolding verify_sync_aggregate_def c and_then_eq_Ok non_signers_fold result.inject eq_True vs Let_def by blast
qed

lemma to_zcash_not_panicked:
  assumes "set order = {..<length order}" "order \<noteq> []"
  shows "eip2537_to_zcash e order \<noteq> Panicked"
proof
  assume pan: "eip2537_to_zcash e order = Panicked"
  then have len: "length e = length order * 64" by (auto simp: eip2537_to_zcash_def eip_sizes split: if_splits)
  have ok: "eip2537_element e i \<noteq> Panicked" if "i \<in> set order" for i
    using that len assms(1) by (intro element_not_panicked) auto
  then have "collect (eip2537_element e) order \<noteq> Panicked" using collect_panics by blast
  then obtain fps where fps: "collect (eip2537_element e) order = Ok fps" "concat fps = []"
    using pan by (auto simp: eip2537_to_zcash_def and_then_eq_Panicked index_def Let_def split: if_splits)
  have "0 < length order" using assms(2) by simp
  then have "eip2537_element e (order ! 0) = Ok (fps ! 0)" "fps ! 0 \<in> set fps"
    using collect_nth [OF fps(1)] collect_length [OF fps(1)] by simp_all
  moreover have "order ! 0 < length order" using \<open>0 < length order\<close> assms(1) by (metis lessThan_iff nth_mem)
  ultimately have "take 64 (drop (order ! 0 * 64) e) = replicate 16 0" "(order ! 0 + 1) * 64 \<le> length e"
    using element_iff [of "order ! 0" e] len fps(2) by auto
  then have "length (take 64 (drop (order ! 0 * 64) e)) = 16" "64 \<le> length (drop (order ! 0 * 64) e)" by simp_all
  then show False by simp
qed

lemma from_eip2537_not_panicked:
  "g1_from_eip2537 B e \<noteq> Panicked" "g2_from_eip2537 B e \<noteq> Panicked"
  using to_zcash_not_panicked [OF orders(1) list.distinct(2), of e] to_zcash_not_panicked [OF orders(2) list.distinct(2), of e]
  by (auto simp: g1_from_eip2537_def g2_from_eip2537_def and_then_eq_Panicked split: option.splits if_splits)

section \<open>Properties\<close>

text \<open>
  C39. Encoding a valid point other than the identity, which the decoder rejects, in the EIP-2537 format
  and decoding it gives the point back, in both groups, although the two formats order the coordinates of \<open>Fp2\<close> differently.
\<close>

theorem eip2537_roundtrip:
  assumes "fp_ok B"
    and "p1_deserialize B (zcash_g1 B p) = Some p" "p1_affine_in_g1 B p" "\<not> list_all (\<lambda>b. b = 0) (zcash_g1 B p)"
    and "p2_deserialize B (zcash_g2 B q) = Some q" "p2_affine_in_g2 B q" "\<not> list_all (\<lambda>b. b = 0) (zcash_g2 B q)"
  shows "g1_from_eip2537 B (g1_to_eip2537 B p) = Ok p \<and> g2_from_eip2537 B (g2_to_eip2537 B q) = Ok q"
  using g1_roundtrip [OF assms(1-4)] g2_roundtrip [OF assms(1,5-7)] by blast

text \<open>A small instance: base field elements are bytes, points are their coordinates, the group is \<open>int\<close>.\<close>

definition blst8 :: "(byte, int) blst" where
  "blst8 = \<lparr>bendian_from_fp = (\<lambda>x. replicate 47 0 @ [x]),
     p1_deserialize = (\<lambda>s. Some \<lparr>p1_x = s ! 47, p1_y = s ! 95\<rparr>),
     p1_uncompress = (\<lambda>s. Some \<lparr>p1_x = s ! 47, p1_y = 0\<rparr>), p1_affine_in_g1 = (\<lambda>p. True),
     p2_deserialize = (\<lambda>s. Some \<lparr>p2_x_c0 = s ! 95, p2_x_c1 = s ! 47, p2_y_c0 = s ! 191, p2_y_c1 = s ! 143\<rparr>),
     p2_uncompress = (\<lambda>s. None), p2_affine_in_g2 = (\<lambda>p. True),
     p1_from_affine = (\<lambda>p. uint (p1_x p)), p1_to_affine = (\<lambda>k. \<lparr>p1_x = word_of_int k, p1_y = 0\<rparr>),
     core_verify_pk_in_g1 = (\<lambda>pk sig msg dst. p1_x pk * of_nat (length msg) = p2_x_c0 sig)\<rparr>"

lemma blst8_simps:
  "bendian_from_fp blst8 x = replicate 47 0 @ [x]"
  "p1_deserialize blst8 s = Some \<lparr>p1_x = s ! 47, p1_y = s ! 95\<rparr>"
  "p2_deserialize blst8 s = Some \<lparr>p2_x_c0 = s ! 95, p2_x_c1 = s ! 47, p2_y_c0 = s ! 191, p2_y_c1 = s ! 143\<rparr>"
  "p1_affine_in_g1 blst8 p" "p2_affine_in_g2 blst8 q" "p1_from_affine blst8 p = uint (p1_x p)"
  "p1_to_affine blst8 k = \<lparr>p1_x = word_of_int k, p1_y = 0\<rparr>"
  "core_verify_pk_in_g1 blst8 pk sig msg dst = (p1_x pk * of_nat (length msg) = p2_x_c0 sig)"
  by (simp_all add: blst8_def)

lemma blst8_valid:
  assumes "x \<noteq> 0"
  shows "fp_ok blst8" "p1_deserialize blst8 (zcash_g1 blst8 \<lparr>p1_x = x, p1_y = y\<rparr>) = Some \<lparr>p1_x = x, p1_y = y\<rparr>"
    "\<not> list_all (\<lambda>b. b = 0) (zcash_g1 blst8 \<lparr>p1_x = x, p1_y = y\<rparr>)"
    "p2_deserialize blst8 (zcash_g2 blst8 \<lparr>p2_x_c0 = x, p2_x_c1 = y, p2_y_c0 = z, p2_y_c1 = w\<rparr>)
      = Some \<lparr>p2_x_c0 = x, p2_x_c1 = y, p2_y_c0 = z, p2_y_c1 = w\<rparr>"
    "\<not> list_all (\<lambda>b. b = 0) (zcash_g2 blst8 \<lparr>p2_x_c0 = x, p2_x_c1 = y, p2_y_c0 = z, p2_y_c1 = w\<rparr>)"
  using assms by (simp_all add: fp_ok_def zcash_g1_def zcash_g2_def blst8_simps nth_append)

theorem eip2537_roundtrip_witness:
  "g1_from_eip2537 blst8 (g1_to_eip2537 blst8 \<lparr>p1_x = 3, p1_y = 4\<rparr>) = Ok \<lparr>p1_x = 3, p1_y = 4\<rparr> \<and>
   g2_from_eip2537 blst8 (g2_to_eip2537 blst8 \<lparr>p2_x_c0 = 6, p2_x_c1 = 1, p2_y_c0 = 2, p2_y_c1 = 9\<rparr>)
     = Ok \<lparr>p2_x_c0 = 6, p2_x_c1 = 1, p2_y_c0 = 2, p2_y_c1 = 9\<rparr>"
proof -
  have "3 \<noteq> (0 :: byte)" "6 \<noteq> (0 :: byte)" by simp_all
  then show ?thesis
    using eip2537_roundtrip [OF blst8_valid(1,2) blst8_simps(4) blst8_valid(3,4) blst8_simps(5) blst8_valid(5)] by blast
qed

text \<open>
  The decoder is canonical: two byte strings that decode to the same serialized point are
  equal, so an accepted point has exactly one EIP-2537 encoding.
\<close>

theorem eip2537_canonical:
  assumes "eip2537_to_zcash e [0, 1] = Ok s \<and> eip2537_to_zcash e' [0, 1] = Ok s \<or>
    eip2537_to_zcash e [1, 0, 3, 2] = Ok s \<and> eip2537_to_zcash e' [1, 0, 3, 2] = Ok s"
  shows "e = e'"
  using assms to_zcash_inj [OF orders(1) list.distinct(2)] to_zcash_inj [OF orders(2) list.distinct(2)] by blast

theorem eip2537_canonical_witness:
  "padded_elements [replicate 47 0 @ [3], replicate 47 0 @ [4]] = g1_to_eip2537 blst8 \<lparr>p1_x = 3, p1_y = 4\<rparr>"
proof (rule eip2537_canonical, rule disjI1, rule conjI)
  let ?s = "zcash_g1 blst8 \<lparr>p1_x = 3, p1_y = 4\<rparr>"
  have upt: "[0..<2] = [0, 1 :: nat]" by (simp add: upt_rec)
  show 1: "eip2537_to_zcash (padded_elements [replicate 47 0 @ [3], replicate 47 0 @ [4]]) [0, 1] = Ok ?s"
    unfolding to_zcash_iff [OF orders(1) list.distinct(2)]
    by (intro exI [of _ "\<lambda>i. [replicate 47 0 @ [3], replicate 47 0 @ [4]] ! i"])
       (auto simp: zcash_g1_def blst8_simps padded_zero less_Suc_eq upt)
  show "eip2537_to_zcash (g1_to_eip2537 blst8 \<lparr>p1_x = 3, p1_y = 4\<rparr>) [0, 1] = Ok ?s"
    unfolding g1_layout [OF blst8_valid(1) [of 1, simplified]] using 1 by (simp add: blst8_simps)
qed

text \<open>
  C40. \<open>verify_sync_aggregate\<close> accepts exactly when every input decodes to a valid point, the
  aggregate key minus the keys of the non-signers is not the identity, and the signature verifies
  under it; the decoders never panic, so on all other inputs the result is false.
\<close>

theorem sync_aggregate_exact:
  fixes B :: "('fp, 'g1::ab_group_add) blst"
  shows "verifySyncAggregateImpl B (Some aggregate) (Some (map Some non_signers)) (Some message) (Some signature) \<longleftrightarrow>
    (\<exists>agg sig ps. g1_from_eip2537 B aggregate = Ok agg \<and> g2_from_eip2537 B signature = Ok sig \<and>
       list_all2 (\<lambda>e p. g1_from_eip2537 B e = Ok p) non_signers ps \<and>
       (let signers = p1_from_affine B agg - (\<Sum>p\<leftarrow>ps. p1_from_affine B p)
        in signers \<noteq> 0 \<and> core_verify_pk_in_g1 B (p1_to_affine B signers) sig message ETHEREUM_DST))"
proof -
  have vecs: "jbyte_arrays_to_u8_vecs (Some (map Some non_signers)) = Ok non_signers"
    unfolding jbyte_arrays_to_u8_vecs_iff by simp
  have "verifySyncAggregateImpl B (Some aggregate) (Some (map Some non_signers)) (Some message) (Some signature) \<longleftrightarrow>
      verify_sync_aggregate B aggregate non_signers message signature = Ok True"
    by (simp add: verifySyncAggregateImpl_def vecs catch_unwind_def split: result.splits)
  then show ?thesis unfolding sync_aggregate_iff .
qed

end
