(* ===== verification/JniHints.thy ===== *)
theory JniHints
  imports JniUtil HintsVerify Setup
begin

text \<open>
  The native methods of \<^verbatim>\<open>jni_hints.rs\<close> and \<^verbatim>\<open>jni_crs.rs\<close>. Each one reads its Java arguments, calls the
  function of the library it is named after and marshals the result; an unreadable argument, an error
  and a panic all give \<open>None\<close> or \<open>False\<close>. The two caches are static variables, so every method acts on
  their state. The uncompressed encodings are parameters.
\<close>

section \<open>The library behind the methods\<close>

record ('f, 'g1, 'g2) formats =
  fmt_crs :: "('g1, 'g2) universal_params canonical"
  fmt_secret_key :: "('f, 'g1) secret_key canonical"
  fmt_hints :: "('f, 'g1, 'g2) extended_public_key canonical"
  fmt_vk :: "('f, 'g1, 'g2) verification_key canonical"
  fmt_ak :: "('f, 'g1) aggregation_key canonical"
  fmt_partial :: "'g2 canonical"
  fmt_threshold :: "('f, 'g1, 'g2) threshold_signature canonical"
  fmt_contribution :: "('f, 'g1) contribution_proof canonical"

definition formats_ok :: "('f, 'g1, 'g2) formats \<Rightarrow> bool" where
  "formats_ok F \<longleftrightarrow> canonical_ok (fmt_crs F) \<and> canonical_ok (fmt_secret_key F) \<and> canonical_ok (fmt_hints F) \<and>
     canonical_ok (fmt_vk F) \<and> canonical_ok (fmt_ak F) \<and> canonical_ok (fmt_partial F) \<and>
     canonical_ok (fmt_threshold F) \<and> canonical_ok (fmt_contribution F)"

text \<open>The static caches, each of capacity four.\<close>

record ('f, 'g1, 'g2) hints_statics =
  CRS_CACHE :: "('g1, 'g2) universal_params jni_map_cache"
  AGGREGATION_KEY_CACHE :: "('f, 'g1) aggregation_key jni_map_cache"

definition CACHE_SIZE :: nat where
  "CACHE_SIZE = 4"

definition hints_statics_new :: "('f, 'g1, 'g2) hints_statics" where
  "hints_statics_new = \<lparr>CRS_CACHE = jni_map_cache_new, AGGREGATION_KEY_CACHE = jni_map_cache_new\<rparr>"

definition get_crs ::
  "('f, 'g1, 'g2) formats \<Rightarrow> jbyte_array \<Rightarrow> ('f, 'g1, 'g2) hints_statics
   \<Rightarrow> (('g1, 'g2) universal_params, jni_cache_error) result \<times> ('f, 'g1, 'g2) hints_statics" where
  "get_crs F jarray s =
     (let (r, c) = cache_get CACHE_SIZE (deserialize_uncompressed (fmt_crs F)) jarray (CRS_CACHE s)
      in (r, s\<lparr>CRS_CACHE := c\<rparr>))"

definition get_aggregation_key ::
  "('f, 'g1, 'g2) formats \<Rightarrow> jbyte_array \<Rightarrow> ('f, 'g1, 'g2) hints_statics
   \<Rightarrow> (('f, 'g1) aggregation_key, jni_cache_error) result \<times> ('f, 'g1, 'g2) hints_statics" where
  "get_aggregation_key F jarray s =
     (let (r, c) = cache_get CACHE_SIZE (deserialize_uncompressed (fmt_ak F)) jarray (AGGREGATION_KEY_CACHE s)
      in (r, s\<lparr>AGGREGATION_KEY_CACHE := c\<rparr>))"

text \<open>The loops that read an array of encoded objects, and that build a hash map from two arrays.\<close>

definition read_objects :: "'v canonical \<Rightarrow> jobject_array \<Rightarrow> nat \<Rightarrow> ('v list, unit) result" where
  "read_objects C jarray num_of_keys =
     collect (\<lambda>i. and_then (get_object_array_element jarray i) (\<lambda>jobj.
       map_err (\<lambda>_. ()) (deserialize_jbyte_array C jobj))) [0..<num_of_keys]"

definition build_hash_map :: "32 word list \<Rightarrow> 'v list \<Rightarrow> 'v hash_map" where
  "build_hash_map keys vals = foldl (\<lambda>m (key, v). hash_map_insert (jint_as_usize key) v m) [] (zip keys vals)"

text \<open>The conversion \<^verbatim>\<open>From<i64>\<close> of a field: a negative integer is the negation of its absolute value.\<close>

definition fr_from_i64 :: "64 word \<Rightarrow> 'f::field" where
  "fr_from_i64 x = of_int (sint x)"

section \<open>Methods on keys and hints\<close>

definition generateSecretKey ::
  "('f::field, 'g1, 'g2, 'gt, 'rng) ark \<Rightarrow> ('f, 'g1, 'g2) formats \<Rightarrow> jni_env \<Rightarrow> jbyte_array \<Rightarrow> 's \<Rightarrow> jbyte_array \<times> 's" where
  "generateSecretKey E F env random_jarray = native_method None (
     or_return None (build_entropy_array random_jarray) (\<lambda>random_arr.
     or_return None (keygen E random_arr) (\<lambda>secret_key.
     or_return None (serialize_object env (fmt_secret_key F) secret_key) return_value)))"

definition computeHintsImpl ::
  "('f::field, 'g1, 'g2, 'gt, 'rng) ark \<Rightarrow> ('f, 'g1, 'g2) formats \<Rightarrow> jni_env \<Rightarrow> jbyte_array \<Rightarrow> jbyte_array \<Rightarrow> 32 word \<Rightarrow> 32 word
   \<Rightarrow> ('f, 'g1, 'g2) hints_statics \<Rightarrow> jbyte_array \<times> ('f, 'g1, 'g2) hints_statics" where
  "computeHintsImpl E F env crs_jarray secret_key_jarray party_id n = native_method None (
     match_static None (get_crs F crs_jarray) (\<lambda>crs.
     or_return None (deserialize_jbyte_array (fmt_secret_key F) secret_key_jarray) (\<lambda>secret_key.
     or_return None (hint_gen E crs (jint_as_usize n) (jint_as_usize party_id) secret_key) (\<lambda>hint.
     or_return None (serialize_object env (fmt_hints F) hint) return_value))))"

definition validateHintsKeyImpl ::
  "('f::field, 'g1::ab_group_add, 'g2::ab_group_add, 'gt::ab_group_add, 'rng) ark \<Rightarrow> ('f, 'g1, 'g2) formats
   \<Rightarrow> jbyte_array \<Rightarrow> jbyte_array \<Rightarrow> 32 word \<Rightarrow> 32 word
   \<Rightarrow> ('f, 'g1, 'g2) hints_statics \<Rightarrow> bool \<times> ('f, 'g1, 'g2) hints_statics" where
  "validateHintsKeyImpl E F crs_jarray hints_jarray party_id n = native_method False (
     match_static False (get_crs F crs_jarray) (\<lambda>crs.
     or_return False (deserialize_jbyte_array (fmt_hints F) hints_jarray) (\<lambda>hints.
     or_return False (verify_hint E crs (jint_as_usize n) (jint_as_usize party_id) hints) return_value)))"

definition preprocessImpl ::
  "('f::field, 'g1::ab_group_add, 'g2::ab_group_add, 'gt::ab_group_add, 'rng) ark \<Rightarrow> ('f, 'g1, 'g2) formats \<Rightarrow> jni_env
   \<Rightarrow> jbyte_array \<Rightarrow> jint_array \<Rightarrow> jobject_array \<Rightarrow> jlong_array \<Rightarrow> 32 word
   \<Rightarrow> ('f, 'g1, 'g2) hints_statics \<Rightarrow> jobject \<times> ('f, 'g1, 'g2) hints_statics" where
  "preprocessImpl E F env crs_jarray parties_jarray hints_jarray weights_jarray n = native_method None (
     match_static None (get_crs F crs_jarray) (\<lambda>crs.
     or_return None (get_array_length parties_jarray) (\<lambda>num_of_keys.
     or_return None (get_array_region parties_jarray num_of_keys) (\<lambda>keys.
     or_return None (get_array_region weights_jarray num_of_keys) (\<lambda>weights.
     or_return None (read_objects (fmt_hints F) hints_jarray num_of_keys) (\<lambda>hints_array.
     let signer_info = build_hash_map keys (zip (map fr_from_i64 weights) hints_array) in
     or_return None (preprocess E (jint_as_usize n) crs signer_info) (\<lambda>(vk, ak).
     or_return None (serialize_object env (fmt_vk F) vk) (\<lambda>serialized_vk.
     or_return None (serialize_object env (fmt_ak F) ak) (\<lambda>serialized_ak.
     return_value (construct_object env ''com/hedera/cryptography/hints/AggregationAndVerificationKeys''
       [serialized_vk, serialized_ak]))))))))))"

section \<open>Methods on signatures\<close>

definition signBlsImpl ::
  "('f, 'g1, 'g2, 'gt, 'rng) ark \<Rightarrow> ('f, 'g1, 'g2) formats \<Rightarrow> jni_env \<Rightarrow> jbyte_array \<Rightarrow> jbyte_array \<Rightarrow> 's \<Rightarrow> jbyte_array \<times> 's" where
  "signBlsImpl E F env message_jarray secret_key_jarray = native_method None (
     or_return None (ok_or () message_jarray) (\<lambda>message.
     or_return None (deserialize_jbyte_array (fmt_secret_key F) secret_key_jarray) (\<lambda>secret_key.
     or_return None (sign E message secret_key) (\<lambda>signature.
     or_return None (serialize_object env (fmt_partial F) signature) return_value))))"

definition verifyBlsImpl ::
  "('f, 'g1::ab_group_add, 'g2::ab_group_add, 'gt, 'rng) ark \<Rightarrow> ('f, 'g1, 'g2) formats
   \<Rightarrow> jbyte_array \<Rightarrow> jbyte_array \<Rightarrow> jbyte_array \<Rightarrow> 32 word
   \<Rightarrow> ('f, 'g1, 'g2) hints_statics \<Rightarrow> bool \<times> ('f, 'g1, 'g2) hints_statics" where
  "verifyBlsImpl E F signature_jarray message_jarray aggregation_key_jarray party_id = native_method False (
     or_return False (ok_or () message_jarray) (\<lambda>message.
     match_static False (get_aggregation_key F aggregation_key_jarray) (\<lambda>aggregation_key.
     or_return False (deserialize_jbyte_array (fmt_partial F) signature_jarray) (\<lambda>signature.
     or_return False (partial_verify E message aggregation_key (jint_as_usize party_id) signature) return_value))))"

text \<open>The random coefficient \<open>r\<close> of the batch verification is drawn inside.\<close>

definition verifyBlsBatchImpl ::
  "('f::field, 'g1::ab_group_add, 'g2::ab_group_add, 'gt, 'rng) ark \<Rightarrow> ('f, 'g1, 'g2) formats \<Rightarrow> 'f
   \<Rightarrow> jbyte_array \<Rightarrow> jbyte_array \<Rightarrow> jint_array \<Rightarrow> jobject_array
   \<Rightarrow> ('f, 'g1, 'g2) hints_statics \<Rightarrow> bool \<times> ('f, 'g1, 'g2) hints_statics" where
  "verifyBlsBatchImpl E F r message_jarray aggregation_key_jarray parties_jarray partial_signatures_jarray = native_method False (
     or_return False (ok_or () message_jarray) (\<lambda>message.
     match_static False (get_aggregation_key F aggregation_key_jarray) (\<lambda>aggregation_key.
     or_return False (get_array_length parties_jarray) (\<lambda>num_of_keys.
     or_return False (get_array_region parties_jarray num_of_keys) (\<lambda>keys.
     let keys_usize = map jint_as_usize keys in
     or_return False (read_objects (fmt_partial F) partial_signatures_jarray num_of_keys) (\<lambda>partial_signatures_array.
     or_return False (partial_verify_batch E r message aggregation_key keys_usize partial_signatures_array) return_value))))))"

definition aggregateSignaturesImpl ::
  "('f::field, 'g1::ab_group_add, 'g2::ab_group_add, 'gt, 'rng) ark \<Rightarrow> ('f, 'g1, 'g2) formats \<Rightarrow> jni_env
   \<Rightarrow> jbyte_array \<Rightarrow> jbyte_array \<Rightarrow> jbyte_array \<Rightarrow> jint_array \<Rightarrow> jobject_array
   \<Rightarrow> ('f, 'g1, 'g2) hints_statics \<Rightarrow> jbyte_array \<times> ('f, 'g1, 'g2) hints_statics" where
  "aggregateSignaturesImpl E F env crs_jarray aggregation_key_jarray verification_key_jarray parties_jarray
       partial_signatures_jarray = native_method None (
     match_static None (get_crs F crs_jarray) (\<lambda>crs.
     match_static None (get_aggregation_key F aggregation_key_jarray) (\<lambda>aggregation_key.
     or_return None (deserialize_jbyte_array (fmt_vk F) verification_key_jarray) (\<lambda>verification_key.
     or_return None (get_array_length parties_jarray) (\<lambda>num_of_keys.
     or_return None (get_array_region parties_jarray num_of_keys) (\<lambda>keys.
     or_return None (read_objects (fmt_partial F) partial_signatures_jarray num_of_keys) (\<lambda>partial_signatures_array.
     let partial_signatures = build_hash_map keys partial_signatures_array in
     or_return None (aggregate E crs aggregation_key verification_key partial_signatures) (\<lambda>threshold_signature.
     or_return None (serialize_object env (fmt_threshold F) threshold_signature) return_value))))))))"

definition verifyAggregateImpl ::
  "('f::field, 'g1::ab_group_add, 'g2::ab_group_add, 'gt::ab_group_add, 'rng) ark \<Rightarrow> ('f, 'g1, 'g2) formats
   \<Rightarrow> jbyte_array \<Rightarrow> jbyte_array \<Rightarrow> jbyte_array \<Rightarrow> 64 word \<Rightarrow> 64 word \<Rightarrow> 's \<Rightarrow> bool \<times> 's" where
  "verifyAggregateImpl E F signature_jarray message_jarray verification_key_jarray threshold_numerator threshold_denominator =
     native_method False (
     or_return False (deserialize_jbyte_array (fmt_threshold F) signature_jarray) (\<lambda>signature.
     or_return False (ok_or () message_jarray) (\<lambda>message.
     or_return False (deserialize_jbyte_array (fmt_vk F) verification_key_jarray) (\<lambda>verification_key.
     or_return False (verify E message verification_key signature
       (fr_from_i64 threshold_numerator, fr_from_i64 threshold_denominator)) return_value))))"

definition resetCache :: "('f, 'g1, 'g2) hints_statics \<Rightarrow> unit \<times> ('f, 'g1, 'g2) hints_statics" where
  "resetCache = native_method () (\<lambda>s.
     let (r1, c1) = cache_reset (CRS_CACHE s) in
     case r1 of
       Ok _ \<Rightarrow> let (r2, c2) = cache_reset (AGGREGATION_KEY_CACHE s)
               in (map_err (\<lambda>_. ()) r2, s\<lparr>CRS_CACHE := c1, AGGREGATION_KEY_CACHE := c2\<rparr>)
     | _ \<Rightarrow> (map_err (\<lambda>_. ()) r1, s\<lparr>CRS_CACHE := c1\<rparr>))"

section \<open>Methods of the ceremony\<close>

text \<open>
  The degree of \<open>initCRSImpl\<close> is a sign-extended 16-bit integer: the length \<^verbatim>\<open>degree + 1\<close> of the towers wraps
  around to zero for \<open>-1\<close>, and exceeds the size of any vector for the other negative values.
\<close>

definition init_towers ::
  "('f, 'g1, 'g2, 'gt, 'rng) ark \<Rightarrow> nat \<Rightarrow> (('g1, 'g2) universal_params, unit) result" where
  "init_towers E degree =
     (if degree + 1 = usize_modulus then Ok \<lparr>powers_of_g = [], powers_of_h = []\<rparr>
      else if 2 ^ 63 \<le> degree then Panicked
      else Ok (init_crs E degree))"

definition initCRSImpl ::
  "('f, 'g1, 'g2, 'gt, 'rng) ark \<Rightarrow> ('f, 'g1, 'g2) formats \<Rightarrow> jni_env \<Rightarrow> 16 word \<Rightarrow> 's \<Rightarrow> jbyte_array \<times> 's" where
  "initCRSImpl E F env signers_num = native_method None (
     or_return None (init_towers E (jshort_as_usize signers_num)) (\<lambda>crs.
     or_return None (serialize_object env (fmt_crs F) crs) return_value))"

definition updateCRSImpl ::
  "('f::field, 'g1, 'g2, 'gt, 'rng) ark \<Rightarrow> ('f, 'g1, 'g2) formats \<Rightarrow> jni_env \<Rightarrow> jbyte_array \<Rightarrow> jbyte_array \<Rightarrow> 's \<Rightarrow> jbyte_array \<times> 's" where
  "updateCRSImpl E F env prev_crs_array random_array = native_method None (
     or_return None (deserialize_jbyte_array (fmt_crs F) prev_crs_array) (\<lambda>prev_crs.
     or_return None (build_entropy_array random_array) (\<lambda>random_arr.
     or_return None (contribute E prev_crs random_arr) (\<lambda>(crs, contribution_proof).
     or_return None (serialize (fmt_crs F) crs) (\<lambda>serialized_crs.
     or_return None (serialize (fmt_contribution F) contribution_proof) (\<lambda>serialized_contribution_proof.
     return_value (two_u8_vec_to_jbyte_array env serialized_crs serialized_contribution_proof)))))))"

definition verifyCRSImpl ::
  "('f::field, 'g1::ab_group_add, 'g2::ab_group_add, 'gt, 'rng) ark \<Rightarrow> ('f, 'g1, 'g2) formats
   \<Rightarrow> jbyte_array \<Rightarrow> jbyte_array \<Rightarrow> jbyte_array \<Rightarrow> 's \<Rightarrow> bool \<times> 's" where
  "verifyCRSImpl E F prev_crs_array next_crs_array contribution_proof_array = native_method False (
     or_return False (deserialize_jbyte_array (fmt_crs F) prev_crs_array) (\<lambda>prev_crs.
     or_return False (deserialize_jbyte_array (fmt_crs F) next_crs_array) (\<lambda>next_crs.
     or_return False (deserialize_jbyte_array (fmt_contribution F) contribution_proof_array) (\<lambda>contribution_proof.
     or_return False (verify_contribution E (serialize_uncompressed (fmt_crs F)) prev_crs next_crs contribution_proof)
       return_value))))"

definition pruneCRSImpl ::
  "('f, 'g1, 'g2) formats \<Rightarrow> jni_env \<Rightarrow> jbyte_array \<Rightarrow> 16 word \<Rightarrow> 's \<Rightarrow> jbyte_array \<times> 's" where
  "pruneCRSImpl F env prev_crs_array signers_num = native_method None (
     or_return None (deserialize_jbyte_array (fmt_crs F) prev_crs_array) (\<lambda>prev_crs.
     or_return None (prune_crs prev_crs (jshort_as_usize signers_num)) (\<lambda>crs.
     or_return None (serialize_object env (fmt_crs F) crs) return_value)))"

section \<open>The caches behind the methods\<close>

definition statics_good :: "('f, 'g1, 'g2) formats \<Rightarrow> ('f, 'g1, 'g2) hints_statics \<Rightarrow> bool" where
  "statics_good F s \<longleftrightarrow> formats_ok F \<and>
     cache_good CACHE_SIZE (deserialize_uncompressed (fmt_crs F)) (CRS_CACHE s) \<and>
     cache_good CACHE_SIZE (deserialize_uncompressed (fmt_ak F)) (AGGREGATION_KEY_CACHE s)"

lemma uncached_eq: "uncached (deserialize_uncompressed C) jarray = deserialize_jbyte_array C jarray"
  by (cases jarray) (simp_all add: uncached_def deserialize_jbyte_array_def ok_or_def)

lemma statics_good_new: "formats_ok F \<Longrightarrow> statics_good F hints_statics_new"
  by (simp add: statics_good_def hints_statics_new_def cache_good_def jni_map_cache_new_def)

interpretation crs_cache: static_cache "statics_good F" "get_crs F" "deserialize_jbyte_array (fmt_crs F)" for F
proof
  fix s key assume good: "statics_good F s"
  then have "\<And>vec. deserialize_uncompressed (fmt_crs F) vec \<noteq> Panicked"
    by (simp add: statics_good_def formats_ok_def canonical_ok_def)
  with cache_get_transparent [of CACHE_SIZE "deserialize_uncompressed (fmt_crs F)" "CRS_CACHE s" key] good
  show "fst (get_crs F key s) = deserialize_jbyte_array (fmt_crs F) key \<and> statics_good F (snd (get_crs F key s))"
    by (auto simp: get_crs_def statics_good_def uncached_eq)
qed

interpretation ak_cache: static_cache "statics_good F" "get_aggregation_key F" "deserialize_jbyte_array (fmt_ak F)" for F
proof
  fix s key assume good: "statics_good F s"
  then have "\<And>vec. deserialize_uncompressed (fmt_ak F) vec \<noteq> Panicked"
    by (simp add: statics_good_def formats_ok_def canonical_ok_def)
  with cache_get_transparent [of CACHE_SIZE "deserialize_uncompressed (fmt_ak F)" "AGGREGATION_KEY_CACHE s" key] good
  show "fst (get_aggregation_key F key s) = deserialize_jbyte_array (fmt_ak F) key \<and> statics_good F (snd (get_aggregation_key F key s))"
    by (auto simp: get_aggregation_key_def statics_good_def uncached_eq)
qed

lemma reset_statics:
  assumes "statics_good F s"
  shows "statics_good F (snd (resetCache s))"
proof -
  obtain r1 c1 r2 c2 where r: "cache_reset (CRS_CACHE s) = (r1, c1)" "cache_reset (AGGREGATION_KEY_CACHE s) = (r2, c2)"
    by fastforce
  then show ?thesis
    using assms reset_good [OF _ r(1)] reset_good [OF _ r(2)]
    by (auto simp: resetCache_def native_method_sel statics_good_def)
qed

section \<open>What the methods return\<close>

text \<open>An array that encodes a value.\<close>

definition encodes :: "'v canonical \<Rightarrow> jbyte_array \<Rightarrow> 'v \<Rightarrow> bool" where
  "encodes C jarray v \<longleftrightarrow> deserialize_jbyte_array C jarray = Ok v"

lemmas method_outcomes = native_method_sel crs_cache.lookup_outcome ak_cache.lookup_outcome
  crs_cache.lookup_keeps ak_cache.lookup_keeps

lemma encodes_unique: "encodes C a v \<Longrightarrow> encodes C a w \<Longrightarrow> v = w"
  by (simp add: encodes_def)

lemma object_encodes:
  assumes "canonical_ok C" "serialize_object env C v = Ok (Some bs)"
  shows "encodes C (Some bs) v"
proof -
  from assms(1) obtain bs' where "serialize C v = Ok bs'" "deserialize_uncompressed C bs' = Ok v"
    by (rule canonical_roundtrip)
  with assms(2) show ?thesis
    by (auto simp: encodes_def deserialize_jbyte_array_iff serialize_object_def u8_vec_to_jbyte_array_def
        jbyte_vec_to_jbyte_array_def split: if_splits)
qed

lemma verifyBls_iff:
  assumes "statics_good F s"
  shows "fst (verifyBlsImpl E F sig_arr msg_arr ak_arr party s) \<longleftrightarrow>
    (\<exists>msg ak sig. msg_arr = Some msg \<and> encodes (fmt_ak F) ak_arr ak \<and> encodes (fmt_partial F) sig_arr sig \<and>
       partial_verify E msg ak (jint_as_usize party) sig = Ok True)"
  using assms by (auto simp: verifyBlsImpl_def method_outcomes encodes_def split: result.splits option.splits)

lemma validateHintsKey_iff:
  assumes "statics_good F s"
  shows "fst (validateHintsKeyImpl E F crs_arr hints_arr party n s) \<longleftrightarrow>
    (\<exists>crs hint. encodes (fmt_crs F) crs_arr crs \<and> encodes (fmt_hints F) hints_arr hint \<and>
       verify_hint E crs (jint_as_usize n) (jint_as_usize party) hint = Ok True)"
  using assms by (auto simp: validateHintsKeyImpl_def method_outcomes encodes_def split: result.splits)

lemma verifyAggregate_iff:
  "fst (verifyAggregateImpl E F sig_arr msg_arr vk_arr num den s) \<longleftrightarrow>
    (\<exists>msg vk sig. msg_arr = Some msg \<and> encodes (fmt_vk F) vk_arr vk \<and> encodes (fmt_threshold F) sig_arr sig \<and>
       verify E msg vk sig (fr_from_i64 num, fr_from_i64 den) = Ok True)"
  by (auto simp: verifyAggregateImpl_def method_outcomes encodes_def split: result.splits option.splits)

lemma read_objects_iff:
  "read_objects C jarray n = Ok vs \<longleftrightarrow> length vs = n \<and>
     (\<forall>i < n. \<exists>xs. jarray = Some xs \<and> i < length xs \<and> encodes C (xs ! i) (vs ! i))"
  by (auto simp: read_objects_def collect_eq_Ok list_all2_conv_all_nth encodes_def)

lemma build_hash_map_ok:
  fixes vals :: "'a list"
  shows "hash_map_ok (build_hash_map keys vals)"
proof -
  have "hash_map_ok (foldl (\<lambda>m (key, v). hash_map_insert (jint_as_usize key) v m) m kvs)" if "hash_map_ok m" for m and kvs :: "(32 word \<times> 'a) list"
    using that by (induction kvs arbitrary: m) (auto simp: hash_map_insert_ok)
  from this [of "[]" "zip keys vals"] show ?thesis by (simp add: build_hash_map_def hash_map_ok_def)
qed

lemma build_hash_map_entries:
  fixes vals :: "'a list"
  assumes "(i, v) \<in> set (build_hash_map keys vals)"
  shows "\<exists>j < min (length keys) (length vals). i = jint_as_usize (keys ! j) \<and> v = vals ! j"
proof -
  have step: "set (hash_map_insert k x m) \<subseteq> insert (k, x) (set m)" for k and x :: 'a and m
    by (induction k x m rule: hash_map_insert.induct) auto
  have "set (foldl (\<lambda>m (key, v). hash_map_insert (jint_as_usize key) v m) m kvs)
      \<subseteq> set m \<union> (\<lambda>(key, v). (jint_as_usize key, v)) ` set kvs" for m and kvs :: "(32 word \<times> 'a) list"
  proof (induction kvs arbitrary: m)
    case (Cons kv kvs)
    obtain k x where kv: "kv = (k, x)" by fastforce
    show ?case using Cons [of "hash_map_insert (jint_as_usize k) x m"] step [of "jint_as_usize k" x m] by (auto simp: kv)
  qed simp
  from this [of "[]" "zip keys vals"] assms show ?thesis
    by (fastforce simp: build_hash_map_def in_set_zip)
qed

end
