(* ===== verification/JniInstance.thy ===== *)
theory JniInstance
  imports JniHints HintsProperties
begin

text \<open>
  Concrete encodings for the run over the field with 17 elements: self-delimiting codes of numbers and
  lists, and from them the uncompressed encodings of every type that crosses the Java boundary.
\<close>

section \<open>Self-delimiting codes\<close>

type_synonym 'a code = "('a \<Rightarrow> bytes) \<times> (bytes \<Rightarrow> ('a \<times> bytes) option)"

definition code_ok :: "'a code \<Rightarrow> bool" where
  "code_ok c \<longleftrightarrow> (\<forall>a rest. snd c (fst c a @ rest) = Some (a, rest))"

text \<open>A number in unary.\<close>

fun get_nat :: "bytes \<Rightarrow> (nat \<times> bytes) option" where
  "get_nat [] = None"
| "get_nat (b # bs) = (if b = 0 then Some (0, bs) else map_option (apfst Suc) (get_nat bs))"

definition nat_code :: "nat code" where
  "nat_code = (\<lambda>n. replicate n 1 @ [0], get_nat)"

text \<open>A list with its length in front.\<close>

primrec get_many :: "(bytes \<Rightarrow> ('a \<times> bytes) option) \<Rightarrow> nat \<Rightarrow> bytes \<Rightarrow> ('a list \<times> bytes) option" where
  "get_many get 0 bs = Some ([], bs)"
| "get_many get (Suc n) bs =
     (case get bs of None \<Rightarrow> None | Some (a, rest) \<Rightarrow> map_option (apfst (Cons a)) (get_many get n rest))"

definition list_code :: "'a code \<Rightarrow> 'a list code" where
  "list_code c = (\<lambda>xs. fst nat_code (length xs) @ concat (map (fst c) xs),
     \<lambda>bs. case snd nat_code bs of None \<Rightarrow> None | Some (n, rest) \<Rightarrow> get_many (snd c) n rest)"

definition map_code :: "('b \<Rightarrow> 'a) \<Rightarrow> ('a \<Rightarrow> 'b) \<Rightarrow> 'a code \<Rightarrow> 'b code" where
  "map_code f g c = (\<lambda>b. fst c (f b), \<lambda>bs. map_option (apfst g) (snd c bs))"

definition canonical_of :: "'a code \<Rightarrow> 'a canonical" where
  "canonical_of c =
     \<lparr>serialize_uncompressed = \<lambda>v. Ok (fst c v),
      deserialize_uncompressed = \<lambda>bs. case snd c bs of Some (v, []) \<Rightarrow> Ok v | _ \<Rightarrow> Err ''malformed''\<rparr>"

lemma nat_code_ok: "code_ok nat_code"
proof -
  have "get_nat (replicate n 1 @ 0 # rest) = Some (n, rest)" for n rest by (induction n) auto
  then show ?thesis by (simp add: code_ok_def nat_code_def)
qed

lemma list_code_ok:
  assumes "code_ok c"
  shows "code_ok (list_code c)"
proof -
  have "get_many (snd c) (length xs) (concat (map (fst c) xs) @ rest) = Some (xs, rest)" for xs rest
    using assms by (induction xs) (simp_all add: code_ok_def)
  then show ?thesis using nat_code_ok by (simp add: code_ok_def list_code_def)
qed

lemma map_code_ok: "code_ok c \<Longrightarrow> (\<And>b. g (f b) = b) \<Longrightarrow> code_ok (map_code f g c)"
  by (simp add: code_ok_def map_code_def)

lemma canonical_of_ok:
  assumes "code_ok c"
  shows "canonical_ok (canonical_of c)"
proof -
  have "snd c (fst c v) = Some (v, [])" for v using assms [unfolded code_ok_def, rule_format, of v "[]"] by simp
  then show ?thesis by (auto simp: canonical_ok_def canonical_of_def split: option.splits list.splits)
qed

section \<open>Encodings of the library's types\<close>

definition num17 :: "gf17 \<Rightarrow> nat" where
  "num17 x = nat (to_int17 x)"

definition elt17 :: "nat \<Rightarrow> gf17" where
  "elt17 n = from_int17 (int n)"

lemma elt_num17 [simp]: "elt17 (num17 x) = x"
  using to_int17_range [of x] by (simp add: elt17_def num17_def from_to17)

lemma elts_nums17 [simp]: "map elt17 (map num17 xs) = xs" "map (elt17 \<circ> num17) xs = xs"
  by (simp_all add: o_def)

text \<open>A record is a table of rows: its lists, and its other fields grouped together.\<close>

definition table_code :: "('r \<Rightarrow> nat list list) \<Rightarrow> (nat list list \<Rightarrow> 'r) \<Rightarrow> 'r code" where
  "table_code f g = map_code f g (list_code (list_code nat_code))"

lemma table_code_ok: "(\<And>r. g (f r) = r) \<Longrightarrow> canonical_ok (canonical_of (table_code f g))"
  unfolding table_code_def by (intro canonical_of_ok map_code_ok list_code_ok nat_code_ok)

definition rows :: "gf17 list list \<Rightarrow> nat list list" where
  "rows xss = map (map num17) xss"

definition row :: "nat list list \<Rightarrow> nat \<Rightarrow> gf17 list" where
  "row t i = map elt17 (t ! i)"

definition F17 :: "(gf17, gf17, gf17) formats" where
  "F17 =
     \<lparr>fmt_crs = canonical_of (table_code (\<lambda>c. rows [powers_of_g c, powers_of_h c])
        (\<lambda>t. \<lparr>powers_of_g = row t 0, powers_of_h = row t 1\<rparr>)),
      fmt_secret_key = canonical_of (table_code
        (\<lambda>k. rows [[secret k, pop_commitment (pop k), pop_challenge (pop k), pop_response (pop k)]])
        (\<lambda>t. \<lparr>secret = row t 0 ! 0, pop = \<lparr>pop_commitment = row t 0 ! 1, pop_challenge = row t 0 ! 2, pop_response = row t 0 ! 3\<rparr>\<rparr>)),
      fmt_hints = canonical_of (table_code
        (\<lambda>h. [epk_i h, epk_n h] # rows [[pk_i h, pop_commitment (pok_i h), pop_challenge (pok_i h), pop_response (pok_i h),
           sk_i_l_i_of_tau_com_1 h, sk_i_l_i_of_tau_com_2 h, qx_i_term h, qx_i_term_mul_tau h], qz_i_terms h])
        (\<lambda>t. \<lparr>epk_i = t ! 0 ! 0, epk_n = t ! 0 ! 1, pk_i = row t 1 ! 0,
           pok_i = \<lparr>pop_commitment = row t 1 ! 1, pop_challenge = row t 1 ! 2, pop_response = row t 1 ! 3\<rparr>,
           sk_i_l_i_of_tau_com_1 = row t 1 ! 4, sk_i_l_i_of_tau_com_2 = row t 1 ! 5, qz_i_terms = row t 2,
           qx_i_term = row t 1 ! 6, qx_i_term_mul_tau = row t 1 ! 7\<rparr>)),
      fmt_vk = canonical_of (table_code
        (\<lambda>v. [vk_n v] # rows [[vk_total_weight v, vk_g_0 v, vk_h_0 v, vk_h_1 v, vk_l_n_minus_1_of_tau_com v, vk_w_of_tau_com v,
           vk_sk_of_tau_com v, vk_z_of_tau_com v]])
        (\<lambda>t. \<lparr>vk_n = t ! 0 ! 0, vk_total_weight = row t 1 ! 0, vk_g_0 = row t 1 ! 1, vk_h_0 = row t 1 ! 2, vk_h_1 = row t 1 ! 3,
           vk_l_n_minus_1_of_tau_com = row t 1 ! 4, vk_w_of_tau_com = row t 1 ! 5, vk_sk_of_tau_com = row t 1 ! 6,
           vk_z_of_tau_com = row t 1 ! 7\<rparr>)),
      fmt_ak = canonical_of (table_code
        (\<lambda>a. [ak_n a] # rows [ak_weights a, ak_pks a, ak_qz_terms a, ak_qx_terms a, ak_qx_mul_tau_terms a])
        (\<lambda>t. \<lparr>ak_n = t ! 0 ! 0, ak_weights = row t 1, ak_pks = row t 2, ak_qz_terms = row t 3, ak_qx_terms = row t 4,
           ak_qx_mul_tau_terms = row t 5\<rparr>)),
      fmt_partial = canonical_of (table_code (\<lambda>x. rows [[x]]) (\<lambda>t. row t 0 ! 0)),
      fmt_threshold = canonical_of (table_code
        (\<lambda>p. rows [[agg_pk p, agg_weight p, agg_sig p, b_of_tau_com p, qx_of_tau_com p, qx_of_tau_mul_tau_com p, qz_of_tau_com p,
           parsum_of_tau_com p], [q_mrg_of_tau_com p, opening_proof_r p, opening_proof_r_div_omega p, parsum_of_r p,
           parsum_of_r_div_omega p, w_of_r p, b_of_r p, q_mrg_of_r p]])
        (\<lambda>t. \<lparr>agg_pk = row t 0 ! 0, agg_weight = row t 0 ! 1, agg_sig = row t 0 ! 2, b_of_tau_com = row t 0 ! 3,
           qx_of_tau_com = row t 0 ! 4, qx_of_tau_mul_tau_com = row t 0 ! 5, qz_of_tau_com = row t 0 ! 6,
           parsum_of_tau_com = row t 0 ! 7, q_mrg_of_tau_com = row t 1 ! 0, opening_proof_r = row t 1 ! 1,
           opening_proof_r_div_omega = row t 1 ! 2, parsum_of_r = row t 1 ! 3, parsum_of_r_div_omega = row t 1 ! 4,
           w_of_r = row t 1 ! 5, b_of_r = row t 1 ! 6, q_mrg_of_r = row t 1 ! 7\<rparr>)),
      fmt_contribution = canonical_of (table_code (\<lambda>p. rows [[p1_mul_z p, z_plus_hr p]])
        (\<lambda>t. \<lparr>p1_mul_z = row t 0 ! 0, z_plus_hr = row t 0 ! 1\<rparr>))\<rparr>"

lemma formats_ok_F17: "formats_ok F17"
  unfolding formats_ok_def F17_def formats.select_convs
  by (intro conjI table_code_ok) (simp_all add: rows_def row_def)

text \<open>An environment where every allocation succeeds, and the array that encodes a value.\<close>

definition env17 :: jni_env where
  "env17 = \<lparr>new_byte_array = \<lambda>_. True, set_byte_array_region = \<lambda>_. True, find_class = \<lambda>_. True, new_object = \<lambda>_ _. True\<rparr>"

lemma env_allocates17: "env_allocates env17"
  by (simp add: env_allocates_def env17_def)

definition array_of :: "'v canonical \<Rightarrow> 'v \<Rightarrow> bytes" where
  "array_of C v = (case serialize C v of Ok bs \<Rightarrow> bs | _ \<Rightarrow> [])"

lemma array_of_encodes:
  assumes "canonical_ok C"
  shows "serialize C v = Ok (array_of C v)" "encodes C (Some (array_of C v)) v"
proof -
  from assms obtain bs where "serialize C v = Ok bs" "deserialize_uncompressed C bs = Ok v" by (rule canonical_roundtrip)
  then show "serialize C v = Ok (array_of C v)" "encodes C (Some (array_of C v)) v"
    by (simp_all add: array_of_def encodes_def deserialize_jbyte_array_iff)
qed

lemma formats17:
  "canonical_ok (fmt_crs F17)" "canonical_ok (fmt_hints F17)" "canonical_ok (fmt_vk F17)" "canonical_ok (fmt_ak F17)"
  "canonical_ok (fmt_partial F17)" "canonical_ok (fmt_threshold F17)"
  using formats_ok_F17 by (simp_all add: formats_ok_def)

end
