(* ===== verification/JniProperties.thy ===== *)
theory JniProperties
  imports JniInstance
begin

text \<open>
  The native methods of the hints library as one interface: any sequence of calls, and a signing
  session that only exchanges byte arrays.
\<close>

section \<open>Sequences of calls\<close>

datatype 'f native_call =
    GenerateSecretKey jbyte_array
  | ComputeHints jbyte_array jbyte_array "32 word" "32 word"
  | ValidateHintsKey jbyte_array jbyte_array "32 word" "32 word"
  | Preprocess jbyte_array jint_array jobject_array jlong_array "32 word"
  | SignBls jbyte_array jbyte_array
  | VerifyBls jbyte_array jbyte_array jbyte_array "32 word"
  | VerifyBlsBatch 'f jbyte_array jbyte_array jint_array jobject_array
  | AggregateSignatures jbyte_array jbyte_array jbyte_array jint_array jobject_array
  | VerifyAggregate jbyte_array jbyte_array jbyte_array "64 word" "64 word"
  | ResetCache
  | InitCRS "16 word"
  | UpdateCRS jbyte_array jbyte_array
  | VerifyCRS jbyte_array jbyte_array jbyte_array
  | PruneCRS jbyte_array "16 word"

datatype jvalue = JBytes jbyte_array | JBoolean bool | JObject jobject | JVoid

definition invoke ::
  "('f::field, 'g1::ab_group_add, 'g2::ab_group_add, 'gt::ab_group_add, 'rng) ark \<Rightarrow> ('f, 'g1, 'g2) formats \<Rightarrow> jni_env
   \<Rightarrow> 'f native_call \<Rightarrow> ('f, 'g1, 'g2) hints_statics \<Rightarrow> jvalue \<times> ('f, 'g1, 'g2) hints_statics" where
  "invoke E F env call s = (case call of
       GenerateSecretKey random \<Rightarrow> apfst JBytes (generateSecretKey E F env random s)
     | ComputeHints crs sk party n \<Rightarrow> apfst JBytes (computeHintsImpl E F env crs sk party n s)
     | ValidateHintsKey crs hint party n \<Rightarrow> apfst JBoolean (validateHintsKeyImpl E F crs hint party n s)
     | Preprocess crs parties hints weights n \<Rightarrow> apfst JObject (preprocessImpl E F env crs parties hints weights n s)
     | SignBls msg sk \<Rightarrow> apfst JBytes (signBlsImpl E F env msg sk s)
     | VerifyBls sig msg ak party \<Rightarrow> apfst JBoolean (verifyBlsImpl E F sig msg ak party s)
     | VerifyBlsBatch r msg ak parties sigs \<Rightarrow> apfst JBoolean (verifyBlsBatchImpl E F r msg ak parties sigs s)
     | AggregateSignatures crs ak vk parties sigs \<Rightarrow> apfst JBytes (aggregateSignaturesImpl E F env crs ak vk parties sigs s)
     | VerifyAggregate sig msg vk num den \<Rightarrow> apfst JBoolean (verifyAggregateImpl E F sig msg vk num den s)
     | ResetCache \<Rightarrow> apfst (\<lambda>_. JVoid) (resetCache s)
     | InitCRS num \<Rightarrow> apfst JBytes (initCRSImpl E F env num s)
     | UpdateCRS prev random \<Rightarrow> apfst JBytes (updateCRSImpl E F env prev random s)
     | VerifyCRS prev nxt contribution \<Rightarrow> apfst JBoolean (verifyCRSImpl E F prev nxt contribution s)
     | PruneCRS prev num \<Rightarrow> apfst JBytes (pruneCRSImpl F env prev num s))"

definition after_calls ::
  "('f::field, 'g1::ab_group_add, 'g2::ab_group_add, 'gt::ab_group_add, 'rng) ark \<Rightarrow> ('f, 'g1, 'g2) formats \<Rightarrow> jni_env
   \<Rightarrow> 'f native_call list \<Rightarrow> ('f, 'g1, 'g2) hints_statics" where
  "after_calls E F env calls = foldl (\<lambda>s call. snd (invoke E F env call s)) hints_statics_new calls"

lemmas method_defs = generateSecretKey_def computeHintsImpl_def validateHintsKeyImpl_def preprocessImpl_def signBlsImpl_def
  verifyBlsImpl_def verifyBlsBatchImpl_def aggregateSignaturesImpl_def verifyAggregateImpl_def initCRSImpl_def
  updateCRSImpl_def verifyCRSImpl_def pruneCRSImpl_def

lemmas stateless_rules = stateless_return stateless_or_return crs_cache.stateless_lookup ak_cache.stateless_lookup

lemma stateless_apfst:
  assumes "stateless good fallback body" "good s" "good s'"
  shows "fst (apfst f (native_method fallback body s)) = fst (apfst f (native_method fallback body s'))"
    "good (snd (apfst f (native_method fallback body s)))"
  using stateless_native [OF assms] by simp_all

lemma invoke_stateless:
  assumes "statics_good F s" "statics_good F s'"
  shows "fst (invoke E F env call s) = fst (invoke E F env call s')" (is ?same)
    and "statics_good F (snd (invoke E F env call s))" (is ?kept)
proof -
  note ap = stateless_apfst [where good = "statics_good F", OF _ assms]
  have "?same \<and> ?kept"
  proof (cases call)
    case ResetCache
    then show ?thesis using reset_statics [OF assms(1)] by (simp add: invoke_def)
  next
    case (Preprocess crs parties hints weights n)
    show ?thesis unfolding Preprocess invoke_def native_call.case method_defs Let_def
      by (intro conjI ap stateless_rules) (auto intro!: stateless_rules split: prod.split)
  next
    case (UpdateCRS prev random)
    show ?thesis unfolding UpdateCRS invoke_def native_call.case method_defs Let_def
      by (intro conjI ap stateless_rules) (auto intro!: stateless_rules split: prod.split)
  qed (simp only: invoke_def native_call.case method_defs Let_def, intro conjI ap stateless_rules)+
  then show ?same ?kept by blast+
qed

lemma after_calls_good:
  assumes "formats_ok F"
  shows "statics_good F (after_calls E F env calls)"
proof (induction calls rule: rev_induct)
  case Nil
  then show ?case by (simp add: after_calls_def statics_good_new assms)
next
  case (snoc call calls)
  then show ?case using invoke_stateless(2) by (fastforce simp: after_calls_def)
qed

section \<open>A session over byte arrays\<close>

lemma preprocessImpl_keys:
  assumes good: "statics_good F s"
    and pre: "fst (preprocessImpl E F env crs_arr parties hints weights n s) = Some (cls, [Some vk_b, Some ak_b])"
  shows "\<exists>crs info vk ak. encodes (fmt_crs F) crs_arr crs \<and> preprocess E (jint_as_usize n) crs info = Ok (vk, ak) \<and>
    encodes (fmt_vk F) (Some vk_b) vk \<and> encodes (fmt_ak F) (Some ak_b) ak"
proof -
  have ok: "canonical_ok (fmt_vk F)" "canonical_ok (fmt_ak F)" using good by (simp_all add: statics_good_def formats_ok_def)
  from pre obtain crs info vk ak where
    "deserialize_jbyte_array (fmt_crs F) crs_arr = Ok crs" "preprocess E (jint_as_usize n) crs info = Ok (vk, ak)"
    "serialize_object env (fmt_vk F) vk = Ok (Some vk_b)" "serialize_object env (fmt_ak F) ak = Ok (Some ak_b)"
    using good
    by (auto simp: preprocessImpl_def method_outcomes Let_def construct_object_def split: result.splits prod.splits if_splits)
  then show ?thesis using object_encodes [OF ok(1)] object_encodes [OF ok(2)] by (auto simp: encodes_def)
qed

lemma aggregateSignatures_eq:
  assumes good: "statics_good F s" and env: "env_allocates env"
    and args: "encodes (fmt_crs F) crs_arr crs" "encodes (fmt_ak F) ak_arr ak" "encodes (fmt_vk F) vk_arr vk"
    and len: "length arrs = length parties" "length sigs = length parties"
    and sigs: "\<And>i. i < length parties \<Longrightarrow> encodes (fmt_partial F) (arrs ! i) (sigs ! i)"
    and agg: "aggregate E crs ak vk (build_hash_map parties sigs) = Ok pi_sig"
  obtains bs where "fst (aggregateSignaturesImpl E F env crs_arr ak_arr vk_arr (Some parties) (Some arrs) s) = Some bs"
    "encodes (fmt_threshold F) (Some bs) pi_sig"
proof -
  have "canonical_ok (fmt_threshold F)" using good by (simp add: statics_good_def formats_ok_def)
  then obtain bs where bs: "serialize (fmt_threshold F) pi_sig = Ok bs" "deserialize_uncompressed (fmt_threshold F) bs = Ok pi_sig"
    by (rule canonical_roundtrip)
  have read: "read_objects (fmt_partial F) (Some arrs) (length parties) = Ok sigs"
    using len sigs by (auto simp: read_objects_iff)
  have reads: "get_array_length (Some parties) = Ok (length parties)" "get_array_region (Some parties) (length parties) = Ok parties"
    by simp_all
  have "fst (aggregateSignaturesImpl E F env crs_arr ak_arr vk_arr (Some parties) (Some arrs) s) = Some bs"
    using good args bs(1) agg
    by (simp add: aggregateSignaturesImpl_def method_outcomes encodes_def reads read Let_def serialize_object_allocates [OF env])
  moreover have "encodes (fmt_threshold F) (Some bs) pi_sig" using bs(2) by (simp add: encodes_def deserialize_jbyte_array_iff)
  ultimately show thesis by (rule that)
qed

lemma verified_array:
  assumes "statics_good F s" "fst (verifyBlsImpl E F sig_arr (Some msg) ak_arr party s)" "encodes (fmt_ak F) ak_arr ak"
  shows "\<exists>sig. encodes (fmt_partial F) sig_arr sig \<and> partial_verify E msg ak (jint_as_usize party) sig = Ok True"
  using assms by (auto simp: verifyBls_iff encodes_def)

lemma native_session:
  fixes E :: "('f::field, 'g1::ab_group_add, 'g2::ab_group_add, 'gt::ab_group_add, 'rng) ark"
  assumes good: "statics_good F s0" "statics_good F s1" "statics_good F s2" and env: "env_allocates env" and enc: "encoding_ok E"
    and crs: "encodes (fmt_crs F) crs_arr crs" "hints_setting E crs tau (jint_as_usize n) w"
    and pre: "fst (preprocessImpl E F env crs_arr parties hints weights n s0) = Some (cls, [Some vk_b, Some ak_b])"
    and len: "length arrs = length signers"
    and ver: "\<And>i. i < length signers \<Longrightarrow> fst (verifyBlsImpl E F (arrs ! i) (Some msg) (Some ak_b) (signers ! i) s1)"
  shows "\<exists>bs pi_sig vk chi_q r chi_op. encodes (fmt_vk F) (Some vk_b) vk \<and>
    fst (aggregateSignaturesImpl E F env crs_arr (Some ak_b) (Some vk_b) (Some signers) (Some arrs) s2) = Some bs \<and>
    encodes (fmt_threshold F) (Some bs) pi_sig \<and> derive_challenges E vk pi_sig = Ok (chi_q, r, chi_op) \<and>
    (fst (verifyAggregateImpl E F (Some bs) (Some msg) (Some vk_b) num den s) \<longleftrightarrow>
       agg_pk pi_sig \<noteq> 0 \<and> agg_sig pi_sig \<noteq> 0 \<and> r ^ jint_as_usize n \<noteq> 1 \<and>
       fr_gt E (fr_from_i64 den * agg_weight pi_sig) (fr_from_i64 num * vk_total_weight vk))"
proof -
  obtain info vk ak where keys: "preprocess E (jint_as_usize n) crs info = Ok (vk, ak)"
    "encodes (fmt_vk F) (Some vk_b) vk" "encodes (fmt_ak F) (Some ak_b) ak"
    using preprocessImpl_keys [OF good(1) pre] encodes_unique [OF crs(1)] by blast
  define sigs where "sigs = map (\<lambda>i. SOME sig. encodes (fmt_partial F) (arrs ! i) sig \<and>
    partial_verify E msg ak (jint_as_usize (signers ! i)) sig = Ok True) [0..<length signers]"
  have sigs: "encodes (fmt_partial F) (arrs ! i) (sigs ! i) \<and> partial_verify E msg ak (jint_as_usize (signers ! i)) (sigs ! i) = Ok True"
    if "i < length signers" for i
    using someI_ex [OF verified_array [OF good(2) ver [OF that] keys(3)]] that by (simp add: sigs_def)
  have slen: "length sigs = length signers" by (simp add: sigs_def)
  have all: "partial_verify E msg ak i sig = Ok True" if "(i, sig) \<in> set (build_hash_map signers sigs)" for i sig
    using build_hash_map_entries [OF that] sigs by auto
  from aggregate_verifies [OF crs(2) enc build_hash_map_ok keys(1) all, where num = "fr_from_i64 num" and den = "fr_from_i64 den"]
  obtain pi_sig chi_q r chi_op where agg: "aggregate E crs ak vk (build_hash_map signers sigs) = Ok pi_sig"
    "derive_challenges E vk pi_sig = Ok (chi_q, r, chi_op)"
    "verify E msg vk pi_sig (fr_from_i64 num, fr_from_i64 den) = Ok True \<longleftrightarrow> agg_pk pi_sig \<noteq> 0 \<and> agg_sig pi_sig \<noteq> 0 \<and>
       fr_gt E (fr_from_i64 den * agg_weight pi_sig) (fr_from_i64 num * vk_total_weight vk) \<and> r ^ jint_as_usize n \<noteq> 1"
    by blast
  obtain bs where bs: "fst (aggregateSignaturesImpl E F env crs_arr (Some ak_b) (Some vk_b) (Some signers) (Some arrs) s2) = Some bs"
    "encodes (fmt_threshold F) (Some bs) pi_sig"
    using aggregateSignatures_eq [OF good(3) env crs(1) keys(3,2) len slen _ agg(1)] sigs by blast
  have "fst (verifyAggregateImpl E F (Some bs) (Some msg) (Some vk_b) num den s) \<longleftrightarrow>
      verify E msg vk pi_sig (fr_from_i64 num, fr_from_i64 den) = Ok True"
    using keys(2) bs(2) by (simp add: verifyAggregate_iff encodes_def)
  with agg bs keys show ?thesis by blast
qed

section \<open>The run over the field with 17 elements\<close>

definition crs_array17 :: bytes where "crs_array17 = array_of (fmt_crs F17) crs17"
definition vk_array17 :: bytes where "vk_array17 = array_of (fmt_vk F17) vk17"
definition ak_array17 :: bytes where "ak_array17 = array_of (fmt_ak F17) ak17"
definition hint_array17 :: "nat \<Rightarrow> bytes" where "hint_array17 i = array_of (fmt_hints F17) (hint17 i)"
definition sig_array17 :: "gf17 \<Rightarrow> bytes" where "sig_array17 x = array_of (fmt_partial F17) x"

lemma arrays17:
  "encodes (fmt_crs F17) (Some crs_array17) crs17" "encodes (fmt_ak F17) (Some ak_array17) ak17"
  "encodes (fmt_vk F17) (Some vk_array17) vk17" "encodes (fmt_hints F17) (Some (hint_array17 i)) (hint17 i)"
  "encodes (fmt_partial F17) (Some (sig_array17 x)) x"
  unfolding crs_array17_def ak_array17_def vk_array17_def hint_array17_def sig_array17_def
  by (intro array_of_encodes formats17)+

lemma casts17: "jint_as_usize 0 = 0" "jint_as_usize 1 = 1" "jint_as_usize 2 = 2" "jint_as_usize 4 = 4"
  by (simp_all add: jint_as_usize_nonneg)

lemma from_i64_17: "fr_from_i64 1 = Z1" "fr_from_i64 2 = Z2" "fr_from_i64 3 = Z3"
proof -
  have num: "(numeral k :: gf17) = from_int17 (numeral k)" for k by (metis of_nat_gf17 of_nat_numeral)
  show "fr_from_i64 1 = Z1" "fr_from_i64 2 = Z2" "fr_from_i64 3 = Z3"
    by (simp_all add: fr_from_i64_def num one_gf17_def from_int17_def)
qed

lemma preprocessImpl17:
  assumes "statics_good F17 s"
  shows "fst (preprocessImpl E17 F17 env17 (Some crs_array17) (Some [2, 0, 1])
      (Some [Some (hint_array17 2), Some (hint_array17 0), Some (hint_array17 1)]) (Some [3, 1, 2]) 4 s)
    = Some (''com/hedera/cryptography/hints/AggregationAndVerificationKeys'', [Some vk_array17, Some ak_array17])"
proof -
  have read: "read_objects (fmt_hints F17) (Some [Some (hint_array17 2), Some (hint_array17 0), Some (hint_array17 1)]) 3
      = Ok [hint17 2, hint17 0, hint17 1]"
    using arrays17(4) by (simp add: read_objects_iff nth_Cons' numeral_3_eq_3 less_Suc_eq)
  have reads: "get_array_length (Some [2, 0, 1 :: 32 word]) = Ok 3" "get_array_region (Some [2, 0, 1 :: 32 word]) 3 = Ok [2, 0, 1]"
    "get_array_region (Some [3, 1, 2 :: 64 word]) 3 = Ok [3, 1, 2]"
    by simp_all
  have info: "build_hash_map [2, 0, 1] [(fr_from_i64 3, hint17 2), (fr_from_i64 1, hint17 0), (fr_from_i64 2, hint17 1)] = info17"
    by (simp add: build_hash_map_def info17_def casts17 from_i64_17)
  have vk: "serialize (fmt_vk F17) vk17 = Ok vk_array17" and ak: "serialize (fmt_ak F17) ak17 = Ok ak_array17"
    unfolding vk_array17_def ak_array17_def by (intro array_of_encodes formats17)+
  have crs: "deserialize_jbyte_array (fmt_crs F17) (Some crs_array17) = Ok crs17" using arrays17(1) by (simp add: encodes_def)
  show ?thesis
    using assms
    by (simp add: preprocessImpl_def method_outcomes crs reads read info casts17 preprocess17 vk ak Let_def
        serialize_object_allocates [OF env_allocates17] construct_object_allocates [OF env_allocates17]
        del: get_array_length_iff get_array_region_iff One_nat_def)
qed

lemma verifyBls17:
  assumes "statics_good F17 s"
  shows "fst (verifyBlsImpl E17 F17 (Some (sig_array17 Z13)) (Some [7]) (Some ak_array17) 2 s)"
    "fst (verifyBlsImpl E17 F17 (Some (sig_array17 Z15)) (Some [7]) (Some ak_array17) 0 s)"
  using arrays17 partial_verify17 casts17 unfolding verifyBls_iff [OF assms] by (metis)+

section \<open>Properties\<close>

text \<open>
  C31. The caches of the native library are invisible to Java: whatever sequence of calls came before,
  with good and bad arguments and resets, every native method returns what it returns in a freshly
  loaded library.
\<close>

theorem native_calls_history_free:
  fixes E :: "('f::field, 'g1::ab_group_add, 'g2::ab_group_add, 'gt::ab_group_add, 'rng) ark"
  assumes "formats_ok F"
  shows "fst (invoke E F env call (after_calls E F env calls)) = fst (invoke E F env call hints_statics_new)"
  by (rule invoke_stateless(1) [OF after_calls_good [OF assms] statics_good_new [OF assms]])

theorem native_calls_history_free_witness:
  "fst (invoke E17 F17 env17 (VerifyBls (Some (sig_array17 Z13)) (Some [7]) (Some ak_array17) 2)
     (after_calls E17 F17 env17 [VerifyBls None (Some [7]) (Some ak_array17) 0, ResetCache, GenerateSecretKey None])) = JBoolean True"
  unfolding native_calls_history_free [OF formats_ok_F17]
  using verifyBls17(1) [OF statics_good_new [OF formats_ok_F17]] by (simp add: invoke_def)

text \<open>
  C29. A signing session over the Java boundary: when \<open>preprocessImpl\<close> returns a pair of encoded keys and
  \<open>verifyBlsImpl\<close> accepts every encoded signature under the aggregation key, at whatever points of the life
  of the library, \<open>aggregateSignaturesImpl\<close> returns an encoded threshold signature, and \<open>verifyAggregateImpl\<close>
  accepts these bytes exactly when the weight of the signature exceeds the threshold, its key and
  signature are not the identity and its challenge is not a point of the domain.
\<close>

theorem native_session_complete:
  fixes E :: "('f::field, 'g1::ab_group_add, 'g2::ab_group_add, 'gt::ab_group_add, 'rng) ark"
  assumes "formats_ok F" "env_allocates env" "encoding_ok E"
    and "encodes (fmt_crs F) crs_arr crs" "hints_setting E crs tau (jint_as_usize n) w"
    and "fst (preprocessImpl E F env crs_arr parties hints weights n (after_calls E F env calls0)) = Some (cls, [Some vk_b, Some ak_b])"
    and "length arrs = length signers"
    and "\<And>i. i < length signers \<Longrightarrow>
      fst (verifyBlsImpl E F (arrs ! i) (Some msg) (Some ak_b) (signers ! i) (after_calls E F env calls1))"
  shows "\<exists>bs pi_sig vk chi_q r chi_op. encodes (fmt_vk F) (Some vk_b) vk \<and>
    fst (aggregateSignaturesImpl E F env crs_arr (Some ak_b) (Some vk_b) (Some signers) (Some arrs) (after_calls E F env calls2)) = Some bs \<and>
    encodes (fmt_threshold F) (Some bs) pi_sig \<and> derive_challenges E vk pi_sig = Ok (chi_q, r, chi_op) \<and>
    (fst (verifyAggregateImpl E F (Some bs) (Some msg) (Some vk_b) num den (after_calls E F env calls3)) \<longleftrightarrow>
       agg_pk pi_sig \<noteq> 0 \<and> agg_sig pi_sig \<noteq> 0 \<and> r ^ jint_as_usize n \<noteq> 1 \<and>
       fr_gt E (fr_from_i64 den * agg_weight pi_sig) (fr_from_i64 num * vk_total_weight vk))"
  by (rule native_session [OF after_calls_good [OF assms(1)] after_calls_good [OF assms(1)] after_calls_good [OF assms(1)] assms(2-)])

theorem native_session_complete_witness:
  "\<exists>bs. fst (aggregateSignaturesImpl E17 F17 env17 (Some crs_array17) (Some ak_array17) (Some vk_array17) (Some [2, 0])
      (Some [Some (sig_array17 Z13), Some (sig_array17 Z15)]) (after_calls E17 F17 env17 [])) = Some bs \<and>
     fst (verifyAggregateImpl E17 F17 (Some bs) (Some [7]) (Some vk_array17) 1 3 (after_calls E17 F17 env17 []))"
proof -
  note good = after_calls_good [OF formats_ok_F17, of E17 env17 "[]"]
  let ?arrs = "[Some (sig_array17 Z13), Some (sig_array17 Z15)]"
  have ver: "fst (verifyBlsImpl E17 F17 (?arrs ! i) (Some [7]) (Some ak_array17) ([2, 0] ! i) (after_calls E17 F17 env17 []))"
    if "i < length [2, 0 :: 32 word]" for i
    using that verifyBls17 [OF good] by (auto simp: less_Suc_eq)
  have set: "hints_setting E17 crs17 Z3 (jint_as_usize 4) Z4" using setting17 casts17(4) by simp
  from native_session_complete [OF formats_ok_F17 env_allocates17 encoding_ok_E17 arrays17(1) set preprocessImpl17 [OF good] _ ver,
      where num = 1 and den = 3]
  obtain bs pi_sig vk chi_q r chi_op where res: "encodes (fmt_vk F17) (Some vk_array17) vk"
    "fst (aggregateSignaturesImpl E17 F17 env17 (Some crs_array17) (Some ak_array17) (Some vk_array17) (Some [2, 0])
      (Some ?arrs) (after_calls E17 F17 env17 [])) = Some bs" "encodes (fmt_threshold F17) (Some bs) pi_sig"
    "derive_challenges E17 vk pi_sig = Ok (chi_q, r, chi_op)"
    "fst (verifyAggregateImpl E17 F17 (Some bs) (Some [7]) (Some vk_array17) 1 3 (after_calls E17 F17 env17 [])) \<longleftrightarrow>
       agg_pk pi_sig \<noteq> 0 \<and> agg_sig pi_sig \<noteq> 0 \<and> r ^ jint_as_usize 4 \<noteq> 1 \<and>
       fr_gt E17 (fr_from_i64 3 * agg_weight pi_sig) (fr_from_i64 1 * vk_total_weight vk)"
    by fastforce
  have "build_hash_map [2, 0] [Z13, Z15] = sigs17" by (simp add: build_hash_map_def sigs17_def casts17)
  then have agg: "aggregate E17 crs17 ak17 vk17 (build_hash_map [2, 0] [Z13, Z15]) = Ok sig17" using aggregate17 by simp
  have sigs: "encodes (fmt_partial F17) (?arrs ! i) ([Z13, Z15] ! i)" if "i < length [2, 0 :: 32 word]" for i
    using that arrays17(5) by (auto simp: less_Suc_eq)
  have "encodes (fmt_threshold F17) (Some bs) sig17"
  proof (rule aggregateSignatures_eq [OF good env_allocates17 arrays17(1,2,3) _ _ sigs agg])
    fix bs' assume "encodes (fmt_threshold F17) (Some bs') sig17"
      "fst (aggregateSignaturesImpl E17 F17 env17 (Some crs_array17) (Some ak_array17) (Some vk_array17) (Some [2, 0])
        (Some ?arrs) (after_calls E17 F17 env17 [])) = Some bs'"
    with res(2) show ?thesis by simp
  qed simp_all
  then have "pi_sig = sig17" by (rule encodes_unique [OF res(3)])
  moreover have "vk = vk17" by (rule encodes_unique [OF res(1) arrays17(3)])
  ultimately show ?thesis
    using res(2,4,5) derive17 by (auto simp: casts17 from_i64_17 accepted17)
qed

end
