(* ===== verification/WrapsBase.thy ===== *)
theory WrapsBase
  imports SigmaProtocol
begin

text \<open>
  The foundations of the rotation crate (\<^verbatim>\<open>nova-wraps\<close>): \<^verbatim>\<open>constants.rs\<close>, \<^verbatim>\<open>error.rs\<close>, \<^verbatim>\<open>utils.rs\<close>,
  \<^verbatim>\<open>poseidon.rs\<close>. The third-party code (the Grumpkin group and its fields, the Poseidon sponge, the
  hash and the random generators, bincode) is a record of parameters.
\<close>

section \<open>Parameters\<close>

datatype sponge_op = SpongeAbsorb "32 word" | SpongeSqueeze "32 word"

record ('b, 's, 'g, 'rng) engine =
  ge_gen :: 'g
  ge_mul :: "'g \<Rightarrow> 's \<Rightarrow> 'g"
  to_coordinates :: "'g \<Rightarrow> 'b \<times> 'b \<times> bool"
  field_switch :: "'b \<Rightarrow> 's"
  to_le_bits :: "'b \<Rightarrow> bool list"
  to_repr :: "'b \<Rightarrow> bytes"
  sponge_squeeze :: "sponge_op list \<Rightarrow> 32 word \<Rightarrow> 'b list \<Rightarrow> 'b"
  engine_sha256 :: "bytes \<Rightarrow> bytes"
  chacha20_from_seed :: "bytes \<Rightarrow> 'rng"
  scalar_random :: "'rng \<Rightarrow> 's"
  NUM_CHALLENGE_BITS :: nat

text \<open>
  \<^item> \<open>sponge_squeeze pattern ds elements\<close> is the first element that a Poseidon sponge over the
    standard constants squeezes after absorbing \<open>elements\<close> under an IO pattern and a domain separator.
  \<^item> \<open>to_coordinates\<close> gives the affine coordinates and the infinity flag.
  \<^item> \<open>scalar_random\<close> is the first scalar a generator yields.
\<close>

definition engine_ok :: "('b::field, 's::field, 'g::ab_group_add, 'rng) engine \<Rightarrow> bool" where
  "engine_ok W \<longleftrightarrow>
     (\<forall>P a b. ge_mul W P (a + b) = ge_mul W P a + ge_mul W P b) \<and>
     (\<forall>P Q a. ge_mul W (P + Q) a = ge_mul W P a + ge_mul W Q a) \<and>
     (\<forall>P a b. ge_mul W (ge_mul W P a) b = ge_mul W P (a * b)) \<and>
     (\<forall>P. ge_mul W P 1 = P) \<and>
     (\<forall>P. snd (snd (to_coordinates W P)) \<longleftrightarrow> P = 0)"

interpretation ge: scalar_action "engine_ok W" "ge_mul W"
  for W :: "('b::field, 's::field, 'g::ab_group_add, 'rng) engine"
  by unfold_locales (simp_all add: engine_ok_def)

abbreviation is_infinity :: "('b, 's, 'g, 'rng) engine \<Rightarrow> 'g \<Rightarrow> bool" where
  "is_infinity W P \<equiv> snd (snd (to_coordinates W P))"

lemma infinity_iff: "engine_ok W \<Longrightarrow> is_infinity W P \<longleftrightarrow> P = 0"
  by (simp add: engine_ok_def)

section \<open>Constants and errors\<close>

definition MAX_AB_SIZE :: nat where "MAX_AB_SIZE = 64"
definition ENTROPY_SIZE :: nat where "ENTROPY_SIZE = 32"
definition WEIGHT_BITS :: nat where "WEIGHT_BITS = 64"
definition DS_ADDRESS_BOOK :: "32 word" where "DS_ADDRESS_BOOK = 1"
definition DS_CHALLENGE :: "32 word" where "DS_CHALLENGE = 3"
definition DST_HINTS_VK :: bytes where "DST_HINTS_VK = ascii_bytes ''WRAPS-hints-vk-v1''"
definition DST_POK :: bytes where "DST_POK = ascii_bytes ''WRAPS-schnorr-pok-sha256-mod-v4''"
definition DST_NONCE_COMMITMENT :: bytes where
  "DST_NONCE_COMMITMENT = ascii_bytes ''WRAPS-schnorr-nonce-commitment-v1''"

datatype wraps_error = InvalidInput string | Cryptography string

fun fmt_wraps_error :: "wraps_error \<Rightarrow> string" where
  "fmt_wraps_error (InvalidInput msg) = ''invalid input: '' @ msg"
| "fmt_wraps_error (Cryptography msg) = ''cryptography error: '' @ msg"

text \<open>The apostrophe of error messages.\<close>

abbreviation apostrophe :: string where "apostrophe \<equiv> [CHR 0x27]"

section \<open>Utilities\<close>

type_synonym bit_vector = "bool list"

definition bitvector_msg :: "nat \<Rightarrow> string" where
  "bitvector_msg n = ''bitvector has '' @ fmt_usize n @ '' bits, more than the '' @ fmt_usize MAX_AB_SIZE @
     '' seats the circuit can take''"

definition pad_bitvector :: "bool list \<Rightarrow> (bit_vector, wraps_error) result" where
  "pad_bitvector bitvector =
     (if length bitvector > MAX_AB_SIZE then Err (InvalidInput (bitvector_msg (length bitvector)))
      else Ok (map (\<lambda>i. if i < length bitvector then bitvector ! i else False) [0..<MAX_AB_SIZE]))"

text \<open>
  The bincode codec of one type: serialization, and deserialization of a prefix with the number of
  bytes it consumed.
\<close>

record 'v codec =
  codec_ser :: "'v \<Rightarrow> (bytes, string) result"
  codec_de :: "bytes \<Rightarrow> ('v \<times> nat, string) result"

definition encode :: "'v codec \<Rightarrow> 'v \<Rightarrow> (bytes, wraps_error) result" where
  "encode c v = map_err (\<lambda>e. Cryptography (''serialization failed: '' @ e)) (codec_ser c v)"

definition decode :: "'v codec \<Rightarrow> bytes \<Rightarrow> ('v, wraps_error) result" where
  "decode c bs =
     and_then (map_err (\<lambda>e. Cryptography (''deserialization failed: '' @ e)) (codec_de c bs)) (\<lambda>(v, consumed).
       if consumed \<noteq> length bs then Err (InvalidInput ''trailing bytes after serialized value'') else Ok v)"

text \<open>Documented behaviour of a codec: what is serialized is deserialized, and consumed exactly.\<close>

definition codec_ok :: "'v codec \<Rightarrow> bool" where
  "codec_ok c \<longleftrightarrow> (\<forall>v. \<exists>bs. codec_ser c v = Ok bs \<and> codec_de c bs = Ok (v, length bs))"

lemma decode_encode: "codec_ok c \<Longrightarrow> \<exists>bs. encode c v = Ok bs \<and> decode c bs = Ok v"
proof -
  assume "codec_ok c"
  then obtain bs where "codec_ser c v = Ok bs" "codec_de c bs = Ok (v, length bs)" by (auto simp: codec_ok_def)
  then show ?thesis by (simp add: encode_def decode_def)
qed

definition expand_seed :: "('b, 's, 'g, 'rng) engine \<Rightarrow> bytes \<Rightarrow> bytes \<times> bytes" where
  "expand_seed W seed = (engine_sha256 W (seed @ [0]), engine_sha256 W (seed @ [1]))"

text \<open>\<open>bits[i]\<close> panics beyond the width of the field; the challenge width is below it.\<close>

definition le_bits_of :: "('b, 's, 'g, 'rng) engine \<Rightarrow> 'b \<Rightarrow> nat \<Rightarrow> bool list" where
  "le_bits_of W x num_bits = map (\<lambda>i. to_le_bits W x ! i) [0..<num_bits]"

definition encode_point :: "('b::field, 's, 'g, 'rng) engine \<Rightarrow> 'g \<Rightarrow> 'b list" where
  "encode_point W p = (let (x, y, inf) = to_coordinates W p in [x, y, if inf then 1 else 0])"

definition poseidon_native :: "('b, 's, 'g, 'rng) engine \<Rightarrow> 32 word \<Rightarrow> 'b list \<Rightarrow> 'b" where
  "poseidon_native W domain_sep elements =
     (let num_absorbs = of_nat (length elements);
          pattern = [SpongeAbsorb num_absorbs, SpongeSqueeze 1]
      in sponge_squeeze W pattern domain_sep elements)"

text \<open>A big-endian byte string as a field element, by Horner evaluation.\<close>

definition horner_be :: "bytes \<Rightarrow> 'f::field" where
  "horner_be digest = foldl (\<lambda>acc byte. acc * of_nat 256 + of_nat (unat byte)) 0 digest"

lemma pad_bitvector_ok:
  "pad_bitvector b = Ok bv \<Longrightarrow> length bv = MAX_AB_SIZE"
  by (auto simp: pad_bitvector_def split: if_splits)

lemma pad_bitvector_eq:
  "length b \<le> MAX_AB_SIZE \<Longrightarrow> pad_bitvector b = Ok (b @ replicate (MAX_AB_SIZE - length b) False)"
  by (auto simp: pad_bitvector_def nth_append intro!: nth_equalityI split: if_splits)

lemma length_encode_point [simp]: "length (encode_point W p) = 3"
  by (simp add: encode_point_def split_def Let_def)

end
