(* ===== verification/WrapsSchnorr.thy ===== *)
theory WrapsSchnorr
  imports WrapsBase
begin

text \<open>
  Schnorr signatures, key proofs and the three-round multisignature of \<^verbatim>\<open>schnorr.rs\<close>. Nonces that
  the code draws from the operating system are arguments.
\<close>

record ('s, 'g) keypair =
  kp_sk :: 's
  kp_pk :: 'g

record ('b, 's) schnorr_signature =
  sig_e :: 'b
  sig_s :: 's

record ('s, 'g) schnorr_pok =
  pok_commitment :: 'g
  pok_challenge_field :: 's
  pok_response :: 's

section \<open>Single signer\<close>

definition truncate_to_challenge :: "('b::field, 's, 'g, 'rng) engine \<Rightarrow> 'b \<Rightarrow> 'b" where
  "truncate_to_challenge W x =
     fst (foldl (\<lambda>(acc, coeff) bit. (if bit then acc + coeff else acc, coeff + coeff)) (0, 1)
       (le_bits_of W x (NUM_CHALLENGE_BITS W)))"

definition schnorr_challenge :: "('b::field, 's, 'g, 'rng) engine \<Rightarrow> 'g \<Rightarrow> 'g \<Rightarrow> 'b list \<Rightarrow> 'b" where
  "schnorr_challenge W pk r msg =
     (let pk = encode_point W pk;
          r = encode_point W r;
          elements = concat [pk, r, msg]
      in truncate_to_challenge W (poseidon_native W DS_CHALLENGE elements))"

definition schnorr_keygen :: "('b, 's, 'g, 'rng) engine \<Rightarrow> 'rng \<Rightarrow> ('s, 'g) keypair" where
  "schnorr_keygen W rng =
     (let sk = scalar_random W rng; pk = ge_mul W (ge_gen W) sk in \<lparr>kp_sk = sk, kp_pk = pk\<rparr>)"

definition schnorr_sign ::
  "('b::field, 's::field, 'g, 'rng) engine \<Rightarrow> 's \<Rightarrow> ('s, 'g) keypair \<Rightarrow> 'b list \<Rightarrow> ('b, 's) schnorr_signature" where
  "schnorr_sign W k kp msg =
     (let r = ge_mul W (ge_gen W) k;
          e = schnorr_challenge W (kp_pk kp) r msg;
          s = k + kp_sk kp * field_switch W e
      in \<lparr>sig_e = e, sig_s = s\<rparr>)"

definition schnorr_verify ::
  "('b::field, 's, 'g::ab_group_add, 'rng) engine \<Rightarrow> 'g \<Rightarrow> 'b list \<Rightarrow> ('b, 's) schnorr_signature \<Rightarrow> bool" where
  "schnorr_verify W pk msg sig =
     (let e = field_switch W (sig_e sig);
          r = ge_mul W (ge_gen W) (sig_s sig) - ge_mul W pk e
      in schnorr_challenge W pk r msg = sig_e sig)"

definition pok_challenge :: "('b::field, 's::field, 'g, 'rng) engine \<Rightarrow> 'g \<Rightarrow> 'g \<Rightarrow> 's" where
  "pok_challenge W pk commitment =
     (let hashed = DST_POK @ concat (map (\<lambda>point. concat (map (to_repr W) (encode_point W point)))
            [ge_gen W, pk, commitment])
      in horner_be (engine_sha256 W hashed))"

definition prove_knowledge ::
  "('b::field, 's::field, 'g, 'rng) engine \<Rightarrow> ('s, 'g) keypair \<Rightarrow> 'rng \<Rightarrow> ('s, 'g) schnorr_pok" where
  "prove_knowledge W kp rng =
     (let r = scalar_random W rng;
          commitment = ge_mul W (ge_gen W) r;
          challenge = pok_challenge W (kp_pk kp) commitment;
          response = r + kp_sk kp * challenge
      in \<lparr>pok_commitment = commitment, pok_challenge_field = challenge, pok_response = response\<rparr>)"

definition verify_knowledge ::
  "('b::field, 's::field, 'g::ab_group_add, 'rng) engine \<Rightarrow> 'g \<Rightarrow> ('s, 'g) schnorr_pok \<Rightarrow> bool" where
  "verify_knowledge W pk pok =
     (if pok_challenge W pk (pok_commitment pok) \<noteq> pok_challenge_field pok then False
      else ge_mul W (ge_gen W) (pok_response pok) = pok_commitment pok + ge_mul W pk (pok_challenge_field pok))"

section \<open>Multisignature\<close>

text \<open>\<open>iter().position(p)\<close>: the index of the first element that satisfies \<open>p\<close>.\<close>

fun find_index :: "('a \<Rightarrow> bool) \<Rightarrow> 'a list \<Rightarrow> nat option" where
  "find_index p [] = None"
| "find_index p (x # xs) = (if p x then Some 0 else map_option Suc (find_index p xs))"

record multisig_round1 =
  nonce_commitment :: bytes

record 'g multisig_round2 =
  nonce_point :: 'g

record ('b, 's) multisig_round3 =
  partial_signature :: "('b, 's) schnorr_signature"

datatype ('b, 's, 'g) round_message =
    Round1 multisig_round1
  | Round2 "'g multisig_round2"
  | Round3 "('b, 's) multisig_round3"

definition multisig_nonce :: "('b, 's, 'g, 'rng) engine \<Rightarrow> bytes \<Rightarrow> 'b list \<Rightarrow> 's" where
  "multisig_nonce W protocol_instance_entropy msg =
     (let seed = engine_sha256 W (protocol_instance_entropy @ concat (map (to_repr W) msg))
      in scalar_random W (chacha20_from_seed W seed))"

definition commit_nonce :: "('b::field, 's, 'g, 'rng) engine \<Rightarrow> 'g \<Rightarrow> multisig_round1" where
  "commit_nonce W r =
     \<lparr>nonce_commitment = engine_sha256 W (DST_NONCE_COMMITMENT @ concat (map (to_repr W) (encode_point W r)))\<rparr>"

definition empty_set_msg :: string where
  "empty_set_msg = ''a signing set must have at least one member''"

definition aggregate_key :: "'g::ab_group_add list \<Rightarrow> ('g, wraps_error) result" where
  "aggregate_key public_keys =
     (case public_keys of
        [] \<Rightarrow> Err (InvalidInput empty_set_msg)
      | pk # pks \<Rightarrow> Ok (foldl (\<lambda>acc pk. acc + pk) pk pks))"

definition multisig_round1_of :: "('b::field, 's, 'g, 'rng) engine \<Rightarrow> bytes \<Rightarrow> 'b list \<Rightarrow> multisig_round1" where
  "multisig_round1_of W entropy msg = commit_nonce W (ge_mul W (ge_gen W) (multisig_nonce W entropy msg))"

definition multisig_round2_of :: "('b, 's, 'g, 'rng) engine \<Rightarrow> bytes \<Rightarrow> 'b list \<Rightarrow> 'g multisig_round2" where
  "multisig_round2_of W entropy msg = \<lparr>nonce_point = ge_mul W (ge_gen W) (multisig_nonce W entropy msg)\<rparr>"

definition opening_msg :: "nat \<Rightarrow> string" where
  "opening_msg i = ''signer '' @ fmt_usize i @ '': the round-2 nonce does not open its round-1 commitment''"

text \<open>A loop over the positions that stops at the first error.\<close>

definition for_each :: "(nat \<Rightarrow> (unit, 'e) result) \<Rightarrow> nat \<Rightarrow> (unit, 'e) result" where
  "for_each f n = fold_result (\<lambda>i _. f i) [0..<n] ()"

definition multisig_challenge ::
  "('b::field, 's, 'g::ab_group_add, 'rng) engine \<Rightarrow> 'b list \<Rightarrow> 'g list \<Rightarrow> multisig_round1 list
   \<Rightarrow> 'g multisig_round2 list \<Rightarrow> ('b, wraps_error) result" where
  "multisig_challenge W msg public_keys round1 round2 =
     (let n = length public_keys in
      if n = 0 then Err (InvalidInput empty_set_msg)
      else if length round1 \<noteq> n \<or> length round2 \<noteq> n
      then Err (InvalidInput ''round-1 and round-2 message counts must match the signing set'')
      else
        and_then (for_each (\<lambda>i.
            and_then (index round2 i) (\<lambda>r.
            and_then (index round1 i) (\<lambda>c.
              if commit_nonce W (nonce_point r) \<noteq> c then Err (InvalidInput (opening_msg i)) else Ok ())))
          (length round2)) (\<lambda>_.
        let nonce_points = map nonce_point round2 in
        and_then (aggregate_key nonce_points) (\<lambda>aggregate_r.
        and_then (aggregate_key public_keys) (\<lambda>aggregate_pk.
        if is_infinity W aggregate_pk
        then Err (InvalidInput (''the signing set'' @ apostrophe @ ''s aggregate public key must not be the identity''))
        else Ok (schnorr_challenge W aggregate_pk aggregate_r msg)))))"

definition multisig_round3_of ::
  "('b::field, 's::field, 'g::ab_group_add, 'rng) engine \<Rightarrow> bytes \<Rightarrow> 'b list \<Rightarrow> 's \<Rightarrow> 'g list
   \<Rightarrow> multisig_round1 list \<Rightarrow> 'g multisig_round2 list \<Rightarrow> (('b, 's) multisig_round3, wraps_error) result" where
  "multisig_round3_of W entropy msg sk public_keys round1 round2 =
     and_then (multisig_challenge W msg public_keys round1 round2) (\<lambda>e.
     let nonce = multisig_nonce W entropy msg;
         pk = ge_mul W (ge_gen W) sk;
         own_point = ge_mul W (ge_gen W) nonce in
     case find_index (\<lambda>participant. participant = pk) public_keys of
       None \<Rightarrow> Err (InvalidInput ''R3 signing key is not in the signing subset'')
     | Some signer \<Rightarrow>
         and_then (index round2 signer) (\<lambda>r.
         if nonce_point r \<noteq> own_point
         then Err (InvalidInput (''R3 session entropy or message does not match the signer'' @ apostrophe @ ''s round-2 nonce''))
         else
           let s = nonce + sk * field_switch W e
           in Ok \<lparr>partial_signature = \<lparr>sig_e = e, sig_s = s\<rparr>\<rparr>))"

definition wrong_challenge_msg :: "nat \<Rightarrow> string" where
  "wrong_challenge_msg i = ''signer '' @ fmt_usize i @ '': partial signature answers a different challenge''"

definition bad_share_msg :: "nat \<Rightarrow> string" where
  "bad_share_msg i = ''signer '' @ fmt_usize i @ '': partial signature does not verify against its own nonce and key''"

definition check_share ::
  "('b, 's, 'g::ab_group_add, 'rng) engine \<Rightarrow> 'b \<Rightarrow> 's \<Rightarrow> 'g list \<Rightarrow> 'g multisig_round2 list
   \<Rightarrow> ('b, 's) multisig_round3 list \<Rightarrow> nat \<Rightarrow> (unit, wraps_error) result" where
  "check_share W e e_scalar public_keys round2 round3 i =
     and_then (index round3 i) (\<lambda>message.
     let partial = partial_signature message in
     if sig_e partial \<noteq> e then Err (InvalidInput (wrong_challenge_msg i))
     else
       and_then (index public_keys i) (\<lambda>pk.
       and_then (index round2 i) (\<lambda>r.
       if ge_mul W (ge_gen W) (sig_s partial) - ge_mul W pk e_scalar \<noteq> nonce_point r
       then Err (InvalidInput (bad_share_msg i)) else Ok ())))"

definition multisig_aggregate ::
  "('b::field, 's::field, 'g::ab_group_add, 'rng) engine \<Rightarrow> 'b list \<Rightarrow> 'g list \<Rightarrow> multisig_round1 list
   \<Rightarrow> 'g multisig_round2 list \<Rightarrow> ('b, 's) multisig_round3 list \<Rightarrow> (('b, 's) schnorr_signature, wraps_error) result" where
  "multisig_aggregate W msg public_keys round1 round2 round3 =
     (if length round3 \<noteq> length public_keys
      then Err (InvalidInput ''round-3 message count must match the signing set'')
      else
        and_then (multisig_challenge W msg public_keys round1 round2) (\<lambda>e.
        let e_scalar = field_switch W e in
        and_then (for_each (check_share W e e_scalar public_keys round2 round3) (length round3)) (\<lambda>_.
        let s = foldl (\<lambda>acc partial. acc + sig_s (partial_signature partial)) 0 round3
        in Ok \<lparr>sig_e = e, sig_s = s\<rparr>)))"

section \<open>Single-signer lemmas\<close>

lemma response_eq:
  fixes W :: "('b::field, 's::field, 'g::ab_group_add, 'rng) engine"
  assumes "engine_ok W"
  shows "ge_mul W B (k + x * c) = ge_mul W B k + ge_mul W (ge_mul W B x) c"
  using ge.response_complete [OF assms, of B k c x] by (simp only: mult.commute)

lemma sign_verifies:
  fixes W :: "('b::field, 's::field, 'g::ab_group_add, 'rng) engine"
  assumes "engine_ok W" "kp_pk kp = ge_mul W (ge_gen W) (kp_sk kp)"
  shows "schnorr_verify W (kp_pk kp) msg (schnorr_sign W k kp msg)"
  by (simp add: schnorr_verify_def schnorr_sign_def assms(2) Let_def response_eq [OF assms(1)])

lemma knowledge_verifies:
  fixes W :: "('b::field, 's::field, 'g::ab_group_add, 'rng) engine"
  assumes "engine_ok W" "kp_pk kp = ge_mul W (ge_gen W) (kp_sk kp)"
  shows "verify_knowledge W (kp_pk kp) (prove_knowledge W kp rng)"
  by (simp add: verify_knowledge_def prove_knowledge_def assms(2) Let_def response_eq [OF assms(1)])

lemma knowledge_extraction:
  fixes W :: "('b::field, 's::field, 'g::ab_group_add, 'rng) engine"
  assumes "engine_ok W" "verify_knowledge W pk pok" "verify_knowledge (W\<lparr>engine_sha256 := H\<rparr>) pk pok'"
    and "pok_commitment pok = pok_commitment pok'" "pok_challenge_field pok \<noteq> pok_challenge_field pok'"
  shows "pk = ge_mul W (ge_gen W) ((pok_response pok - pok_response pok') / (pok_challenge_field pok - pok_challenge_field pok'))"
  using assms by (intro ge.extract_exponent [where R = "pok_commitment pok"]) (auto simp: verify_knowledge_def split: if_splits)

section \<open>Loops over positions\<close>

lemma for_each_Suc: "for_each f (Suc n) = and_then (for_each f n) (\<lambda>_. f n)"
proof -
  have "and_then (f n) (fold_result (\<lambda>i _. f i) []) = f n" by (cases "f n") auto
  then show ?thesis
    by (cases "fold_result (\<lambda>i _. f i) [0..<n] ()") (simp_all add: for_each_def fold_result_append)
qed

lemma for_each_Ok: "for_each f n = Ok () \<longleftrightarrow> (\<forall>i < n. f i = Ok ())"
proof (induction n)
  case (Suc n)
  then show ?case by (auto simp: less_Suc_eq for_each_Suc)
qed (simp add: for_each_def)

lemma for_each_Err:
  assumes "for_each f n = Err e"
  obtains i where "i < n" "f i = Err e" "\<And>j. j < i \<Longrightarrow> f j = Ok ()"
  using assms
proof (induction n arbitrary: thesis)
  case (Suc n)
  consider "for_each f n = Err e" | "for_each f n = Ok ()" "f n = Err e"
    using Suc.prems(2) by (auto simp: for_each_Suc and_then_eq_Err)
  then show ?case
  proof cases
    case 1
    then show ?thesis using Suc.IH [OF _ 1] Suc.prems(1) by (metis less_SucI)
  next
    case 2
    then show ?thesis using Suc.prems(1) [of n] for_each_Ok [of f n] by simp
  qed
qed (simp add: for_each_def)

lemma for_each_first:
  assumes "i < n" "\<And>j. j < i \<Longrightarrow> f j = Ok ()" "f i = Err e"
  shows "for_each f n = Err e"
  using assms(1)
proof (induction n)
  case (Suc n)
  show ?case
  proof (cases "i = n")
    case True
    then have "for_each f n = Ok ()" using assms(2) by (simp add: for_each_Ok)
    then show ?thesis using True assms(3) by (simp add: for_each_Suc)
  next
    case False
    then show ?thesis using Suc by (simp add: for_each_Suc)
  qed
qed simp

lemma aggregate_key_eq:
  "aggregate_key pks = (if pks = [] then Err (InvalidInput empty_set_msg) else Ok (sum_list pks))"
proof (cases pks)
  case (Cons pk rest)
  have "foldl (\<lambda>acc pk. acc + pk) a xs = a + sum_list xs" for a :: 'a and xs
    by (induction xs arbitrary: a) (simp_all add: add.assoc)
  then show ?thesis using Cons by (simp add: aggregate_key_def)
qed (simp add: aggregate_key_def)

section \<open>Multisignature lemmas\<close>

definition openings_hold ::
  "('b::field, 's, 'g, 'rng) engine \<Rightarrow> multisig_round1 list \<Rightarrow> 'g multisig_round2 list \<Rightarrow> bool" where
  "openings_hold W round1 round2 \<longleftrightarrow> round1 = map (\<lambda>r. commit_nonce W (nonce_point r)) round2"

lemma multisig_challenge_iff:
  fixes W :: "('b::field, 's::field, 'g::ab_group_add, 'rng) engine"
  assumes "engine_ok W"
  shows "multisig_challenge W msg pks round1 round2 = Ok e \<longleftrightarrow>
    pks \<noteq> [] \<and> length round2 = length pks \<and> openings_hold W round1 round2 \<and> sum_list pks \<noteq> 0 \<and>
    e = schnorr_challenge W (sum_list pks) (\<Sum>r\<leftarrow>round2. nonce_point r) msg"
proof -
  let ?f = "\<lambda>i. and_then (index round2 i) (\<lambda>r. and_then (index round1 i) (\<lambda>c.
      if commit_nonce W (nonce_point r) \<noteq> c then Err (InvalidInput (opening_msg i)) else Ok ()))"
  have ops: "for_each ?f (length round2) = Ok () \<longleftrightarrow> openings_hold W round1 round2" if "length round1 = length round2"
  proof -
    have "?f i = Ok () \<longleftrightarrow> round1 ! i = commit_nonce W (nonce_point (round2 ! i))" if "i < length round2" for i
      using that \<open>length round1 = length round2\<close> by auto
    then show ?thesis using that by (simp add: for_each_Ok openings_hold_def list_eq_iff_nth_eq)
  qed
  have u: "and_then r k = Ok e \<longleftrightarrow> r = Ok () \<and> k () = Ok e" for r :: "(unit, wraps_error) result" and k
    by (cases r) auto
  show ?thesis
  proof (cases "pks \<noteq> [] \<and> length round1 = length pks \<and> length round2 = length pks")
    case True
    then have "round2 \<noteq> []" by auto
    then show ?thesis
      using True ops by (auto simp: multisig_challenge_def u aggregate_key_eq infinity_iff [OF assms] Let_def)
  next
    case False
    then show ?thesis by (auto simp: multisig_challenge_def openings_hold_def Let_def)
  qed
qed

text \<open>Whatever the aggregator returns is a valid signature of the joint key.\<close>

lemma check_share_iff:
  assumes "length round3 = length pks" "length round2 = length pks" "i < length pks"
  shows "check_share W e es pks round2 round3 i = Ok () \<longleftrightarrow>
    sig_e (partial_signature (round3 ! i)) = e \<and>
    ge_mul W (ge_gen W) (sig_s (partial_signature (round3 ! i))) - ge_mul W (pks ! i) es = nonce_point (round2 ! i)"
  using assms by (auto simp: check_share_def Let_def)

lemma sum_shares:
  fixes W :: "('b::field, 's::field, 'g::ab_group_add, 'rng) engine"
  assumes "engine_ok W" "length ss = length pks" "length rs = length pks"
    and "\<And>i. i < length pks \<Longrightarrow> ge_mul W B (ss ! i) - ge_mul W (pks ! i) e = rs ! i"
  shows "ge_mul W B (sum_list ss) - ge_mul W (sum_list pks) e = sum_list rs"
  using assms(2-4)
proof (induction pks arbitrary: ss rs)
  case Nil
  then show ?case by (simp add: ge.act_zero [OF assms(1)] ge.act_zero_point [OF assms(1)])
next
  case (Cons pk pks)
  obtain s ss' r rs' where c: "ss = s # ss'" "rs = r # rs'"
    using Cons.prems(1,2) by (cases ss; cases rs) auto
  have "ge_mul W B (sum_list ss') - ge_mul W (sum_list pks) e = sum_list rs'"
    using Cons.prems(1,2) Cons.prems(3) [of "Suc i" for i] by (intro Cons.IH) (auto simp: c)
  moreover have "ge_mul W B s - ge_mul W pk e = r" using Cons.prems(3) [of 0] by (simp add: c)
  ultimately show ?case
    by (simp add: c ge.act_add_scalar [OF assms(1)] ge.act_add_point [OF assms(1)] algebra_simps)
qed

lemma foldl_sum: "foldl (\<lambda>acc x. acc + f x) (a :: 'a::comm_monoid_add) xs = a + (\<Sum>x\<leftarrow>xs. f x)"
  by (induction xs arbitrary: a) (simp_all add: add.assoc)

lemma multisig_aggregate_iff:
  fixes W :: "('b::field, 's::field, 'g::ab_group_add, 'rng) engine"
  assumes "engine_ok W"
  shows "multisig_aggregate W msg pks round1 round2 round3 = Ok sig \<longleftrightarrow>
    length round3 = length pks \<and> multisig_challenge W msg pks round1 round2 = Ok (sig_e sig) \<and>
    (\<forall>i < length pks. check_share W (sig_e sig) (field_switch W (sig_e sig)) pks round2 round3 i = Ok ()) \<and>
    sig_s sig = (\<Sum>m\<leftarrow>round3. sig_s (partial_signature m))"
proof -
  have u: "and_then r k = Ok e \<longleftrightarrow> r = Ok () \<and> k () = Ok e" for r :: "(unit, wraps_error) result" and k and e :: "('b, 's) schnorr_signature"
    by (cases r) auto
  show ?thesis
    by (cases sig) (auto simp: multisig_aggregate_def u for_each_Ok foldl_sum Let_def)
qed

lemma aggregate_nonce_sum:
  fixes W :: "('b::field, 's::field, 'g::ab_group_add, 'rng) engine"
  assumes ok: "engine_ok W" and agg: "multisig_aggregate W msg pks round1 round2 round3 = Ok sig"
  shows "ge_mul W (ge_gen W) (sig_s sig) - ge_mul W (sum_list pks) (field_switch W (sig_e sig)) = (\<Sum>r\<leftarrow>round2. nonce_point r)"
proof -
  note a = agg [unfolded multisig_aggregate_iff [OF ok]]
  have len: "length round3 = length pks" "length round2 = length pks"
    using a by (auto simp: multisig_challenge_iff [OF ok])
  have "ge_mul W (ge_gen W) (\<Sum>m\<leftarrow>round3. sig_s (partial_signature m)) - ge_mul W (sum_list pks) (field_switch W (sig_e sig))
      = (\<Sum>r\<leftarrow>round2. nonce_point r)"
  proof (rule sum_shares [OF ok])
    fix i assume "i < length pks"
    then show "ge_mul W (ge_gen W) (map (\<lambda>m. sig_s (partial_signature m)) round3 ! i)
        - ge_mul W (pks ! i) (field_switch W (sig_e sig)) = map nonce_point round2 ! i"
      using a check_share_iff [OF len, of i] len by auto
  qed (use len in simp_all)
  then show ?thesis using a by simp
qed

lemma aggregate_is_valid:
  fixes W :: "('b::field, 's::field, 'g::ab_group_add, 'rng) engine"
  assumes ok: "engine_ok W" and agg: "multisig_aggregate W msg pks round1 round2 round3 = Ok sig"
  shows "schnorr_verify W (sum_list pks) msg sig"
  using aggregate_nonce_sum [OF assms] agg [unfolded multisig_aggregate_iff [OF ok]]
  by (simp add: schnorr_verify_def multisig_challenge_iff [OF ok] Let_def)

section \<open>An honest session\<close>

text \<open>The signers of a session: entropy and secret key of each, in signing-subset order.\<close>

type_synonym 's session = "(bytes \<times> 's) list"

definition session_keys :: "('b, 's, 'g, 'rng) engine \<Rightarrow> 's session \<Rightarrow> 'g list" where
  "session_keys W ses = map (\<lambda>(_, sk). ge_mul W (ge_gen W) sk) ses"

definition session_round1 :: "('b::field, 's, 'g, 'rng) engine \<Rightarrow> 'b list \<Rightarrow> 's session \<Rightarrow> multisig_round1 list" where
  "session_round1 W msg ses = map (\<lambda>(entropy, _). multisig_round1_of W entropy msg) ses"

definition session_round2 :: "('b, 's, 'g, 'rng) engine \<Rightarrow> 'b list \<Rightarrow> 's session \<Rightarrow> 'g multisig_round2 list" where
  "session_round2 W msg ses = map (\<lambda>(entropy, _). multisig_round2_of W entropy msg) ses"

definition session_share ::
  "('b, 's::field, 'g, 'rng) engine \<Rightarrow> 'b list \<Rightarrow> 'b \<Rightarrow> bytes \<times> 's \<Rightarrow> ('b, 's) multisig_round3" where
  "session_share W msg e signer = (case signer of (entropy, sk) \<Rightarrow>
     \<lparr>partial_signature = \<lparr>sig_e = e, sig_s = multisig_nonce W entropy msg + sk * field_switch W e\<rparr>\<rparr>)"

lemma find_index_distinct:
  assumes "distinct xs" "i < length xs"
  shows "find_index (\<lambda>x. x = xs ! i) xs = Some i"
  using assms
proof (induction xs arbitrary: i)
  case (Cons x xs)
  then show ?case by (cases i) auto
qed simp

lemma session_openings: "openings_hold W (session_round1 W msg ses) (session_round2 W msg ses)"
  by (auto simp: openings_hold_def session_round1_def session_round2_def multisig_round1_of_def multisig_round2_of_def)

lemma session_lengths [simp]:
  "length (session_keys W ses) = length ses" "length (session_round1 W msg ses) = length ses"
  "length (session_round2 W msg ses) = length ses"
  by (simp_all add: session_keys_def session_round1_def session_round2_def)

lemma session_nth:
  assumes "i < length ses"
  shows "session_keys W ses ! i = ge_mul W (ge_gen W) (snd (ses ! i))"
    "nonce_point (session_round2 W msg ses ! i) = ge_mul W (ge_gen W) (multisig_nonce W (fst (ses ! i)) msg)"
    "session_round1 W msg ses ! i = multisig_round1_of W (fst (ses ! i)) msg"
  using assms by (simp_all add: session_keys_def session_round1_def session_round2_def multisig_round2_of_def split_def)

lemma session_complete:
  fixes W :: "('b::field, 's::field, 'g::ab_group_add, 'rng) engine" and msg :: "'b list"
  assumes ok: "engine_ok W" and ne: "ses \<noteq> []" and dist: "distinct (session_keys W ses)"
    and nz: "sum_list (session_keys W ses) \<noteq> 0"
  defines "pks \<equiv> session_keys W ses" and "r1 \<equiv> session_round1 W msg ses" and "r2 \<equiv> session_round2 W msg ses"
  shows "\<exists>e. multisig_challenge W msg pks r1 r2 = Ok e \<and>
    (\<forall>i < length ses. multisig_round3_of W (fst (ses ! i)) msg (snd (ses ! i)) pks r1 r2 = Ok (session_share W msg e (ses ! i))) \<and>
    multisig_aggregate W msg pks r1 r2 (map (session_share W msg e) ses)
      = Ok \<lparr>sig_e = e, sig_s = (\<Sum>x\<leftarrow>ses. sig_s (partial_signature (session_share W msg e x)))\<rparr>"
proof -
  define e where "e = schnorr_challenge W (sum_list pks) (\<Sum>r\<leftarrow>r2. nonce_point r) msg"
  have ch: "multisig_challenge W msg pks r1 r2 = Ok e"
    unfolding multisig_challenge_iff [OF ok]
    using ne nz session_openings [of W msg ses] by (auto simp: pks_def r1_def r2_def e_def session_keys_def)
  have sh: "multisig_round3_of W (fst (ses ! i)) msg (snd (ses ! i)) pks r1 r2 = Ok (session_share W msg e (ses ! i))"
    if i: "i < length ses" for i
  proof -
    have "find_index (\<lambda>p. p = ge_mul W (ge_gen W) (snd (ses ! i))) pks = Some i"
      using find_index_distinct [OF dist, of i] i session_nth(1) [OF i, of W] by (simp add: pks_def)
    then show ?thesis
      using i session_nth(2) [OF i, of W msg] ch
      by (simp add: multisig_round3_of_def session_share_def split_def r2_def Let_def)
  qed
  have "check_share W e (field_switch W e) pks r2 (map (session_share W msg e) ses) i = Ok ()" if i: "i < length pks" for i
  proof -
    have i': "i < length ses" using i by (simp add: pks_def)
    have "check_share W e (field_switch W e) pks r2 (map (session_share W msg e) ses) i = Ok () \<longleftrightarrow>
        sig_e (partial_signature (map (session_share W msg e) ses ! i)) = e \<and>
        ge_mul W (ge_gen W) (sig_s (partial_signature (map (session_share W msg e) ses ! i))) - ge_mul W (pks ! i) (field_switch W e)
          = nonce_point (r2 ! i)"
      by (rule check_share_iff [OF _ _ i]) (simp_all add: pks_def r2_def)
    then show ?thesis
      using i' by (simp add: session_nth [OF i'] pks_def r2_def session_share_def split_def response_eq [OF ok])
  qed
  then have "multisig_aggregate W msg pks r1 r2 (map (session_share W msg e) ses)
      = Ok \<lparr>sig_e = e, sig_s = (\<Sum>x\<leftarrow>ses. sig_s (partial_signature (session_share W msg e x)))\<rparr>"
    unfolding multisig_aggregate_iff [OF ok] using ch by (simp add: pks_def comp_def)
  then show ?thesis using ch sh by blast
qed

text \<open>A nonce used for two challenges gives up the key.\<close>

lemma nonce_reuse:
  fixes W :: "('b::field, 's::field, 'g::ab_group_add, 'rng) engine"
  assumes "multisig_round3_of W entropy msg sk pks r1 r2 = Ok m" "multisig_round3_of W entropy msg sk pks' r1' r2' = Ok m'"
  defines "e \<equiv> field_switch W (sig_e (partial_signature m))" and "e' \<equiv> field_switch W (sig_e (partial_signature m'))"
  assumes "e \<noteq> e'"
  shows "sk = (sig_s (partial_signature m) - sig_s (partial_signature m')) / (e - e')"
proof -
  have "sig_s (partial_signature m) = multisig_nonce W entropy msg + sk * e"
    "sig_s (partial_signature m') = multisig_nonce W entropy msg + sk * e'"
    using assms(1,2) by (auto simp: multisig_round3_of_def e_def e'_def Let_def split: option.splits if_splits)
  then have "sig_s (partial_signature m) - sig_s (partial_signature m') = sk * (e - e')"
    by (simp add: algebra_simps)
  then show ?thesis using \<open>e \<noteq> e'\<close> by (simp add: eq_divide_eq)
qed

end
