(* ===== verification/WrapsBook.thy ===== *)
theory WrapsBook
  imports WrapsSchnorr
begin

text \<open>
  Address books of \<^verbatim>\<open>wraps.rs\<close>: padding, hashing, validation, the signing subset and its weight.
  A weight is a 64-bit word; sums use checked addition.
\<close>

type_synonym weight = "64 word"
type_synonym ('s, 'g) attested_key = "'g \<times> ('s, 'g) schnorr_pok"
type_synonym ('b, 's, 'g) book_entry = "'b \<times> ('s, 'g) attested_key \<times> weight"
type_synonym ('b, 's, 'g) address_book = "('b, 's, 'g) book_entry list"

definition checked_add :: "'l::len word \<Rightarrow> 'l word \<Rightarrow> 'l word option" where
  "checked_add a b = (if unat a + unat b < 2 ^ LENGTH('l) then Some (a + b) else None)"

section \<open>Operations\<close>

definition sentinel_pubkey :: "('b, 's::zero, 'g, 'rng) engine \<Rightarrow> 'g" where
  "sentinel_pubkey W = ge_mul W (ge_gen W) 0"

definition sentinel_attested_pubkey :: "('b, 's::zero, 'g, 'rng) engine \<Rightarrow> ('s, 'g) attested_key" where
  "sentinel_attested_pubkey W =
     (let pok = \<lparr>pok_commitment = sentinel_pubkey W, pok_challenge_field = 0, pok_response = 0\<rparr>
      in (sentinel_pubkey W, pok))"

definition padding_entry :: "('b::field, 's::zero, 'g, 'rng) engine \<Rightarrow> ('b, 's, 'g) book_entry" where
  "padding_entry W = (- 1, sentinel_attested_pubkey W, 0)"

definition book_size_msg :: "nat \<Rightarrow> string" where
  "book_size_msg n = ''address book has '' @ fmt_usize n @ '' entries, more than the '' @ fmt_usize MAX_AB_SIZE @
     '' the circuit can take''"

definition pad_address_book ::
  "('b::field, 's::zero, 'g, 'rng) engine \<Rightarrow> ('b, 's, 'g) address_book
   \<Rightarrow> (('b, 's, 'g) address_book, wraps_error) result" where
  "pad_address_book W ab =
     (if length ab > MAX_AB_SIZE then Err (InvalidInput (book_size_msg (length ab)))
      else Ok (ab @ replicate (MAX_AB_SIZE - length ab) (padding_entry W)))"

definition entry_elements :: "('b::field, 's, 'g, 'rng) engine \<Rightarrow> ('b, 's, 'g) book_entry \<Rightarrow> 'b list" where
  "entry_elements W entry = (case entry of (node_id, (pk, _), weight) \<Rightarrow>
     let pk = encode_point W pk in [node_id, pk ! 0, pk ! 1, pk ! 2, of_nat (unat weight)])"

definition hash_address_book :: "('b::field, 's, 'g, 'rng) engine \<Rightarrow> ('b, 's, 'g) address_book \<Rightarrow> 'b" where
  "hash_address_book W ab = poseidon_native W DS_ADDRESS_BOOK (concat (map (entry_elements W) ab))"

fun verify_entries ::
  "('b::field, 's::field, 'g::ab_group_add, 'rng) engine \<Rightarrow> 'g list \<Rightarrow> weight \<Rightarrow> ('b, 's, 'g) address_book \<Rightarrow> bool" where
  "verify_entries W seen_keys total_weight [] = True"
| "verify_entries W seen_keys total_weight ((_, (pk, pok), weight) # ab) =
     (if is_infinity W pk then verify_entries W seen_keys total_weight ab
      else if pk \<in> set seen_keys then False
      else case checked_add total_weight weight of
          None \<Rightarrow> False
        | Some tot \<Rightarrow>
            verify_knowledge W pk pok \<and> verify_entries W (seen_keys @ [pk]) tot ab)"

definition verify_address_book ::
  "('b::field, 's::field, 'g::ab_group_add, 'rng) engine \<Rightarrow> ('b, 's, 'g) address_book \<Rightarrow> bool" where
  "verify_address_book W ab = (if length ab > MAX_AB_SIZE then False else verify_entries W [] 0 ab)"

definition hash_hints_vk :: "('b::field, 's, 'g, 'rng) engine \<Rightarrow> bytes \<Rightarrow> 'b" where
  "hash_hints_vk W vk_bytes = horner_be (engine_sha256 W (DST_HINTS_VK @ vk_bytes))"

definition signing_subset :: "('b, 's, 'g, 'rng) engine \<Rightarrow> ('b, 's, 'g) address_book \<Rightarrow> bit_vector \<Rightarrow> 'g list" where
  "signing_subset W ab bitvector =
     map (\<lambda>((_, (pk, _), _), _). pk) (filter (\<lambda>((_, (pk, _), _), signer). signer \<and> \<not> is_infinity W pk) (zip ab bitvector))"

definition sentinel_seat_msg :: "nat \<Rightarrow> string" where
  "sentinel_seat_msg seat = ''bitvector selects sentinel seat '' @ fmt_usize seat"

definition reject_sentinel_signers ::
  "('b, 's, 'g, 'rng) engine \<Rightarrow> ('b, 's, 'g) address_book \<Rightarrow> bit_vector \<Rightarrow> (unit, wraps_error) result" where
  "reject_sentinel_signers W ab bitvector =
     (case find_index (\<lambda>((_, (pk, _), _), signer). signer \<and> is_infinity W pk) (zip ab bitvector) of
        Some seat \<Rightarrow> Err (InvalidInput (sentinel_seat_msg seat))
      | None \<Rightarrow> Ok ())"

fun add_weights ::
  "('b, 's, 'g, 'rng) engine \<Rightarrow> weight \<times> weight \<Rightarrow> (('b, 's, 'g) book_entry \<times> bool) list \<Rightarrow> (weight \<times> weight) option" where
  "add_weights W acc [] = Some acc"
| "add_weights W (signing, tot) (((_, (pk, _), weight), signer) # rest) =
     (let effective = if is_infinity W pk then 0 else weight in
      case checked_add tot effective of
        None \<Rightarrow> None
      | Some tot' \<Rightarrow>
          (case (if signer then checked_add signing effective else Some signing) of
             None \<Rightarrow> None
           | Some signing' \<Rightarrow> add_weights W (signing', tot') rest))"

definition subset_weight ::
  "('b, 's, 'g, 'rng) engine \<Rightarrow> ('b, 's, 'g) address_book \<Rightarrow> bit_vector \<Rightarrow> (weight \<times> weight) option" where
  "subset_weight W ab bitvector =
     (if length ab > MAX_AB_SIZE then None else add_weights W (0, 0) (zip ab bitvector))"

definition meets_threshold :: "weight \<Rightarrow> weight \<Rightarrow> bool" where
  "meets_threshold signing tot \<longleftrightarrow> signing \<le> tot \<and> signing > tot div 2"

section \<open>Lists by position\<close>

lemma set_drop_nth: "(\<exists>x \<in> set (drop n xs). P x) \<longleftrightarrow> (\<exists>i < length xs. n \<le> i \<and> P (xs ! i))"
proof (induction xs arbitrary: n)
  case (Cons x xs)
  show ?case
  proof (cases n)
    case 0
    then show ?thesis by (metis drop0 in_set_conv_nth le0)
  next
    case (Suc m)
    have "(\<exists>i < length (x # xs). Suc m \<le> i \<and> P ((x # xs) ! i)) \<longleftrightarrow> (\<exists>i < length xs. m \<le> i \<and> P (xs ! i))"
      by (metis Suc_le_D Suc_le_mono Suc_less_eq length_Cons nth_Cons_Suc)
    then show ?thesis using Cons.IH Suc by simp
  qed
qed simp

lemma ball_zip_nth: "length xs \<le> length ys \<Longrightarrow> (\<forall>p \<in> set (zip xs ys). P p) \<longleftrightarrow> (\<forall>i < length xs. P (xs ! i, ys ! i))"
  by (auto simp: set_zip)

lemma sum_zip_nth:
  "length xs \<le> length ys \<Longrightarrow> (\<Sum>(x, y)\<leftarrow>zip xs ys. f x y) = (\<Sum>i < length xs. f (xs ! i) (ys ! i))"
  by (simp add: sum_list_sum_nth atLeast0LessThan min_absorb1 split_def)

section \<open>The threshold rule\<close>

text \<open>The halving comparison is the doubled one over the integers, which does not overflow there.\<close>

lemma meets_threshold_iff:
  "meets_threshold signing tot \<longleftrightarrow> unat signing \<le> unat tot \<and> unat tot < 2 * unat signing"
proof -
  have "unat (tot div 2) = unat tot div 2" by (simp add: unat_div)
  then show ?thesis by (auto simp: meets_threshold_def word_le_nat_alt word_less_nat_alt)
qed

lemma checked_add_Some:
  "checked_add a b = Some c \<longleftrightarrow> unat a + unat b < 2 ^ LENGTH('l) \<and> unat c = unat a + unat b"
  for a b c :: "'l::len word"
proof -
  have "unat (a + b) = unat a + unat b" if "unat a + unat b < 2 ^ LENGTH('l)"
    using that by (simp add: unat_word_ariths)
  then show ?thesis by (auto simp: checked_add_def word_unat_eq_iff)
qed

text \<open>The weight of an entry that counts, and the natural-number sums.\<close>

definition effective_weight :: "('b, 's, 'g, 'rng) engine \<Rightarrow> ('b, 's, 'g) book_entry \<Rightarrow> nat" where
  "effective_weight W entry = (case entry of (_, (pk, _), weight) \<Rightarrow> if is_infinity W pk then 0 else unat weight)"

definition total_weight_of :: "('b, 's, 'g, 'rng) engine \<Rightarrow> ('b, 's, 'g) address_book \<Rightarrow> nat" where
  "total_weight_of W ab = (\<Sum>entry\<leftarrow>ab. effective_weight W entry)"

definition signing_weight_of :: "('b, 's, 'g, 'rng) engine \<Rightarrow> ('b, 's, 'g) address_book \<Rightarrow> bit_vector \<Rightarrow> nat" where
  "signing_weight_of W ab bv = (\<Sum>(entry, signer)\<leftarrow>zip ab bv. if signer then effective_weight W entry else 0)"

lemma add_weights_Some:
  assumes "unat signing \<le> unat tot"
  shows "add_weights W (signing, tot) rows = Some (s, t) \<longleftrightarrow>
    unat tot + (\<Sum>(entry, _)\<leftarrow>rows. effective_weight W entry) < 2 ^ 64 \<and>
    unat s = unat signing + (\<Sum>(entry, signer)\<leftarrow>rows. if signer then effective_weight W entry else 0) \<and>
    unat t = unat tot + (\<Sum>(entry, _)\<leftarrow>rows. effective_weight W entry)"
  using assms
proof (induction rows arbitrary: signing tot)
  case Nil
  then show ?case using unsigned_less [of tot] by (auto simp: word_unat_eq_iff)
next
  case (Cons row rows)
  obtain n pk pok wt sg where row: "row = ((n, (pk, pok), wt), sg)" by (metis prod.collapse)
  define eff where "eff = (if is_infinity W pk then 0 else wt)"
  have ew: "effective_weight W (n, (pk, pok), wt) = unat eff" by (simp add: effective_weight_def eff_def)
  show ?case
  proof (cases "checked_add tot eff")
    case None
    then have "2 ^ 64 \<le> unat tot + unat eff" by (auto simp: checked_add_def split: if_splits)
    then show ?thesis using None by (simp add: row eff_def [symmetric] ew Let_def)
  next
    case (Some tot')
    then have tot': "unat tot' = unat tot + unat eff" "unat tot + unat eff < 2 ^ 64"
      by (simp_all add: checked_add_Some)
    obtain signing' where sg': "(if sg then checked_add signing eff else Some signing) = Some signing'"
      "unat signing' = unat signing + (if sg then unat eff else 0)"
    proof (cases sg)
      case True
      have "unat signing + unat eff < 2 ^ LENGTH(64)" using Cons.prems tot'(2) by simp
      then have "unat (signing + eff) = unat signing + unat eff" by (simp add: unat_word_ariths)
      moreover have "checked_add signing eff = Some (signing + eff)"
        using \<open>unat signing + unat eff < 2 ^ LENGTH(64)\<close> by (simp add: checked_add_def)
      ultimately show thesis using that True by simp
    qed (use that in simp)
    have "unat signing' \<le> unat tot'" using Cons.prems tot'(1) sg'(2) by simp
    note IH = Cons.IH [OF this]
    have "add_weights W (signing, tot) (row # rows) = add_weights W (signing', tot') rows"
      using Some sg'(1) by (auto simp: row eff_def Let_def split: if_splits)
    then show ?thesis using IH tot' sg'(2) by (auto simp: row ew)
  qed
qed

lemma subset_weight_Some:
  "subset_weight W ab bv = Some (s, t) \<longleftrightarrow>
    length ab \<le> MAX_AB_SIZE \<and> total_weight_of W (take (length bv) ab) < 2 ^ 64 \<and>
    unat s = signing_weight_of W ab bv \<and> unat t = total_weight_of W (take (length bv) ab)"
proof -
  have "(\<Sum>(entry, _)\<leftarrow>zip ab bv. effective_weight W entry) = total_weight_of W (take (length bv) ab)"
    unfolding total_weight_of_def
  proof (induction ab arbitrary: bv)
    case (Cons a ab)
    then show ?case by (cases bv) simp_all
  qed simp
  then show ?thesis by (simp add: subset_weight_def add_weights_Some signing_weight_of_def)
qed

lemma signing_le_total: "length ab \<le> length bv \<Longrightarrow> signing_weight_of W ab bv \<le> total_weight_of W ab"
proof (induction ab arbitrary: bv)
  case (Cons a ab)
  then show ?case by (cases bv) (auto simp: signing_weight_of_def total_weight_of_def intro: le_SucI trans_le_add2 add_mono)
qed (simp add: signing_weight_of_def)

section \<open>Validation\<close>

text \<open>The entries that hold a key, and what a valid book promises of them.\<close>

definition live_entries :: "('b, 's, 'g, 'rng) engine \<Rightarrow> ('b, 's, 'g) address_book \<Rightarrow> ('b, 's, 'g) address_book" where
  "live_entries W ab = filter (\<lambda>(_, (pk, _), _). \<not> is_infinity W pk) ab"

definition book_key :: "('b, 's, 'g) book_entry \<Rightarrow> 'g" where
  "book_key entry = fst (fst (snd entry))"

definition book_pok :: "('b, 's, 'g) book_entry \<Rightarrow> ('s, 'g) schnorr_pok" where
  "book_pok entry = snd (fst (snd entry))"

lemma book_projections [simp]:
  "book_key (n, (pk, pok), wt) = pk" "book_pok (n, (pk, pok), wt) = pok"
  by (simp_all add: book_key_def book_pok_def)

lemma live_entries_alt: "live_entries W ab = filter (\<lambda>entry. \<not> is_infinity W (book_key entry)) ab"
  by (simp add: live_entries_def book_key_def split_def)

lemma total_weight_Cons [simp]:
  "total_weight_of W [] = 0"
  "total_weight_of W (entry # ab) = effective_weight W entry + total_weight_of W ab"
  "total_weight_of W (ab @ ab') = total_weight_of W ab + total_weight_of W ab'"
  by (simp_all add: total_weight_of_def)

lemma verify_entries_iff:
  "verify_entries W seen tot ab \<longleftrightarrow>
    distinct (map book_key (live_entries W ab)) \<and>
    set seen \<inter> set (map book_key (live_entries W ab)) = {} \<and>
    (\<forall>entry \<in> set (live_entries W ab). verify_knowledge W (book_key entry) (book_pok entry)) \<and>
    unat tot + total_weight_of W ab < 2 ^ 64"
proof (induction ab arbitrary: seen tot)
  case Nil
  then show ?case using unsigned_less [of tot] by (simp add: live_entries_def)
next
  case (Cons entry ab)
  obtain n pk pok wt where e: "entry = (n, (pk, pok), wt)" by (metis prod.collapse)
  show ?case
  proof (cases "is_infinity W pk")
    case True
    then show ?thesis using Cons.IH by (simp add: e live_entries_def effective_weight_def)
  next
    case live: False
    then have ew: "effective_weight W entry = unat wt" by (simp add: e effective_weight_def)
    show ?thesis
    proof (cases "checked_add tot wt")
      case None
      then have "2 ^ 64 \<le> unat tot + unat wt" by (auto simp: checked_add_def split: if_splits)
      then show ?thesis using None live ew by (simp add: e)
    next
      case (Some tot')
      then have "unat tot' = unat tot + unat wt" by (simp add: checked_add_Some)
      then show ?thesis using Some live ew Cons.IH [of "seen @ [pk]" tot']
        by (auto simp: e live_entries_def add.assoc)
    qed
  qed
qed

lemma verify_address_book_iff:
  "verify_address_book W ab \<longleftrightarrow>
    length ab \<le> MAX_AB_SIZE \<and> distinct (map book_key (live_entries W ab)) \<and>
    (\<forall>entry \<in> set (live_entries W ab). verify_knowledge W (book_key entry) (book_pok entry)) \<and>
    total_weight_of W ab < 2 ^ 64"
  by (auto simp: verify_address_book_def verify_entries_iff)

section \<open>Padding\<close>

lemma sentinel_is_identity:
  fixes W :: "('b::field, 's::field, 'g::ab_group_add, 'rng) engine"
  assumes "engine_ok W" shows "sentinel_pubkey W = 0"
  by (simp add: sentinel_pubkey_def ge.act_zero [OF assms])

lemma padding_is_infinity:
  fixes W :: "('b::field, 's::field, 'g::ab_group_add, 'rng) engine"
  assumes "engine_ok W"
  shows "is_infinity W (book_key (padding_entry W))" "effective_weight W (padding_entry W) = 0"
  using assms by (simp_all add: padding_entry_def sentinel_attested_pubkey_def sentinel_is_identity infinity_iff effective_weight_def)

lemma pad_address_book_eq:
  "pad_address_book W ab =
    (if length ab \<le> MAX_AB_SIZE then Ok (ab @ replicate (MAX_AB_SIZE - length ab) (padding_entry W))
     else Err (InvalidInput (book_size_msg (length ab))))"
  by (simp add: pad_address_book_def)

lemma pad_address_book_length: "pad_address_book W ab = Ok padded \<Longrightarrow> length padded = MAX_AB_SIZE"
  by (auto simp: pad_address_book_def split: if_splits)

lemma live_entries_padded:
  fixes W :: "('b::field, 's::field, 'g::ab_group_add, 'rng) engine"
  assumes "engine_ok W" shows "live_entries W (ab @ replicate k (padding_entry W)) = live_entries W ab"
  using padding_is_infinity(1) [OF assms] by (simp add: live_entries_alt)

lemma total_weight_padding:
  fixes W :: "('b::field, 's::field, 'g::ab_group_add, 'rng) engine"
  assumes "engine_ok W" shows "total_weight_of W (replicate k (padding_entry W)) = 0"
  using padding_is_infinity(2) [OF assms] by (simp add: total_weight_of_def sum_list_replicate)

lemma signing_subset_eq:
  "signing_subset W ab bv = map (book_key \<circ> fst) (filter (\<lambda>(entry, signer). signer \<and> \<not> is_infinity W (book_key entry)) (zip ab bv))"
  by (simp add: signing_subset_def book_key_def split_def comp_def)

text \<open>Padding seats neither sign nor weigh, whatever the bits beyond the book.\<close>

lemma zip_padded: "zip (ab @ replicate k x) bv = zip ab bv @ zip (replicate k x) (drop (length ab) bv)"
proof (induction ab arbitrary: bv)
  case (Cons a ab)
  then show ?case by (cases bv) simp_all
qed simp

lemma padding_pair: "p \<in> set (zip (replicate k x) bv) \<Longrightarrow> fst p = x"
  by (metis in_set_replicate prod.collapse set_zip_leftD)

lemma signing_subset_padded:
  fixes W :: "('b::field, 's::field, 'g::ab_group_add, 'rng) engine"
  assumes "engine_ok W"
  shows "signing_subset W (ab @ replicate k (padding_entry W)) bv = signing_subset W ab bv"
proof -
  have "filter (\<lambda>(entry, signer). signer \<and> \<not> is_infinity W (book_key entry)) (zip (replicate k (padding_entry W)) bv') = []" for bv'
    using padding_is_infinity(1) [OF assms] by (auto simp: filter_empty_conv split_def dest!: padding_pair)
  then show ?thesis by (simp only: signing_subset_eq zip_padded filter_append append_Nil2)
qed

lemma signing_weight_padded:
  fixes W :: "('b::field, 's::field, 'g::ab_group_add, 'rng) engine"
  assumes "engine_ok W"
  shows "signing_weight_of W (ab @ replicate k (padding_entry W)) bv = signing_weight_of W ab bv"
  using padding_is_infinity(2) [OF assms]
  by (auto simp: signing_weight_of_def zip_padded dest!: padding_pair)

lemma find_index_None: "find_index p xs = None \<longleftrightarrow> (\<forall>x \<in> set xs. \<not> p x)"
  by (induction xs) auto

lemma reject_sentinel_iff:
  "reject_sentinel_signers W ab bv = Ok () \<longleftrightarrow> (\<forall>(entry, signer) \<in> set (zip ab bv). signer \<longrightarrow> \<not> is_infinity W (book_key entry))"
  using find_index_None [of "\<lambda>((_, (pk, _), _), signer). signer \<and> is_infinity W pk" "zip ab bv"]
  by (auto simp: reject_sentinel_signers_def book_key_def split_def split: option.splits)

lemma reject_sentinel_not_panicked [simp]: "reject_sentinel_signers W ab bv \<noteq> Panicked"
  by (simp add: reject_sentinel_signers_def split: option.splits)

lemma reject_sentinel_padded:
  assumes "\<forall>b \<in> set (drop (length ab) bv). \<not> b"
  shows "reject_sentinel_signers W (ab @ replicate k x) bv = Ok () \<longleftrightarrow> reject_sentinel_signers W ab bv = Ok ()"
proof -
  have "\<not> signer" if "(entry, signer) \<in> set (zip (replicate k x) (drop (length ab) bv))" for entry signer
    using assms set_zip_rightD [OF that] by blast
  then show ?thesis by (simp only: reject_sentinel_iff zip_padded set_append ball_Un) blast
qed

text \<open>With the sentinels refused, the signing subset is every selected seat.\<close>

lemma signing_subset_all:
  assumes "reject_sentinel_signers W ab bv = Ok ()"
  shows "signing_subset W ab bv = map (book_key \<circ> fst) (filter snd (zip ab bv))"
proof -
  have "filter (\<lambda>(entry, signer). signer \<and> \<not> is_infinity W (book_key entry)) (zip ab bv) = filter snd (zip ab bv)"
    using assms by (intro filter_cong) (auto simp: reject_sentinel_iff)
  then show ?thesis by (simp only: signing_subset_eq)
qed

text \<open>The signers of a valid book are pairwise different keys.\<close>

lemma signing_subset_Cons:
  "signing_subset W (entry # ab) (b # bv) =
    (if b \<and> \<not> is_infinity W (book_key entry) then [book_key entry] else []) @ signing_subset W ab bv"
  "signing_subset W [] bv = []" "signing_subset W ab [] = []"
  by (simp_all add: signing_subset_eq)

lemma signing_subset_live: "set (signing_subset W ab bv) \<subseteq> set (map book_key (live_entries W ab))"
proof
  fix k assume "k \<in> set (signing_subset W ab bv)"
  then obtain entry where "(entry, True) \<in> set (zip ab bv)" "\<not> is_infinity W (book_key entry)" "k = book_key entry"
    unfolding signing_subset_eq by fastforce
  then show "k \<in> set (map book_key (live_entries W ab))" by (auto simp: live_entries_alt dest: set_zip_leftD)
qed

lemma distinct_signing_subset:
  assumes "distinct (map book_key (live_entries W ab))"
  shows "distinct (signing_subset W ab bv)"
  using assms
proof (induction ab arbitrary: bv)
  case (Cons entry ab)
  show ?case
  proof (cases bv)
    case (Cons b bv')
    have "distinct (signing_subset W ab bv')"
      using Cons.IH Cons.prems by (simp add: live_entries_alt split: if_splits)
    then show ?thesis
      using Cons.prems Cons signing_subset_live [of W ab bv']
      by (auto simp: signing_subset_Cons live_entries_alt split: if_splits)
  qed (simp add: signing_subset_Cons)
qed (simp add: signing_subset_Cons)

section \<open>The commitment to a book\<close>

text \<open>What the hash covers of a book: node ids, keys and weights in order, not the key proofs.\<close>

definition book_view :: "('b, 's, 'g) address_book \<Rightarrow> ('b \<times> 'g \<times> weight) list" where
  "book_view ab = map (\<lambda>(node_id, (pk, _), weight). (node_id, pk, weight)) ab"

text \<open>
  Documented behaviour of the curve and the field: a point is determined by its coordinates, and a
  64-bit integer by its residue, since the field has about 254 bits.
\<close>

definition encodings_injective :: "('b::field, 's, 'g, 'rng) engine \<Rightarrow> bool" where
  "encodings_injective W \<longleftrightarrow>
     inj (to_coordinates W) \<and> inj_on (of_nat :: nat \<Rightarrow> 'b) {..< 2 ^ 64}"

lemma encode_point_inj:
  "encodings_injective W \<Longrightarrow> encode_point W p = encode_point W q \<longleftrightarrow> p = q"
  by (auto simp: encodings_injective_def encode_point_def inj_def split_def Let_def prod_eq_iff split: if_splits)

lemma weight_inj:
  fixes W :: "('b::field, 's, 'g, 'rng) engine" and v w :: weight
  assumes "encodings_injective W"
  shows "(unsigned v :: 'b) = unsigned w \<longleftrightarrow> v = w"
proof -
  have "inj_on (of_nat :: nat \<Rightarrow> 'b) {..< 2 ^ 64}" using assms by (simp add: encodings_injective_def)
  then have "(of_nat (unat v) :: 'b) = of_nat (unat w) \<longleftrightarrow> unat v = unat w"
    using unsigned_less [of v] unsigned_less [of w] by (intro inj_on_eq_iff) auto
  then show ?thesis by (simp only: of_nat_unat word_unat_eq_iff)
qed

lemma length_entry_elements [simp]: "length (entry_elements W entry) = 5"
  by (simp add: entry_elements_def split_def Let_def)

lemma entry_elements_inj:
  fixes W :: "('b::field, 's, 'g, 'rng) engine"
  assumes "encodings_injective W"
  shows "entry_elements W x = entry_elements W y \<longleftrightarrow>
    fst x = fst y \<and> book_key x = book_key y \<and> snd (snd x) = snd (snd y)"
proof -
  have eq3: "l = [l ! 0, l ! 1, l ! 2]" if "length l = 3" for l :: "'b list"
    using that by (auto simp: numeral_3_eq_3 length_Suc_conv)
  have "encode_point W p = encode_point W q \<longleftrightarrow>
      encode_point W p ! 0 = encode_point W q ! 0 \<and> encode_point W p ! 1 = encode_point W q ! 1 \<and>
      encode_point W p ! 2 = encode_point W q ! 2" for p q
    using eq3 [OF length_encode_point, of W p] eq3 [OF length_encode_point, of W q] by (metis list.inject)
  then show ?thesis
    by (auto simp: entry_elements_def book_key_def split_def Let_def weight_inj [OF assms]
        encode_point_inj [OF assms, symmetric])
qed

lemma elements_determine_book:
  fixes W :: "('b::field, 's, 'g, 'rng) engine"
  assumes "encodings_injective W"
  shows "concat (map (entry_elements W) ab) = concat (map (entry_elements W) ab') \<longleftrightarrow> book_view ab = book_view ab'"
proof (induction ab arbitrary: ab')
  case Nil
  then show ?case
  proof (cases ab')
    case (Cons e es)
    have "entry_elements W e \<noteq> []" using length_entry_elements [of W e] by fastforce
    then show ?thesis using Cons by (simp add: book_view_def)
  qed (simp add: book_view_def)
next
  case (Cons x xs)
  show ?case
  proof (cases ab')
    case Nil
    have "entry_elements W x \<noteq> []" using length_entry_elements [of W x] by fastforce
    then show ?thesis using Nil by (simp add: book_view_def)
  next
    fix y ys assume "ab' = y # ys"
    then show ?thesis
      using Cons.IH [of ys] by (simp add: append_eq_append_conv entry_elements_inj [OF assms] book_view_def book_key_def split_def prod_eq_iff)
  qed
qed

end
