(* ===== verification/WrapsProtocol.thy ===== *)
theory WrapsProtocol
  imports WrapsBook
begin

text \<open>
  The library surface of \<^verbatim>\<open>wraps.rs\<close>: key generation, the phases of the signing protocol,
  signature verification, the rotation message, and the construction and verification of rotation
  proofs. The Nova folding scheme and its compressing SNARK are a record of parameters.
\<close>

section \<open>Data\<close>

datatype signing_protocol_phase = R1 | R2 | R3 | Aggregate

text \<open>The two field elements that a committee signs.\<close>

type_synonym 'b rotation_message = "'b \<times> 'b"

abbreviation message_slice :: "'b rotation_message \<Rightarrow> 'b list" where
  "message_slice message \<equiv> [fst message, snd message]"

type_synonym ('b, 's) schnorr_multi_signature = "bit_vector \<times> ('b, 's) schnorr_signature"

datatype ('b, 's) signing_protocol_object =
    ProtocolMessage bytes
  | ProtocolOutput "('b, 's) schnorr_multi_signature"

record ('b, 'snark) wraps_proof =
  num_steps :: nat
  proof_z0 :: "'b list"
  proof_zi :: "'b list"
  proof_snark :: 'snark

record ('b, 's, 'g) rotation_circuit =
  rc_prev_ab :: "('b, 's, 'g) address_book"
  rc_bitvector :: bit_vector
  rc_sig :: "('b, 's) schnorr_signature"
  rc_msg :: "'b rotation_message"

text \<open>The wire formats: bincode at the types the protocol exchanges.\<close>

record ('b, 's, 'g, 'rs, 'cs) wire =
  message_codec :: "'b rotation_message codec"
  round_codec :: "('b, 's, 'g) round_message codec"
  running_codec :: "('b, 'rs) wraps_proof codec"
  compressed_codec :: "('b, 'cs) wraps_proof codec"

text \<open>Nova: the running SNARK, its steps, and the SNARK that compresses it.\<close>

record ('b, 's, 'g, 'pp, 'rs, 'cs, 'pk, 'vk) nova =
  rs_new :: "'pp \<Rightarrow> ('b, 's, 'g) rotation_circuit \<Rightarrow> 'b list \<Rightarrow> ('rs, string) result"
  rs_num_steps :: "'rs \<Rightarrow> nat"
  rs_outputs :: "'rs \<Rightarrow> 'b list"
  rs_prove_step :: "'pp \<Rightarrow> 'rs \<Rightarrow> ('b, 's, 'g) rotation_circuit \<Rightarrow> ('rs, string) result"
  rs_verify :: "'rs \<Rightarrow> 'pp \<Rightarrow> nat \<Rightarrow> 'b list \<Rightarrow> ('b list, string) result"
  cs_setup :: "'pp \<Rightarrow> ('pk \<times> 'vk, string) result"
  cs_prove :: "'pp \<Rightarrow> 'pk \<Rightarrow> 'rs \<Rightarrow> ('cs, string) result"
  cs_verify :: "'cs \<Rightarrow> 'vk \<Rightarrow> nat \<Rightarrow> 'b list \<Rightarrow> ('b list, string) result"

section \<open>Decoding and phase validation\<close>

definition decode_rotation_message ::
  "('b, 's, 'g, 'rs, 'cs) wire \<Rightarrow> bytes \<Rightarrow> ('b rotation_message, wraps_error) result" where
  "decode_rotation_message F bs =
     map_err (\<lambda>e. InvalidInput (''invalid rotation message: '' @ fmt_wraps_error e)) (decode (message_codec F) bs)"

definition invalid_round_msg :: "string \<Rightarrow> nat \<Rightarrow> wraps_error \<Rightarrow> string" where
  "invalid_round_msg round i e = ''invalid '' @ round @ '' message from signer '' @ fmt_usize i @ '': '' @ fmt_wraps_error e"

definition wrong_tag_msg :: "string \<Rightarrow> nat \<Rightarrow> string" where
  "wrong_tag_msg round i = round @ '' message from signer '' @ fmt_usize i @ '' has the wrong round tag''"

definition decode_round_messages ::
  "('b, 's, 'g, 'rs, 'cs) wire \<Rightarrow> bytes list \<Rightarrow> string \<Rightarrow> (('b, 's, 'g) round_message \<Rightarrow> 'p option)
   \<Rightarrow> ('p list, wraps_error) result" where
  "decode_round_messages F messages round payload =
     collect (\<lambda>(i, bs).
       and_then (map_err (\<lambda>e. InvalidInput (invalid_round_msg round i e)) (decode (round_codec F) bs)) (\<lambda>message.
       ok_or (InvalidInput (wrong_tag_msg round i)) (payload message)))
     (zip [0..<length messages] messages)"

fun payload1 :: "('b, 's, 'g) round_message \<Rightarrow> multisig_round1 option" where
  "payload1 (Round1 payload) = Some payload"
| "payload1 _ = None"

fun payload2 :: "('b, 's, 'g) round_message \<Rightarrow> 'g multisig_round2 option" where
  "payload2 (Round2 payload) = Some payload"
| "payload2 _ = None"

fun payload3 :: "('b, 's, 'g) round_message \<Rightarrow> ('b, 's) multisig_round3 option" where
  "payload3 (Round3 payload) = Some payload"
| "payload3 _ = None"

fun fmt_phase :: "signing_protocol_phase \<Rightarrow> string" where
  "fmt_phase R1 = ''R1''"
| "fmt_phase R2 = ''R2''"
| "fmt_phase R3 = ''R3''"
| "fmt_phase Aggregate = ''Aggregate''"

fun fmt_counts :: "nat \<times> nat \<times> nat \<Rightarrow> string" where
  "fmt_counts (a, b, c) = ''['' @ fmt_usize a @ '', '' @ fmt_usize b @ '', '' @ fmt_usize c @ '']''"

fun phase_needs :: "nat \<Rightarrow> signing_protocol_phase \<Rightarrow> bool \<times> bool \<times> nat \<times> nat \<times> nat" where
  "phase_needs n R1 = (True, False, 0, 0, 0)"
| "phase_needs n R2 = (True, False, n, 0, 0)"
| "phase_needs n R3 = (True, True, n, n, 0)"
| "phase_needs n Aggregate = (False, False, n, n, n)"

definition validate_signing_phase ::
  "signing_protocol_phase \<Rightarrow> nat \<Rightarrow> bool \<Rightarrow> bool \<Rightarrow> nat \<times> nat \<times> nat \<Rightarrow> (unit, wraps_error) result" where
  "validate_signing_phase phase num_signers has_entropy has_signing_key round_counts =
     (let (needs_entropy, needs_signing_key, expected_counts) = phase_needs num_signers phase in
      if needs_entropy \<and> \<not> has_entropy then Err (InvalidInput (fmt_phase phase @ '' requires session entropy''))
      else if needs_signing_key \<and> \<not> has_signing_key
      then Err (InvalidInput (''R3 requires the caller'' @ apostrophe @ ''s signing key''))
      else if round_counts \<noteq> expected_counts
      then Err (InvalidInput (fmt_phase phase @ '' requires round-message counts '' @ fmt_counts expected_counts @
        '' in signing-subset order''))
      else Ok ())"

definition encode_protocol_message ::
  "('b, 's, 'g, 'rs, 'cs) wire \<Rightarrow> ('b, 's, 'g) round_message
   \<Rightarrow> (('b, 's) signing_protocol_object, wraps_error) result" where
  "encode_protocol_message F message = and_then (encode (round_codec F) message) (\<lambda>bs. Ok (ProtocolMessage bs))"

section \<open>Keys\<close>

definition wraps_keygen ::
  "('b::field, 's::field, 'g, 'rng) engine \<Rightarrow> bytes \<Rightarrow> 's \<times> ('s, 'g) attested_key" where
  "wraps_keygen W seed =
     (let (key_seed, pok_seed) = expand_seed W seed;
          kp = schnorr_keygen W (chacha20_from_seed W key_seed);
          pok = prove_knowledge W kp (chacha20_from_seed W pok_seed)
      in (kp_sk kp, (kp_pk kp, pok)))"

definition sentinel_keygen :: "('b, 's::zero, 'g, 'rng) engine \<Rightarrow> ('s, 'g) attested_key" where
  "sentinel_keygen W = sentinel_attested_pubkey W"

section \<open>The signing protocol\<close>

text \<open>
  \<^verbatim>\<open>bitvector[address_book.len()..]\<close>: a validated book has at most as many seats as the
  bitvector has bits, so the slice is in range.
\<close>

definition selects_beyond :: "bit_vector \<Rightarrow> nat \<Rightarrow> bool" where
  "selects_beyond bitvector n \<longleftrightarrow> (\<exists>signer \<in> set (drop n bitvector). signer)"

definition run_phase ::
  "('b::field, 's::field, 'g::ab_group_add, 'rng) engine \<Rightarrow> ('b, 's, 'g, 'rs, 'cs) wire \<Rightarrow> signing_protocol_phase
   \<Rightarrow> bytes option \<Rightarrow> 'b rotation_message \<Rightarrow> 's option \<Rightarrow> bit_vector \<Rightarrow> 'g list \<Rightarrow> multisig_round1 list
   \<Rightarrow> 'g multisig_round2 list \<Rightarrow> ('b, 's) multisig_round3 list \<Rightarrow> (('b, 's) signing_protocol_object, wraps_error) result" where
  "run_phase W F phase entropy message signing_key bitvector participants round1 round2 round3 =
     (let msg = message_slice message in
      case phase of
        R1 \<Rightarrow>
          and_then (unwrap entropy) (\<lambda>seed.
          encode_protocol_message F (Round1 (multisig_round1_of W seed msg)))
      | R2 \<Rightarrow>
          and_then (unwrap entropy) (\<lambda>seed.
          if multisig_round1_of W seed msg \<notin> set round1
          then Err (InvalidInput (''R2 is missing the caller'' @ apostrophe @ ''s round-1 commitment''))
          else encode_protocol_message F (Round2 (multisig_round2_of W seed msg)))
      | R3 \<Rightarrow>
          and_then (unwrap entropy) (\<lambda>seed.
          and_then (unwrap signing_key) (\<lambda>sk.
          and_then (multisig_round3_of W seed msg sk participants round1 round2) (\<lambda>share.
          encode_protocol_message F (Round3 share))))
      | Aggregate \<Rightarrow>
          and_then (multisig_aggregate W msg participants round1 round2 round3) (\<lambda>signature.
          Ok (ProtocolOutput (bitvector, signature))))"

definition signing_protocol ::
  "('b::field, 's::field, 'g::ab_group_add, 'rng) engine \<Rightarrow> ('b, 's, 'g, 'rs, 'cs) wire \<Rightarrow> signing_protocol_phase
   \<Rightarrow> bytes option \<Rightarrow> bytes \<Rightarrow> 's option \<Rightarrow> ('b, 's, 'g) address_book \<Rightarrow> bool list
   \<Rightarrow> bytes list \<Rightarrow> bytes list \<Rightarrow> bytes list \<Rightarrow> (('b, 's) signing_protocol_object, wraps_error) result" where
  "signing_protocol W F phase protocol_instance_entropy message_to_sign signing_key ab bitvector
     round1_messages round2_messages round3_messages =
     (if \<not> verify_address_book W ab then Err (InvalidInput ''invalid signing address book'')
      else
        and_then (pad_bitvector bitvector) (\<lambda>bitvector.
        if selects_beyond bitvector (length ab)
        then Err (InvalidInput ''bitvector selects a seat outside the address book'')
        else
          and_then (reject_sentinel_signers W ab bitvector) (\<lambda>_.
          let participants = signing_subset W ab bitvector in
          if phase \<noteq> R1 \<and> participants = [] then Err (InvalidInput empty_set_msg)
          else
            and_then (validate_signing_phase phase (length participants) (protocol_instance_entropy \<noteq> None)
              (signing_key \<noteq> None) (length round1_messages, length round2_messages, length round3_messages)) (\<lambda>_.
            and_then (decode_rotation_message F message_to_sign) (\<lambda>message.
            and_then (decode_round_messages F round1_messages ''round-1'' payload1) (\<lambda>round1.
            and_then (decode_round_messages F round2_messages ''round-2'' payload2) (\<lambda>round2.
            and_then (decode_round_messages F round3_messages ''round-3'' payload3) (\<lambda>round3.
            run_phase W F phase protocol_instance_entropy message signing_key bitvector participants
              round1 round2 round3))))))))"

definition verify_signature ::
  "('b::field, 's::field, 'g::ab_group_add, 'rng) engine \<Rightarrow> ('b, 's, 'g, 'rs, 'cs) wire \<Rightarrow> ('b, 's, 'g) address_book
   \<Rightarrow> bytes \<Rightarrow> ('b, 's) schnorr_multi_signature \<Rightarrow> (bool, wraps_error) result" where
  "verify_signature W F ab message multisignature =
     and_then (decode_rotation_message F message) (\<lambda>message.
     let (bitvector, signature) = multisignature in
     if \<not> verify_address_book W ab then Ok False
     else if selects_beyond bitvector (length ab) then Ok False
     else
       and_then (reject_sentinel_signers W ab bitvector) (\<lambda>_.
       and_then (pad_address_book W ab) (\<lambda>ab.
       case subset_weight W ab bitvector of
         None \<Rightarrow> Ok False
       | Some (signing_weight, total_weight) \<Rightarrow>
           if \<not> meets_threshold signing_weight total_weight then Ok False
           else
             let participants = signing_subset W ab bitvector in
             if participants = [] then Ok False
             else
               and_then (aggregate_key participants) (\<lambda>joint.
               if is_infinity W joint then Ok False
               else Ok (schnorr_verify W joint (message_slice message) signature)))))"

section \<open>Hashes and the rotation message\<close>

definition invalid_book_msg :: string where
  "invalid_book_msg = ''address book is too large, has duplicate nonidentity keys or an invalid key proof, or its total effective weight exceeds u64::MAX''"

definition compute_addressbook_hash ::
  "('b::field, 's::field, 'g::ab_group_add, 'rng) engine \<Rightarrow> ('b, 's, 'g) address_book \<Rightarrow> ('b, wraps_error) result" where
  "compute_addressbook_hash W ab =
     (if \<not> verify_address_book W ab then Err (InvalidInput invalid_book_msg)
      else and_then (pad_address_book W ab) (\<lambda>padded. Ok (hash_address_book W padded)))"

definition compute_hints_vk_hash :: "('b::field, 's, 'g, 'rng) engine \<Rightarrow> bytes \<Rightarrow> 'b" where
  "compute_hints_vk_hash W hints_vk = hash_hints_vk W hints_vk"

definition compute_rotation_message ::
  "('b::field, 's::field, 'g::ab_group_add, 'rng) engine \<Rightarrow> ('b, 's, 'g, 'rs, 'cs) wire \<Rightarrow> ('b, 's, 'g) address_book
   \<Rightarrow> bytes \<Rightarrow> (bytes, wraps_error) result" where
  "compute_rotation_message W F ab_next hints_vk =
     and_then (compute_addressbook_hash W ab_next) (\<lambda>h. encode (message_codec F) (h, compute_hints_vk_hash W hints_vk))"

section \<open>Rotation proofs\<close>

definition setup_compressed_verifier ::
  "('b, 's, 'g, 'pp, 'rs, 'cs, 'pk, 'vk) nova \<Rightarrow> 'pp \<Rightarrow> ('vk, wraps_error) result" where
  "setup_compressed_verifier N pp =
     and_then (map_err (\<lambda>e. Cryptography (''compressed verifier setup failed: '' @ e)) (cs_setup N pp)) (\<lambda>(_, inner). Ok inner)"

definition verify_uncompressed_wraps_proof ::
  "('b::field, 's, 'g, 'rng) engine \<Rightarrow> ('b, 's, 'g, 'rs, 'cs) wire \<Rightarrow> ('b, 's, 'g, 'pp, 'rs, 'cs, 'pk, 'vk) nova
   \<Rightarrow> 'pp \<Rightarrow> bytes \<Rightarrow> bytes \<Rightarrow> bytes \<Rightarrow> (bool, wraps_error) result" where
  "verify_uncompressed_wraps_proof W F N pp running_proof ledger_id hints_vk =
     and_then (decode_rotation_message F ledger_id) (\<lambda>(ab_genesis_hash, genesis_hints_vk_hash).
     and_then (decode (running_codec F) running_proof) (\<lambda>running.
     if length (proof_z0 running) \<noteq> 2 \<or> length (proof_zi running) \<noteq> 2 \<or>
        proof_z0 running ! 0 \<noteq> ab_genesis_hash \<or> proof_z0 running ! 1 \<noteq> genesis_hints_vk_hash \<or>
        proof_zi running ! 1 \<noteq> compute_hints_vk_hash W hints_vk
     then Ok False
     else
       case rs_verify N (proof_snark running) pp (num_steps running) (proof_z0 running) of
         Ok zi \<Rightarrow> Ok (zi = proof_zi running)
       | Err _ \<Rightarrow> Ok False
       | Panicked \<Rightarrow> Panicked))"

definition verify_compressed_wraps_proof ::
  "('b::field, 's, 'g, 'rng) engine \<Rightarrow> ('b, 's, 'g, 'rs, 'cs) wire \<Rightarrow> ('b, 's, 'g, 'pp, 'rs, 'cs, 'pk, 'vk) nova
   \<Rightarrow> 'vk \<Rightarrow> bytes \<Rightarrow> bytes \<Rightarrow> bytes \<Rightarrow> (bool, wraps_error) result" where
  "verify_compressed_wraps_proof W F N vk proof_serialized ledger_id hints_vk =
     and_then (decode_rotation_message F ledger_id) (\<lambda>(ab_genesis_hash, genesis_hints_vk_hash).
     and_then (decode (compressed_codec F) proof_serialized) (\<lambda>prf.
     if length (proof_z0 prf) \<noteq> 2 \<or> length (proof_zi prf) \<noteq> 2 then Ok False
     else
       let genesis_ok = (proof_z0 prf ! 0 = ab_genesis_hash \<and> proof_z0 prf ! 1 = genesis_hints_vk_hash);
           hints_ok = (proof_zi prf ! 1 = compute_hints_vk_hash W hints_vk) in
       case cs_verify N (proof_snark prf) vk (num_steps prf) (proof_z0 prf) of
         Ok zi \<Rightarrow> Ok (genesis_ok \<and> hints_ok \<and> zi = proof_zi prf)
       | Err _ \<Rightarrow> Ok False
       | Panicked \<Rightarrow> Panicked))"

definition start_chain ::
  "('b, 's, 'g, 'pp, 'rs, 'cs, 'pk, 'vk) nova \<Rightarrow> 'pp \<Rightarrow> ('b, 's, 'g) rotation_circuit \<Rightarrow> 'b list
   \<Rightarrow> (('b, 'rs) wraps_proof, wraps_error) result" where
  "start_chain N pp circuit z0 =
     and_then (map_err (\<lambda>e. Cryptography (''could not start the chain: '' @ e)) (rs_new N pp circuit z0)) (\<lambda>snark.
     Ok \<lparr>num_steps = rs_num_steps N snark, proof_z0 = z0, proof_zi = rs_outputs N snark, proof_snark = snark\<rparr>)"

definition resume_chain ::
  "('b, 's, 'g, 'rs, 'cs) wire \<Rightarrow> ('b, 's, 'g, 'pp, 'rs, 'cs, 'pk, 'vk) nova \<Rightarrow> bytes
   \<Rightarrow> (('b, 'rs) wraps_proof, wraps_error) result" where
  "resume_chain F N prev_proof =
     and_then (decode (running_codec F) prev_proof) (\<lambda>running.
     if num_steps running = 0 \<or> length (proof_z0 running) \<noteq> 2 \<or> length (proof_zi running) \<noteq> 2 \<or>
        num_steps running \<noteq> rs_num_steps N (proof_snark running) \<or>
        proof_zi running \<noteq> rs_outputs N (proof_snark running)
     then Err (InvalidInput ''previous running proof metadata does not match its SNARK'')
     else Ok running)"

definition genesis_hash_msg :: string where
  "genesis_hash_msg = ''no previous proof, so this is genesis; but the previous address book does not hash to the genesis hash''"

definition advance_chain ::
  "('b::field, 's, 'g, 'rng) engine \<Rightarrow> ('b, 's, 'g, 'rs, 'cs) wire \<Rightarrow> ('b, 's, 'g, 'pp, 'rs, 'cs, 'pk, 'vk) nova
   \<Rightarrow> 'pp \<Rightarrow> 'b \<Rightarrow> bytes \<Rightarrow> ('b, 's, 'g) rotation_circuit \<Rightarrow> ('b, 'rs) wraps_proof
   \<Rightarrow> (bytes \<times> bytes, wraps_error) result" where
  "advance_chain W F N pp ab_genesis_hash hints_vk circuit running =
     and_then (map_err (\<lambda>e. Cryptography (''proving the rotation failed: '' @ e))
       (rs_prove_step N pp (proof_snark running) circuit)) (\<lambda>snark.
     let running = running\<lparr>num_steps := rs_num_steps N snark, proof_zi := rs_outputs N snark, proof_snark := snark\<rparr> in
     and_then (index (proof_z0 running) 1) (\<lambda>z01.
     and_then (encode (message_codec F) (ab_genesis_hash, z01)) (\<lambda>not_really_ledger_id.
     and_then (encode (running_codec F) running) (\<lambda>uncompressed.
     and_then (verify_uncompressed_wraps_proof W F N pp uncompressed not_really_ledger_id hints_vk) (\<lambda>b.
     if \<not> b then Err (Cryptography ''the uncompressed proof just produced does not verify'')
     else
       and_then (map_err (\<lambda>e. Cryptography (''compressing SNARK setup failed: '' @ e)) (cs_setup N pp)) (\<lambda>(pk, vk).
       and_then (map_err (\<lambda>e. Cryptography (''compressing the proof failed: '' @ e)) (cs_prove N pp pk (proof_snark running))) (\<lambda>csnark.
       and_then (encode (compressed_codec F)
         \<lparr>num_steps = num_steps running, proof_z0 = proof_z0 running, proof_zi = proof_zi running, proof_snark = csnark\<rparr>) (\<lambda>compressed.
       and_then (verify_compressed_wraps_proof W F N vk compressed not_really_ledger_id hints_vk) (\<lambda>b.
       if \<not> b then Err (Cryptography ''the compressed proof just produced does not verify'')
       else Ok (uncompressed, compressed))))))))))"

definition construct_wraps_proof ::
  "('b::field, 's::field, 'g::ab_group_add, 'rng) engine \<Rightarrow> ('b, 's, 'g, 'rs, 'cs) wire
   \<Rightarrow> ('b, 's, 'g, 'pp, 'rs, 'cs, 'pk, 'vk) nova \<Rightarrow> 'pp \<Rightarrow> 'b \<Rightarrow> ('b, 's, 'g) address_book \<Rightarrow> ('b, 's, 'g) address_book
   \<Rightarrow> bytes option \<Rightarrow> bytes \<Rightarrow> ('b, 's) schnorr_multi_signature \<Rightarrow> (bytes \<times> bytes, wraps_error) result" where
  "construct_wraps_proof W F N pp ab_genesis_hash prev_ab next_ab prev_proof hints_vk multi_signature =
     (let (bitvector, signature) = multi_signature in
      if \<not> verify_address_book W prev_ab then Err (InvalidInput ''invalid previous address book'')
      else if \<not> verify_address_book W next_ab then Err (InvalidInput ''invalid next address book'')
      else if selects_beyond bitvector (length prev_ab)
      then Err (InvalidInput ''bitvector selects a seat outside the previous address book'')
      else
        and_then (pad_address_book W prev_ab) (\<lambda>prev_ab.
        and_then (pad_address_book W next_ab) (\<lambda>next_ab.
        let prev_ab_hash = hash_address_book W prev_ab;
            next_ab_hash = hash_address_book W next_ab;
            hints_vk_hash = compute_hints_vk_hash W hints_vk;
            is_genesis = (prev_proof = None) in
        if is_genesis \<and> ab_genesis_hash \<noteq> prev_ab_hash then Err (InvalidInput genesis_hash_msg)
        else if is_genesis \<and> next_ab_hash \<noteq> prev_ab_hash
        then Err (InvalidInput ''a genesis step must rotate the address book onto itself'')
        else
          and_then (compute_rotation_message W F next_ab hints_vk) (\<lambda>message.
          and_then (verify_signature W F prev_ab message multi_signature) (\<lambda>b.
          if \<not> b then Err (InvalidInput ''Schnorr multisignature verification failed'')
          else
            and_then (decode_rotation_message F message) (\<lambda>msg.
            let circuit = \<lparr>rc_prev_ab = prev_ab, rc_bitvector = bitvector, rc_sig = signature, rc_msg = msg\<rparr> in
            and_then (case prev_proof of
                None \<Rightarrow> start_chain N pp circuit [prev_ab_hash, hints_vk_hash]
              | Some prev \<Rightarrow> resume_chain F N prev) (\<lambda>running.
            advance_chain W F N pp ab_genesis_hash hints_vk circuit running)))))))"

section \<open>Wire lemmas\<close>

definition wire_ok :: "('b, 's, 'g, 'rs, 'cs) wire \<Rightarrow> bool" where
  "wire_ok F \<longleftrightarrow> codec_ok (message_codec F) \<and> codec_ok (round_codec F) \<and> codec_ok (running_codec F) \<and> codec_ok (compressed_codec F)"

lemma decode_rotation_message_iff: "decode_rotation_message F bs = Ok m \<longleftrightarrow> decode (message_codec F) bs = Ok m"
  by (simp add: decode_rotation_message_def)

lemma decode_round_messages_iff:
  "decode_round_messages F messages round payload = Ok ps \<longleftrightarrow>
    length ps = length messages \<and>
    (\<forall>i < length messages. \<exists>m. decode (round_codec F) (messages ! i) = Ok m \<and> payload m = Some (ps ! i))"
  by (auto simp: decode_round_messages_def collect_eq_Ok list_all2_conv_all_nth)

lemma decode_round_messages_Nil [simp]: "decode_round_messages F [] round payload = Ok []"
  by (simp add: decode_round_messages_def)

text \<open>The encoding that a codec gives to a value.\<close>

definition wire_bytes :: "'v codec \<Rightarrow> 'v \<Rightarrow> bytes" where
  "wire_bytes c v = (case encode c v of Ok bs \<Rightarrow> bs | _ \<Rightarrow> [])"

lemma wire_bytes:
  assumes "codec_ok c"
  shows "encode c v = Ok (wire_bytes c v)" "decode c (wire_bytes c v) = Ok v"
  using decode_encode [OF assms, of v] by (auto simp: wire_bytes_def)

lemma decode_sent_messages:
  assumes "codec_ok (round_codec F)" "\<And>p. payload (inject p) = Some p"
  shows "decode_round_messages F (map (wire_bytes (round_codec F) \<circ> inject) ps) round payload = Ok ps"
  using assms by (auto simp: decode_round_messages_iff wire_bytes)

lemma encode_protocol_message_eq:
  "codec_ok (round_codec F) \<Longrightarrow> encode_protocol_message F m = Ok (ProtocolMessage (wire_bytes (round_codec F) m))"
  by (simp add: encode_protocol_message_def wire_bytes)

lemma validate_signing_phase_iff:
  "validate_signing_phase phase n he hk counts = Ok () \<longleftrightarrow>
    (case phase_needs n phase of (ne, nk, expected) \<Rightarrow> (ne \<longrightarrow> he) \<and> (nk \<longrightarrow> hk) \<and> counts = expected)"
  by (auto simp: validate_signing_phase_def Let_def split: prod.splits)

section \<open>Verification over the book\<close>

lemma book_fits: "verify_address_book W ab \<Longrightarrow> length ab \<le> MAX_AB_SIZE"
  by (simp add: verify_address_book_iff)

lemma verify_address_book_padded:
  fixes W :: "('b::field, 's::field, 'g::ab_group_add, 'rng) engine"
  assumes "engine_ok W" "length ab \<le> MAX_AB_SIZE"
  shows "verify_address_book W (ab @ replicate (MAX_AB_SIZE - length ab) (padding_entry W)) \<longleftrightarrow> verify_address_book W ab"
  using assms(2) by (simp add: verify_address_book_iff live_entries_padded [OF assms(1)] total_weight_padding [OF assms(1)])

text \<open>The verdict of \<open>verify_signature\<close>, without padding, words or loops.\<close>

definition rotation_authorised ::
  "('b::field, 's::field, 'g::ab_group_add, 'rng) engine \<Rightarrow> ('b, 's, 'g) address_book \<Rightarrow> 'b rotation_message
   \<Rightarrow> bit_vector \<Rightarrow> ('b, 's) schnorr_signature \<Rightarrow> bool" where
  "rotation_authorised W ab message bv sig \<longleftrightarrow>
     verify_address_book W ab \<and> \<not> selects_beyond bv (length ab) \<and>
     total_weight_of W ab < 2 * signing_weight_of W ab bv \<and>
     sum_list (signing_subset W ab bv) \<noteq> 0 \<and>
     schnorr_verify W (sum_list (signing_subset W ab bv)) (message_slice message) sig"

lemma subset_weight_padded:
  fixes W :: "('b::field, 's::field, 'g::ab_group_add, 'rng) engine"
  assumes ok: "engine_ok W" and valid: "verify_address_book W ab" and len: "length bv = MAX_AB_SIZE"
  obtains s t where
    "subset_weight W (ab @ replicate (MAX_AB_SIZE - length ab) (padding_entry W)) bv = Some (s, t)"
    "unat s = signing_weight_of W ab bv" "unat t = total_weight_of W ab"
proof -
  let ?p = "ab @ replicate (MAX_AB_SIZE - length ab) (padding_entry W)"
  have fits: "length ab \<le> MAX_AB_SIZE" and tot: "total_weight_of W ab < 2 ^ 64"
    using valid by (simp_all add: verify_address_book_iff)
  have le: "signing_weight_of W ab bv \<le> total_weight_of W ab" using signing_le_total fits len by metis
  have u: "unat (of_nat n :: weight) = n" if "n < 2 ^ 64" for n
    using that by (simp add: unat_of_nat)
  have "subset_weight W ?p bv = Some (of_nat (signing_weight_of W ab bv), of_nat (total_weight_of W ab))"
    using fits tot le len
    by (simp add: subset_weight_Some signing_weight_padded [OF ok] total_weight_padding [OF ok] u)
  then show thesis using that u tot le by (metis le_less_trans)
qed

lemma verify_signature_eq:
  fixes W :: "('b::field, 's::field, 'g::ab_group_add, 'rng) engine"
  assumes ok: "engine_ok W" and len: "length bv = MAX_AB_SIZE"
    and msg: "decode_rotation_message F bs = Ok message"
    and live: "reject_sentinel_signers W ab bv = Ok () \<or> \<not> verify_address_book W ab \<or> selects_beyond bv (length ab)"
  shows "verify_signature W F ab bs (bv, sig) = Ok (rotation_authorised W ab message bv sig)"
proof (cases "verify_address_book W ab \<and> \<not> selects_beyond bv (length ab)")
  case False
  then show ?thesis by (auto simp: verify_signature_def msg rotation_authorised_def)
next
  case True
  then have fits: "length ab \<le> MAX_AB_SIZE" using book_fits by blast
  obtain s t where st: "subset_weight W (ab @ replicate (MAX_AB_SIZE - length ab) (padding_entry W)) bv = Some (s, t)"
    "unat s = signing_weight_of W ab bv" "unat t = total_weight_of W ab"
    using subset_weight_padded [OF ok _ len] True by blast
  have le: "signing_weight_of W ab bv \<le> total_weight_of W ab" using signing_le_total fits len by metis
  show ?thesis
    using True live st le fits
    by (auto simp: verify_signature_def msg rotation_authorised_def pad_address_book_eq meets_threshold_iff
        signing_subset_padded [OF ok] aggregate_key_eq infinity_iff [OF ok] Let_def)
qed

section \<open>Sessions of the signing protocol\<close>

text \<open>What every phase requires of the book and the bits, and the padded bits it goes on with.\<close>

definition signing_set ::
  "('b::field, 's::field, 'g::ab_group_add, 'rng) engine \<Rightarrow> ('b, 's, 'g) address_book \<Rightarrow> bool list \<Rightarrow> bit_vector \<Rightarrow> bool" where
  "signing_set W ab bits bv \<longleftrightarrow>
     verify_address_book W ab \<and> pad_bitvector bits = Ok bv \<and> \<not> selects_beyond bv (length ab) \<and>
     reject_sentinel_signers W ab bv = Ok ()"

lemma signing_protocol_iff:
  "signing_protocol W F phase entropy bs key ab bits ms1 ms2 ms3 = Ok out \<longleftrightarrow>
    (\<exists>bv message round1 round2 round3.
       signing_set W ab bits bv \<and> (phase = R1 \<or> signing_subset W ab bv \<noteq> []) \<and>
       validate_signing_phase phase (length (signing_subset W ab bv)) (entropy \<noteq> None) (key \<noteq> None)
         (length ms1, length ms2, length ms3) = Ok () \<and>
       decode_rotation_message F bs = Ok message \<and>
       decode_round_messages F ms1 ''round-1'' payload1 = Ok round1 \<and>
       decode_round_messages F ms2 ''round-2'' payload2 = Ok round2 \<and>
       decode_round_messages F ms3 ''round-3'' payload3 = Ok round3 \<and>
       run_phase W F phase entropy message key bv (signing_subset W ab bv) round1 round2 round3 = Ok out)"
  unfolding signing_protocol_def signing_set_def
  by (cases "verify_address_book W ab"; cases "phase = R1") (auto simp: Let_def split: if_splits)

definition sent1 :: "('b, 's, 'g, 'rs, 'cs) wire \<Rightarrow> multisig_round1 list \<Rightarrow> bytes list" where
  "sent1 F = map (wire_bytes (round_codec F) \<circ> Round1)"

definition sent2 :: "('b, 's, 'g, 'rs, 'cs) wire \<Rightarrow> 'g multisig_round2 list \<Rightarrow> bytes list" where
  "sent2 F = map (wire_bytes (round_codec F) \<circ> Round2)"

definition sent3 :: "('b, 's, 'g, 'rs, 'cs) wire \<Rightarrow> ('b, 's) multisig_round3 list \<Rightarrow> bytes list" where
  "sent3 F = map (wire_bytes (round_codec F) \<circ> Round3)"

lemma sent_messages:
  assumes "codec_ok (round_codec F)"
  shows "decode_round_messages F (sent1 F r1) round payload1 = Ok r1"
    "decode_round_messages F (sent2 F r2) round payload2 = Ok r2"
    "decode_round_messages F (sent3 F r3) round payload3 = Ok r3"
  using assms by (simp_all add: sent1_def sent2_def sent3_def decode_sent_messages)

lemma sent_lengths [simp]:
  "length (sent1 F r1) = length r1" "length (sent2 F r2) = length r2" "length (sent3 F r3) = length r3"
  by (simp_all add: sent1_def sent2_def sent3_def)

lemma sent_nth [simp]:
  "i < length r1 \<Longrightarrow> sent1 F r1 ! i = wire_bytes (round_codec F) (Round1 (r1 ! i))"
  "i < length r2 \<Longrightarrow> sent2 F r2 ! i = wire_bytes (round_codec F) (Round2 (r2 ! i))"
  "i < length r3 \<Longrightarrow> sent3 F r3 ! i = wire_bytes (round_codec F) (Round3 (r3 ! i))"
  by (simp_all add: sent1_def sent2_def sent3_def)

text \<open>An honest session: what each of its members sends in each round, and what the aggregator returns.\<close>

lemma honest_session:
  fixes W :: "('b::field, 's::field, 'g::ab_group_add, 'rng) engine" and F :: "('b, 's, 'g, 'rs, 'cs) wire"
  assumes ok: "engine_ok W" and rc: "codec_ok (round_codec F)" and set: "signing_set W ab bits bv"
    and keys: "signing_subset W ab bv = session_keys W ses" and nz: "sum_list (session_keys W ses) \<noteq> 0"
    and msg: "decode_rotation_message F bs = Ok message"
  defines "ms1 \<equiv> sent1 F (session_round1 W (message_slice message) ses)"
    and "ms2 \<equiv> sent2 F (session_round2 W (message_slice message) ses)"
  shows "\<exists>ms3 sig. length ms3 = length ses \<and>
    (\<forall>i < length ses.
       signing_protocol W F R1 (Some (fst (ses ! i))) bs None ab bits [] [] [] = Ok (ProtocolMessage (ms1 ! i)) \<and>
       signing_protocol W F R2 (Some (fst (ses ! i))) bs None ab bits ms1 [] [] = Ok (ProtocolMessage (ms2 ! i)) \<and>
       signing_protocol W F R3 (Some (fst (ses ! i))) bs (Some (snd (ses ! i))) ab bits ms1 ms2 [] = Ok (ProtocolMessage (ms3 ! i))) \<and>
    signing_protocol W F Aggregate None bs None ab bits ms1 ms2 ms3 = Ok (ProtocolOutput (bv, sig))"
proof -
  let ?m = "message_slice message"
  have ne: "ses \<noteq> []" using nz by (auto simp: session_keys_def)
  have "distinct (signing_subset W ab bv)"
    using set by (intro distinct_signing_subset) (simp add: signing_set_def verify_address_book_iff)
  then have dist: "distinct (session_keys W ses)" by (simp add: keys)
  obtain e where e: "multisig_challenge W ?m (session_keys W ses) (session_round1 W ?m ses) (session_round2 W ?m ses) = Ok e"
    "\<And>i. i < length ses \<Longrightarrow> multisig_round3_of W (fst (ses ! i)) ?m (snd (ses ! i)) (session_keys W ses)
       (session_round1 W ?m ses) (session_round2 W ?m ses) = Ok (session_share W ?m e (ses ! i))"
    "multisig_aggregate W ?m (session_keys W ses) (session_round1 W ?m ses) (session_round2 W ?m ses) (map (session_share W ?m e) ses)
      = Ok \<lparr>sig_e = e, sig_s = (\<Sum>x\<leftarrow>ses. sig_s (partial_signature (session_share W ?m e x)))\<rparr>"
    using session_complete [OF ok ne dist nz, of ?m] by blast
  define ms3 where "ms3 = sent3 F (map (session_share W ?m e) ses)"
  define sig where "sig = \<lparr>sig_e = e, sig_s = (\<Sum>x\<leftarrow>ses. sig_s (partial_signature (session_share W ?m e x)))\<rparr>"
  have keys_ne: "session_keys W ses \<noteq> []" using ne by (simp add: session_keys_def)
  note phase = signing_protocol_iff set msg keys keys_ne validate_signing_phase_iff run_phase_def
    encode_protocol_message_eq [OF rc] sent_messages [OF rc]
  have r1: "signing_protocol W F R1 (Some (fst (ses ! i))) bs None ab bits [] [] [] = Ok (ProtocolMessage (ms1 ! i))"
    if "i < length ses" for i
    unfolding signing_protocol_iff
    using that by (intro exI [of _ bv] exI [of _ message] exI [of _ "[]"]) (simp add: phase ms1_def session_nth(3))
  have r2: "signing_protocol W F R2 (Some (fst (ses ! i))) bs None ab bits ms1 [] [] = Ok (ProtocolMessage (ms2 ! i))"
    if i: "i < length ses" for i
  proof -
    have "multisig_round1_of W (fst (ses ! i)) ?m \<in> set (session_round1 W ?m ses)"
      using session_nth(3) [OF i, of W ?m] i by (metis nth_mem session_lengths(2))
    moreover have "session_round2 W ?m ses ! i = multisig_round2_of W (fst (ses ! i)) ?m"
      using i by (simp add: session_round2_def split_def)
    ultimately show ?thesis
      unfolding signing_protocol_iff using i
      by (intro exI [of _ bv] exI [of _ message] exI [of _ "session_round1 W ?m ses"] exI [of _ "[]"]) (simp add: phase ms1_def ms2_def)
  qed
  have r3: "signing_protocol W F R3 (Some (fst (ses ! i))) bs (Some (snd (ses ! i))) ab bits ms1 ms2 [] = Ok (ProtocolMessage (ms3 ! i))"
    if "i < length ses" for i
    unfolding signing_protocol_iff using that e(2) [OF that]
    by (intro exI [of _ bv] exI [of _ message] exI [of _ "session_round1 W ?m ses"] exI [of _ "session_round2 W ?m ses"] exI [of _ "[]"])
      (simp add: phase ms1_def ms2_def ms3_def)
  have ag: "signing_protocol W F Aggregate None bs None ab bits ms1 ms2 ms3 = Ok (ProtocolOutput (bv, sig))"
    unfolding signing_protocol_iff using e(3)
    by (intro exI [of _ bv] exI [of _ message] exI [of _ "session_round1 W ?m ses"] exI [of _ "session_round2 W ?m ses"]
        exI [of _ "map (session_share W ?m e) ses"]) (simp add: phase ms1_def ms2_def ms3_def sig_def)
  show ?thesis using r1 r2 r3 ag by (intro exI [of _ ms3] exI [of _ sig]) (simp add: ms3_def)
qed

text \<open>Whatever messages the aggregator accepts, its output is judged by the weight of the signers alone.\<close>

lemma aggregate_output:
  fixes W :: "('b::field, 's::field, 'g::ab_group_add, 'rng) engine" and F :: "('b, 's, 'g, 'rs, 'cs) wire"
  assumes ok: "engine_ok W"
    and agg: "signing_protocol W F Aggregate entropy bs key ab bits ms1 ms2 ms3 = Ok (ProtocolOutput (bv, sig))"
  shows "signing_set W ab bits bv \<and>
    verify_signature W F ab bs (bv, sig) = Ok (total_weight_of W ab < 2 * signing_weight_of W ab bv)"
proof -
  obtain bv' message round1 round2 round3 where a: "signing_set W ab bits bv'"
    "decode_rotation_message F bs = Ok message"
    "run_phase W F Aggregate entropy message key bv' (signing_subset W ab bv') round1 round2 round3 = Ok (ProtocolOutput (bv, sig))"
    using agg unfolding signing_protocol_iff by blast
  then have bv: "bv' = bv" and ms: "multisig_aggregate W (message_slice message) (signing_subset W ab bv) round1 round2 round3 = Ok sig"
    by (auto simp: run_phase_def)
  have nz: "sum_list (signing_subset W ab bv) \<noteq> 0"
    using ms by (auto simp: multisig_aggregate_iff [OF ok] multisig_challenge_iff [OF ok])
  have len: "length bv = MAX_AB_SIZE" using a(1) pad_bitvector_ok by (auto simp: signing_set_def bv)
  have "reject_sentinel_signers W ab bv = Ok ()" "verify_address_book W ab" "\<not> selects_beyond bv (length ab)"
    using a(1) by (simp_all add: signing_set_def bv)
  then show ?thesis
    using verify_signature_eq [OF ok len a(2)] nz aggregate_is_valid [OF ok ms] a(1)
    by (simp add: rotation_authorised_def bv)
qed

section \<open>Proof construction\<close>

lemma selects_beyond_padded:
  assumes "length bv = MAX_AB_SIZE" shows "\<not> selects_beyond bv MAX_AB_SIZE"
  using assms by (simp add: selects_beyond_def)

lemma rotation_authorised_padded:
  fixes W :: "('b::field, 's::field, 'g::ab_group_add, 'rng) engine"
  assumes "engine_ok W" "length bv = MAX_AB_SIZE" "verify_address_book W ab" "\<not> selects_beyond bv (length ab)"
  shows "rotation_authorised W (ab @ replicate (MAX_AB_SIZE - length ab) (padding_entry W)) message bv sig
    \<longleftrightarrow> rotation_authorised W ab message bv sig"
  using assms book_fits [OF assms(3)] selects_beyond_padded [OF assms(2)]
  by (simp add: rotation_authorised_def verify_address_book_padded signing_subset_padded signing_weight_padded
      total_weight_padding)

text \<open>The hash of a valid book, whatever its number of empty trailing seats.\<close>

definition book_hash :: "('b::field, 's::zero, 'g, 'rng) engine \<Rightarrow> ('b, 's, 'g) address_book \<Rightarrow> 'b" where
  "book_hash W ab = hash_address_book W (ab @ replicate (MAX_AB_SIZE - length ab) (padding_entry W))"

lemma compute_addressbook_hash_eq:
  "compute_addressbook_hash W ab =
    (if verify_address_book W ab then Ok (book_hash W ab) else Err (InvalidInput invalid_book_msg))"
  by (auto simp: compute_addressbook_hash_def pad_address_book_eq book_hash_def dest: book_fits)

lemma book_hash_padded:
  "length ab + k \<le> MAX_AB_SIZE \<Longrightarrow> book_hash W (ab @ replicate k (padding_entry W)) = book_hash W ab"
  by (simp add: book_hash_def replicate_add [symmetric])

lemma verify_signature_True:
  fixes W :: "('b::field, 's::field, 'g::ab_group_add, 'rng) engine"
  assumes ok: "engine_ok W" and len: "length bv = MAX_AB_SIZE" and msg: "decode_rotation_message F bs = Ok message"
  shows "verify_signature W F ab bs (bv, sig) = Ok True \<longleftrightarrow>
    rotation_authorised W ab message bv sig \<and> reject_sentinel_signers W ab bv = Ok ()"
proof (cases "reject_sentinel_signers W ab bv = Ok () \<or> \<not> verify_address_book W ab \<or> selects_beyond bv (length ab)")
  case True
  then show ?thesis
    using verify_signature_eq [OF ok len msg True] by (auto simp: rotation_authorised_def)
next
  case False
  then have "verify_signature W F ab bs (bv, sig) \<noteq> Ok True"
    by (auto simp: verify_signature_def msg Let_def)
  then show ?thesis using False by blast
qed

lemma construct_wraps_proof_cases:
  fixes W :: "('b::field, 's::field, 'g::ab_group_add, 'rng) engine" and F :: "('b, 's, 'g, 'rs, 'cs) wire"
  assumes ok: "engine_ok W" and wf: "wire_ok F" and len: "length bv = MAX_AB_SIZE"
    and con: "construct_wraps_proof W F N pp genesis prev_ab next_ab prev_proof hints_vk (bv, sig) = Ok (u, c)"
  defines "message \<equiv> (book_hash W next_ab, compute_hints_vk_hash W hints_vk)"
  obtains running where
    "verify_address_book W next_ab"
    "rotation_authorised W prev_ab message bv sig" "reject_sentinel_signers W prev_ab bv = Ok ()"
    "prev_proof = None \<Longrightarrow> genesis = book_hash W prev_ab \<and> book_hash W next_ab = book_hash W prev_ab"
    "(case prev_proof of
        None \<Rightarrow> start_chain N pp \<lparr>rc_prev_ab = prev_ab @ replicate (MAX_AB_SIZE - length prev_ab) (padding_entry W),
            rc_bitvector = bv, rc_sig = sig, rc_msg = message\<rparr> [book_hash W prev_ab, compute_hints_vk_hash W hints_vk]
      | Some prev \<Rightarrow> resume_chain F N prev) = Ok running"
    "advance_chain W F N pp genesis hints_vk \<lparr>rc_prev_ab = prev_ab @ replicate (MAX_AB_SIZE - length prev_ab) (padding_entry W),
            rc_bitvector = bv, rc_sig = sig, rc_msg = message\<rparr> running = Ok (u, c)"
proof -
  let ?p = "\<lambda>ab. ab @ replicate (MAX_AB_SIZE - length ab) (padding_entry W)"
  have valid: "verify_address_book W prev_ab" "verify_address_book W next_ab" and sel: "\<not> selects_beyond bv (length prev_ab)"
    using con by (auto simp: construct_wraps_proof_def split: if_splits)
  have fits: "length prev_ab \<le> MAX_AB_SIZE" "length next_ab \<le> MAX_AB_SIZE" using valid book_fits by blast+
  have vp: "verify_address_book W (?p next_ab)" using verify_address_book_padded [OF ok fits(2)] valid by simp
  have bh: "hash_address_book W (?p ab) = book_hash W ab" for ab by (simp add: book_hash_def)
  have rm: "compute_rotation_message W F (?p next_ab) hints_vk = Ok (wire_bytes (message_codec F) message)"
    using wf vp fits book_hash_padded [of next_ab "MAX_AB_SIZE - length next_ab" W]
    by (simp add: compute_rotation_message_def compute_addressbook_hash_eq wire_ok_def wire_bytes message_def)
  have dm: "decode_rotation_message F (wire_bytes (message_codec F) message) = Ok message"
    using wf by (simp add: decode_rotation_message_iff wire_ok_def wire_bytes)
  have drop: "\<forall>b \<in> set (drop (length prev_ab) bv). \<not> b" using sel by (auto simp: selects_beyond_def)
  obtain running where r:
    "prev_proof = None \<Longrightarrow> genesis = book_hash W prev_ab \<and> book_hash W next_ab = book_hash W prev_ab"
    "verify_signature W F (?p prev_ab) (wire_bytes (message_codec F) message) (bv, sig) = Ok True"
    "(case prev_proof of
        None \<Rightarrow> start_chain N pp \<lparr>rc_prev_ab = ?p prev_ab, rc_bitvector = bv, rc_sig = sig, rc_msg = message\<rparr>
           [book_hash W prev_ab, compute_hints_vk_hash W hints_vk]
      | Some prev \<Rightarrow> resume_chain F N prev) = Ok running"
    "advance_chain W F N pp genesis hints_vk \<lparr>rc_prev_ab = ?p prev_ab, rc_bitvector = bv, rc_sig = sig, rc_msg = message\<rparr> running = Ok (u, c)"
    using con valid sel fits
    by (cases prev_proof) (auto simp: construct_wraps_proof_def pad_address_book_eq bh rm dm Let_def split: if_splits)
  have "rotation_authorised W prev_ab message bv sig" "reject_sentinel_signers W prev_ab bv = Ok ()"
    using r(2) unfolding verify_signature_True [OF ok len dm] rotation_authorised_padded [OF ok len valid(1) sel]
    by (simp_all add: reject_sentinel_padded [OF drop])
  then show thesis using that valid r by blast
qed

lemma advance_chain_verified:
  assumes "advance_chain W F N pp genesis hints_vk circuit running = Ok (u, c)"
  obtains z01 ledger vk where
    "proof_z0 running ! 1 = z01" "encode (message_codec F) (genesis, z01) = Ok ledger"
    "verify_uncompressed_wraps_proof W F N pp u ledger hints_vk = Ok True"
    "setup_compressed_verifier N pp = Ok vk"
    "verify_compressed_wraps_proof W F N vk c ledger hints_vk = Ok True"
  using assms by (auto simp: advance_chain_def setup_compressed_verifier_def Let_def split: if_splits)

end
