(* ===== verification/WrapsInstance.thy ===== *)
theory WrapsInstance
  imports Complex_Main Gf17 WrapsProtocol
begin

text \<open>
  A small engine: the base field is the rational numbers, scalars and points are the field with 17
  elements. With self-delimiting codecs and an idealised folding scheme it is an instance on which the
  hypotheses of the rotation properties hold and the definitions evaluate.
\<close>

definition base_bits :: "rat \<Rightarrow> bool list" where
  "base_bits x = (let d = (fst (quotient_of x) + 7 * (snd (quotient_of x) - 1)) mod 2 ^ 70
     in map (\<lambda>i. odd (d div 2 ^ i)) [0..<70])"

text \<open>An equation for evaluation that computes the residue once.\<close>

definition pick17 :: "int \<Rightarrow> gf17" where
  "pick17 r = [Z0, Z1, Z2, Z3, Z4, Z5, Z6, Z7, Z8, Z9, Z10, Z11, Z12, Z13, Z14, Z15, Z16] ! nat r"

lemma from_int17_code [code]: "from_int17 k = pick17 (k mod 17)"
proof -
  have "k mod 17 \<in> set [0..16]" by simp
  then show ?thesis unfolding from_int17_def Let_def pick17_def by (simp add: upto_rec1) (elim disjE; simp)
qed

definition coordinates17 :: "gf17 \<Rightarrow> rat \<times> rat \<times> bool" where
  "coordinates17 P = (of_int (to_int17 P), of_int (to_int17 P * to_int17 P), P = 0)"

definition switch17 :: "rat \<Rightarrow> gf17" where
  "switch17 x = from_int17 (fst (quotient_of x))"

definition repr_bytes :: "rat \<Rightarrow> bytes" where
  "repr_bytes x = [of_int (fst (quotient_of x)), of_int (snd (quotient_of x))]"

definition small_sponge :: "sponge_op list \<Rightarrow> 32 word \<Rightarrow> rat list \<Rightarrow> rat" where
  "small_sponge pattern ds xs = foldl (\<lambda>acc x. 3 * acc + x) (of_nat (unat ds)) xs"

definition small_hash :: "bytes \<Rightarrow> bytes" where
  "small_hash bs = [foldl (\<lambda>acc b. 3 * acc + b) 1 bs, of_nat (length bs)]"

definition small_rng :: "bytes \<Rightarrow> nat" where
  "small_rng seed = foldl (\<lambda>acc b. 2 * acc + unat b) 0 seed"

definition random17 :: "nat \<Rightarrow> gf17" where
  "random17 rng = from_int17 (int (rng mod 16) + 1)"

definition small_engine :: "(rat, gf17, gf17, nat) engine" where
  "small_engine =
     \<lparr>ge_gen = Z3, ge_mul = times, to_coordinates = coordinates17, field_switch = switch17, to_le_bits = base_bits,
      to_repr = repr_bytes, sponge_squeeze = small_sponge, engine_sha256 = small_hash,
      chacha20_from_seed = small_rng, scalar_random = random17, NUM_CHALLENGE_BITS = 2\<rparr>"

lemma small_engine_sel:
  "ge_gen small_engine = Z3" "ge_mul small_engine P a = P * a"
  "to_coordinates small_engine P = (of_int (to_int17 P), of_int (to_int17 P * to_int17 P), P = 0)"
  "field_switch small_engine x = from_int17 (fst (quotient_of x))" "to_le_bits small_engine = base_bits"
  "engine_sha256 small_engine bs = [foldl (\<lambda>acc b. 3 * acc + b) 1 bs, of_nat (length bs)]"
  "chacha20_from_seed small_engine seed = foldl (\<lambda>acc b. 2 * acc + unat b) 0 seed"
  "scalar_random small_engine rng = from_int17 (int (rng mod 16) + 1)" "NUM_CHALLENGE_BITS small_engine = 2"
  by (simp_all add: small_engine_def coordinates17_def switch17_def small_hash_def small_rng_def random17_def)

lemma small_engine_ok: "engine_ok small_engine"
  by (simp add: engine_ok_def small_engine_sel algebra_simps)

lemma small_encodings_injective: "encodings_injective small_engine"
  by (auto simp: encodings_injective_def small_engine_sel inj_def inj_on_def to_int17_inject)

section \<open>Codecs\<close>

text \<open>A sequence of naturals in unary, each closed by a zero byte.\<close>

definition unary :: "nat list \<Rightarrow> bytes" where
  "unary ns = concat (map (\<lambda>n. replicate n 1 @ [0]) ns)"

fun of_unary :: "nat \<Rightarrow> bytes \<Rightarrow> nat list" where
  "of_unary n [] = []"
| "of_unary n (b # bs) = (if b = 0 then n # of_unary 0 bs else of_unary (Suc n) bs)"

lemma of_unary_block: "of_unary k (replicate n 1 @ 0 # bs) = (k + n) # of_unary 0 bs"
  by (induction n arbitrary: k) simp_all

lemma of_unary_unary: "of_unary 0 (unary ns) = ns"
  by (induction ns) (simp_all add: unary_def of_unary_block)

definition unary_codec :: "('v \<Rightarrow> nat list) \<Rightarrow> (nat list \<Rightarrow> 'v option) \<Rightarrow> 'v codec" where
  "unary_codec to_nats of_nats =
     \<lparr>codec_ser = (\<lambda>v. Ok (unary (to_nats v))),
      codec_de = (\<lambda>bs. map_err (\<lambda>e. e) (and_then (ok_or ''malformed'' (of_nats (of_unary 0 bs))) (\<lambda>v. Ok (v, length bs))))\<rparr>"

lemma unary_codec_ok: "(\<And>v. of_nats (to_nats v) = Some v) \<Longrightarrow> codec_ok (unary_codec to_nats of_nats)"
  by (simp add: codec_ok_def unary_codec_def of_unary_unary)

definition rat_nats :: "rat \<Rightarrow> nat list" where
  "rat_nats x = (let q = quotient_of x in [if fst q < 0 then 1 else 0, nat \<bar>fst q\<bar>, nat (snd q)])"

fun take_rat :: "nat list \<Rightarrow> (rat \<times> nat list) option" where
  "take_rat (s # a # b # ns) = Some ((if s = 0 then of_nat a else - of_nat a) / of_nat b, ns)"
| "take_rat _ = None"

lemma take_rat_nats: "take_rat (rat_nats x @ ns) = Some (x, ns)"
proof -
  obtain a b where q: "quotient_of x = (a, b)" by fastforce
  have "x = of_int a / of_int b" "0 < b" using q quotient_of_div quotient_of_denom_pos by auto
  then show ?thesis using q by (simp add: rat_nats_def Let_def)
qed

fun take_rats :: "nat \<Rightarrow> nat list \<Rightarrow> (rat list \<times> nat list) option" where
  "take_rats 0 ns = Some ([], ns)"
| "take_rats (Suc n) ns =
     (case take_rat ns of None \<Rightarrow> None
      | Some (x, ns) \<Rightarrow> (case take_rats n ns of None \<Rightarrow> None | Some (xs, ns) \<Rightarrow> Some (x # xs, ns)))"

lemma take_rats_nats: "take_rats (length xs) (concat (map rat_nats xs) @ ns) = Some (xs, ns)"
  by (induction xs) (simp_all add: take_rat_nats)

definition message_nats :: "rat rotation_message \<Rightarrow> nat list" where
  "message_nats m = rat_nats (fst m) @ rat_nats (snd m)"

definition nats_message :: "nat list \<Rightarrow> rat rotation_message option" where
  "nats_message ns = (case take_rats 2 ns of Some ([a, b], []) \<Rightarrow> Some (a, b) | _ \<Rightarrow> None)"

lemma nats_message_nats: "nats_message (message_nats m) = Some m"
  using take_rats_nats [of "[fst m, snd m]" "[]"] by (simp add: nats_message_def message_nats_def numeral_2_eq_2)

abbreviation nat17 :: "gf17 \<Rightarrow> nat" where
  "nat17 x \<equiv> nat (to_int17 x)"

lemma nat17: "from_int17 (int (nat17 x)) = x"
  using to_int17_range [of x] by (simp add: from_to17)

fun round_nats :: "(rat, gf17, gf17) round_message \<Rightarrow> nat list" where
  "round_nats (Round1 m) = 0 # map unat (nonce_commitment m)"
| "round_nats (Round2 m) = [1, nat17 (nonce_point m)]"
| "round_nats (Round3 m) = 2 # rat_nats (sig_e (partial_signature m)) @ [nat17 (sig_s (partial_signature m))]"

definition nats_round :: "nat list \<Rightarrow> (rat, gf17, gf17) round_message option" where
  "nats_round ns =
     (case ns of
        [] \<Rightarrow> None
      | tag # ns \<Rightarrow>
          if tag = 0 then Some (Round1 \<lparr>nonce_commitment = map of_nat ns\<rparr>)
          else if tag = 1 then (case ns of [x] \<Rightarrow> Some (Round2 \<lparr>nonce_point = from_int17 (int x)\<rparr>) | _ \<Rightarrow> None)
          else (case take_rat ns of
              Some (x, [y]) \<Rightarrow> Some (Round3 \<lparr>partial_signature = \<lparr>sig_e = x, sig_s = from_int17 (int y)\<rparr>\<rparr>)
            | _ \<Rightarrow> None))"

lemma nats_round_nats: "nats_round (round_nats m) = Some m"
proof (cases m)
  case (Round1 x)
  then show ?thesis by (simp add: nats_round_def comp_def)
next
  case (Round2 x)
  then show ?thesis using nat17 [of "nonce_point x"] by (simp add: nats_round_def)
next
  case (Round3 x)
  then show ?thesis using nat17 [of "sig_s (partial_signature x)"] by (simp add: nats_round_def take_rat_nats)
qed

section \<open>An idealised folding scheme\<close>

text \<open>
  The running proof is the statement itself: step count, initial state, current state. Starting a
  chain performs the work of the first step, and the first proving step commits to it.
\<close>

type_synonym ideal_snark = "nat \<times> rat list \<times> rat list"

definition ideal_verify :: "ideal_snark \<Rightarrow> nat \<Rightarrow> rat list \<Rightarrow> (rat list, string) result" where
  "ideal_verify snark n z0 =
     (case snark of (steps, start, outputs) \<Rightarrow> if steps = n \<and> start = z0 then Ok outputs else Err ''invalid proof'')"

definition ideal_nova :: "(rat, gf17, gf17, unit, ideal_snark, ideal_snark, unit, unit) nova" where
  "ideal_nova =
     \<lparr>rs_new = (\<lambda>_ circuit z0. Ok (0, z0, z0)),
      rs_num_steps = fst,
      rs_outputs = (\<lambda>snark. snd (snd snark)),
      rs_prove_step = (\<lambda>_ snark circuit. Ok (Suc (fst snark), fst (snd snark), message_slice (rc_msg circuit))),
      rs_verify = (\<lambda>snark _. ideal_verify snark),
      cs_setup = (\<lambda>_. Ok ((), ())),
      cs_prove = (\<lambda>_ _ snark. Ok snark),
      cs_verify = (\<lambda>snark _. ideal_verify snark)\<rparr>"

definition rats_nats :: "rat list \<Rightarrow> nat list" where
  "rats_nats xs = length xs # concat (map rat_nats xs)"

fun take_rat_list :: "nat list \<Rightarrow> (rat list \<times> nat list) option" where
  "take_rat_list [] = None"
| "take_rat_list (n # ns) = take_rats n ns"

lemma take_rat_list_nats: "take_rat_list (rats_nats xs @ ns) = Some (xs, ns)"
  by (simp add: rats_nats_def take_rats_nats)

definition proof_nats :: "(rat, ideal_snark) wraps_proof \<Rightarrow> nat list" where
  "proof_nats p = num_steps p # fst (proof_snark p) #
     concat (map rats_nats [proof_z0 p, proof_zi p, fst (snd (proof_snark p)), snd (snd (proof_snark p))])"

fun take_all_rat_lists :: "nat \<Rightarrow> nat list \<Rightarrow> (rat list list \<times> nat list) option" where
  "take_all_rat_lists 0 ns = Some ([], ns)"
| "take_all_rat_lists (Suc n) ns =
     (case take_rat_list ns of None \<Rightarrow> None
      | Some (xs, ns) \<Rightarrow> (case take_all_rat_lists n ns of None \<Rightarrow> None | Some (xss, ns) \<Rightarrow> Some (xs # xss, ns)))"

lemma take_all_rat_lists_nats: "take_all_rat_lists (length xss) (concat (map rats_nats xss) @ ns) = Some (xss, ns)"
  by (induction xss) (simp_all add: take_rat_list_nats)

definition nats_proof :: "nat list \<Rightarrow> (rat, ideal_snark) wraps_proof option" where
  "nats_proof ns =
     (case ns of n # k # ns \<Rightarrow>
        (case take_all_rat_lists 4 ns of
           Some ([z0, zi, s, t], []) \<Rightarrow> Some \<lparr>num_steps = n, proof_z0 = z0, proof_zi = zi, proof_snark = (k, s, t)\<rparr>
         | _ \<Rightarrow> None)
      | _ \<Rightarrow> None)"

lemma nats_proof_nats: "nats_proof (proof_nats p) = Some p"
  using take_all_rat_lists_nats [of "[proof_z0 p, proof_zi p, fst (snd (proof_snark p)), snd (snd (proof_snark p))]" "[]"]
  by (simp add: nats_proof_def proof_nats_def numeral_nat)

definition small_wire :: "(rat, gf17, gf17, ideal_snark, ideal_snark) wire" where
  "small_wire =
     \<lparr>message_codec = unary_codec message_nats nats_message,
      round_codec = unary_codec round_nats nats_round,
      running_codec = unary_codec proof_nats nats_proof,
      compressed_codec = unary_codec proof_nats nats_proof\<rparr>"

lemma small_wire_ok: "wire_ok small_wire"
  by (simp add: wire_ok_def small_wire_def unary_codec_ok nats_message_nats nats_round_nats nats_proof_nats)

section \<open>A committee of two\<close>

definition member1 :: "gf17 \<times> (gf17, gf17) attested_key" where "member1 = wraps_keygen small_engine [1, 2]"
definition member2 :: "gf17 \<times> (gf17, gf17) attested_key" where "member2 = wraps_keygen small_engine [3, 5]"

definition small_book :: "(rat, gf17, gf17) address_book" where
  "small_book = [(10, snd member1, 5), (12, sentinel_keygen small_engine, 99), (11, snd member2, 4)]"

definition small_bits :: "bool list" where
  "small_bits = [True, False, True]"

lemma keygen_attested:
  fixes W :: "('b::field, 's::field, 'g::ab_group_add, 'rng) engine"
  assumes "engine_ok W"
  shows "verify_knowledge W (fst (snd (wraps_keygen W seed))) (snd (snd (wraps_keygen W seed)))"
proof -
  have "kp_pk (schnorr_keygen W rng) = ge_mul W (ge_gen W) (kp_sk (schnorr_keygen W rng))" for rng
    by (simp add: schnorr_keygen_def Let_def)
  from knowledge_verifies [OF assms this] show ?thesis by (simp add: wraps_keygen_def Let_def split_def)
qed

lemma keygen_keys:
  "fst (wraps_keygen W seed) = scalar_random W (chacha20_from_seed W (engine_sha256 W (seed @ [0])))"
  "fst (snd (wraps_keygen W seed)) = ge_mul W (ge_gen W) (fst (wraps_keygen W seed))"
  by (simp_all add: wraps_keygen_def expand_seed_def schnorr_keygen_def Let_def)

lemma member_keys: "fst (snd member1) = Z7" "fst (snd member2) = Z8" "fst member1 = Z8" "fst member2 = Z14"
  by (simp_all add: member1_def member2_def keygen_keys small_engine_sel from_int17_def times_gf17_def)

lemma small_infinity [simp]: "is_infinity small_engine P \<longleftrightarrow> P = 0"
  using infinity_iff [OF small_engine_ok] .

lemma nonzero17 [simp]: "Z7 \<noteq> 0" "Z8 \<noteq> 0" "Z7 + Z8 \<noteq> 0"
  by (simp_all add: zero_gf17_def plus_gf17_def from_int17_def)

lemma small_live: "live_entries small_engine small_book = [(10, snd member1, 5), (11, snd member2, 4)]"
  using sentinel_is_identity [OF small_engine_ok]
  by (simp add: live_entries_alt small_book_def book_key_def member_keys sentinel_keygen_def sentinel_attested_pubkey_def Let_def)

lemma small_total: "total_weight_of small_engine small_book = 9"
  using sentinel_is_identity [OF small_engine_ok]
  by (simp add: small_book_def effective_weight_def split_def member_keys sentinel_keygen_def sentinel_attested_pubkey_def Let_def)

lemma small_book_valid: "verify_address_book small_engine small_book"
  using keygen_attested [OF small_engine_ok, of "[1, 2]"] keygen_attested [OF small_engine_ok, of "[3, 5]"]
  unfolding verify_address_book_iff small_live small_total member1_def [symmetric] member2_def [symmetric]
  by (simp add: book_key_def book_pok_def member_keys small_book_def MAX_AB_SIZE_def)

definition small_bv :: bit_vector where
  "small_bv = small_bits @ replicate 61 False"

lemma small_bv_length: "length small_bv = MAX_AB_SIZE"
  by (simp add: small_bv_def small_bits_def MAX_AB_SIZE_def)

lemma zip_small: "zip small_book small_bv = zip small_book small_bits"
  by (simp add: small_bv_def small_bits_def small_book_def)

lemma small_set: "signing_set small_engine small_book small_bits small_bv"
proof -
  have "pad_bitvector small_bits = Ok small_bv"
    using pad_bitvector_eq [of small_bits] by (simp add: small_bits_def MAX_AB_SIZE_def small_bv_def)
  moreover have "\<not> selects_beyond small_bv (length small_book)"
    by (simp add: selects_beyond_def small_bv_def small_bits_def small_book_def)
  moreover have "reject_sentinel_signers small_engine small_book small_bv = Ok ()"
    unfolding reject_sentinel_iff zip_small by (simp add: small_book_def small_bits_def book_key_def member_keys)
  ultimately show ?thesis by (simp add: signing_set_def small_book_valid)
qed

definition small_session :: "gf17 session" where
  "small_session = [([7], fst member1), ([9], fst member2)]"

lemma session_keys_small: "session_keys small_engine small_session = [Z7, Z8]"
  by (simp add: session_keys_def small_session_def member_keys small_engine_sel from_int17_def times_gf17_def)

lemma small_keys:
  "session_keys small_engine small_session = [Z7, Z8]"
  "signing_subset small_engine small_book small_bv = session_keys small_engine small_session"
  unfolding signing_subset_eq zip_small session_keys_small
  by (simp_all add: small_book_def small_bits_def book_key_def member_keys)

lemma small_signing: "signing_weight_of small_engine small_book small_bv = 9"
  unfolding signing_weight_of_def zip_small
  by (simp add: small_book_def small_bits_def effective_weight_def split_def member_keys)

lemma small_session_nonzero: "sum_list (session_keys small_engine small_session) \<noteq> 0"
  by (simp add: small_keys(1))

text \<open>The two members sign any message, and their signature is accepted.\<close>

lemma small_session_output:
  fixes message :: "rat rotation_message"
  assumes "decode_rotation_message small_wire bs = Ok message"
  obtains ms1 ms2 ms3 sig where
    "signing_protocol small_engine small_wire Aggregate None bs None small_book small_bits ms1 ms2 ms3 = Ok (ProtocolOutput (small_bv, sig))"
    "verify_signature small_engine small_wire small_book bs (small_bv, sig) = Ok True"
proof -
  have rc: "codec_ok (round_codec small_wire)" using small_wire_ok by (simp add: wire_ok_def)
  from honest_session [OF small_engine_ok rc small_set small_keys(2) small_session_nonzero assms]
  obtain ms1 ms2 ms3 sig where
    a: "signing_protocol small_engine small_wire Aggregate None bs None small_book small_bits ms1 ms2 ms3 = Ok (ProtocolOutput (small_bv, sig))"
    by blast
  have "verify_signature small_engine small_wire small_book bs (small_bv, sig) = Ok True"
    using aggregate_output [OF small_engine_ok a] by (simp add: small_total small_signing)
  with a show thesis by (rule that)
qed

definition small_message :: bytes where
  "small_message = wire_bytes (message_codec small_wire) (3, 4)"

lemma small_message_decodes: "decode_rotation_message small_wire small_message = Ok (3, 4)"
  using small_wire_ok by (simp add: small_message_def decode_rotation_message_iff wire_ok_def wire_bytes)

section \<open>Two sessions that share a nonce\<close>

definition session_with :: "8 word \<Rightarrow> gf17 session" where
  "session_with k = [([7], Z8), ([k], Z14)]"

lemma session_with_keys:
  "session_keys small_engine (session_with k) = [Z7, Z8]" "distinct (session_keys small_engine (session_with k))"
  by (simp_all add: session_keys_def session_with_def small_engine_sel from_int17_def times_gf17_def)

lemma small_nonces:
  "multisig_nonce small_engine [7] [3, 4] = Z8" "multisig_nonce small_engine [9] [3, 4] = Z12"
  "multisig_nonce small_engine [10] [3, 4] = Z14"
  by code_simp+

lemma small_challenges:
  "schnorr_challenge small_engine Z15 Z9 [3, 4] = 2" "schnorr_challenge small_engine Z15 Z15 [3, 4] = 0"
  by code_simp+

lemma small_challenge:
  "multisig_challenge small_engine [3, 4] [Z7, Z8] (session_round1 small_engine [3, 4] (session_with 9))
     (session_round2 small_engine [3, 4] (session_with 9)) = Ok 2"
  "multisig_challenge small_engine [3, 4] [Z7, Z8] (session_round1 small_engine [3, 4] (session_with 10))
     (session_round2 small_engine [3, 4] (session_with 10)) = Ok 0"
proof -
  have "Z7 + Z8 = Z15" "Z7 + Z2 = Z9" "Z7 + Z8 \<noteq> 0" by (simp_all add: zero_gf17_def plus_gf17_def from_int17_def)
  moreover have "Z3 * Z8 = Z7" "Z3 * Z12 = Z2" "Z3 * Z14 = Z8" by (simp_all add: times_gf17_def from_int17_def)
  ultimately show
    "multisig_challenge small_engine [3, 4] [Z7, Z8] (session_round1 small_engine [3, 4] (session_with 9))
       (session_round2 small_engine [3, 4] (session_with 9)) = Ok 2"
    "multisig_challenge small_engine [3, 4] [Z7, Z8] (session_round1 small_engine [3, 4] (session_with 10))
       (session_round2 small_engine [3, 4] (session_with 10)) = Ok 0"
    unfolding multisig_challenge_iff [OF small_engine_ok]
    using session_openings [of small_engine "[3, 4]" "session_with 9"] session_openings [of small_engine "[3, 4]" "session_with 10"]
    by (simp_all add: session_round2_def session_with_def multisig_round2_of_def small_nonces small_engine_sel small_challenges)
qed

end
