(* ===== verification/WrapsProperties.thy ===== *)
theory WrapsProperties
  imports WrapsInstance
begin

text \<open>
  The properties of address books, of the signing protocol and of rotation proofs, with a witness on
  the small instance for each property that has hypotheses.
\<close>

section \<open>Address books\<close>

text \<open>
  C22. \<open>verify_address_book\<close> accepts exactly the books of at most 64 seats whose occupied seats hold
  pairwise different keys, each with a proof of possession that verifies, and whose occupied seats
  weigh less than \<open>2 ^ 64\<close> in total. Empty seats may repeat and may carry any weight.
\<close>

theorem address_book_exact:
  fixes ab :: "('b::field, 's::field, 'g::ab_group_add) address_book" and W :: "('b, 's, 'g, 'rng) engine"
  shows "verify_address_book W ab \<longleftrightarrow>
    length ab \<le> 64 \<and>
    distinct (map book_key (filter (\<lambda>entry. \<not> is_infinity W (book_key entry)) ab)) \<and>
    list_all (\<lambda>entry. is_infinity W (book_key entry) \<or> verify_knowledge W (book_key entry) (book_pok entry)) ab \<and>
    (\<Sum>(_, (pk, _), weight) \<leftarrow> ab. if is_infinity W pk then 0 else unat weight) < 2 ^ 64"
proof -
  have "(\<forall>entry \<in> set (live_entries W ab). verify_knowledge W (book_key entry) (book_pok entry)) \<longleftrightarrow>
      list_all (\<lambda>entry. is_infinity W (book_key entry) \<or> verify_knowledge W (book_key entry) (book_pok entry)) ab"
    unfolding live_entries_alt list_all_iff set_filter by blast
  then show ?thesis
    unfolding verify_address_book_iff total_weight_of_def effective_weight_def
    by (simp add: MAX_AB_SIZE_def live_entries_alt split_def)
qed

text \<open>
  C23. The commitment to a valid book does not depend on trailing padding seats, and it is binding: two
  valid books with one commitment agree on the node id, key and weight of every seat, or their
  encodings are an explicit collision of the Poseidon sponge on inputs of equal length.
\<close>

theorem book_hash_binding:
  fixes ab ab' :: "('b::field, 's::field, 'g::ab_group_add) address_book" and W :: "('b, 's, 'g, 'rng) engine"
  assumes "encodings_injective W"
    and "compute_addressbook_hash W ab = Ok h" "compute_addressbook_hash W ab' = Ok h"
  defines "padded \<equiv> \<lambda>ab. ab @ replicate (64 - length ab) (padding_entry W)"
    and "encoding \<equiv> \<lambda>ab. concat (map (entry_elements W) (ab @ replicate (64 - length ab) (padding_entry W)))"
  shows "book_view (padded ab) = book_view (padded ab') \<or>
    (encoding ab \<noteq> encoding ab' \<and> length (encoding ab) = 320 \<and> length (encoding ab') = 320 \<and>
     poseidon_native W DS_ADDRESS_BOOK (encoding ab) = poseidon_native W DS_ADDRESS_BOOK (encoding ab'))"
proof -
  have fits: "length ab \<le> 64" "length ab' \<le> 64"
    using assms(2,3) by (auto simp: compute_addressbook_hash_eq MAX_AB_SIZE_def dest!: book_fits split: if_splits)
  have len: "length (encoding ab) = 320" if "length ab \<le> 64" for ab
    using that by (simp add: encoding_def length_concat comp_def sum_list_triv sum_list_replicate)
  have "poseidon_native W DS_ADDRESS_BOOK (encoding ab) = poseidon_native W DS_ADDRESS_BOOK (encoding ab')"
    using assms(2,3) by (auto simp: compute_addressbook_hash_eq book_hash_def hash_address_book_def encoding_def MAX_AB_SIZE_def split: if_splits)
  then show ?thesis
    using len fits elements_determine_book [OF assms(1), of "padded ab" "padded ab'"]
    by (auto simp: encoding_def padded_def)
qed

theorem book_hash_binding_witness:
  "\<exists>h. compute_addressbook_hash small_engine small_book = Ok h \<and>
    compute_addressbook_hash small_engine (small_book @ [padding_entry small_engine]) = Ok h \<and>
    (let padded = \<lambda>ab. ab @ replicate (64 - length ab) (padding_entry small_engine) in
     book_view (padded small_book) = book_view (padded (small_book @ [padding_entry small_engine])) \<or>
     concat (map (entry_elements small_engine) (padded small_book))
       \<noteq> concat (map (entry_elements small_engine) (padded (small_book @ [padding_entry small_engine]))))"
proof -
  have v: "verify_address_book small_engine (small_book @ replicate 1 (padding_entry small_engine))"
    using small_book_valid small_total
    by (simp only: verify_address_book_iff live_entries_padded [OF small_engine_ok] total_weight_Cons total_weight_padding [OF small_engine_ok])
      (simp add: small_book_def MAX_AB_SIZE_def)
  have h: "compute_addressbook_hash small_engine small_book = Ok (book_hash small_engine small_book)"
    "compute_addressbook_hash small_engine (small_book @ [padding_entry small_engine]) = Ok (book_hash small_engine small_book)"
    using v small_book_valid book_hash_padded [of small_book 1 small_engine]
    by (simp_all add: compute_addressbook_hash_eq small_book_def MAX_AB_SIZE_def)
  from book_hash_binding [OF small_encodings_injective h] h show ?thesis unfolding Let_def by blast
qed

section \<open>Signing and verification\<close>

text \<open>
  C6. \<open>verify_signature\<close> returns \<open>true\<close> exactly when the book is valid, only occupied seats of the book
  are selected, the selected seats hold strictly more than half of the weight of the book over the
  integers, their keys do not cancel, and the signature is a Schnorr signature of the two message
  elements under the sum of their keys.
\<close>

theorem verify_signature_exact:
  fixes W :: "('b::field, 's::field, 'g::ab_group_add, 'rng) engine" and F :: "('b, 's, 'g, 'rs, 'cs) wire"
  assumes "engine_ok W" and "length bv = 64" and "decode_rotation_message F bs = Ok (h, v)"
  shows "verify_signature W F ab bs (bv, sig) = Ok True \<longleftrightarrow>
    verify_address_book W ab \<and>
    (\<forall>i < 64. bv ! i \<longrightarrow> i < length ab \<and> book_key (ab ! i) \<noteq> 0) \<and>
    (\<Sum>i < length ab. effective_weight W (ab ! i)) < 2 * (\<Sum>i < length ab. if bv ! i then effective_weight W (ab ! i) else 0) \<and>
    (\<Sum>i < length ab. if bv ! i then book_key (ab ! i) else 0) \<noteq> 0 \<and>
    schnorr_verify W (\<Sum>i < length ab. if bv ! i then book_key (ab ! i) else 0) [h, v] sig"
proof (cases "verify_address_book W ab")
  case False
  then show ?thesis using assms by (auto simp: verify_signature_def)
next
  case True
  then have fits: "length ab \<le> length bv" using book_fits assms(2) by (auto simp: MAX_AB_SIZE_def)
  have sel: "selects_beyond bv (length ab) \<longleftrightarrow> (\<exists>i < 64. length ab \<le> i \<and> bv ! i)"
    unfolding selects_beyond_def set_drop_nth assms(2) by auto
  have rej: "reject_sentinel_signers W ab bv = Ok () \<longleftrightarrow> (\<forall>i < length ab. bv ! i \<longrightarrow> book_key (ab ! i) \<noteq> 0)"
    unfolding reject_sentinel_iff ball_zip_nth [OF fits] by (simp add: infinity_iff [OF assms(1)])
  have key: "sum_list (signing_subset W ab bv) = (\<Sum>i < length ab. if bv ! i then book_key (ab ! i) else 0)"
    if "reject_sentinel_signers W ab bv = Ok ()"
    using sum_zip_nth [OF fits, of "\<lambda>entry b. if b then book_key entry else 0"]
    by (simp add: signing_subset_all [OF that] comp_def split_def sum_list_map_filter')
  have wt: "total_weight_of W ab = (\<Sum>i < length ab. effective_weight W (ab ! i))"
    "signing_weight_of W ab bv = (\<Sum>i < length ab. if bv ! i then effective_weight W (ab ! i) else 0)"
    using sum_zip_nth [OF fits] by (simp_all add: total_weight_of_def signing_weight_of_def sum_list_sum_nth atLeast0LessThan)
  have v: "verify_signature W F ab bs (bv, sig) = Ok True \<longleftrightarrow>
      rotation_authorised W ab (h, v) bv sig \<and> reject_sentinel_signers W ab bv = Ok ()"
    by (rule verify_signature_True [OF assms(1) _ assms(3)]) (simp add: assms(2) MAX_AB_SIZE_def)
  have seats: "(\<forall>i < 64. bv ! i \<longrightarrow> i < length ab \<and> book_key (ab ! i) \<noteq> 0) \<longleftrightarrow>
      \<not> selects_beyond bv (length ab) \<and> reject_sentinel_signers W ab bv = Ok ()"
    proof -
    have "i < length ab \<or> length ab \<le> i" "i < length ab \<Longrightarrow> i < 64" for i using fits assms(2) by auto
    then show ?thesis unfolding sel rej by (metis not_le)
  qed
  show ?thesis
    unfolding v seats rotation_authorised_def wt using True key by auto
qed

theorem verify_signature_exact_witness:
  "\<exists>sig. verify_signature small_engine small_wire small_book small_message (small_bv, sig) = Ok True \<and>
    schnorr_verify small_engine (\<Sum>i < length small_book. if small_bv ! i then book_key (small_book ! i) else 0) [3, 4] sig"
proof -
  obtain ms1 ms2 ms3 sig where
    "signing_protocol small_engine small_wire Aggregate None small_message None small_book small_bits ms1 ms2 ms3 = Ok (ProtocolOutput (small_bv, sig))"
    and v: "verify_signature small_engine small_wire small_book small_message (small_bv, sig) = Ok True"
    by (rule small_session_output [OF small_message_decodes])
  have "length small_bv = 64" using small_bv_length by (simp add: MAX_AB_SIZE_def)
  from verify_signature_exact [OF small_engine_ok this small_message_decodes] v show ?thesis by blast
qed

text \<open>
  C24. A session in which every signer runs the three rounds with its own entropy and key, on the messages
  of the others, goes through: each phase returns its message, the aggregator returns a signature, and
  \<open>verify_signature\<close> accepts it exactly when the signers hold more than half of the weight.
\<close>

theorem signing_session_complete:
  fixes W :: "('b::field, 's::field, 'g::ab_group_add, 'rng) engine" and F :: "('b, 's, 'g, 'rs, 'cs) wire"
  assumes "engine_ok W" and "wire_ok F" and "signing_set W ab bits bv"
    and "signing_subset W ab bv = session_keys W ses" and "sum_list (session_keys W ses) \<noteq> 0"
    and "decode_rotation_message F bs = Ok message"
  shows "\<exists>ms1 ms2 ms3 sig. length ms1 = length ses \<and> length ms2 = length ses \<and> length ms3 = length ses \<and>
    (\<forall>i < length ses.
       signing_protocol W F R1 (Some (fst (ses ! i))) bs None ab bits [] [] [] = Ok (ProtocolMessage (ms1 ! i)) \<and>
       signing_protocol W F R2 (Some (fst (ses ! i))) bs None ab bits ms1 [] [] = Ok (ProtocolMessage (ms2 ! i)) \<and>
       signing_protocol W F R3 (Some (fst (ses ! i))) bs (Some (snd (ses ! i))) ab bits ms1 ms2 [] = Ok (ProtocolMessage (ms3 ! i))) \<and>
    signing_protocol W F Aggregate None bs None ab bits ms1 ms2 ms3 = Ok (ProtocolOutput (bv, sig)) \<and>
    verify_signature W F ab bs (bv, sig) = Ok (total_weight_of W ab < 2 * signing_weight_of W ab bv)"
proof -
  have rc: "codec_ok (round_codec F)" using assms(2) by (simp add: wire_ok_def)
  obtain ms3 sig where s: "length ms3 = length ses"
    "\<And>i. i < length ses \<Longrightarrow>
       signing_protocol W F R1 (Some (fst (ses ! i))) bs None ab bits [] [] []
         = Ok (ProtocolMessage (sent1 F (session_round1 W (message_slice message) ses) ! i)) \<and>
       signing_protocol W F R2 (Some (fst (ses ! i))) bs None ab bits (sent1 F (session_round1 W (message_slice message) ses)) [] []
         = Ok (ProtocolMessage (sent2 F (session_round2 W (message_slice message) ses) ! i)) \<and>
       signing_protocol W F R3 (Some (fst (ses ! i))) bs (Some (snd (ses ! i))) ab bits (sent1 F (session_round1 W (message_slice message) ses))
         (sent2 F (session_round2 W (message_slice message) ses)) [] = Ok (ProtocolMessage (ms3 ! i))"
    "signing_protocol W F Aggregate None bs None ab bits (sent1 F (session_round1 W (message_slice message) ses))
       (sent2 F (session_round2 W (message_slice message) ses)) ms3 = Ok (ProtocolOutput (bv, sig))"
    using honest_session [OF assms(1) rc assms(3-6)] by blast
  then show ?thesis using aggregate_output [OF assms(1) s(3)]
    by (intro exI [of _ "sent1 F (session_round1 W (message_slice message) ses)"]
        exI [of _ "sent2 F (session_round2 W (message_slice message) ses)"] exI [of _ ms3] exI [of _ sig]) simp
qed

theorem signing_session_complete_witness:
  "\<exists>ms1 ms2 ms3 sig.
     signing_protocol small_engine small_wire R1 (Some [7]) small_message None small_book small_bits [] [] [] = Ok (ProtocolMessage (ms1 ! 0)) \<and>
     signing_protocol small_engine small_wire Aggregate None small_message None small_book small_bits ms1 ms2 ms3 = Ok (ProtocolOutput (small_bv, sig)) \<and>
     verify_signature small_engine small_wire small_book small_message (small_bv, sig) = Ok True"
proof -
  obtain ms1 ms2 ms3 sig where "\<forall>i < length small_session.
       signing_protocol small_engine small_wire R1 (Some (fst (small_session ! i))) small_message None small_book small_bits [] [] []
         = Ok (ProtocolMessage (ms1 ! i))"
    "signing_protocol small_engine small_wire Aggregate None small_message None small_book small_bits ms1 ms2 ms3 = Ok (ProtocolOutput (small_bv, sig))"
    "verify_signature small_engine small_wire small_book small_message (small_bv, sig)
       = Ok (total_weight_of small_engine small_book < 2 * signing_weight_of small_engine small_book small_bv)"
    using signing_session_complete [OF small_engine_ok small_wire_ok small_set small_keys(2) small_session_nonzero small_message_decodes]
    by blast
  then show ?thesis by (intro exI [of _ ms1] exI [of _ ms2] exI [of _ ms3] exI [of _ sig])
    (auto simp: small_total small_signing small_session_def)
qed

text \<open>
  C25. Whatever round messages the aggregator is given, if it returns a signature then the bits select
  occupied seats of a valid book, and \<open>verify_signature\<close> accepts the signature exactly when those seats
  hold more than half of the weight: a set of signers can neither be blamed for an invalid signature
  nor reach the threshold without the weight.
\<close>

theorem aggregate_output_accepted:
  fixes W :: "('b::field, 's::field, 'g::ab_group_add, 'rng) engine" and F :: "('b, 's, 'g, 'rs, 'cs) wire"
  assumes "engine_ok W"
    and "signing_protocol W F Aggregate entropy bs key ab bits ms1 ms2 ms3 = Ok (ProtocolOutput (bv, sig))"
  shows "signing_set W ab bits bv \<and>
    verify_signature W F ab bs (bv, sig) = Ok (total_weight_of W ab < 2 * signing_weight_of W ab bv)"
  using aggregate_output [OF assms] .

theorem aggregate_output_accepted_witness:
  "\<exists>ms1 ms2 ms3 sig.
     signing_protocol small_engine small_wire Aggregate None small_message None small_book small_bits ms1 ms2 ms3 = Ok (ProtocolOutput (small_bv, sig)) \<and>
     verify_signature small_engine small_wire small_book small_message (small_bv, sig) = Ok True"
proof -
  obtain ms1 ms2 ms3 sig where
    a: "signing_protocol small_engine small_wire Aggregate None small_message None small_book small_bits ms1 ms2 ms3 = Ok (ProtocolOutput (small_bv, sig))"
    by (rule small_session_output [OF small_message_decodes])
  then have "verify_signature small_engine small_wire small_book small_message (small_bv, sig) = Ok True"
    using aggregate_output_accepted [OF small_engine_ok a] by (simp add: small_total small_signing)
  with a show ?thesis by blast
qed

text \<open>
  C26. When the aggregator has decoded every message and the round-2 nonces open their commitments, but
  some share is wrong, it returns an error that names the first signer whose share answers another
  challenge or does not verify, and never blames a signer with a correct share.
\<close>

theorem aggregate_blames_first_cheater:
  fixes W :: "('b::field, 's::field, 'g::ab_group_add, 'rng) engine"
  assumes "engine_ok W" "length round3 = length pks" "multisig_challenge W msg pks round1 round2 = Ok e"
    and "i < length pks"
    and "\<And>j. j < i \<Longrightarrow> round3 ! j = \<lparr>partial_signature = \<lparr>sig_e = e, sig_s = good j\<rparr>\<rparr> \<and>
        ge_mul W (ge_gen W) (good j) = nonce_point (round2 ! j) + ge_mul W (pks ! j) (field_switch W e)"
    and "sig_e (partial_signature (round3 ! i)) \<noteq> e \<or>
      ge_mul W (ge_gen W) (sig_s (partial_signature (round3 ! i))) \<noteq> nonce_point (round2 ! i) + ge_mul W (pks ! i) (field_switch W e)"
  shows "multisig_aggregate W msg pks round1 round2 round3 =
    Err (InvalidInput (if sig_e (partial_signature (round3 ! i)) \<noteq> e then wrong_challenge_msg i else bad_share_msg i))"
proof -
  let ?f = "check_share W e (field_switch W e) pks round2 round3"
  have len: "length round2 = length pks" using assms(3) by (simp add: multisig_challenge_iff [OF assms(1)])
  have good: "?f j = Ok ()" if "j < i" for j
    using assms(4) assms(5) [OF that] that by (subst check_share_iff [OF assms(2) len]) (auto simp: algebra_simps)
  have bad: "?f i = Err (InvalidInput (if sig_e (partial_signature (round3 ! i)) \<noteq> e then wrong_challenge_msg i else bad_share_msg i))"
    using assms(2,4,6) len by (auto simp: check_share_def Let_def diff_eq_eq)
  have "for_each ?f (length round3) = ?f i"
    using for_each_first [of i "length round3" ?f] good bad assms(2,4) by simp
  then show ?thesis using assms(2,3) bad by (simp add: multisig_aggregate_def Let_def)
qed

theorem aggregate_blames_first_cheater_witness:
  "multisig_aggregate small_engine [3, 4] [Z7, Z8] (session_round1 small_engine [3, 4] (session_with 9))
     (session_round2 small_engine [3, 4] (session_with 9))
     [session_share small_engine [3, 4] 2 ([7], Z8), \<lparr>partial_signature = \<lparr>sig_e = 2, sig_s = Z0\<rparr>\<rparr>]
   = Err (InvalidInput (bad_share_msg 1))"
proof -
  have q: "fst (quotient_of (2 :: rat)) = 2" by code_simp
  have ar: "Z3 * Z0 = 0" "Z3 * Z12 = Z2" "Z8 * Z2 = Z16" "Z2 + Z16 = Z1" "(0 :: gf17) \<noteq> Z1" "Z8 + Z16 = Z7" "Z3 * Z7 = Z4" "Z3 * Z8 = Z7"
    "Z7 * Z2 = Z14" "Z7 + Z14 = Z4" "Z8 * Z2 + Z8 = Z7"
    by (simp_all add: zero_gf17_def times_gf17_def plus_gf17_def from_int17_def)
  have "multisig_aggregate small_engine [3, 4] [Z7, Z8] (session_round1 small_engine [3, 4] (session_with 9))
     (session_round2 small_engine [3, 4] (session_with 9))
     [session_share small_engine [3, 4] 2 ([7], Z8), \<lparr>partial_signature = \<lparr>sig_e = 2, sig_s = Z0\<rparr>\<rparr>]
   = Err (InvalidInput (if sig_e (partial_signature ([session_share small_engine [3, 4] 2 ([7], Z8),
        \<lparr>partial_signature = \<lparr>sig_e = 2, sig_s = Z0\<rparr>\<rparr>] ! 1)) \<noteq> 2 then wrong_challenge_msg 1 else bad_share_msg 1))"
  proof (rule aggregate_blames_first_cheater [OF small_engine_ok _ small_challenge(1), where good = "\<lambda>_. Z7"])
    fix j :: nat assume "j < 1"
    then show "[session_share small_engine [3, 4] 2 ([7], Z8), \<lparr>partial_signature = \<lparr>sig_e = 2, sig_s = Z0\<rparr>\<rparr>] ! j
        = \<lparr>partial_signature = \<lparr>sig_e = 2, sig_s = Z7\<rparr>\<rparr> \<and>
      ge_mul small_engine (ge_gen small_engine) Z7 = nonce_point (session_round2 small_engine [3, 4] (session_with 9) ! j)
        + ge_mul small_engine ([Z7, Z8] ! j) (field_switch small_engine 2)"
      by (simp add: session_share_def small_nonces small_engine_sel q from_int17_def session_round2_def session_with_def
          multisig_round2_of_def ar)
  qed (simp_all add: small_engine_sel q from_int17_def session_round2_def session_with_def multisig_round2_of_def small_nonces ar)
  then show ?thesis by simp
qed

text \<open>
  C27. Running round 3 twice with one entropy, message and key gives up the secret key as soon as the two
  runs answer different challenges: it is the quotient of the differences of the answers and the
  challenges. This is the reason for the rule that entropy is fresh for every signing instance.
\<close>

theorem nonce_reuse_reveals_key:
  fixes W :: "('b::field, 's::field, 'g::ab_group_add, 'rng) engine"
  assumes "multisig_round3_of W entropy msg sk pks r1 r2 = Ok m" "multisig_round3_of W entropy msg sk pks' r1' r2' = Ok m'"
    and "field_switch W (sig_e (partial_signature m)) \<noteq> field_switch W (sig_e (partial_signature m'))"
  shows "sk = (sig_s (partial_signature m) - sig_s (partial_signature m'))
    / (field_switch W (sig_e (partial_signature m)) - field_switch W (sig_e (partial_signature m')))"
  by (rule nonce_reuse [OF assms])

theorem nonce_reuse_reveals_key_witness:
  "\<exists>m m'. multisig_round3_of small_engine [7] [3, 4] Z8 [Z7, Z8] (session_round1 small_engine [3, 4] (session_with 9))
      (session_round2 small_engine [3, 4] (session_with 9)) = Ok m \<and>
    multisig_round3_of small_engine [7] [3, 4] Z8 [Z7, Z8] (session_round1 small_engine [3, 4] (session_with 10))
      (session_round2 small_engine [3, 4] (session_with 10)) = Ok m' \<and>
    Z8 = (sig_s (partial_signature m) - sig_s (partial_signature m')) / (switch17 (sig_e (partial_signature m)) - switch17 (sig_e (partial_signature m')))"
proof -
  have q: "fst (quotient_of (2 :: rat)) = 2" "fst (quotient_of (0 :: rat)) = 0" by code_simp+
  have ar: "Z3 * Z8 = Z7" by (simp add: times_gf17_def from_int17_def)
  let ?m = "\<lambda>e. \<lparr>partial_signature = \<lparr>sig_e = e, sig_s = Z8 + Z8 * field_switch small_engine e\<rparr>\<rparr>"
  have a: "multisig_round3_of small_engine [7] [3, 4] Z8 [Z7, Z8] (session_round1 small_engine [3, 4] (session_with 9))
      (session_round2 small_engine [3, 4] (session_with 9)) = Ok (?m 2)"
    "multisig_round3_of small_engine [7] [3, 4] Z8 [Z7, Z8] (session_round1 small_engine [3, 4] (session_with 10))
      (session_round2 small_engine [3, 4] (session_with 10)) = Ok (?m 0)"
    unfolding multisig_round3_of_def small_challenge
    by (simp_all add: small_nonces small_engine_sel session_round2_def session_with_def multisig_round2_of_def ar Let_def)
  have ne: "field_switch small_engine (sig_e (partial_signature (?m 2))) \<noteq> field_switch small_engine (sig_e (partial_signature (?m 0)))"
    by (simp add: small_engine_sel q from_int17_def)
  have f: "field_switch small_engine = switch17" by (simp add: small_engine_def)
  from nonce_reuse_reveals_key [OF a ne] a show ?thesis unfolding f by blast
qed

end
