(* ===== verification/WrapsCircuit.thy ===== *)
theory WrapsCircuit
  imports WrapsProtocol
begin

text \<open>
  The rotation circuit of \<^verbatim>\<open>circuit.rs\<close>. A constraint system has two readings: the values that the
  prover assigns to its variables, and the equations it enforces on them. \<open>rotation_advice\<close> holds the
  assigned values, \<open>rotation_constraints\<close> the equations over any assignment, and \<open>rotation_assignment\<close>
  the assignment that the closures of \<open>synthesize\<close> compute. An allocated bit is constrained to be
  boolean, so it is a boolean. The gadgets of Nova (points on the curve, scalar multiplication,
  canonical bits) are parameters.
\<close>

section \<open>Gadgets\<close>

text \<open>
  \<^item> \<open>curve_point x y\<close> is the affine point with these coordinates, if they are on the curve.
  \<^item> \<open>ap_coordinates P\<close> are the coordinates and the flag of an allocated point that the group gadgets
    computed.
  \<^item> \<open>scalar_le_bits s\<close> are the bits of a scalar, \<open>SCALAR_NUM_BITS\<close> of them.
\<close>

record ('b, 's, 'g) gadgets =
  curve_point :: "'b \<Rightarrow> 'b \<Rightarrow> 'g option"
  ap_coordinates :: "'g \<Rightarrow> 'b \<times> 'b \<times> bool"
  scalar_le_bits :: "'s \<Rightarrow> bool list"
  SCALAR_NUM_BITS :: nat

text \<open>Recomposition of little-endian bits, in either field.\<close>

primrec le_bits_to_num :: "bool list \<Rightarrow> 'f::field" where
  "le_bits_to_num [] = 0"
| "le_bits_to_num (b # bits) = (if b then 1 else 0) + (le_bits_to_num bits + le_bits_to_num bits)"

text \<open>Documented behaviour of the gadgets, the curve and the two fields.\<close>

definition gadgets_ok ::
  "('b::field, 's::field, 'g::ab_group_add, 'rng) engine \<Rightarrow> ('b, 's, 'g) gadgets \<Rightarrow> bool" where
  "gadgets_ok W G \<longleftrightarrow>
     (\<forall>x y P. curve_point G x y = Some P \<longleftrightarrow> to_coordinates W P = (x, y, False)) \<and>
     (\<forall>P. P \<noteq> 0 \<longrightarrow> ap_coordinates G P = to_coordinates W P) \<and>
     (\<forall>P. snd (snd (ap_coordinates G P)) \<longleftrightarrow> P = 0) \<and>
     inj_on (of_nat :: nat \<Rightarrow> 'b) {..< 2 ^ 72} \<and>
     (\<forall>bits. length bits = NUM_CHALLENGE_BITS W \<longrightarrow> field_switch W (le_bits_to_num bits) = le_bits_to_num bits) \<and>
     (\<forall>bits. length bits = NUM_CHALLENGE_BITS W \<longrightarrow> le_bits_of W (le_bits_to_num bits) (NUM_CHALLENGE_BITS W) = bits) \<and>
     (\<forall>x. NUM_CHALLENGE_BITS W \<le> length (to_le_bits W x)) \<and>
     (\<forall>n < 2 ^ 64. le_bits_to_num (le_bits_of W (of_nat n) WEIGHT_BITS) = (of_nat n :: 'b)) \<and>
     (\<forall>s. length (scalar_le_bits G s) = SCALAR_NUM_BITS G \<and> le_bits_to_num (scalar_le_bits G s) = s)"

section \<open>Constraints\<close>

definition poseidon_circuit :: "('b, 's, 'g, 'rng) engine \<Rightarrow> 32 word \<Rightarrow> 'b list \<Rightarrow> 'b" where
  "poseidon_circuit W domain_sep elements =
     (let num_absorbs = of_nat (length elements);
          pattern = [SpongeAbsorb num_absorbs, SpongeSqueeze 1]
      in sponge_squeeze W pattern domain_sep elements)"

definition truncate_to_challenge_circuit :: "('b::field, 's, 'g, 'rng) engine \<Rightarrow> 'b \<Rightarrow> 'b" where
  "truncate_to_challenge_circuit W x =
     (let bits = to_le_bits W x; low = take (NUM_CHALLENGE_BITS W) bits in le_bits_to_num low)"

definition alloc_bits :: "bool list \<Rightarrow> bool list" where
  "alloc_bits bits = map (\<lambda>b. b) bits"

definition enforce_equal :: "'b \<Rightarrow> 'b \<Rightarrow> bool" where
  "enforce_equal a b \<longleftrightarrow> a = b"

definition sum_of :: "'b::field list \<Rightarrow> 'b \<Rightarrow> bool" where
  "sum_of terms s \<longleftrightarrow> foldl (\<lambda>lc t. lc + t) 0 terms * 1 = s"

definition enforce_range :: "'b::field \<Rightarrow> bool list \<Rightarrow> nat \<Rightarrow> bool" where
  "enforce_range v allocated num_bits \<longleftrightarrow>
     length allocated = num_bits \<and> enforce_equal v (le_bits_to_num allocated)"

definition enforce_greater_than :: "'b::field \<Rightarrow> 'b \<Rightarrow> 'b \<Rightarrow> bool list \<Rightarrow> nat \<Rightarrow> bool" where
  "enforce_greater_than a b difference difference_bits bound_bits \<longleftrightarrow>
     (a - b - 1) * 1 = difference \<and> enforce_range difference difference_bits bound_bits"

record 'b rotation_advice =
  adv_keys :: "('b \<times> 'b \<times> bool) list"
  adv_weights :: "'b list"
  adv_weight_bits :: "bool list list"
  adv_node_ids :: "'b list"
  adv_bits :: "bool list"
  adv_effective :: "'b list"
  adv_masked :: "'b list"
  adv_signing :: 'b
  adv_total :: 'b
  adv_total_bits :: "bool list"
  adv_remaining :: 'b
  adv_difference :: 'b
  adv_difference_bits :: "bool list"
  adv_next_ab_hash :: 'b
  adv_next_hints_vk_hash :: 'b
  adv_s_bits :: "bool list"
  adv_e_bits :: "bool list"

text \<open>The point of an allocated key: coordinates are irrelevant under the infinity flag.\<close>

definition key_point :: "('b, 's, 'g::zero) gadgets \<Rightarrow> 'b \<times> 'b \<times> bool \<Rightarrow> 'g option" where
  "key_point G key = (case key of (x, y, is_inf) \<Rightarrow> if is_inf then Some 0 else curve_point G x y)"

definition flag :: "bool \<Rightarrow> 'b::field" where
  "flag b = (if b then 1 else 0)"

definition book_constraints :: "('b::field, 's, 'g::zero) gadgets \<Rightarrow> 'b rotation_advice \<Rightarrow> bool" where
  "book_constraints G adv \<longleftrightarrow>
     length (adv_keys adv) = MAX_AB_SIZE \<and> length (adv_weights adv) = MAX_AB_SIZE \<and>
     length (adv_weight_bits adv) = MAX_AB_SIZE \<and> length (adv_node_ids adv) = MAX_AB_SIZE \<and>
     (\<forall>i < MAX_AB_SIZE. key_point G (adv_keys adv ! i) \<noteq> None \<and>
        enforce_range (adv_weights adv ! i) (adv_weight_bits adv ! i) WEIGHT_BITS)"

definition preimage :: "'b::field rotation_advice \<Rightarrow> 'b list" where
  "preimage adv =
     concat (map (\<lambda>((node_id, (x, y, is_inf)), weight). [node_id, x, y, flag is_inf, weight])
       (zip (zip (adv_node_ids adv) (adv_keys adv)) (adv_weights adv)))"

definition state_constraint :: "('b::field, 's, 'g, 'rng) engine \<Rightarrow> 'b rotation_advice \<Rightarrow> 'b list \<Rightarrow> bool" where
  "state_constraint W adv z_in \<longleftrightarrow>
     (let h_ab = poseidon_circuit W DS_ADDRESS_BOOK (preimage adv) in enforce_equal h_ab (z_in ! 0))"

definition effective_constraints :: "'b::field rotation_advice \<Rightarrow> bool" where
  "effective_constraints adv \<longleftrightarrow>
     length (adv_effective adv) = MAX_AB_SIZE \<and>
     (\<forall>i < MAX_AB_SIZE. adv_weights adv ! i * (1 - flag (snd (snd (adv_keys adv ! i)))) = adv_effective adv ! i)"

definition masked_constraints :: "'b::field rotation_advice \<Rightarrow> bool" where
  "masked_constraints adv \<longleftrightarrow>
     length (adv_bits adv) = MAX_AB_SIZE \<and> length (adv_masked adv) = MAX_AB_SIZE \<and>
     (\<forall>i < MAX_AB_SIZE. flag (adv_bits adv ! i) * adv_effective adv ! i = adv_masked adv ! i)"

definition majority_constraints :: "'b::field rotation_advice \<Rightarrow> bool" where
  "majority_constraints adv \<longleftrightarrow>
     sum_of (adv_masked adv) (adv_signing adv) \<and> sum_of (adv_effective adv) (adv_total adv) \<and>
     enforce_range (adv_total adv) (adv_total_bits adv) WEIGHT_BITS \<and>
     (adv_total adv - adv_signing adv) * 1 = adv_remaining adv \<and>
     enforce_greater_than (adv_signing adv) (adv_remaining adv) (adv_difference adv) (adv_difference_bits adv) WEIGHT_BITS"

definition joint_key :: "('b, 's, 'g::ab_group_add) gadgets \<Rightarrow> 'b rotation_advice \<Rightarrow> 'g" where
  "joint_key G adv =
     foldl (\<lambda>pk i. pk + (if adv_bits adv ! i then (case key_point G (adv_keys adv ! i) of Some P \<Rightarrow> P | None \<Rightarrow> 0) else 0))
       0 [0..<MAX_AB_SIZE]"

definition signature_constraints ::
  "('b::field, 's::field, 'g::ab_group_add, 'rng) engine \<Rightarrow> ('b, 's, 'g) gadgets \<Rightarrow> 'b rotation_advice \<Rightarrow> bool" where
  "signature_constraints W G adv \<longleftrightarrow>
     (let pk = joint_key G adv;
          (pk_x, pk_y, pk_inf) = ap_coordinates G pk;
          e = le_bits_to_num (adv_e_bits adv);
          s_g = ge_mul W (ge_gen W) (le_bits_to_num (adv_s_bits adv));
          e_pk = ge_mul W pk (le_bits_to_num (adv_e_bits adv));
          r = s_g + (- e_pk);
          (r_x, r_y, r_inf) = ap_coordinates G r;
          hash = poseidon_circuit W DS_CHALLENGE
            [pk_x, pk_y, flag pk_inf, r_x, r_y, flag r_inf, adv_next_ab_hash adv, adv_next_hints_vk_hash adv];
          e_expected = truncate_to_challenge_circuit W hash
      in flag pk_inf * 1 = (0 :: 'b) \<and> length (adv_s_bits adv) = SCALAR_NUM_BITS G \<and>
         length (adv_e_bits adv) = NUM_CHALLENGE_BITS W \<and> enforce_equal e e_expected)"

definition rotation_constraints ::
  "('b::field, 's::field, 'g::ab_group_add, 'rng) engine \<Rightarrow> ('b, 's, 'g) gadgets \<Rightarrow> 'b rotation_advice \<Rightarrow> 'b list \<Rightarrow> bool" where
  "rotation_constraints W G adv z_in \<longleftrightarrow>
     book_constraints G adv \<and> state_constraint W adv z_in \<and> effective_constraints adv \<and> masked_constraints adv \<and>
     majority_constraints adv \<and> signature_constraints W G adv"

definition rotation_output :: "'b rotation_advice \<Rightarrow> 'b list" where
  "rotation_output adv = [adv_next_ab_hash adv, adv_next_hints_vk_hash adv]"

section \<open>The assignment of the prover\<close>

definition rotation_assignment ::
  "('b::field, 's::field, 'g, 'rng) engine \<Rightarrow> ('b, 's, 'g) gadgets \<Rightarrow> ('b, 's, 'g) rotation_circuit \<Rightarrow> 'b rotation_advice" where
  "rotation_assignment W G c =
     (let weights = map (\<lambda>(_, _, weight). of_nat (unat weight)) (rc_prev_ab c);
          effective = map (\<lambda>(_, (pk, _), weight). if is_infinity W pk then 0 else of_nat (unat weight)) (rc_prev_ab c);
          masked = map (\<lambda>(b, w). if b then w else 0) (zip (rc_bitvector c) effective);
          signing = foldl (\<lambda>acc t. acc + t) 0 masked;
          tot = foldl (\<lambda>acc t. acc + t) 0 effective;
          remaining = tot - signing;
          difference = signing - remaining - 1
      in \<lparr>adv_keys = map (\<lambda>(_, (pk, _), _). to_coordinates W pk) (rc_prev_ab c),
          adv_weights = weights,
          adv_weight_bits = map (\<lambda>w. le_bits_of W w WEIGHT_BITS) weights,
          adv_node_ids = map fst (rc_prev_ab c),
          adv_bits = alloc_bits (rc_bitvector c),
          adv_effective = effective,
          adv_masked = masked,
          adv_signing = signing,
          adv_total = tot,
          adv_total_bits = le_bits_of W tot WEIGHT_BITS,
          adv_remaining = remaining,
          adv_difference = difference,
          adv_difference_bits = le_bits_of W difference WEIGHT_BITS,
          adv_next_ab_hash = fst (rc_msg c),
          adv_next_hints_vk_hash = snd (rc_msg c),
          adv_s_bits = alloc_bits (scalar_le_bits G (sig_s (rc_sig c))),
          adv_e_bits = alloc_bits (le_bits_of W (sig_e (rc_sig c)) (NUM_CHALLENGE_BITS W))\<rparr>)"

text \<open>
  \<open>synthesize\<close>: the assertions, the assigned values, whether they satisfy the constraints, and the
  output state.
\<close>

definition synthesize ::
  "('b::field, 's::field, 'g::ab_group_add, 'rng) engine \<Rightarrow> ('b, 's, 'g) gadgets \<Rightarrow> ('b, 's, 'g) rotation_circuit \<Rightarrow> 'b list
   \<Rightarrow> (bool \<times> 'b list, string) result" where
  "synthesize W G c z_in =
     (if length z_in \<noteq> 2 \<or> length (rc_prev_ab c) \<noteq> MAX_AB_SIZE then Panicked
      else if is_infinity W (ge_gen W) then Panicked
      else let adv = rotation_assignment W G c in Ok (rotation_constraints W G adv z_in, rotation_output adv))"

text \<open>\<open>dummy\<close>: the random scalars (key, proof nonce of every seat, and signing nonce) are arguments.\<close>

definition dummy ::
  "('b::field, 's::field, 'g::ab_group_add, 'rng) engine \<Rightarrow> (nat \<Rightarrow> 'rng) \<Rightarrow> (nat \<Rightarrow> 'rng) \<Rightarrow> 's
   \<Rightarrow> ('b, 's, 'g) rotation_circuit" where
  "dummy W key_rng pok_rng k =
     (let keypairs = map (\<lambda>i. schnorr_keygen W (key_rng i)) [0..<MAX_AB_SIZE];
          prev_ab = map (\<lambda>(i, kp). (of_nat i, (kp_pk kp, prove_knowledge W kp (pok_rng i)), 1)) (zip [0..<MAX_AB_SIZE] keypairs);
          joint = \<lparr>kp_sk = foldl (\<lambda>acc kp. acc + kp_sk kp) 0 keypairs,
                   kp_pk = foldl (\<lambda>acc kp. acc + kp_pk kp) (kp_pk (hd keypairs)) (drop 1 keypairs)\<rparr>;
          msg = (0, 1);
          sig = schnorr_sign W k joint (message_slice msg)
      in \<lparr>rc_prev_ab = prev_ab, rc_bitvector = replicate MAX_AB_SIZE True, rc_sig = sig, rc_msg = msg\<rparr>)"

section \<open>Bits and field arithmetic\<close>

primrec bits_value :: "bool list \<Rightarrow> nat" where
  "bits_value [] = 0"
| "bits_value (b # bits) = (if b then 1 else 0) + 2 * bits_value bits"

lemma bits_value_less: "bits_value bits < 2 ^ length bits"
  by (induction bits) auto

lemma le_bits_to_num_eq: "le_bits_to_num bits = (of_nat (bits_value bits) :: 'f::field)"
  by (induction bits) (simp_all add: algebra_simps mult_2)

lemma truncate_native:
  "truncate_to_challenge W x = le_bits_to_num (le_bits_of W x (NUM_CHALLENGE_BITS W))"
proof -
  have "fst (foldl (\<lambda>(acc, coeff) bit. (if bit then acc + coeff else acc, coeff + coeff)) (a, c) bits)
      = a + c * le_bits_to_num bits" for a c :: 'a and bits
    by (induction bits arbitrary: a c) (simp_all add: algebra_simps)
  then show ?thesis by (simp add: truncate_to_challenge_def)
qed

lemma truncate_agrees:
  assumes "gadgets_ok W G"
  shows "truncate_to_challenge_circuit W x = truncate_to_challenge W x"
proof -
  have "NUM_CHALLENGE_BITS W \<le> length (to_le_bits W x)" using assms by (simp add: gadgets_ok_def)
  then have "take (NUM_CHALLENGE_BITS W) (to_le_bits W x) = le_bits_of W x (NUM_CHALLENGE_BITS W)"
    by (intro nth_equalityI) (simp_all add: le_bits_of_def)
  then show ?thesis by (simp add: truncate_native truncate_to_challenge_circuit_def Let_def)
qed

lemma poseidon_agrees: "poseidon_circuit W ds elements = poseidon_native W ds elements"
  by (simp add: poseidon_circuit_def poseidon_native_def Let_def)

lemma sum_of_iff: "sum_of terms s \<longleftrightarrow> s = sum_list terms"
  using foldl_sum [of "\<lambda>x. x" 0 terms] by (auto simp: sum_of_def)

lemma of_nat_inject_72:
  fixes W :: "('b::field, 's::field, 'g::ab_group_add, 'rng) engine"
  assumes "gadgets_ok W G" "(of_nat m :: 'b) = of_nat n" "m < 2 ^ 72" "n < 2 ^ 72"
  shows "m = n"
  using assms by (auto simp: gadgets_ok_def inj_on_def)

text \<open>The range check, and the strict comparison through it, over the naturals.\<close>

lemma enforce_range_iff:
  fixes v :: "'b::field"
  shows "(\<exists>bits. enforce_range v bits n) \<longleftrightarrow> (\<exists>k < 2 ^ n. v = of_nat k)"
proof
  assume "\<exists>k < 2 ^ n. v = of_nat k"
  then obtain k where k: "k < 2 ^ n" "v = of_nat k" by blast
  have "\<exists>bits. length bits = n \<and> bits_value bits = k" using k(1)
  proof (induction n arbitrary: k)
    case (Suc n)
    have "k div 2 < 2 ^ n" using Suc.prems by (simp add: less_mult_imp_div_less mult.commute)
    then obtain bits where "length bits = n" "bits_value bits = k div 2" using Suc.IH by blast
    then show ?case by (intro exI [of _ "odd k # bits"]) auto
  qed simp
  then show "\<exists>bits. enforce_range v bits n" using k by (auto simp: enforce_range_def enforce_equal_def le_bits_to_num_eq)
qed (auto simp: enforce_range_def enforce_equal_def le_bits_to_num_eq intro: bits_value_less)

lemma enforce_range_nat:
  "enforce_range v bits n \<Longrightarrow> \<exists>k < 2 ^ n. v = of_nat k"
  using enforce_range_iff by blast

lemma enforce_range_honest:
  fixes W :: "('b::field, 's::field, 'g::ab_group_add, 'rng) engine"
  assumes "gadgets_ok W G" "n < 2 ^ 64"
  shows "enforce_range (of_nat n :: 'b) (le_bits_of W (of_nat n) WEIGHT_BITS) WEIGHT_BITS"
  using assms by (simp add: enforce_range_def enforce_equal_def gadgets_ok_def le_bits_of_def)

section \<open>Soundness of the weight constraints\<close>

text \<open>Weights of an advised book as naturals: what counts in total, and what the selected seats hold.\<close>

definition advised_total :: "'b rotation_advice \<Rightarrow> (nat \<Rightarrow> nat) \<Rightarrow> nat" where
  "advised_total adv w = (\<Sum>i < MAX_AB_SIZE. if snd (snd (adv_keys adv ! i)) then 0 else w i)"

definition advised_signing :: "'b rotation_advice \<Rightarrow> (nat \<Rightarrow> nat) \<Rightarrow> nat" where
  "advised_signing adv w = (\<Sum>i < MAX_AB_SIZE. if adv_bits adv ! i \<and> \<not> snd (snd (adv_keys adv ! i)) then w i else 0)"

lemma advised_le: "advised_signing adv w \<le> advised_total adv w"
  unfolding advised_signing_def advised_total_def by (intro sum_mono) simp

lemma advised_total_bound:
  assumes "\<And>i. i < MAX_AB_SIZE \<Longrightarrow> w i < 2 ^ 64"
  shows "advised_total adv w < 2 ^ 70"
proof -
  have "advised_total adv w \<le> (\<Sum>i < MAX_AB_SIZE. 2 ^ 64 - 1)"
    unfolding advised_total_def using assms by (intro sum_mono) (fastforce simp: less_eq_Suc_le)
  then show ?thesis by (simp add: MAX_AB_SIZE_def)
qed

lemma weight_sums:
  fixes adv :: "'b::field rotation_advice"
  assumes "effective_constraints adv" "masked_constraints adv"
    and "\<And>i. i < MAX_AB_SIZE \<Longrightarrow> adv_weights adv ! i = of_nat (w i)"
  shows "sum_list (adv_effective adv) = of_nat (advised_total adv w)"
    "sum_list (adv_masked adv) = of_nat (advised_signing adv w)"
proof -
  have eff: "adv_effective adv ! i = of_nat (if snd (snd (adv_keys adv ! i)) then 0 else w i)" if "i < MAX_AB_SIZE" for i
    using assms(1,3) that by (auto simp: effective_constraints_def flag_def)
  then have "adv_masked adv ! i = of_nat (if adv_bits adv ! i \<and> \<not> snd (snd (adv_keys adv ! i)) then w i else 0)"
    if "i < MAX_AB_SIZE" for i
    using assms(2) that by (auto simp: masked_constraints_def flag_def)
  with eff show "sum_list (adv_effective adv) = of_nat (advised_total adv w)"
    "sum_list (adv_masked adv) = of_nat (advised_signing adv w)"
    using assms(1,2)
    by (simp_all add: sum_list_sum_nth atLeast0LessThan effective_constraints_def masked_constraints_def
        advised_total_def advised_signing_def)
qed

lemma majority_sound:
  fixes W :: "('b::field, 's::field, 'g::ab_group_add, 'rng) engine"
  assumes G: "gadgets_ok W G" and c: "effective_constraints adv" "masked_constraints adv" "majority_constraints adv"
    and w: "\<And>i. i < MAX_AB_SIZE \<Longrightarrow> adv_weights adv ! i = (of_nat (w i) :: 'b)" "\<And>i. i < MAX_AB_SIZE \<Longrightarrow> w i < 2 ^ 64"
  shows "advised_total adv w < 2 ^ 64 \<and> advised_total adv w < 2 * advised_signing adv w"
proof -
  let ?T = "advised_total adv w" and ?S = "advised_signing adv w"
  note sums = weight_sums [OF c(1,2) w(1)]
  have T: "adv_total adv = of_nat ?T" and S: "adv_signing adv = of_nat ?S"
    using c(3) sums by (simp_all add: majority_constraints_def sum_of_iff)
  have bounds: "?T < 2 ^ 70" "?S \<le> ?T" using advised_total_bound w(2) advised_le by blast+
  obtain n where n: "n < 2 ^ 64" "(of_nat ?T :: 'b) = of_nat n"
    using enforce_range_nat [of "adv_total adv" "adv_total_bits adv" WEIGHT_BITS] c(3) T
    unfolding majority_constraints_def WEIGHT_BITS_def by metis
  have Tn: "?T < 2 ^ 64" using of_nat_inject_72 [OF G n(2)] bounds n(1) by simp
  have rem: "adv_remaining adv = of_nat (?T - ?S)"
    using c(3) T S bounds(2) by (simp add: majority_constraints_def of_nat_diff)
  obtain d where d: "d < 2 ^ 64" "adv_difference adv = of_nat d"
    using enforce_range_nat [of "adv_difference adv" "adv_difference_bits adv" WEIGHT_BITS] c(3)
    unfolding majority_constraints_def enforce_greater_than_def WEIGHT_BITS_def by metis
  have "(of_nat ?S :: 'b) = of_nat (?T - ?S + 1 + d)"
    using c(3) S rem d(2) by (auto simp: majority_constraints_def enforce_greater_than_def algebra_simps)
  then have "?S = ?T - ?S + 1 + d" by (rule of_nat_inject_72 [OF G]) (use bounds Tn d(1) in auto)
  then show ?thesis using Tn bounds(2) by linarith
qed

section \<open>Advice against a book\<close>

text \<open>The entry by entry form of a book's encoding, and of the preimage of the circuit.\<close>

lemma entry_elements_eq:
  "entry_elements W entry = [fst entry, fst (to_coordinates W (book_key entry)), fst (snd (to_coordinates W (book_key entry))),
     flag (is_infinity W (book_key entry)), of_nat (unat (snd (snd entry)))]"
  by (simp add: entry_elements_def encode_point_def book_key_def flag_def split_def Let_def)

lemma flag_eq [simp]: "(flag a :: 'b::field) = flag b \<longleftrightarrow> a = b" "flag True = (1 :: 'b)" "flag False = (0 :: 'b)"
  by (simp_all add: flag_def)

lemma preimage_matches:
  fixes W :: "('b::field, 's, 'g, 'rng) engine"
  assumes len: "length ab = MAX_AB_SIZE" "length (adv_keys adv) = MAX_AB_SIZE" "length (adv_weights adv) = MAX_AB_SIZE"
      "length (adv_node_ids adv) = MAX_AB_SIZE"
  shows "preimage adv = concat (map (entry_elements W) ab) \<longleftrightarrow>
    adv_node_ids adv = map fst ab \<and> adv_keys adv = map (\<lambda>entry. to_coordinates W (book_key entry)) ab \<and>
    adv_weights adv = map (\<lambda>entry. of_nat (unat (snd (snd entry)))) ab"
proof -
  let ?row = "\<lambda>((node_id, (x, y, is_inf)), weight). [node_id, x, y, flag is_inf, weight :: 'b]"
  let ?rows = "map ?row (zip (zip (adv_node_ids adv) (adv_keys adv)) (adv_weights adv))"
  have "preimage adv = concat (map (entry_elements W) ab) \<longleftrightarrow> ?rows = map (entry_elements W) ab"
    unfolding preimage_def using len
    by (intro concat_eq_concat_iff) (auto simp: set_zip split_def)
  also have "\<dots> \<longleftrightarrow> (\<forall>i < MAX_AB_SIZE. adv_node_ids adv ! i = fst (ab ! i) \<and>
      adv_keys adv ! i = to_coordinates W (book_key (ab ! i)) \<and> adv_weights adv ! i = of_nat (unat (snd (snd (ab ! i)))))"
    unfolding list_eq_iff_nth_eq [of ?rows]
    using len by (simp add: entry_elements_eq split_def prod_eq_iff conj_assoc)
  also have "\<dots> \<longleftrightarrow> adv_node_ids adv = map fst ab \<and> adv_keys adv = map (\<lambda>entry. to_coordinates W (book_key entry)) ab \<and>
    adv_weights adv = map (\<lambda>entry. of_nat (unat (snd (snd entry)))) ab"
    using len by (auto simp: list_eq_iff_nth_eq)
  finally show ?thesis .
qed

lemma key_point_of_coordinates:
  fixes W :: "('b::field, 's::field, 'g::ab_group_add, 'rng) engine"
  assumes "engine_ok W" "gadgets_ok W G"
  shows "key_point G (to_coordinates W P) = Some P"
proof (cases "to_coordinates W P")
  case (fields x y is_inf)
  then show ?thesis
    using assms infinity_iff [OF assms(1), of P] by (cases is_inf) (auto simp: key_point_def gadgets_ok_def)
qed

lemma joint_key_sum:
  "joint_key G adv = (\<Sum>i < MAX_AB_SIZE. if adv_bits adv ! i then (case key_point G (adv_keys adv ! i) of Some P \<Rightarrow> P | None \<Rightarrow> 0) else 0)"
  by (simp only: joint_key_def foldl_sum interv_sum_list_conv_sum_set_nat add_0 set_upt atLeast0LessThan)

text \<open>A book on the advice: the selected occupied seats, their weight and the sum of their keys.\<close>

definition occupied_bits :: "('b, 's, 'g, 'rng) engine \<Rightarrow> ('b, 's, 'g) address_book \<Rightarrow> bool list \<Rightarrow> bit_vector" where
  "occupied_bits W ab bits = map (\<lambda>(entry, b). b \<and> \<not> is_infinity W (book_key entry)) (zip ab bits)"

lemma sums_by_seat:
  fixes W :: "('b::field, 's::field, 'g::ab_group_add, 'rng) engine"
  assumes "engine_ok W" "length ab = MAX_AB_SIZE" "length bv = MAX_AB_SIZE"
  shows "total_weight_of W ab = (\<Sum>i < MAX_AB_SIZE. effective_weight W (ab ! i))"
    "signing_weight_of W ab bv = (\<Sum>i < MAX_AB_SIZE. if bv ! i then effective_weight W (ab ! i) else 0)"
    "sum_list (signing_subset W ab bv) = (\<Sum>i < MAX_AB_SIZE. if bv ! i then book_key (ab ! i) else 0)"
proof -
  have le: "length ab \<le> length bv" using assms by simp
  show "total_weight_of W ab = (\<Sum>i < MAX_AB_SIZE. effective_weight W (ab ! i))"
    using assms by (simp add: total_weight_of_def sum_list_sum_nth atLeast0LessThan)
  show "signing_weight_of W ab bv = (\<Sum>i < MAX_AB_SIZE. if bv ! i then effective_weight W (ab ! i) else 0)"
    using sum_zip_nth [OF le, of "\<lambda>entry b. if b then effective_weight W entry else 0"] assms by (simp add: signing_weight_of_def)
  have "sum_list (signing_subset W ab bv) = (\<Sum>(entry, b)\<leftarrow>zip ab bv. if b \<and> book_key entry \<noteq> 0 then book_key entry else 0)"
    by (simp add: signing_subset_eq comp_def split_def sum_list_map_filter' infinity_iff [OF assms(1)])
  also have "\<dots> = (\<Sum>i < MAX_AB_SIZE. if bv ! i then book_key (ab ! i) else 0)"
    using sum_zip_nth [OF le, of "\<lambda>entry b. if b \<and> book_key entry \<noteq> 0 then book_key entry else 0"] assms by (auto intro: sum.cong)
  finally show "sum_list (signing_subset W ab bv) = (\<Sum>i < MAX_AB_SIZE. if bv ! i then book_key (ab ! i) else 0)" .
qed

text \<open>The seats of the advice, when its preimage encodes a padded book.\<close>

lemma advice_seats:
  fixes W :: "('b::field, 's::field, 'g::ab_group_add, 'rng) engine"
  assumes ok: "engine_ok W" "gadgets_ok W G" and book: "book_constraints G adv" and len: "length ab = MAX_AB_SIZE"
    and pre: "preimage adv = concat (map (entry_elements W) ab)" and i: "i < MAX_AB_SIZE"
  shows "key_point G (adv_keys adv ! i) = Some (book_key (ab ! i))"
    "snd (snd (adv_keys adv ! i)) \<longleftrightarrow> book_key (ab ! i) = 0"
    "adv_weights adv ! i = of_nat (unat (snd (snd (ab ! i))))"
proof -
  have "adv_keys adv ! i = to_coordinates W (book_key (ab ! i))" "adv_weights adv ! i = of_nat (unat (snd (snd (ab ! i))))"
    using preimage_matches [of ab adv W] book pre len i by (simp_all add: book_constraints_def)
  then show "key_point G (adv_keys adv ! i) = Some (book_key (ab ! i))"
    "snd (snd (adv_keys adv ! i)) \<longleftrightarrow> book_key (ab ! i) = 0"
    "adv_weights adv ! i = of_nat (unat (snd (snd (ab ! i))))"
    using key_point_of_coordinates [OF ok] infinity_iff [OF ok(1)] by simp_all
qed

lemma effective_weight_eq:
  fixes W :: "('b::field, 's::field, 'g::ab_group_add, 'rng) engine"
  assumes "engine_ok W"
  shows "effective_weight W entry = (if book_key entry = 0 then 0 else unat (snd (snd entry)))"
  by (simp add: effective_weight_def book_key_def split_def infinity_iff [OF assms])

lemma occupied_bits_props:
  fixes W :: "('b::field, 's::field, 'g::ab_group_add, 'rng) engine"
  assumes "engine_ok W" "length ab = MAX_AB_SIZE" "length bits = MAX_AB_SIZE"
  shows "length (occupied_bits W ab bits) = MAX_AB_SIZE"
    "i < MAX_AB_SIZE \<Longrightarrow> occupied_bits W ab bits ! i \<longleftrightarrow> bits ! i \<and> book_key (ab ! i) \<noteq> 0"
  using assms by (simp_all add: occupied_bits_def infinity_iff [OF assms(1)])

lemma advice_sums:
  fixes W :: "('b::field, 's::field, 'g::ab_group_add, 'rng) engine"
  assumes ok: "engine_ok W" "gadgets_ok W G" and book: "book_constraints G adv" and len: "length ab = MAX_AB_SIZE"
    and bits: "length (adv_bits adv) = MAX_AB_SIZE" and pre: "preimage adv = concat (map (entry_elements W) ab)"
  defines "bv \<equiv> occupied_bits W ab (adv_bits adv)" and "w \<equiv> \<lambda>i. unat (snd (snd (ab ! i)))"
  shows "advised_total adv w = total_weight_of W ab" "advised_signing adv w = signing_weight_of W ab bv"
    "joint_key G adv = sum_list (signing_subset W ab bv)"
proof -
  note seats = advice_seats [OF ok book len pre]
  note ob = occupied_bits_props [OF ok(1) len bits]
  note by_seat = sums_by_seat [OF ok(1) len ob(1)]
  show "advised_total adv w = total_weight_of W ab"
    unfolding advised_total_def by_seat(1)
    by (rule sum.cong) (simp_all add: seats effective_weight_eq [OF ok(1)] w_def)
  show "advised_signing adv w = signing_weight_of W ab bv"
    unfolding advised_signing_def by_seat(2) bv_def
    by (rule sum.cong) (simp_all add: seats ob effective_weight_eq [OF ok(1)] w_def)
  show "joint_key G adv = sum_list (signing_subset W ab bv)"
    unfolding joint_key_sum by_seat(3) bv_def by (rule sum.cong) (simp_all add: seats ob)
qed

text \<open>The signature constraint is Schnorr verification under the joint key, unless the nonce point is the identity.\<close>

lemma challenge_agrees:
  fixes W :: "('b::field, 's::field, 'g::ab_group_add, 'rng) engine"
  assumes "gadgets_ok W G" "pk \<noteq> 0" "r \<noteq> 0"
  shows "truncate_to_challenge_circuit W (poseidon_circuit W DS_CHALLENGE
      [fst (ap_coordinates G pk), fst (snd (ap_coordinates G pk)), flag (snd (snd (ap_coordinates G pk))),
       fst (ap_coordinates G r), fst (snd (ap_coordinates G r)), flag (snd (snd (ap_coordinates G r))), h, v])
    = schnorr_challenge W pk r [h, v]"
proof -
  have "ap_coordinates G pk = to_coordinates W pk" "ap_coordinates G r = to_coordinates W r"
    using assms by (simp_all add: gadgets_ok_def)
  then show ?thesis
    by (simp add: schnorr_challenge_def truncate_agrees [OF assms(1)] poseidon_agrees encode_point_def flag_def split_def Let_def)
qed

lemma signature_constraints_iff:
  fixes W :: "('b::field, 's::field, 'g::ab_group_add, 'rng) engine"
  assumes G: "gadgets_ok W G"
    and s: "length (adv_s_bits adv) = SCALAR_NUM_BITS G" and e: "length (adv_e_bits adv) = NUM_CHALLENGE_BITS W"
  defines "sig \<equiv> \<lparr>sig_e = le_bits_to_num (adv_e_bits adv), sig_s = le_bits_to_num (adv_s_bits adv)\<rparr>"
    and "pk \<equiv> joint_key G adv"
  assumes r: "ge_mul W (ge_gen W) (sig_s sig) - ge_mul W pk (field_switch W (sig_e sig)) \<noteq> 0"
  shows "signature_constraints W G adv \<longleftrightarrow>
    pk \<noteq> 0 \<and> schnorr_verify W pk [adv_next_ab_hash adv, adv_next_hints_vk_hash adv] sig"
proof -
  have fs: "field_switch W (le_bits_to_num (adv_e_bits adv)) = le_bits_to_num (adv_e_bits adv)"
    using G e by (simp add: gadgets_ok_def)
  have inf_iff: "snd (snd (ap_coordinates G pk)) \<longleftrightarrow> pk = 0" using G by (simp add: gadgets_ok_def)
  show ?thesis
  proof (cases "pk = 0")
    case True
    then show ?thesis using inf_iff by (simp add: signature_constraints_def split_def Let_def pk_def [symmetric])
  next
    case False
    then have "\<not> snd (snd (ap_coordinates G pk))" using inf_iff by simp
    moreover have "ge_mul W (ge_gen W) (le_bits_to_num (adv_s_bits adv)) - ge_mul W pk (le_bits_to_num (adv_e_bits adv)) \<noteq> 0"
      using r fs by (simp add: sig_def)
    note ch = challenge_agrees [OF G False this, of "adv_next_ab_hash adv" "adv_next_hints_vk_hash adv"]
    ultimately show ?thesis
      using False s e fs ch
      by (auto simp: signature_constraints_def schnorr_verify_def enforce_equal_def sig_def split_def Let_def pk_def [symmetric])
  qed
qed

section \<open>The circuit against native verification\<close>

text \<open>What the commitment to a book hashes.\<close>

definition book_encoding :: "('b::field, 's::zero, 'g, 'rng) engine \<Rightarrow> ('b, 's, 'g) address_book \<Rightarrow> 'b list" where
  "book_encoding W ab = concat (map (entry_elements W) (ab @ replicate (MAX_AB_SIZE - length ab) (padding_entry W)))"

lemma book_hash_encoding: "book_hash W ab = poseidon_native W DS_ADDRESS_BOOK (book_encoding W ab)"
  by (simp add: book_hash_def hash_address_book_def book_encoding_def)

text \<open>The selected seats are occupied seats of the book, with a majority and keys that do not cancel.\<close>

definition majority_selected ::
  "('b::field, 's::field, 'g::ab_group_add, 'rng) engine \<Rightarrow> ('b, 's, 'g) address_book \<Rightarrow> bit_vector \<Rightarrow> bool" where
  "majority_selected W ab bv \<longleftrightarrow>
     length bv = MAX_AB_SIZE \<and> \<not> selects_beyond bv (length ab) \<and> reject_sentinel_signers W ab bv = Ok () \<and>
     total_weight_of W ab < 2 * signing_weight_of W ab bv \<and> sum_list (signing_subset W ab bv) \<noteq> 0"

text \<open>A signature whose nonce point is the identity.\<close>

definition degenerate_nonce :: "('b, 's, 'g, 'rng) engine \<Rightarrow> 'g \<Rightarrow> ('b, 's) schnorr_signature \<Rightarrow> bool" where
  "degenerate_nonce W pk sig \<longleftrightarrow> ge_mul W (ge_gen W) (sig_s sig) = ge_mul W pk (field_switch W (sig_e sig))"

text \<open>The signature that the bits of the advice stand for.\<close>

definition advised_signature :: "'b::field rotation_advice \<Rightarrow> ('b, 's::field) schnorr_signature" where
  "advised_signature adv = \<lparr>sig_e = le_bits_to_num (adv_e_bits adv), sig_s = le_bits_to_num (adv_s_bits adv)\<rparr>"

lemma occupied_within:
  fixes W :: "('b::field, 's::field, 'g::ab_group_add, 'rng) engine"
  assumes ok: "engine_ok W" and len: "length ab \<le> MAX_AB_SIZE" and bits: "length bits = MAX_AB_SIZE"
  defines "padded \<equiv> ab @ replicate (MAX_AB_SIZE - length ab) (padding_entry W)"
  defines "bv \<equiv> occupied_bits W padded bits"
  shows "\<not> selects_beyond bv (length ab)" "reject_sentinel_signers W ab bv = Ok ()"
proof -
  have pl: "length padded = MAX_AB_SIZE" using len by (simp add: padded_def)
  note ob = occupied_bits_props [OF ok pl bits]
  have "book_key (padded ! i) = 0" if "length ab \<le> i" "i < MAX_AB_SIZE" for i
    using that padding_is_infinity(1) [OF ok] len by (simp add: padded_def nth_append infinity_iff [OF ok])
  then show "\<not> selects_beyond bv (length ab)"
    unfolding selects_beyond_def set_drop_nth using ob by (auto simp: bv_def)
  have "length ab \<le> length bv" using ob len by (simp add: bv_def)
  moreover have "padded ! i = ab ! i" if "i < length ab" for i using that by (simp add: padded_def nth_append)
  ultimately show "reject_sentinel_signers W ab bv = Ok ()"
    unfolding reject_sentinel_iff using ob len by (auto simp: ball_zip_nth bv_def infinity_iff [OF ok])
qed

lemma circuit_sound:
  fixes W :: "('b::field, 's::field, 'g::ab_group_add, 'rng) engine"
  assumes ok: "engine_ok W" "gadgets_ok W G" and con: "rotation_constraints W G adv z_in"
    and fits: "length ab \<le> MAX_AB_SIZE" and pre: "preimage adv = book_encoding W ab"
  shows "\<exists>bv. majority_selected W ab bv \<and> total_weight_of W ab < 2 ^ 64 \<and> joint_key G adv = sum_list (signing_subset W ab bv) \<and>
    (schnorr_verify W (joint_key G adv) (rotation_output adv) (advised_signature adv) \<or>
     degenerate_nonce W (joint_key G adv) (advised_signature adv))"
proof -
  let ?p = "ab @ replicate (MAX_AB_SIZE - length ab) (padding_entry W)"
  have pl: "length ?p = MAX_AB_SIZE" using fits by simp
  have book: "book_constraints G adv" and eff: "effective_constraints adv" and mask: "masked_constraints adv"
    and maj: "majority_constraints adv" and sigc: "signature_constraints W G adv"
    using con by (simp_all add: rotation_constraints_def)
  have bl: "length (adv_bits adv) = MAX_AB_SIZE" using mask by (simp add: masked_constraints_def)
  have pre': "preimage adv = concat (map (entry_elements W) ?p)" using pre by (simp add: book_encoding_def)
  define bv where "bv = occupied_bits W ?p (adv_bits adv)"
  note sums = advice_sums [OF ok book pl bl pre', folded bv_def]
  have "advised_total adv (\<lambda>i. unat (snd (snd (?p ! i)))) < 2 ^ 64 \<and>
      advised_total adv (\<lambda>i. unat (snd (snd (?p ! i)))) < 2 * advised_signing adv (\<lambda>i. unat (snd (snd (?p ! i))))"
  proof (rule majority_sound [OF ok(2) eff mask maj])
    fix i assume "i < MAX_AB_SIZE"
    then show "adv_weights adv ! i = of_nat (unat (snd (snd (?p ! i))))" by (rule advice_seats(3) [OF ok book pl pre'])
    show "unat (snd (snd (?p ! i))) < 2 ^ 64" using unsigned_less [of "snd (snd (?p ! i))"] by simp
  qed
  then have wt: "total_weight_of W ab < 2 ^ 64" "total_weight_of W ab < 2 * signing_weight_of W ab bv"
    by (simp_all add: sums total_weight_padding [OF ok(1)] signing_weight_padded [OF ok(1)])
  have jk: "joint_key G adv = sum_list (signing_subset W ab bv)"
    by (simp add: sums(3) signing_subset_padded [OF ok(1)])
  have nz: "joint_key G adv \<noteq> 0"
    using sigc ok(2) by (auto simp: signature_constraints_def gadgets_ok_def split_def Let_def)
  have "length bv = MAX_AB_SIZE" "\<not> selects_beyond bv (length ab)" "reject_sentinel_signers W ab bv = Ok ()"
    using occupied_bits_props(1) [OF ok(1) pl bl] occupied_within [OF ok(1) fits bl] by (simp_all add: bv_def)
  then have sel: "majority_selected W ab bv" using wt nz jk by (simp add: majority_selected_def)
  have "length (adv_s_bits adv) = SCALAR_NUM_BITS G" "length (adv_e_bits adv) = NUM_CHALLENGE_BITS W"
    using sigc by (simp_all add: signature_constraints_def split_def Let_def)
  note sc = signature_constraints_iff [OF ok(2) this, folded advised_signature_def]
  have "schnorr_verify W (joint_key G adv) (rotation_output adv) (advised_signature adv) \<or>
      degenerate_nonce W (joint_key G adv) (advised_signature adv)"
    using sc sigc by (auto simp: rotation_output_def degenerate_nonce_def)
  then show ?thesis using sel wt(1) jk by auto
qed

text \<open>The assignment of the prover satisfies the constraints whenever the native checks accept.\<close>

lemma of_nat_sum_list: "of_nat (\<Sum>x\<leftarrow>xs. f x) = (\<Sum>x\<leftarrow>xs. of_nat (f x))"
  by (induction xs) simp_all

lemma assignment_sums:
  fixes W :: "('b::field, 's::field, 'g::ab_group_add, 'rng) engine" and G :: "('b, 's, 'g) gadgets"
  assumes ok: "engine_ok W" and len: "length (rc_prev_ab c) = MAX_AB_SIZE" "length (rc_bitvector c) = MAX_AB_SIZE"
  defines "adv \<equiv> rotation_assignment W G c"
  shows "adv_total adv = of_nat (total_weight_of W (rc_prev_ab c))"
    "adv_signing adv = of_nat (signing_weight_of W (rc_prev_ab c) (rc_bitvector c))"
proof -
  let ?ab = "rc_prev_ab c" and ?bv = "rc_bitvector c"
  have le: "length ?ab \<le> length ?bv" using len by simp
  have eff: "(\<lambda>(_, (pk, _), weight). if is_infinity W pk then 0 else of_nat (unat weight)) = (\<lambda>entry. of_nat (effective_weight W entry) :: 'b)"
    by (auto simp: effective_weight_def)
  show "adv_total adv = of_nat (total_weight_of W ?ab)"
    unfolding adv_def rotation_assignment_def Let_def
    by (simp add: foldl_sum [of "\<lambda>x. x"] eff total_weight_of_def comp_def of_nat_sum_list)
  have "adv_signing adv = (\<Sum>(b, entry)\<leftarrow>zip ?bv ?ab. if b then of_nat (effective_weight W entry) else 0)"
    unfolding adv_def rotation_assignment_def Let_def eff
    by (simp add: foldl_sum [of "\<lambda>x. x"] zip_map2 comp_def split_def cong: if_cong)
  also have "\<dots> = of_nat (signing_weight_of W ?ab ?bv)"
    using sum_zip_nth [of ?bv ?ab "\<lambda>b entry. if b then of_nat (effective_weight W entry) else (0 :: 'b)"] len
      sum_zip_nth [OF le, of "\<lambda>entry b. if b then effective_weight W entry else 0"]
    by (auto simp: signing_weight_of_def intro: sum.cong)
  finally show "adv_signing adv = of_nat (signing_weight_of W ?ab ?bv)" .
qed

lemma assignment_book:
  fixes W :: "('b::field, 's::field, 'g::ab_group_add, 'rng) engine"
  assumes ok: "engine_ok W" "gadgets_ok W G" and len: "length (rc_prev_ab c) = MAX_AB_SIZE" "length (rc_bitvector c) = MAX_AB_SIZE"
  defines "adv \<equiv> rotation_assignment W G c"
  shows "book_constraints G adv" "preimage adv = concat (map (entry_elements W) (rc_prev_ab c))"
    "effective_constraints adv" "masked_constraints adv"
proof -
  let ?ab = "rc_prev_ab c"
  have f: "adv_keys adv = map (\<lambda>entry. to_coordinates W (book_key entry)) ?ab"
    "adv_weights adv = map (\<lambda>entry. of_nat (unat (snd (snd entry)))) ?ab" "adv_node_ids adv = map fst ?ab"
    "adv_weight_bits adv = map (\<lambda>entry. le_bits_of W (of_nat (unat (snd (snd entry)))) WEIGHT_BITS) ?ab"
    "adv_effective adv = map (\<lambda>entry. if is_infinity W (book_key entry) then 0 else of_nat (unat (snd (snd entry)))) ?ab"
    by (simp_all add: adv_def rotation_assignment_def Let_def split_def book_key_def comp_def)
  have g: "adv_bits adv = rc_bitvector c" "adv_masked adv = map (\<lambda>(b, w). if b then w else 0) (zip (rc_bitvector c) (adv_effective adv))"
    by (simp_all add: adv_def rotation_assignment_def Let_def alloc_bits_def)
  have "enforce_range (of_nat (unat w) :: 'b) (le_bits_of W (of_nat (unat w)) WEIGHT_BITS) WEIGHT_BITS" for w :: weight
    using enforce_range_honest [OF ok(2), of "unat w"] unsigned_less [of w] by simp
  then show "book_constraints G adv"
    using len by (simp add: book_constraints_def f key_point_of_coordinates [OF ok])
  show "preimage adv = concat (map (entry_elements W) ?ab)"
    using preimage_matches [of ?ab adv W] len by (simp add: f)
  show "effective_constraints adv" using len by (simp add: effective_constraints_def f)
  show "masked_constraints adv" using len by (simp add: masked_constraints_def g f)
qed

lemma assignment_majority:
  fixes W :: "('b::field, 's::field, 'g::ab_group_add, 'rng) engine"
  assumes ok: "engine_ok W" "gadgets_ok W G" and len: "length (rc_prev_ab c) = MAX_AB_SIZE" "length (rc_bitvector c) = MAX_AB_SIZE"
    and wt: "total_weight_of W (rc_prev_ab c) < 2 ^ 64"
      "total_weight_of W (rc_prev_ab c) < 2 * signing_weight_of W (rc_prev_ab c) (rc_bitvector c)"
  shows "majority_constraints (rotation_assignment W G c)"
proof -
  let ?adv = "rotation_assignment W G c" and ?T = "total_weight_of W (rc_prev_ab c)"
  let ?S = "signing_weight_of W (rc_prev_ab c) (rc_bitvector c)"
  note sums = assignment_sums [OF ok(1) len, of G]
  have le: "?S \<le> ?T" using signing_le_total len by (metis order_refl)
  have d: "adv_difference ?adv = of_nat (2 * ?S - ?T - 1)"
  proof -
    have "adv_difference ?adv = adv_signing ?adv - (adv_total ?adv - adv_signing ?adv) - 1"
      by (simp add: rotation_assignment_def Let_def)
    also have "\<dots> = of_nat (2 * ?S) - of_nat (Suc ?T)" by (simp add: sums)
    also have "\<dots> = of_nat (2 * ?S - Suc ?T)" using wt(2) by (intro of_nat_diff [symmetric]) simp
    finally show ?thesis by simp
  qed
  have fields: "adv_total_bits ?adv = le_bits_of W (adv_total ?adv) WEIGHT_BITS"
    "adv_difference_bits ?adv = le_bits_of W (adv_difference ?adv) WEIGHT_BITS"
    "adv_remaining ?adv = adv_total ?adv - adv_signing ?adv"
    "adv_difference ?adv = adv_signing ?adv - adv_remaining ?adv - 1"
    "sum_of (adv_masked ?adv) (adv_signing ?adv)" "sum_of (adv_effective ?adv) (adv_total ?adv)"
    by (simp_all add: rotation_assignment_def Let_def sum_of_def)
  have "enforce_range (adv_total ?adv) (adv_total_bits ?adv) WEIGHT_BITS"
    unfolding fields sums using enforce_range_honest [OF ok(2) wt(1)] .
  moreover have "enforce_range (adv_difference ?adv) (adv_difference_bits ?adv) WEIGHT_BITS"
    unfolding fields(2) d using wt(1) le by (intro enforce_range_honest [OF ok(2)]) auto
  ultimately show ?thesis
    using fields(3-6) by (simp add: majority_constraints_def enforce_greater_than_def)
qed

lemma occupied_same:
  fixes W :: "('b::field, 's::field, 'g::ab_group_add, 'rng) engine"
  assumes "engine_ok W" "length ab = MAX_AB_SIZE" "length bv = MAX_AB_SIZE"
  shows "sum_list (signing_subset W ab (occupied_bits W ab bv)) = sum_list (signing_subset W ab bv)"
  unfolding sums_by_seat(3) [OF assms] sums_by_seat(3) [OF assms(1,2) occupied_bits_props(1) [OF assms]]
  by (rule sum.cong) (simp_all add: occupied_bits_props(2) [OF assms])

lemma assignment_joint:
  fixes W :: "('b::field, 's::field, 'g::ab_group_add, 'rng) engine"
  assumes ok: "engine_ok W" "gadgets_ok W G" and fits: "length ab \<le> MAX_AB_SIZE" and len: "length bv = MAX_AB_SIZE"
  shows "joint_key G (rotation_assignment W G \<lparr>rc_prev_ab = ab @ replicate (MAX_AB_SIZE - length ab) (padding_entry W),
      rc_bitvector = bv, rc_sig = sig, rc_msg = msg\<rparr>) = sum_list (signing_subset W ab bv)"
proof -
  let ?p = "ab @ replicate (MAX_AB_SIZE - length ab) (padding_entry W)"
  let ?c = "\<lparr>rc_prev_ab = ?p, rc_bitvector = bv, rc_sig = sig, rc_msg = msg\<rparr>"
  have pl: "length (rc_prev_ab ?c) = MAX_AB_SIZE" "length (rc_bitvector ?c) = MAX_AB_SIZE" using fits len by simp_all
  note book = assignment_book [OF ok pl]
  have "adv_bits (rotation_assignment W G ?c) = bv" by (simp add: rotation_assignment_def alloc_bits_def Let_def)
  then have "joint_key G (rotation_assignment W G ?c) = sum_list (signing_subset W ?p (occupied_bits W ?p bv))"
    using advice_sums(3) [OF ok book(1) pl(1) _ book(2)] len by simp
  then show ?thesis using occupied_same [OF ok(1) _ len, of ?p] fits by (simp add: signing_subset_padded [OF ok(1)])
qed

lemma assignment_signature:
  fixes W :: "('b::field, 's::field, 'g::ab_group_add, 'rng) engine"
  assumes "gadgets_ok W G" "schnorr_verify W pk m sig"
  shows "advised_signature (rotation_assignment W G \<lparr>rc_prev_ab = ab, rc_bitvector = bv, rc_sig = sig, rc_msg = msg\<rparr>) = sig"
proof -
  obtain x where x: "sig_e sig = le_bits_to_num (le_bits_of W x (NUM_CHALLENGE_BITS W))"
    using assms(2) by (auto simp: schnorr_verify_def schnorr_challenge_def truncate_native Let_def dest: sym)
  have "length (le_bits_of W x (NUM_CHALLENGE_BITS W)) = NUM_CHALLENGE_BITS W" by (simp add: le_bits_of_def)
  then have "le_bits_of W (sig_e sig) (NUM_CHALLENGE_BITS W) = le_bits_of W x (NUM_CHALLENGE_BITS W)"
    using assms(1) x by (simp add: gadgets_ok_def)
  then show ?thesis
    using assms(1) x by (cases sig) (simp add: advised_signature_def rotation_assignment_def alloc_bits_def gadgets_ok_def Let_def)
qed

text \<open>
  The assignment of a circuit whose selected seats hold a majority, with a signature under their joint
  key, whether or not the book was validated.
\<close>

lemma assignment_satisfies:
  fixes W :: "('b::field, 's::field, 'g::ab_group_add, 'rng) engine"
  assumes ok: "engine_ok W" "gadgets_ok W G" and gen: "ge_gen W \<noteq> 0" and fits: "length ab \<le> MAX_AB_SIZE"
    and len: "length bv = MAX_AB_SIZE"
    and tot: "total_weight_of W ab < 2 ^ 64" and wt: "total_weight_of W ab < 2 * signing_weight_of W ab bv"
    and pk: "sum_list (signing_subset W ab bv) = pk" "pk \<noteq> 0"
    and sv: "schnorr_verify W pk [h, v] sig" and nd: "\<not> degenerate_nonce W pk sig"
  defines "c \<equiv> \<lparr>rc_prev_ab = ab @ replicate (MAX_AB_SIZE - length ab) (padding_entry W), rc_bitvector = bv, rc_sig = sig, rc_msg = (h, v)\<rparr>"
  shows "synthesize W G c [book_hash W ab, v0] = Ok (True, [h, v])"
proof -
  let ?p = "ab @ replicate (MAX_AB_SIZE - length ab) (padding_entry W)" and ?adv = "rotation_assignment W G c"
  have pl: "length (rc_prev_ab c) = MAX_AB_SIZE" "length (rc_bitvector c) = MAX_AB_SIZE" using fits len by (simp_all add: c_def)
  note book = assignment_book [OF ok pl]
  have maj: "majority_constraints ?adv"
    using assignment_majority [OF ok pl] tot wt
    by (simp add: c_def total_weight_padding [OF ok(1)] signing_weight_padded [OF ok(1)])
  have st: "state_constraint W ?adv [book_hash W ab, v0]"
    using book(2) by (simp add: state_constraint_def enforce_equal_def poseidon_agrees book_hash_encoding book_encoding_def c_def)
  have jk: "joint_key G ?adv = pk" unfolding c_def pk(1) [symmetric] by (rule assignment_joint [OF ok fits len])
  have sb: "advised_signature ?adv = sig" unfolding c_def by (rule assignment_signature [OF ok(2) sv])
  have out: "adv_next_ab_hash ?adv = h" "adv_next_hints_vk_hash ?adv = v" by (simp_all add: rotation_assignment_def Let_def c_def)
  have "length (adv_s_bits ?adv) = SCALAR_NUM_BITS G" "length (adv_e_bits ?adv) = NUM_CHALLENGE_BITS W"
    using ok(2) by (simp_all add: rotation_assignment_def alloc_bits_def gadgets_ok_def le_bits_of_def Let_def)
  from signature_constraints_iff [OF ok(2) this, folded advised_signature_def]
  have "signature_constraints W G ?adv" using sb jk out pk(2) sv nd by (simp add: degenerate_nonce_def)
  then show ?thesis
    using pl gen st maj book out
    by (simp add: synthesize_def rotation_constraints_def rotation_output_def infinity_iff [OF ok(1)] Let_def)
qed

lemma circuit_complete:
  fixes W :: "('b::field, 's::field, 'g::ab_group_add, 'rng) engine"
  assumes ok: "engine_ok W" "gadgets_ok W G" and gen: "ge_gen W \<noteq> 0" and len: "length bv = MAX_AB_SIZE"
    and auth: "rotation_authorised W ab (h, v) bv sig"
    and nd: "\<not> degenerate_nonce W (sum_list (signing_subset W ab bv)) sig"
  shows "synthesize W G \<lparr>rc_prev_ab = ab @ replicate (MAX_AB_SIZE - length ab) (padding_entry W), rc_bitvector = bv, rc_sig = sig, rc_msg = (h, v)\<rparr>
    [book_hash W ab, v0] = Ok (True, [h, v])"
proof -
  have valid: "verify_address_book W ab" and wt: "total_weight_of W ab < 2 * signing_weight_of W ab bv"
    and pk: "sum_list (signing_subset W ab bv) \<noteq> 0" and sv: "schnorr_verify W (sum_list (signing_subset W ab bv)) [h, v] sig"
    using auth by (simp_all add: rotation_authorised_def)
  have "length ab \<le> MAX_AB_SIZE" "total_weight_of W ab < 2 ^ 64" using valid by (simp_all add: verify_address_book_iff)
  then show ?thesis by (rule assignment_satisfies [OF ok gen _ len _ wt refl pk sv nd])
qed

text \<open>
  The circuit that shapes the public parameters satisfies its own constraints, as \<^verbatim>\<open>dummy\<close> documents,
  unless its random keys or its nonce cancel.
\<close>

lemma dummy_satisfied:
  fixes W :: "('b::field, 's::field, 'g::ab_group_add, 'rng) engine"
  assumes ok: "engine_ok W" "gadgets_ok W G" and gen: "ge_gen W \<noteq> 0" and k: "ge_mul W (ge_gen W) k \<noteq> 0"
    and sk: "ge_mul W (ge_gen W) (\<Sum>i < MAX_AB_SIZE. scalar_random W (key_rng i)) \<noteq> 0"
  shows "synthesize W G (dummy W key_rng pok_rng k) [hash_address_book W (rc_prev_ab (dummy W key_rng pok_rng k)), v0] = Ok (True, [0, 1])"
proof -
  let ?n = "[0..<MAX_AB_SIZE]" and ?bv = "replicate MAX_AB_SIZE True" and ?sk = "\<Sum>i < MAX_AB_SIZE. scalar_random W (key_rng i)"
  let ?kp = "\<lambda>i. schnorr_keygen W (key_rng i)" and ?pk = "ge_mul W (ge_gen W) (\<Sum>i < MAX_AB_SIZE. scalar_random W (key_rng i))"
  let ?ab = "map (\<lambda>i. (of_nat i :: 'b, (kp_pk (?kp i), prove_knowledge W (?kp i) (pok_rng i)), 1 :: weight)) ?n"
  let ?joint = "\<lparr>kp_sk = ?sk, kp_pk = ?pk\<rparr>" and ?msg = "[0 :: 'b, 1]"
  have n: "?n = 0 # [1..<MAX_AB_SIZE]" by (simp add: MAX_AB_SIZE_def upt_rec)
  have sums: "sum_list (map f ?n) = (\<Sum>i < MAX_AB_SIZE. f i)" for f :: "nat \<Rightarrow> 'c::comm_monoid_add"
    by (simp add: sum_list_distinct_conv_sum_set atLeast0LessThan)
  have keys: "(\<Sum>i < MAX_AB_SIZE. kp_pk (?kp i)) = ?pk" "(\<Sum>i < MAX_AB_SIZE. kp_sk (?kp i)) = ?sk"
    by (simp_all add: schnorr_keygen_def Let_def ge.act_sum_scalar [OF ok(1)])
  have "foldl (\<lambda>acc kp. acc + kp_sk kp) 0 (map ?kp ?n) = ?sk" using sums [of "\<lambda>i. kp_sk (?kp i)"] keys(2) by (simp add: foldl_sum comp_def)
  moreover have "foldl (\<lambda>acc kp. acc + kp_pk kp) (kp_pk (hd (map ?kp ?n))) (drop 1 (map ?kp ?n)) = ?pk"
    using sums [of "\<lambda>i. kp_pk (?kp i)"] keys(1) unfolding n by (simp add: foldl_sum comp_def)
  ultimately have d: "dummy W key_rng pok_rng k = \<lparr>rc_prev_ab = ?ab, rc_bitvector = ?bv, rc_sig = schnorr_sign W k ?joint ?msg, rc_msg = (0, 1)\<rparr>"
    by (simp add: dummy_def Let_def zip_map2 zip_same_conv_map comp_def)
  have len: "length ?ab = MAX_AB_SIZE" "length ?bv = MAX_AB_SIZE" by simp_all
  have eff: "effective_weight W (?ab ! i) = (if kp_pk (?kp i) = 0 then 0 else 1)" if "i < MAX_AB_SIZE" for i
    using that by (simp add: effective_weight_def infinity_iff [OF ok(1)])
  have tot: "total_weight_of W ?ab = (\<Sum>i < MAX_AB_SIZE. if kp_pk (?kp i) = 0 then 0 else 1)" "signing_weight_of W ?ab ?bv = total_weight_of W ?ab"
    using eff by (simp_all add: sums_by_seat [OF ok(1) len] del: length_map)
  have sub: "sum_list (signing_subset W ?ab ?bv) = ?pk"
    using keys(1) by (simp add: sums_by_seat(3) [OF ok(1) len] book_key_def)
  have "\<exists>i < MAX_AB_SIZE. kp_pk (?kp i) \<noteq> 0" using keys(1) sk by (metis lessThan_iff sum.neutral)
  then have "0 < total_weight_of W ?ab" unfolding tot(1) by (auto simp: sum_eq_0_iff neq0_conv [symmetric] simp del: neq0_conv)
  then have wt: "total_weight_of W ?ab < 2 * signing_weight_of W ?ab ?bv" unfolding tot(2) by simp
  have "total_weight_of W ?ab \<le> (\<Sum>i < MAX_AB_SIZE. 1)" unfolding tot(1) by (intro sum_mono) simp
  then have le: "total_weight_of W ?ab < 2 ^ 64" by (rule le_less_trans) (simp add: MAX_AB_SIZE_def)
  have sv: "schnorr_verify W ?pk ?msg (schnorr_sign W k ?joint ?msg)" using sign_verifies [OF ok(1), of ?joint] by simp
  note response = ge.response_complete [OF ok(1), of "ge_gen W" k _ ?sk]
  have nd: "\<not> degenerate_nonce W ?pk (schnorr_sign W k ?joint ?msg)"
    using k response [unfolded mult.commute [of _ ?sk]] by (simp add: degenerate_nonce_def schnorr_sign_def Let_def)
  from assignment_satisfies [OF ok gen _ len(2) le wt sub sk sv nd, of v0] show ?thesis
    by (simp add: d book_hash_def)
qed

end
