(* ===== verification/WrapsChain.thy ===== *)
theory WrapsChain
  imports WrapsInstance WrapsCircuit
begin

text \<open>
  Chains of rotations: the circuit against native verification, chains of satisfied circuits, and the
  construction of rotation proofs over a folding scheme that is complete, with witnesses on the small
  instance.
\<close>

section \<open>Chains of satisfied circuits\<close>

text \<open>
  A chain from a state: advice by advice, each satisfying the constraints on the state that the one
  before it output. Signatures with the identity as nonce point are left out.
\<close>

inductive rotation_chain ::
  "('b::field, 's::field, 'g::ab_group_add, 'rng) engine \<Rightarrow> ('b, 's, 'g) gadgets \<Rightarrow> 'b list \<Rightarrow> 'b rotation_advice list \<Rightarrow> 'b list \<Rightarrow> bool"
  for W G z0 where
  chain_start: "rotation_chain W G z0 [] z0"
| chain_step: "rotation_chain W G z0 advs z \<Longrightarrow> rotation_constraints W G adv z \<Longrightarrow>
    \<not> degenerate_nonce W (joint_key G adv) (advised_signature adv) \<Longrightarrow>
    rotation_chain W G z0 (advs @ [adv]) (rotation_output adv)"

inductive_cases rotation_chain_appendE: "rotation_chain W G z0 (advs @ [adv]) z"

definition chain_state :: "'b list \<Rightarrow> 'b rotation_advice list \<Rightarrow> nat \<Rightarrow> 'b list" where
  "chain_state z0 advs k = (z0 # map rotation_output advs) ! k"

lemma chain_state_append: "k \<le> length advs \<Longrightarrow> chain_state z0 (advs @ [adv]) k = chain_state z0 advs k"
  by (cases k) (auto simp: chain_state_def nth_append)

lemma chain_final: "rotation_chain W G z0 advs z \<Longrightarrow> chain_state z0 advs (length advs) = z"
  by (induction rule: rotation_chain.induct) (simp_all add: chain_state_def nth_append)

lemma chain_constraints:
  assumes "rotation_chain W G z0 advs z" "k < length advs"
  shows "rotation_constraints W G (advs ! k) (chain_state z0 advs k) \<and>
    \<not> degenerate_nonce W (joint_key G (advs ! k)) (advised_signature (advs ! k)) \<and>
    chain_state z0 advs (Suc k) = rotation_output (advs ! k)"
  using assms
proof (induction rule: rotation_chain.induct)
  case (chain_step advs z adv)
  show ?case
  proof (cases "k < length advs")
    case True
    then show ?thesis using chain_step.IH [OF True] by (simp add: chain_state_append nth_append)
  next
    case False
    then have "k = length advs" using chain_step.prems by simp
    then show ?thesis
      using chain_step.hyps chain_final [OF chain_step.hyps(1)]
      by (simp add: chain_state_append) (simp add: chain_state_def nth_append)
  qed
qed simp

text \<open>The preimage of the advice and the encoding of the book collide.\<close>

definition book_collision ::
  "('b::field, 's::zero, 'g, 'rng) engine \<Rightarrow> 'b rotation_advice \<Rightarrow> ('b, 's, 'g) address_book \<Rightarrow> bool" where
  "book_collision W adv ab \<longleftrightarrow>
     preimage adv \<noteq> book_encoding W ab \<and>
     poseidon_native W DS_ADDRESS_BOOK (preimage adv) = poseidon_native W DS_ADDRESS_BOOK (book_encoding W ab)"

lemma step_authorised:
  fixes W :: "('b::field, 's::field, 'g::ab_group_add, 'rng) engine"
  assumes ok: "engine_ok W" "gadgets_ok W G" and con: "rotation_constraints W G adv z_in"
    and nd: "\<not> degenerate_nonce W (joint_key G adv) (advised_signature adv)"
    and valid: "verify_address_book W ab" and h: "z_in ! 0 = book_hash W ab" and nc: "\<not> book_collision W adv ab"
  shows "\<exists>bv. rotation_authorised W ab (adv_next_ab_hash adv, adv_next_hints_vk_hash adv) bv (advised_signature adv)
    \<and> reject_sentinel_signers W ab bv = Ok ()"
proof -
  have "poseidon_native W DS_ADDRESS_BOOK (preimage adv) = poseidon_native W DS_ADDRESS_BOOK (book_encoding W ab)"
    using con h by (simp add: rotation_constraints_def state_constraint_def enforce_equal_def poseidon_agrees book_hash_encoding)
  then have "preimage adv = book_encoding W ab" using nc by (simp add: book_collision_def)
  from circuit_sound [OF ok con book_fits [OF valid] this] nd valid show ?thesis
    by (auto simp: majority_selected_def rotation_authorised_def rotation_output_def)
qed

section \<open>Complete folding schemes\<close>

text \<open>A circuit that its own assignment satisfies, on an input state.\<close>

definition satisfied ::
  "('b::field, 's::field, 'g::ab_group_add, 'rng) engine \<Rightarrow> ('b, 's, 'g) gadgets \<Rightarrow> ('b, 's, 'g) rotation_circuit \<Rightarrow> 'b list \<Rightarrow> bool" where
  "satisfied W G c z \<longleftrightarrow> synthesize W G c z = Ok (True, message_slice (rc_msg c))"

text \<open>
  The running proofs that a prover reaches by folding satisfied circuits: the first circuit starts the
  chain and is proved, then one circuit per step.
\<close>

inductive honest_run ::
  "('b::field, 's::field, 'g::ab_group_add, 'rng) engine \<Rightarrow> ('b, 's, 'g) gadgets \<Rightarrow> ('b, 's, 'g, 'pp, 'rs, 'cs, 'pk, 'vk) nova
   \<Rightarrow> 'pp \<Rightarrow> 'b list \<Rightarrow> nat \<Rightarrow> 'rs \<Rightarrow> 'b list \<Rightarrow> bool"
  for W G N pp z0 where
  run_start: "satisfied W G c z0 \<Longrightarrow> rs_new N pp c z0 = Ok s0 \<Longrightarrow> rs_prove_step N pp s0 c = Ok s \<Longrightarrow>
    honest_run W G N pp z0 1 s (message_slice (rc_msg c))"
| run_step: "honest_run W G N pp z0 n s z \<Longrightarrow> satisfied W G c z \<Longrightarrow> rs_prove_step N pp s c = Ok s' \<Longrightarrow>
    honest_run W G N pp z0 (Suc n) s' (message_slice (rc_msg c))"

text \<open>
  Documented behaviour of Nova, completeness: folding a satisfied circuit succeeds, a running proof
  knows its step count and output, and both its own verification and that of its compression return
  the output.
\<close>

definition nova_complete ::
  "('b::field, 's::field, 'g::ab_group_add, 'rng) engine \<Rightarrow> ('b, 's, 'g) gadgets \<Rightarrow> ('b, 's, 'g, 'pp, 'rs, 'cs, 'pk, 'vk) nova
   \<Rightarrow> 'pp \<Rightarrow> bool" where
  "nova_complete W G N pp \<longleftrightarrow>
     (\<forall>c z0. satisfied W G c z0 \<longrightarrow> (\<exists>s0 s. rs_new N pp c z0 = Ok s0 \<and> rs_prove_step N pp s0 c = Ok s)) \<and>
     (\<forall>c z0 n s z. honest_run W G N pp z0 n s z \<and> satisfied W G c z \<longrightarrow> (\<exists>s'. rs_prove_step N pp s c = Ok s')) \<and>
     (\<forall>z0 n s z. honest_run W G N pp z0 n s z \<longrightarrow>
        rs_num_steps N s = n \<and> rs_outputs N s = z \<and> rs_verify N s pp n z0 = Ok z) \<and>
     (\<exists>pk vk. cs_setup N pp = Ok (pk, vk) \<and>
        (\<forall>z0 n s z. honest_run W G N pp z0 n s z \<longrightarrow> (\<exists>cs. cs_prove N pp pk s = Ok cs \<and> cs_verify N cs vk n z0 = Ok z)))"

lemma honest_run_pos: "honest_run W G N pp z0 n s z \<Longrightarrow> 0 < n \<and> length z = 2"
  by (induction rule: honest_run.induct) simp_all

text \<open>
  A stored running proof of an honest chain that started at a genesis state (the hash of a book and of a
  hints key) and is now at a book.
\<close>

definition chain_at ::
  "('b::field, 's::field, 'g::ab_group_add, 'rng) engine \<Rightarrow> ('b, 's, 'g, 'rs, 'cs) wire \<Rightarrow> ('b, 's, 'g) gadgets
   \<Rightarrow> ('b, 's, 'g, 'pp, 'rs, 'cs, 'pk, 'vk) nova \<Rightarrow> 'pp \<Rightarrow> 'b \<Rightarrow> 'b \<Rightarrow> nat \<Rightarrow> ('b, 's, 'g) address_book \<Rightarrow> bytes \<Rightarrow> bytes \<Rightarrow> bool" where
  "chain_at W F G N pp genesis v0 n ab hints_vk u \<longleftrightarrow>
     (\<exists>running. decode (running_codec F) u = Ok running \<and> num_steps running = n \<and> proof_z0 running = [genesis, v0] \<and>
        proof_zi running = [book_hash W ab, compute_hints_vk_hash W hints_vk] \<and>
        honest_run W G N pp [genesis, v0] n (proof_snark running) (proof_zi running))"

lemma advance_complete:
  fixes W :: "('b::field, 's::field, 'g::ab_group_add, 'rng) engine" and F :: "('b, 's, 'g, 'rs, 'cs) wire"
    and N :: "('b, 's, 'g, 'pp, 'rs, 'cs, 'pk, 'vk) nova"
  assumes wf: "wire_ok F" and nc: "nova_complete W G N pp"
    and z0: "proof_z0 running = [genesis, v0]" and step: "rs_prove_step N pp (proof_snark running) c = Ok s"
    and run: "honest_run W G N pp [genesis, v0] n s [h, compute_hints_vk_hash W hints_vk]"
  shows "\<exists>u cp. advance_chain W F N pp genesis hints_vk c running = Ok (u, cp) \<and>
    decode (running_codec F) u = Ok (running\<lparr>num_steps := n, proof_zi := [h, compute_hints_vk_hash W hints_vk], proof_snark := s\<rparr>)"
proof -
  have N: "rs_num_steps N s = n" "rs_outputs N s = [h, compute_hints_vk_hash W hints_vk]"
    "rs_verify N s pp n [genesis, v0] = Ok [h, compute_hints_vk_hash W hints_vk]"
    using nc run by (simp_all add: nova_complete_def)
  obtain pk vk cs where C: "cs_setup N pp = Ok (pk, vk)" "cs_prove N pp pk s = Ok cs"
    "cs_verify N cs vk n [genesis, v0] = Ok [h, compute_hints_vk_hash W hints_vk]"
    using nc run unfolding nova_complete_def by blast
  have codecs: "codec_ok (message_codec F)" "codec_ok (running_codec F)" "codec_ok (compressed_codec F)"
    using wf by (simp_all add: wire_ok_def)
  let ?r = "running\<lparr>num_steps := n, proof_zi := [h, compute_hints_vk_hash W hints_vk], proof_snark := s\<rparr>"
  let ?c = "\<lparr>num_steps = n, proof_z0 = [genesis, v0], proof_zi = [h, compute_hints_vk_hash W hints_vk], proof_snark = cs\<rparr>"
  let ?ledger = "wire_bytes (message_codec F) (genesis, v0)"
  have ledger: "decode_rotation_message F ?ledger = Ok (genesis, v0)"
    by (simp add: decode_rotation_message_iff wire_bytes codecs)
  have vu: "verify_uncompressed_wraps_proof W F N pp (wire_bytes (running_codec F) ?r) ?ledger hints_vk = Ok True"
    using z0 N by (simp add: verify_uncompressed_wraps_proof_def ledger wire_bytes codecs)
  have vc: "verify_compressed_wraps_proof W F N vk (wire_bytes (compressed_codec F) ?c) ?ledger hints_vk = Ok True"
    using C by (simp add: verify_compressed_wraps_proof_def ledger wire_bytes codecs)
  have "advance_chain W F N pp genesis hints_vk c running = Ok (wire_bytes (running_codec F) ?r, wire_bytes (compressed_codec F) ?c)"
    using step z0 N(1,2) C(1,2) vu vc by (simp add: advance_chain_def wire_bytes codecs Let_def)
  then show ?thesis by (simp add: wire_bytes codecs)
qed

text \<open>Construction succeeds once the checks before the circuit have passed and the step can be proved.\<close>

definition step_circuit ::
  "('b::field, 's::zero, 'g, 'rng) engine \<Rightarrow> ('b, 's, 'g) address_book \<Rightarrow> ('b, 's, 'g) address_book \<Rightarrow> bytes
   \<Rightarrow> bit_vector \<Rightarrow> ('b, 's) schnorr_signature \<Rightarrow> ('b, 's, 'g) rotation_circuit" where
  "step_circuit W prev_ab next_ab hints_vk bv sig =
     \<lparr>rc_prev_ab = prev_ab @ replicate (MAX_AB_SIZE - length prev_ab) (padding_entry W), rc_bitvector = bv, rc_sig = sig,
      rc_msg = (book_hash W next_ab, compute_hints_vk_hash W hints_vk)\<rparr>"

lemma construct_reduces:
  fixes W :: "('b::field, 's::field, 'g::ab_group_add, 'rng) engine" and F :: "('b, 's, 'g, 'rs, 'cs) wire"
    and N :: "('b, 's, 'g, 'pp, 'rs, 'cs, 'pk, 'vk) nova"
  assumes ok: "engine_ok W" and wf: "wire_ok F" and len: "length bv = MAX_AB_SIZE"
    and next_valid: "verify_address_book W next_ab"
    and auth: "rotation_authorised W prev_ab (book_hash W next_ab, compute_hints_vk_hash W hints_vk) bv sig"
    and live: "reject_sentinel_signers W prev_ab bv = Ok ()"
    and gen: "prev_proof = None \<Longrightarrow> genesis = book_hash W prev_ab \<and> book_hash W next_ab = book_hash W prev_ab"
  shows "construct_wraps_proof W F N pp genesis prev_ab next_ab prev_proof hints_vk (bv, sig) =
    and_then (case prev_proof of
        None \<Rightarrow> start_chain N pp (step_circuit W prev_ab next_ab hints_vk bv sig) [book_hash W prev_ab, compute_hints_vk_hash W hints_vk]
      | Some prev \<Rightarrow> resume_chain F N prev)
      (advance_chain W F N pp genesis hints_vk (step_circuit W prev_ab next_ab hints_vk bv sig))"
proof -
  let ?p = "\<lambda>ab. ab @ replicate (MAX_AB_SIZE - length ab) (padding_entry W)"
  let ?message = "(book_hash W next_ab, compute_hints_vk_hash W hints_vk)"
  have valid: "verify_address_book W prev_ab" and sel: "\<not> selects_beyond bv (length prev_ab)"
    using auth by (simp_all add: rotation_authorised_def)
  have fits: "length prev_ab \<le> MAX_AB_SIZE" "length next_ab \<le> MAX_AB_SIZE" using valid next_valid book_fits by blast+
  have bh: "hash_address_book W (?p ab) = book_hash W ab" for ab by (simp add: book_hash_def)
  have rm: "compute_rotation_message W F (?p next_ab) hints_vk = Ok (wire_bytes (message_codec F) ?message)"
    using wf next_valid fits verify_address_book_padded [OF ok fits(2)] book_hash_padded [of next_ab "MAX_AB_SIZE - length next_ab" W]
    by (simp add: compute_rotation_message_def compute_addressbook_hash_eq wire_ok_def wire_bytes)
  have dm: "decode_rotation_message F (wire_bytes (message_codec F) ?message) = Ok ?message"
    using wf by (simp add: decode_rotation_message_iff wire_ok_def wire_bytes)
  have drop: "\<forall>b \<in> set (drop (length prev_ab) bv). \<not> b" using sel by (auto simp: selects_beyond_def)
  have vs: "verify_signature W F (?p prev_ab) (wire_bytes (message_codec F) ?message) (bv, sig) = Ok True"
    unfolding verify_signature_True [OF ok len dm] rotation_authorised_padded [OF ok len valid sel]
    using auth live by (simp add: reject_sentinel_padded [OF drop])
  have gen': "book_hash W prev_ab = book_hash W next_ab" "genesis = book_hash W next_ab" if "prev_proof = None"
    using gen [OF that] by simp_all
  show ?thesis
    using valid next_valid sel fits gen'
    by (cases prev_proof) (simp_all add: construct_wraps_proof_def pad_address_book_eq bh rm dm vs step_circuit_def Let_def)
qed

lemma step_satisfied:
  fixes W :: "('b::field, 's::field, 'g::ab_group_add, 'rng) engine"
  assumes "engine_ok W" "gadgets_ok W G" "ge_gen W \<noteq> 0" "length bv = MAX_AB_SIZE"
    and "rotation_authorised W prev_ab (book_hash W next_ab, compute_hints_vk_hash W hints_vk) bv sig"
    and "\<not> degenerate_nonce W (sum_list (signing_subset W prev_ab bv)) sig"
  shows "satisfied W G (step_circuit W prev_ab next_ab hints_vk bv sig) [book_hash W prev_ab, v0]"
  using circuit_complete [OF assms(1-4) assms(5) assms(6)] by (simp add: satisfied_def step_circuit_def)

text \<open>Construction succeeds at the genesis and at every resumable proof.\<close>

lemma construct_proceeds:
  fixes W :: "('b::field, 's::field, 'g::ab_group_add, 'rng) engine" and F :: "('b, 's, 'g, 'rs, 'cs) wire"
    and N :: "('b, 's, 'g, 'pp, 'rs, 'cs, 'pk, 'vk) nova"
  assumes "engine_ok W" "gadgets_ok W G" "ge_gen W \<noteq> 0" "wire_ok F" "nova_complete W G N pp" "length bv = MAX_AB_SIZE"
    and "verify_address_book W next_ab"
    and "rotation_authorised W prev_ab (book_hash W next_ab, compute_hints_vk_hash W hints_vk) bv sig"
    and "reject_sentinel_signers W prev_ab bv = Ok ()"
    and "\<not> degenerate_nonce W (sum_list (signing_subset W prev_ab bv)) sig"
    and "case prev_proof of
        None \<Rightarrow> n = 0 \<and> genesis = book_hash W prev_ab \<and> genesis_hints = compute_hints_vk_hash W hints_vk \<and> book_hash W next_ab = book_hash W prev_ab
      | Some prev \<Rightarrow> (\<exists>prev_hints. chain_at W F G N pp genesis genesis_hints n prev_ab prev_hints prev)"
  shows "\<exists>u c vk. construct_wraps_proof W F N pp genesis prev_ab next_ab prev_proof hints_vk (bv, sig) = Ok (u, c) \<and>
    chain_at W F G N pp genesis genesis_hints (Suc n) next_ab hints_vk u \<and>
    setup_compressed_verifier N pp = Ok vk \<and>
    verify_uncompressed_wraps_proof W F N pp u (wire_bytes (message_codec F) (genesis, genesis_hints)) hints_vk = Ok True \<and>
    verify_compressed_wraps_proof W F N vk c (wire_bytes (message_codec F) (genesis, genesis_hints)) hints_vk = Ok True"
proof -
  note len = assms(6)
  let ?c = "step_circuit W prev_ab next_ab hints_vk bv sig" and ?zi = "[book_hash W next_ab, compute_hints_vk_hash W hints_vk]"
  have msg: "message_slice (rc_msg ?c) = ?zi" by (simp add: step_circuit_def)
  have sat: "satisfied W G ?c [book_hash W prev_ab, v]" for v
    using step_satisfied [OF assms(1-3) len assms(8,10)] .
  have red: "construct_wraps_proof W F N pp genesis prev_ab next_ab prev_proof hints_vk (bv, sig) =
    and_then (case prev_proof of
        None \<Rightarrow> start_chain N pp ?c [book_hash W prev_ab, compute_hints_vk_hash W hints_vk]
      | Some prev \<Rightarrow> resume_chain F N prev) (advance_chain W F N pp genesis hints_vk ?c)"
    using assms(11) by (intro construct_reduces [OF assms(1,4) len assms(7-9)]) auto
  obtain running s where start: "(case prev_proof of
        None \<Rightarrow> start_chain N pp ?c [book_hash W prev_ab, compute_hints_vk_hash W hints_vk]
      | Some prev \<Rightarrow> resume_chain F N prev) = Ok running"
    and z0: "proof_z0 running = [genesis, genesis_hints]" and step: "rs_prove_step N pp (proof_snark running) ?c = Ok s"
    and run: "honest_run W G N pp [genesis, genesis_hints] (Suc n) s ?zi"
  proof (cases prev_proof)
    case None
    let ?z0 = "[book_hash W prev_ab, compute_hints_vk_hash W hints_vk]"
    obtain s0 s where s: "rs_new N pp ?c ?z0 = Ok s0" "rs_prove_step N pp s0 ?c = Ok s"
      using assms(5) sat [of "compute_hints_vk_hash W hints_vk"] unfolding nova_complete_def by blast
    have "honest_run W G N pp ?z0 1 s ?zi" using run_start [OF sat s] msg by simp
    then show thesis using that s None assms(11) by (simp add: start_chain_def)
  next
    case (Some prev)
    then obtain running prev_hints where r: "decode (running_codec F) prev = Ok running" "num_steps running = n"
      "proof_z0 running = [genesis, genesis_hints]" "proof_zi running = [book_hash W prev_ab, compute_hints_vk_hash W prev_hints]"
      "honest_run W G N pp [genesis, genesis_hints] n (proof_snark running) (proof_zi running)"
      using assms(11) by (auto simp: chain_at_def)
    have m: "rs_num_steps N (proof_snark running) = n" "rs_outputs N (proof_snark running) = proof_zi running" "0 < n"
      using assms(5) r(5) honest_run_pos [OF r(5)] unfolding nova_complete_def by blast+
    have zi: "satisfied W G ?c (proof_zi running)" using sat r(4) by simp
    obtain s where s: "rs_prove_step N pp (proof_snark running) ?c = Ok s"
      using assms(5) r(5) zi unfolding nova_complete_def by blast
    have "honest_run W G N pp [genesis, genesis_hints] (Suc n) s ?zi" using run_step [OF r(5) zi s] msg by simp
    then show thesis using that s Some r m by (simp add: resume_chain_def)
  qed
  from advance_complete [OF assms(4,5) z0 step run] obtain u c where
    a: "advance_chain W F N pp genesis hints_vk ?c running = Ok (u, c)"
    "decode (running_codec F) u = Ok (running\<lparr>num_steps := Suc n, proof_zi := ?zi, proof_snark := s\<rparr>)" by blast
  have "chain_at W F G N pp genesis genesis_hints (Suc n) next_ab hints_vk u" using a(2) z0 run by (auto simp: chain_at_def)
  moreover from advance_chain_verified [OF a(1)] obtain z01 ledger vk where v: "proof_z0 running ! 1 = z01"
    "encode (message_codec F) (genesis, z01) = Ok ledger"
    "verify_uncompressed_wraps_proof W F N pp u ledger hints_vk = Ok True" "setup_compressed_verifier N pp = Ok vk"
    "verify_compressed_wraps_proof W F N vk c ledger hints_vk = Ok True" .
  moreover have "ledger = wire_bytes (message_codec F) (genesis, genesis_hints)"
    using v(1,2) z0 assms(4) by (simp add: wire_ok_def wire_bytes)
  moreover have "construct_wraps_proof W F N pp genesis prev_ab next_ab prev_proof hints_vk (bv, sig) = Ok (u, c)"
    using red start a(1) by simp
  ultimately show ?thesis by blast
qed

section \<open>The small instance\<close>

definition points17 :: "gf17 list" where
  "points17 = [Z1, Z2, Z3, Z4, Z5, Z6, Z7, Z8, Z9, Z10, Z11, Z12, Z13, Z14, Z15, Z16]"

definition small_gadgets :: "(rat, gf17, gf17) gadgets" where
  "small_gadgets =
     \<lparr>curve_point = (\<lambda>x y. List.find (\<lambda>P. coordinates17 P = (x, y, False)) points17),
      ap_coordinates = coordinates17,
      scalar_le_bits = (\<lambda>s. map (\<lambda>i. odd (nat17 s div 2 ^ i)) [0..<5]),
      SCALAR_NUM_BITS = 5\<rparr>"

lemma bits_value_digits: "bits_value (map (\<lambda>i. odd (n div 2 ^ i)) [0..<k]) = n mod 2 ^ k"
proof (induction k arbitrary: n)
  case (Suc k)
  have "map (\<lambda>i. odd (n div 2 ^ i)) [0..<Suc k] = odd n # map (\<lambda>i. odd (n div 2 div 2 ^ i)) [0..<k]"
    by (simp add: map_upt_Suc div_mult2_eq del: upt_Suc)
  moreover have "n mod 2 ^ Suc k = (if odd n then 1 else 0) + 2 * (n div 2 mod 2 ^ k)"
    by (simp add: mod_mult2_eq odd_iff_mod_2_eq_one)
  ultimately show ?case using Suc.IH [of "n div 2"] by simp
qed simp

lemma base_bits_nat: "base_bits (of_nat n) = map (\<lambda>i. odd (n mod 2 ^ 70 div 2 ^ i)) [0..<70]"
proof -
  have "quotient_of (of_nat n) = (int n, 1)" using quotient_of_int [of "int n"] by simp
  moreover have "odd (int n mod 2 ^ 70 div 2 ^ i) \<longleftrightarrow> odd (n mod 2 ^ 70 div 2 ^ i)" for i
  proof -
    have "int n mod 2 ^ 70 div 2 ^ i = int (n mod 2 ^ 70 div 2 ^ i)" by (simp only: zdiv_int zmod_int of_nat_power of_nat_numeral)
    then show ?thesis by (simp only: even_of_nat)
  qed
  ultimately show ?thesis by (simp add: base_bits_def Let_def)
qed

lemma le_bits_of_small: "k \<le> 70 \<Longrightarrow> le_bits_of small_engine (of_nat n) k = map (\<lambda>i. odd (n mod 2 ^ 70 div 2 ^ i)) [0..<k]"
  by (simp add: le_bits_of_def small_engine_sel base_bits_nat)

lemma of_nat17: "of_nat (nat17 s) = s"
proof -
  have "of_nat n = from_int17 (int n)" for n
    by (induction n) (simp_all add: zero_gf17_def from_int17_def [of 0] plus_gf17_def one_gf17_def to_from17
        to_int17_inject [symmetric] mod_add_left_eq mod_add_right_eq add.commute)
  then show ?thesis using nat17 by simp
qed

lemma two_bits: "length bits = 2 \<Longrightarrow> bits \<in> {[False, False], [True, False], [False, True], [True, True]}"
  by (auto simp: numeral_2_eq_2 length_Suc_conv)

lemma small_gadgets_ok: "gadgets_ok small_engine small_gadgets"
proof -
  have curve: "curve_point small_gadgets x y = Some P \<longleftrightarrow> to_coordinates small_engine P = (x, y, False)" for x y P
  proof -
    have inj: "coordinates17 Q = coordinates17 R \<longleftrightarrow> Q = R" for Q R by (auto simp: coordinates17_def to_int17_inject)
    have all: "Q \<in> set points17" if "coordinates17 Q = (x, y, False)" for Q
      using that by (cases Q) (simp_all add: points17_def coordinates17_def zero_gf17_def)
    show ?thesis
    proof (cases "List.find (\<lambda>P. coordinates17 P = (x, y, False)) points17")
      case None
      then have "coordinates17 P \<noteq> (x, y, False)" using all [of P] by (auto simp: find_None_iff)
      then show ?thesis using None by (simp add: small_gadgets_def small_engine_def)
    next
      case (Some Q)
      then have "coordinates17 Q = (x, y, False)" by (auto simp: find_Some_iff)
      then have "coordinates17 P = (x, y, False) \<longleftrightarrow> Q = P" using inj [of Q P] by metis
      then show ?thesis using Some by (simp add: small_gadgets_def small_engine_def)
    qed
  qed
  have low: "field_switch small_engine (le_bits_to_num bits) = le_bits_to_num bits \<and>
      le_bits_of small_engine (le_bits_to_num bits) 2 = bits" if "length bits = 2" for bits
  proof -
    have q: "quotient_of (of_nat n) = (int n, 1)" for n using quotient_of_int [of "int n"] by simp
    have s: "from_int17 (int n) = of_nat n" if "n < 4" for n
    proof -
      have "n \<in> {0, 1, 2, 3}" using that by auto
      then show ?thesis by (auto simp: from_int17_def zero_gf17_def one_gf17_def numeral_2_eq_2 numeral_3_eq_3 plus_gf17_def)
    qed
    have "bits_value bits < 4" using bits_value_less [of bits] that by simp
    then have "field_switch small_engine (le_bits_to_num bits) = le_bits_to_num bits"
      using s by (simp add: le_bits_to_num_eq small_engine_sel q)
    moreover have "le_bits_of small_engine (le_bits_to_num bits) 2 = bits"
      unfolding le_bits_to_num_eq using two_bits [OF that] by (auto simp: le_bits_of_small upt_rec)
    ultimately show ?thesis ..
  qed
  have weight: "le_bits_to_num (le_bits_of small_engine (of_nat n) WEIGHT_BITS) = (of_nat n :: rat)" if "n < 2 ^ 64" for n
    using that by (simp add: WEIGHT_BITS_def le_bits_of_small le_bits_to_num_eq bits_value_digits)
  have scalar: "le_bits_to_num (scalar_le_bits small_gadgets s) = s" for s
  proof -
    have "nat17 s < 2 ^ 5" using to_int17_range [of s] by (simp add: nat_less_iff)
    then have "nat17 s mod 2 ^ 5 = nat17 s" by (rule mod_less)
    then have "le_bits_to_num (scalar_le_bits small_gadgets s) = (of_nat (nat17 s) :: gf17)"
      unfolding small_gadgets_def le_bits_to_num_eq by (simp only: gadgets.simps bits_value_digits)
    then show ?thesis by (simp only: of_nat17)
  qed
  show ?thesis
    unfolding gadgets_ok_def using curve low weight scalar
    by (auto simp: inj_on_def small_gadgets_def small_engine_sel coordinates17_def base_bits_def Let_def)
qed

lemma ideal_runs:
  "honest_run W G ideal_nova pp z0 n s z \<Longrightarrow> s = (n, z0, z)"
  by (induction rule: honest_run.induct) (auto simp: ideal_nova_def)

lemma ideal_nova_complete: "nova_complete W G ideal_nova pp"
proof -
  have "\<exists>s0 s. rs_new ideal_nova pp c z0 = Ok s0 \<and> rs_prove_step ideal_nova pp s0 c = Ok s" for c z0
    by (simp add: ideal_nova_def)
  moreover have "\<exists>s'. rs_prove_step ideal_nova pp s c = Ok s'" for s c by (simp add: ideal_nova_def)
  moreover have "rs_num_steps ideal_nova s = n \<and> rs_outputs ideal_nova s = z \<and> rs_verify ideal_nova s pp n z0 = Ok z"
    if "honest_run W G ideal_nova pp z0 n s z" for z0 n s z
    using ideal_runs [OF that] by (simp add: ideal_nova_def ideal_verify_def)
  moreover have "cs_setup ideal_nova pp = Ok ((), ())" by (simp add: ideal_nova_def)
  moreover have "\<exists>cs. cs_prove ideal_nova pp () s = Ok cs \<and> cs_verify ideal_nova cs () n z0 = Ok z"
    if "honest_run W G ideal_nova pp z0 n s z" for z0 n s z
    using ideal_runs [OF that] by (simp add: ideal_nova_def ideal_verify_def)
  ultimately show ?thesis unfolding nova_complete_def by blast
qed

text \<open>Both members sign any message with the sum of their secrets and the nonce one.\<close>

definition small_signature :: "rat rotation_message \<Rightarrow> (rat, gf17) schnorr_signature" where
  "small_signature message = schnorr_sign small_engine 1 \<lparr>kp_sk = Z8 + Z14, kp_pk = Z7 + Z8\<rparr> (message_slice message)"

lemma small_authorised:
  "rotation_authorised small_engine small_book message small_bv (small_signature message)"
  "reject_sentinel_signers small_engine small_book small_bv = Ok ()"
  "\<not> degenerate_nonce small_engine (sum_list (signing_subset small_engine small_book small_bv)) (small_signature message)"
  "ge_gen small_engine \<noteq> 0"
proof -
  have pk: "Z7 + Z8 = Z3 * (Z8 + Z14)" by (simp add: plus_gf17_def times_gf17_def from_int17_def)
  have sub: "sum_list (signing_subset small_engine small_book small_bv) = Z7 + Z8" by (simp add: small_keys)
  have "schnorr_verify small_engine (Z7 + Z8) (message_slice message) (small_signature message)"
    using sign_verifies [OF small_engine_ok, of "\<lparr>kp_sk = Z8 + Z14, kp_pk = Z7 + Z8\<rparr>" "message_slice message" 1] pk
    by (simp add: small_signature_def small_engine_sel)
  then show "rotation_authorised small_engine small_book message small_bv (small_signature message)"
    using small_set sub by (simp add: rotation_authorised_def signing_set_def small_total small_signing)
  show "reject_sentinel_signers small_engine small_book small_bv = Ok ()" using small_set by (simp add: signing_set_def)
  show gen: "ge_gen small_engine \<noteq> 0" by (simp add: small_engine_sel zero_gf17_def)
  have "ge_mul small_engine (ge_gen small_engine) (sig_s (small_signature message))
      = ge_gen small_engine + ge_mul small_engine (Z7 + Z8) (field_switch small_engine (sig_e (small_signature message)))"
    using pk by (simp add: small_signature_def schnorr_sign_def small_engine_sel(1,2) Let_def algebra_simps)
  then show "\<not> degenerate_nonce small_engine (sum_list (signing_subset small_engine small_book small_bv)) (small_signature message)"
    using gen by (simp add: degenerate_nonce_def sub)
qed

text \<open>A satisfied circuit, as advice, on the state of the small book.\<close>

definition small_advice :: "rat rotation_message \<Rightarrow> rat rotation_advice" where
  "small_advice message = rotation_assignment small_engine small_gadgets
     \<lparr>rc_prev_ab = small_book @ replicate (MAX_AB_SIZE - length small_book) (padding_entry small_engine),
      rc_bitvector = small_bv, rc_sig = small_signature message, rc_msg = message\<rparr>"

lemma small_advice_accepted:
  "rotation_constraints small_engine small_gadgets (small_advice (h, v)) [book_hash small_engine small_book, u]"
  "rotation_output (small_advice (h, v)) = [h, v]" "\<not> book_collision small_engine (small_advice (h, v)) small_book"
  "\<not> degenerate_nonce small_engine (joint_key small_gadgets (small_advice (h, v))) (advised_signature (small_advice (h, v)))"
proof -
  let ?c = "\<lparr>rc_prev_ab = small_book @ replicate (MAX_AB_SIZE - length small_book) (padding_entry small_engine),
      rc_bitvector = small_bv, rc_sig = small_signature (h, v), rc_msg = (h, v)\<rparr>"
  have "synthesize small_engine small_gadgets ?c [book_hash small_engine small_book, u] = Ok (True, [h, v])"
    by (rule circuit_complete [OF small_engine_ok small_gadgets_ok small_authorised(4) small_bv_length small_authorised(1,3)])
  then show "rotation_constraints small_engine small_gadgets (small_advice (h, v)) [book_hash small_engine small_book, u]"
    "rotation_output (small_advice (h, v)) = [h, v]"
    by (auto simp: synthesize_def small_advice_def Let_def split: if_splits)
  have len: "length (rc_prev_ab ?c) = MAX_AB_SIZE" "length (rc_bitvector ?c) = MAX_AB_SIZE"
    using book_fits [OF small_book_valid] small_bv_length by simp_all
  show "\<not> book_collision small_engine (small_advice (h, v)) small_book"
    using assignment_book(2) [OF small_engine_ok small_gadgets_ok len]
    by (simp add: book_collision_def book_encoding_def small_advice_def)
  have sv: "schnorr_verify small_engine (sum_list (signing_subset small_engine small_book small_bv)) [h, v] (small_signature (h, v))"
    using small_authorised(1) [of "(h, v)"] by (simp add: rotation_authorised_def)
  show "\<not> degenerate_nonce small_engine (joint_key small_gadgets (small_advice (h, v))) (advised_signature (small_advice (h, v)))"
    unfolding small_advice_def assignment_signature [OF small_gadgets_ok sv]
      assignment_joint [OF small_engine_ok small_gadgets_ok book_fits [OF small_book_valid] small_bv_length]
    by (rule small_authorised(3))
qed

text \<open>A chain of two steps of the small committee, which changes its hints key twice.\<close>

definition small_steps :: "rat rotation_advice list" where
  "small_steps = [small_advice (book_hash small_engine small_book, 8), small_advice (book_hash small_engine small_book, 9)]"

lemma small_chain:
  "rotation_chain small_engine small_gadgets [book_hash small_engine small_book, 5] small_steps [book_hash small_engine small_book, 9]"
proof -
  let ?h = "book_hash small_engine small_book"
  have "rotation_chain small_engine small_gadgets [?h, 5] ([] @ [small_advice (?h, 8)]) (rotation_output (small_advice (?h, 8)))"
    by (rule chain_step [OF chain_start small_advice_accepted(1,4)])
  then have "rotation_chain small_engine small_gadgets [?h, 5] ([] @ [small_advice (?h, 8)]) [?h, 8]" by (simp only: small_advice_accepted(2))
  from chain_step [OF this small_advice_accepted(1,4), of ?h 9] show ?thesis by (simp add: small_steps_def small_advice_accepted(2))
qed

text \<open>The small committee rotates onto itself, with any hints key.\<close>

definition small_rotation_message :: "bytes \<Rightarrow> rat rotation_message" where
  "small_rotation_message hints_vk = (book_hash small_engine small_book, compute_hints_vk_hash small_engine hints_vk)"

lemma small_rotation_authorised:
  "rotation_authorised small_engine small_book (book_hash small_engine small_book, compute_hints_vk_hash small_engine hints_vk) small_bv
     (small_signature (small_rotation_message hints_vk))"
  unfolding small_rotation_message_def by (rule small_authorised(1))

lemma small_genesis:
  "\<exists>u c. construct_wraps_proof small_engine small_wire ideal_nova () (book_hash small_engine small_book) small_book small_book None [1]
     (small_bv, small_signature (small_rotation_message [1])) = Ok (u, c)"
  using construct_proceeds [OF small_engine_ok small_gadgets_ok small_authorised(4) small_wire_ok ideal_nova_complete small_bv_length
      small_book_valid small_rotation_authorised small_authorised(2,3), where prev_proof = None and n = 0 and genesis = "book_hash small_engine small_book" and hints_vk = "[1]"
        and genesis_hints = "compute_hints_vk_hash small_engine [1]"]
  by auto

section \<open>Properties\<close>

text \<open>
  C4. Soundness of the rotation circuit, for a prover that chooses every advice value: if the constraints
  hold on a state that commits to a valid book, then a majority of the weight of that book, on occupied
  seats, has signed the output state with the advised signature, or the advised book is an explicit
  collision of the commitment. Signatures whose nonce point is the identity are excluded, since the
  gadgets do not fix the coordinates of that point.
\<close>

theorem rotation_circuit_sound:
  fixes W :: "('b::field, 's::field, 'g::ab_group_add, 'rng) engine"
  assumes "engine_ok W" "gadgets_ok W G" and "rotation_constraints W G adv z_in"
    and "\<not> degenerate_nonce W (joint_key G adv) (advised_signature adv)"
    and "verify_address_book W ab" "z_in ! 0 = book_hash W ab" "\<not> book_collision W adv ab"
  shows "\<exists>bv. rotation_authorised W ab (adv_next_ab_hash adv, adv_next_hints_vk_hash adv) bv (advised_signature adv)
    \<and> reject_sentinel_signers W ab bv = Ok ()"
  by (rule step_authorised [OF assms])

theorem rotation_circuit_sound_witness:
  "\<exists>bv. rotation_authorised small_engine small_book (adv_next_ab_hash (small_advice (7, 8)), adv_next_hints_vk_hash (small_advice (7, 8))) bv
      (advised_signature (small_advice (7, 8))) \<and> reject_sentinel_signers small_engine small_book bv = Ok ()"
  by (rule rotation_circuit_sound [OF small_engine_ok small_gadgets_ok small_advice_accepted(1) [of _ _ 5] small_advice_accepted(4)
        small_book_valid _ small_advice_accepted(3)]) simp

text \<open>
  C28. Completeness of the rotation circuit: whenever the native checks accept a rotation, the assignment
  of the prover satisfies every constraint on the state of the outgoing book, and the circuit outputs
  the commitments to the incoming book and hints key.
\<close>

theorem rotation_circuit_complete:
  fixes W :: "('b::field, 's::field, 'g::ab_group_add, 'rng) engine"
  assumes "engine_ok W" "gadgets_ok W G" "ge_gen W \<noteq> 0" "length bv = 64"
    and "rotation_authorised W ab (h, v) bv sig" "\<not> degenerate_nonce W (sum_list (signing_subset W ab bv)) sig"
  shows "synthesize W G \<lparr>rc_prev_ab = ab @ replicate (64 - length ab) (padding_entry W), rc_bitvector = bv, rc_sig = sig, rc_msg = (h, v)\<rparr>
    [book_hash W ab, v0] = Ok (True, [h, v])"
  using circuit_complete [OF assms(1-3) _ assms(5,6)] assms(4) by (simp add: MAX_AB_SIZE_def)

theorem rotation_circuit_complete_witness:
  "synthesize small_engine small_gadgets \<lparr>rc_prev_ab = small_book @ replicate (64 - length small_book) (padding_entry small_engine),
      rc_bitvector = small_bv, rc_sig = small_signature (7, 8), rc_msg = (7, 8)\<rparr> [book_hash small_engine small_book, 5] = Ok (True, [7, 8])"
proof (rule rotation_circuit_complete [OF small_engine_ok small_gadgets_ok small_authorised(4) _ small_authorised(1,3)])
  show "length small_bv = 64" using small_bv_length by (simp add: MAX_AB_SIZE_def)
qed

text \<open>
  C9. Committees hand over to each other along a chain of satisfied circuits, whatever advice a prover
  chose: if every state of the chain commits to a book, then the advised signature of each step is a
  signature of a majority of the weight of that step's valid book, on occupied seats, over the
  commitment to the next book and the next hints key, unless an advised book collides with the real one
  under the commitment. The final state commits to the last book and to the hints key signed last.
\<close>

theorem rotation_chain_authorised:
  fixes W :: "('b::field, 's::field, 'g::ab_group_add, 'rng) engine"
  assumes "engine_ok W" "gadgets_ok W G" and "rotation_chain W G z0 advs z" and "length books = Suc (length advs)"
    and "\<forall>k \<le> length advs. chain_state z0 advs k ! 0 = book_hash W (books ! k)"
    and "\<forall>k < length advs. verify_address_book W (books ! k) \<and> \<not> book_collision W (advs ! k) (books ! k)"
  shows "(\<forall>k < length advs. \<exists>bv.
      rotation_authorised W (books ! k) (book_hash W (books ! Suc k), adv_next_hints_vk_hash (advs ! k)) bv (advised_signature (advs ! k)) \<and>
      reject_sentinel_signers W (books ! k) bv = Ok ()) \<and>
    z ! 0 = book_hash W (last books) \<and> (advs \<noteq> [] \<longrightarrow> z ! 1 = adv_next_hints_vk_hash (last advs))"
proof -
  have step: "\<exists>bv. rotation_authorised W (books ! k) (book_hash W (books ! Suc k), adv_next_hints_vk_hash (advs ! k)) bv (advised_signature (advs ! k)) \<and>
      reject_sentinel_signers W (books ! k) bv = Ok ()" if k: "k < length advs" for k
  proof -
    note c = chain_constraints [OF assms(3) k]
    have "chain_state z0 advs (Suc k) ! 0 = book_hash W (books ! Suc k)" using assms(5) k by simp
    then have "adv_next_ab_hash (advs ! k) = book_hash W (books ! Suc k)" using c by (simp add: rotation_output_def)
    with step_authorised [OF assms(1,2), of "advs ! k" "chain_state z0 advs k" "books ! k"] c assms(5,6) k show ?thesis by simp
  qed
  have "books \<noteq> []" using assms(4) by auto
  then have "z ! 0 = book_hash W (last books)" using assms(4,5) chain_final [OF assms(3)] by (auto simp: last_conv_nth)
  moreover have "z ! 1 = adv_next_hints_vk_hash (last advs)" if "advs \<noteq> []"
    using chain_constraints [OF assms(3), of "length advs - 1"] chain_final [OF assms(3)] that
    by (simp add: rotation_output_def last_conv_nth)
  ultimately show ?thesis using step by blast
qed

theorem rotation_chain_authorised_witness:
  "rotation_chain small_engine small_gadgets [book_hash small_engine small_book, 5] small_steps [book_hash small_engine small_book, 9] \<and>
   (\<exists>bv. rotation_authorised small_engine small_book (book_hash small_engine small_book, adv_next_hints_vk_hash (small_steps ! 0)) bv
      (advised_signature (small_steps ! 0))) \<and>
   (\<exists>bv. rotation_authorised small_engine small_book (book_hash small_engine small_book, adv_next_hints_vk_hash (small_steps ! 1)) bv
      (advised_signature (small_steps ! 1))) \<and>
   adv_next_hints_vk_hash (last small_steps) = 9"
proof -
  have len: "length [small_book, small_book, small_book] = Suc (length small_steps)" by (simp add: small_steps_def)
  have "\<forall>k \<le> length small_steps. chain_state [book_hash small_engine small_book, 5] small_steps k ! 0
      = book_hash small_engine ([small_book, small_book, small_book] ! k)"
    by (auto simp: small_steps_def chain_state_def small_advice_accepted(2) le_Suc_eq)
  moreover have "\<forall>k < length small_steps. verify_address_book small_engine ([small_book, small_book, small_book] ! k) \<and>
      \<not> book_collision small_engine (small_steps ! k) ([small_book, small_book, small_book] ! k)"
    using small_book_valid small_advice_accepted(3) by (auto simp: small_steps_def less_Suc_eq)
  ultimately have r: "(\<forall>k < length small_steps. \<exists>bv. rotation_authorised small_engine ([small_book, small_book, small_book] ! k)
        (book_hash small_engine ([small_book, small_book, small_book] ! Suc k), adv_next_hints_vk_hash (small_steps ! k)) bv
        (advised_signature (small_steps ! k)) \<and> reject_sentinel_signers small_engine ([small_book, small_book, small_book] ! k) bv = Ok ()) \<and>
      [book_hash small_engine small_book, 9] ! 0 = book_hash small_engine (last [small_book, small_book, small_book]) \<and>
      (small_steps \<noteq> [] \<longrightarrow> [book_hash small_engine small_book, 9] ! 1 = adv_next_hints_vk_hash (last small_steps))"
    by (rule rotation_chain_authorised [OF small_engine_ok small_gadgets_ok small_chain len])
  have "0 < length small_steps" "1 < length small_steps" "small_steps \<noteq> []" by (simp_all add: small_steps_def)
  then show ?thesis using r small_chain by fastforce
qed

text \<open>
  C5. \<open>construct_wraps_proof\<close> only returns proofs of authorised rotations that verify: the next book is valid,
  the previous book signed its hash and the hash of the hints key with a majority, a first step starts
  at the genesis hash and rotates the book onto itself, and the returned proofs pass the two verifiers
  for one ledger id with the genesis hash and for the key that the setup derives.
\<close>

theorem constructed_proof_authorised:
  fixes W :: "('b::field, 's::field, 'g::ab_group_add, 'rng) engine" and F :: "('b, 's, 'g, 'rs, 'cs) wire"
    and N :: "('b, 's, 'g, 'pp, 'rs, 'cs, 'pk, 'vk) nova"
  assumes "engine_ok W" "wire_ok F" "length bv = 64"
    and "construct_wraps_proof W F N pp genesis prev_ab next_ab prev_proof hints_vk (bv, sig) = Ok (u, c)"
  shows "verify_address_book W next_ab \<and>
    rotation_authorised W prev_ab (book_hash W next_ab, compute_hints_vk_hash W hints_vk) bv sig \<and>
    reject_sentinel_signers W prev_ab bv = Ok () \<and>
    (prev_proof = None \<longrightarrow> genesis = book_hash W prev_ab \<and> book_hash W next_ab = book_hash W prev_ab) \<and>
    (\<exists>ledger vk v0. encode (message_codec F) (genesis, v0) = Ok ledger \<and> setup_compressed_verifier N pp = Ok vk \<and>
       verify_uncompressed_wraps_proof W F N pp u ledger hints_vk = Ok True \<and>
       verify_compressed_wraps_proof W F N vk c ledger hints_vk = Ok True)"
proof -
  have len: "length bv = MAX_AB_SIZE" using assms(3) by (simp add: MAX_AB_SIZE_def)
  from construct_wraps_proof_cases [OF assms(1,2) len assms(4)] obtain running where
    r: "verify_address_book W next_ab" "rotation_authorised W prev_ab (book_hash W next_ab, compute_hints_vk_hash W hints_vk) bv sig"
    "reject_sentinel_signers W prev_ab bv = Ok ()"
    "prev_proof = None \<Longrightarrow> genesis = book_hash W prev_ab \<and> book_hash W next_ab = book_hash W prev_ab"
    and adv: "advance_chain W F N pp genesis hints_vk \<lparr>rc_prev_ab = prev_ab @ replicate (MAX_AB_SIZE - length prev_ab) (padding_entry W),
            rc_bitvector = bv, rc_sig = sig, rc_msg = (book_hash W next_ab, compute_hints_vk_hash W hints_vk)\<rparr> running = Ok (u, c)"
    by blast
  from advance_chain_verified [OF adv] r show ?thesis by blast
qed

theorem constructed_proof_authorised_witness:
  "\<exists>u c ledger v0.
     construct_wraps_proof small_engine small_wire ideal_nova () (book_hash small_engine small_book) small_book small_book None [1]
       (small_bv, small_signature (small_rotation_message [1])) = Ok (u, c) \<and>
     encode (message_codec small_wire) (book_hash small_engine small_book, v0) = Ok ledger \<and>
     verify_uncompressed_wraps_proof small_engine small_wire ideal_nova () u ledger [1] = Ok True \<and>
     verify_compressed_wraps_proof small_engine small_wire ideal_nova () c ledger [1] = Ok True"
proof -
  have len: "length small_bv = 64" using small_bv_length by (simp add: MAX_AB_SIZE_def)
  obtain u c where u: "construct_wraps_proof small_engine small_wire ideal_nova () (book_hash small_engine small_book) small_book small_book None [1]
       (small_bv, small_signature (small_rotation_message [1])) = Ok (u, c)" using small_genesis by blast
  from constructed_proof_authorised [OF small_engine_ok small_wire_ok len u] u show ?thesis by auto
qed

text \<open>
  C10. Over a folding scheme that is complete, rotations never get stuck: from a valid genesis book with an
  authorised first step, and from any proof so constructed with an authorised next step, \<open>construct_wraps_proof\<close>
  returns a running and a compressed proof, both verify for the ledger id of the genesis state, and the
  running proof is again one that can be resumed, at the next book and one step further.
\<close>

theorem rotations_proceed:
  fixes W :: "('b::field, 's::field, 'g::ab_group_add, 'rng) engine" and F :: "('b, 's, 'g, 'rs, 'cs) wire"
    and N :: "('b, 's, 'g, 'pp, 'rs, 'cs, 'pk, 'vk) nova"
  assumes "engine_ok W" "gadgets_ok W G" "ge_gen W \<noteq> 0" "wire_ok F" "nova_complete W G N pp" "length bv = 64"
    and "verify_address_book W next_ab"
    and "rotation_authorised W prev_ab (book_hash W next_ab, compute_hints_vk_hash W hints_vk) bv sig"
    and "reject_sentinel_signers W prev_ab bv = Ok ()"
    and "\<not> degenerate_nonce W (sum_list (signing_subset W prev_ab bv)) sig"
    and "case prev_proof of
        None \<Rightarrow> n = 0 \<and> genesis = book_hash W prev_ab \<and> genesis_hints = compute_hints_vk_hash W hints_vk \<and> book_hash W next_ab = book_hash W prev_ab
      | Some prev \<Rightarrow> (\<exists>prev_hints. chain_at W F G N pp genesis genesis_hints n prev_ab prev_hints prev)"
  shows "\<exists>u c vk. construct_wraps_proof W F N pp genesis prev_ab next_ab prev_proof hints_vk (bv, sig) = Ok (u, c) \<and>
    chain_at W F G N pp genesis genesis_hints (Suc n) next_ab hints_vk u \<and>
    setup_compressed_verifier N pp = Ok vk \<and>
    verify_uncompressed_wraps_proof W F N pp u (wire_bytes (message_codec F) (genesis, genesis_hints)) hints_vk = Ok True \<and>
    verify_compressed_wraps_proof W F N vk c (wire_bytes (message_codec F) (genesis, genesis_hints)) hints_vk = Ok True"
  using construct_proceeds [OF assms(1-5) _ assms(7-11)] assms(6) by (simp add: MAX_AB_SIZE_def)

theorem rotations_proceed_witness:
  "\<exists>u c u' c'.
     construct_wraps_proof small_engine small_wire ideal_nova () (book_hash small_engine small_book) small_book small_book None [1]
       (small_bv, small_signature (small_rotation_message [1])) = Ok (u, c) \<and>
     construct_wraps_proof small_engine small_wire ideal_nova () (book_hash small_engine small_book) small_book small_book (Some u) [2]
       (small_bv, small_signature (small_rotation_message [2])) = Ok (u', c') \<and>
     verify_uncompressed_wraps_proof small_engine small_wire ideal_nova () u'
       (wire_bytes (message_codec small_wire) (small_rotation_message [1])) [2] = Ok True"
proof -
  have len: "length small_bv = 64" using small_bv_length by (simp add: MAX_AB_SIZE_def)
  note proceed = rotations_proceed [OF small_engine_ok small_gadgets_ok small_authorised(4) small_wire_ok ideal_nova_complete len
      small_book_valid small_rotation_authorised small_authorised(2,3), where genesis = "book_hash small_engine small_book"
      and genesis_hints = "compute_hints_vk_hash small_engine [1]"]
  obtain u c where u: "construct_wraps_proof small_engine small_wire ideal_nova () (book_hash small_engine small_book) small_book small_book None [1]
       (small_bv, small_signature (small_rotation_message [1])) = Ok (u, c)"
    "chain_at small_engine small_wire small_gadgets ideal_nova () (book_hash small_engine small_book) (compute_hints_vk_hash small_engine [1])
       (Suc 0) small_book [1] u"
    using proceed [where prev_proof = None and n = 0 and hints_vk = "[1]"] by auto
  then show ?thesis using proceed [where prev_proof = "Some u" and n = "Suc 0" and hints_vk = "[2]"]
    unfolding small_rotation_message_def [of "[1]"] by auto
qed

end
