(* ===== verification/JniWraps.thy ===== *)
theory JniWraps
  imports JniEnv WrapsChain
begin

text \<open>
  The native methods of the rotation library: \<^verbatim>\<open>jni_util.rs\<close> and \<^verbatim>\<open>jni_wraps.rs\<close> of the crate \<^verbatim>\<open>nova-wraps\<close>,
  and \<open>load_public_params\<close> of \<^verbatim>\<open>wraps.rs\<close>. The public parameters and the compressed verifying key are static
  cells that are written at most once. A null array is \<open>None\<close>; an array that is not null can be read.
\<close>

section \<open>Parameters\<close>

text \<open>The bincode formats of the types that cross the Java boundary.\<close>

record ('b, 's, 'g, 'vk) wraps_formats =
  scalar_codec :: "'s codec"
  pubkey_codec :: "('s, 'g) attested_key codec"
  base_codec :: "'b codec"
  bytes_codec :: "bytes codec"
  signature_codec :: "('b, 's) schnorr_multi_signature codec"
  vk_codec :: "'vk codec"

text \<open>Besides the round trips, a decoded signature has the bits of a fixed-size array.\<close>

definition wraps_formats_ok :: "('b, 's, 'g, 'vk) wraps_formats \<Rightarrow> bool" where
  "wraps_formats_ok C \<longleftrightarrow> codec_ok (scalar_codec C) \<and> codec_ok (pubkey_codec C) \<and> codec_ok (base_codec C) \<and>
     codec_ok (bytes_codec C) \<and> codec_ok (vk_codec C) \<and>
     (\<forall>bv sig. length bv = MAX_AB_SIZE \<longrightarrow> (\<exists>bs. encode (signature_codec C) (bv, sig) = Ok bs \<and> decode (signature_codec C) bs = Ok (bv, sig))) \<and>
     (\<forall>bs bv sig. decode (signature_codec C) bs = Ok (bv, sig) \<longrightarrow> length bv = MAX_AB_SIZE)"

text \<open>
  The host: conversion of a Java string to UTF-8, the setup of Nova from a directory of files, and the
  random draws of the circuit that shapes the parameters.
\<close>

record ('b, 's, 'g, 'rng, 'pp) wraps_host =
  to_str :: "bytes \<Rightarrow> string option"
  setup_with_ptau_dir :: "('b, 's, 'g) rotation_circuit \<Rightarrow> string \<Rightarrow> ('pp, string) result"
  dummy_keys :: "nat \<Rightarrow> 'rng"
  dummy_poks :: "nat \<Rightarrow> 'rng"
  dummy_nonce :: 's

definition load_public_params ::
  "('b::field, 's::field, 'g::ab_group_add, 'rng) engine \<Rightarrow> ('b, 's, 'g, 'rng, 'pp) wraps_host \<Rightarrow> string
   \<Rightarrow> ('pp, wraps_error) result" where
  "load_public_params W Q ptau_dir =
     (let circuit = dummy W (dummy_keys Q) (dummy_poks Q) (dummy_nonce Q) in
      map_err (\<lambda>e. Cryptography (''public parameter setup failed: '' @ e)) (setup_with_ptau_dir Q circuit ptau_dir))"

section \<open>Marshalling\<close>

definition wraps_jbyte_vec_to_jbyte_array :: "jni_env \<Rightarrow> bytes \<Rightarrow> jbyte_array" where
  "wraps_jbyte_vec_to_jbyte_array env vec =
     (if new_byte_array env (of_nat (length vec))
      then if set_byte_array_region env vec then Some vec else None
      else None)"

definition wraps_u8_vec_to_jbyte_array :: "jni_env \<Rightarrow> bytes \<Rightarrow> jbyte_array" where
  "wraps_u8_vec_to_jbyte_array env vec = wraps_jbyte_vec_to_jbyte_array env (map (\<lambda>x. x) vec)"

definition serialize_to_jbyte_array :: "jni_env \<Rightarrow> 'v codec \<Rightarrow> 'v \<Rightarrow> (jbyte_array, unit) result" where
  "serialize_to_jbyte_array env c obj =
     map_err (\<lambda>_. ()) (and_then (encode c obj) (\<lambda>vec. Ok (wraps_u8_vec_to_jbyte_array env vec)))"

definition deserialize_from_jbyte_array :: "'v codec \<Rightarrow> jbyte_array \<Rightarrow> ('v, unit) result" where
  "deserialize_from_jbyte_array c java_byte_array =
     and_then (ok_or () java_byte_array) (\<lambda>vec. map_err (\<lambda>_. ()) (decode c vec))"

definition wraps_build_entropy_array :: "jbyte_array \<Rightarrow> (bytes, unit) result" where
  "wraps_build_entropy_array random_array =
     and_then (ok_or () random_array) (\<lambda>random_vec.
       if length random_vec = ENTROPY_SIZE then Ok random_vec else Err ())"

definition build_vector :: "'v codec \<Rightarrow> jobject_array \<Rightarrow> ('v list, unit) result" where
  "build_vector c java_array =
     and_then (get_array_length java_array) (\<lambda>len.
     collect (\<lambda>i. and_then (get_object_array_element java_array i) (\<lambda>jobj.
       if jobj = None then Err () else deserialize_from_jbyte_array c jobj)) [0..<len])"

definition build_address_book ::
  "('s, 'g) attested_key codec \<Rightarrow> jobject_array \<Rightarrow> jlong_array \<Rightarrow> jlong_array \<Rightarrow> (('b::field, 's, 'g) address_book, unit) result" where
  "build_address_book c schnorr_public_keys_jarray weights_jarray node_ids_jarray =
     and_then (get_array_length schnorr_public_keys_jarray) (\<lambda>num_of_keys.
     and_then (get_array_region weights_jarray num_of_keys) (\<lambda>weights_jlong.
     and_then (get_array_region node_ids_jarray num_of_keys) (\<lambda>node_ids_jlong.
     collect (\<lambda>i.
       and_then (index weights_jlong i) (\<lambda>w.
       if sint w < 0 then Err ()
       else
         and_then (get_object_array_element schnorr_public_keys_jarray i) (\<lambda>jobj.
         and_then (deserialize_from_jbyte_array c jobj) (\<lambda>key.
         and_then (index node_ids_jlong i) (\<lambda>node_id.
         Ok (of_nat (unat node_id), key, w)))))) [0..<num_of_keys])))"

definition jboolean_array_to_vec :: "jboolean_array \<Rightarrow> (bool list, unit) result" where
  "jboolean_array_to_vec boolean_jarray =
     and_then (get_array_length boolean_jarray) (\<lambda>num.
     and_then (get_array_region boolean_jarray num) (\<lambda>jboolean_vec.
     Ok (map (\<lambda>x. x \<noteq> 0) jboolean_vec)))"

text \<open>An argument that may be null, read by \<open>f\<close> otherwise.\<close>

definition nullable :: "('a option \<Rightarrow> ('v, unit) result) \<Rightarrow> 'a option \<Rightarrow> ('v option, unit) result" where
  "nullable f jarray = (if jarray = None then Ok None else and_then (f jarray) (\<lambda>v. Ok (Some v)))"

section \<open>The static cells\<close>

record ('pp, 'vk) wraps_statics =
  PUBLIC_PARAMS :: "'pp option option"
  COMPRESSED_VERIFYING_KEY :: "'vk option option"

definition wraps_statics_new :: "('pp, 'vk) wraps_statics" where
  "wraps_statics_new = \<lparr>PUBLIC_PARAMS = None, COMPRESSED_VERIFYING_KEY = None\<rparr>"

text \<open>\<^verbatim>\<open>OnceLock::get_or_init\<close>: a full cell keeps its content, and a panic leaves an empty one empty.\<close>

definition get_or_init :: "'v option \<Rightarrow> ('v, 'e) result \<Rightarrow> ('v, 'e) result \<times> 'v option" where
  "get_or_init cell f = (case cell of
       Some v \<Rightarrow> (Ok v, cell)
     | None \<Rightarrow> (case f of Ok v \<Rightarrow> (Ok v, Some v) | r \<Rightarrow> (r, None)))"

text \<open>The closures that fill the cells: an error is stored as \<open>None\<close>.\<close>

definition ok_option :: "('v, 'e) result \<Rightarrow> ('v option, unit) result" where
  "ok_option r = (case r of Ok v \<Rightarrow> Ok (Some v) | Err _ \<Rightarrow> Ok None | Panicked \<Rightarrow> Panicked)"

definition loadPublicParams ::
  "('b::field, 's::field, 'g::ab_group_add, 'rng) engine \<Rightarrow> ('b, 's, 'g, 'rng, 'pp) wraps_host \<Rightarrow> bytes option
   \<Rightarrow> ('pp, 'vk) wraps_statics \<Rightarrow> bool \<times> ('pp, 'vk) wraps_statics" where
  "loadPublicParams W Q path = native_method False (
     or_return False (ok_or () path) (\<lambda>java_str.
     or_return False (ok_or () (to_str Q java_str)) (\<lambda>rust_str.
     match_static False (\<lambda>s.
       let (r, cell) = get_or_init (PUBLIC_PARAMS s) (ok_option (load_public_params W Q rust_str))
       in (r, s\<lparr>PUBLIC_PARAMS := cell\<rparr>)) (\<lambda>option_params.
     return_value (option_params \<noteq> None)))))"

definition loadCompressedVerifyingKey ::
  "('b, 's, 'g, 'vk) wraps_formats \<Rightarrow> jbyte_array \<Rightarrow> ('pp, 'vk) wraps_statics \<Rightarrow> bool \<times> ('pp, 'vk) wraps_statics" where
  "loadCompressedVerifyingKey C bytes_jarray = native_method False (
     match_static False (\<lambda>s.
       let (r, cell) = get_or_init (COMPRESSED_VERIFYING_KEY s) (ok_option (deserialize_from_jbyte_array (vk_codec C) bytes_jarray))
       in (r, s\<lparr>COMPRESSED_VERIFYING_KEY := cell\<rparr>)) (\<lambda>option_key.
     return_value (option_key \<noteq> None)))"

section \<open>Keys and signatures\<close>

definition generateSchnorrKeysImpl ::
  "('b::field, 's::field, 'g, 'rng) engine \<Rightarrow> ('b, 's, 'g, 'vk) wraps_formats \<Rightarrow> jni_env \<Rightarrow> jbyte_array \<Rightarrow> 'st \<Rightarrow> jobject \<times> 'st" where
  "generateSchnorrKeysImpl W C env random_jarray = native_method None (
     or_return None (wraps_build_entropy_array random_jarray) (\<lambda>random_arr.
     let (private_key, public_key) = wraps_keygen W random_arr in
     or_return None (serialize_to_jbyte_array env (scalar_codec C) private_key) (\<lambda>serialized_private_key.
     or_return None (serialize_to_jbyte_array env (pubkey_codec C) public_key) (\<lambda>serialized_public_key.
     return_value (construct_object env ''com/hedera/cryptography/wraps/SchnorrKeys''
       [serialized_private_key, serialized_public_key])))))"

definition provideSentinelPublicKey ::
  "('b, 's::zero, 'g, 'rng) engine \<Rightarrow> ('b, 's, 'g, 'vk) wraps_formats \<Rightarrow> jni_env \<Rightarrow> 'st \<Rightarrow> jbyte_array \<times> 'st" where
  "provideSentinelPublicKey W C env = native_method None (
     let public_key = sentinel_keygen W in
     or_return None (serialize_to_jbyte_array env (pubkey_codec C) public_key) return_value)"

definition phase_of_ordinal :: "32 word \<Rightarrow> (signing_protocol_phase, unit) result" where
  "phase_of_ordinal phase_ordinal =
     (if phase_ordinal = 0 then Ok R1 else if phase_ordinal = 1 then Ok R2
      else if phase_ordinal = 2 then Ok R3 else if phase_ordinal = 3 then Ok Aggregate else Err ())"

definition runSigningProtocolPhaseImpl ::
  "('b::field, 's::field, 'g::ab_group_add, 'rng) engine \<Rightarrow> ('b, 's, 'g, 'rs, 'cs) wire \<Rightarrow> ('b, 's, 'g, 'vk) wraps_formats \<Rightarrow> jni_env
   \<Rightarrow> 32 word \<Rightarrow> jbyte_array \<Rightarrow> jbyte_array \<Rightarrow> jbyte_array \<Rightarrow> jobject_array \<Rightarrow> jlong_array \<Rightarrow> jlong_array \<Rightarrow> jboolean_array
   \<Rightarrow> jobject_array \<Rightarrow> jobject_array \<Rightarrow> jobject_array \<Rightarrow> 'st \<Rightarrow> jbyte_array \<times> 'st" where
  "runSigningProtocolPhaseImpl W F C env phase_ordinal random_jarray message_jarray schnorr_private_key_jarray
       schnorr_public_keys_jarray weights_jarray node_ids_jarray signers_jarray
       round1messages_jarray round2messages_jarray round3messages_jarray = native_method None (
     or_return None (phase_of_ordinal phase_ordinal) (\<lambda>phase.
     or_return None (nullable wraps_build_entropy_array random_jarray) (\<lambda>random_arr.
     or_return None (ok_or () message_jarray) (\<lambda>message.
     or_return None (nullable (deserialize_from_jbyte_array (scalar_codec C)) schnorr_private_key_jarray) (\<lambda>signing_key.
     or_return None (build_address_book (pubkey_codec C) schnorr_public_keys_jarray weights_jarray node_ids_jarray) (\<lambda>ab.
     or_return None (jboolean_array_to_vec signers_jarray) (\<lambda>signers.
     or_return None (build_vector (bytes_codec C) round1messages_jarray) (\<lambda>round1messages.
     or_return None (build_vector (bytes_codec C) round2messages_jarray) (\<lambda>round2messages.
     or_return None (build_vector (bytes_codec C) round3messages_jarray) (\<lambda>round3messages.
     or_return None (signing_protocol W F phase random_arr message signing_key ab signers
         round1messages round2messages round3messages) (\<lambda>obj.
     or_return None (case obj of
         ProtocolMessage msg_encoded \<Rightarrow> serialize_to_jbyte_array env (bytes_codec C) msg_encoded
       | ProtocolOutput signature \<Rightarrow> serialize_to_jbyte_array env (signature_codec C) signature) return_value)))))))))))"

definition verifySignatureImpl ::
  "('b::field, 's::field, 'g::ab_group_add, 'rng) engine \<Rightarrow> ('b, 's, 'g, 'rs, 'cs) wire \<Rightarrow> ('b, 's, 'g, 'vk) wraps_formats
   \<Rightarrow> jobject_array \<Rightarrow> jlong_array \<Rightarrow> jlong_array \<Rightarrow> jbyte_array \<Rightarrow> jbyte_array \<Rightarrow> 'st \<Rightarrow> bool \<times> 'st" where
  "verifySignatureImpl W F C schnorr_public_keys_jarray weights_jarray node_ids_jarray message_jarray signature_jarray =
     native_method False (
     or_return False (build_address_book (pubkey_codec C) schnorr_public_keys_jarray weights_jarray node_ids_jarray) (\<lambda>ab.
     or_return False (ok_or () message_jarray) (\<lambda>message.
     or_return False (deserialize_from_jbyte_array (signature_codec C) signature_jarray) (\<lambda>signature.
     or_return False (verify_signature W F ab message signature) return_value))))"

section \<open>Commitments\<close>

definition hashAddressBookImpl ::
  "('b::field, 's::field, 'g::ab_group_add, 'rng) engine \<Rightarrow> ('b, 's, 'g, 'vk) wraps_formats \<Rightarrow> jni_env
   \<Rightarrow> jobject_array \<Rightarrow> jlong_array \<Rightarrow> jlong_array \<Rightarrow> 'st \<Rightarrow> jbyte_array \<times> 'st" where
  "hashAddressBookImpl W C env schnorr_public_keys_jarray weights_jarray node_ids_jarray = native_method None (
     or_return None (build_address_book (pubkey_codec C) schnorr_public_keys_jarray weights_jarray node_ids_jarray) (\<lambda>ab.
     or_return None (compute_addressbook_hash W ab) (\<lambda>hash.
     or_return None (serialize_to_jbyte_array env (base_codec C) hash) return_value)))"

definition hashArrayImpl ::
  "('b::field, 's, 'g, 'rng) engine \<Rightarrow> ('b, 's, 'g, 'vk) wraps_formats \<Rightarrow> jni_env \<Rightarrow> jbyte_array \<Rightarrow> 'st \<Rightarrow> jbyte_array \<times> 'st" where
  "hashArrayImpl W C env input_jarray = native_method None (
     or_return None (ok_or () input_jarray) (\<lambda>input_vec.
     if input_vec = [] then return_value None
     else
       let hash = compute_hints_vk_hash W input_vec in
       or_return None (serialize_to_jbyte_array env (base_codec C) hash) return_value))"

definition formatRotationMessageImpl ::
  "('b::field, 's::field, 'g::ab_group_add, 'rng) engine \<Rightarrow> ('b, 's, 'g, 'rs, 'cs) wire \<Rightarrow> ('b, 's, 'g, 'vk) wraps_formats \<Rightarrow> jni_env
   \<Rightarrow> jobject_array \<Rightarrow> jlong_array \<Rightarrow> jlong_array \<Rightarrow> jbyte_array \<Rightarrow> 'st \<Rightarrow> jbyte_array \<times> 'st" where
  "formatRotationMessageImpl W F C env schnorr_public_keys_jarray weights_jarray node_ids_jarray tss_vk_jarray = native_method None (
     or_return None (build_address_book (pubkey_codec C) schnorr_public_keys_jarray weights_jarray node_ids_jarray) (\<lambda>ab.
     or_return None (ok_or () tss_vk_jarray) (\<lambda>tss_vk_vec.
     or_return None (compute_rotation_message W F ab tss_vk_vec) (\<lambda>msg.
     return_value (wraps_u8_vec_to_jbyte_array env msg)))))"

section \<open>Proofs\<close>

definition loaded :: "'v option option \<Rightarrow> ('v, unit) result" where
  "loaded cell = (case cell of Some (Some v) \<Rightarrow> Ok v | _ \<Rightarrow> Err ())"

definition constructWrapsProofImpl ::
  "('b::field, 's::field, 'g::ab_group_add, 'rng) engine \<Rightarrow> ('b, 's, 'g, 'rs, 'cs) wire
   \<Rightarrow> ('b, 's, 'g, 'pp, 'rs, 'cs, 'pk, 'vk) nova \<Rightarrow> ('b, 's, 'g, 'vk) wraps_formats \<Rightarrow> jni_env
   \<Rightarrow> jbyte_array \<Rightarrow> jobject_array \<Rightarrow> jlong_array \<Rightarrow> jlong_array \<Rightarrow> jobject_array \<Rightarrow> jlong_array \<Rightarrow> jlong_array
   \<Rightarrow> jbyte_array \<Rightarrow> jbyte_array \<Rightarrow> jbyte_array \<Rightarrow> ('pp, 'vk) wraps_statics \<Rightarrow> jobject \<times> ('pp, 'vk) wraps_statics" where
  "constructWrapsProofImpl W F N C env ab_genesis_hash_jarray
       prev_schnorr_public_keys_jarray prev_weights_jarray prev_node_ids_jarray
       next_schnorr_public_keys_jarray next_weights_jarray next_node_ids_jarray
       prev_proof_jarray tss_vk_jarray signature_jarray = native_method None (
     or_return None (deserialize_from_jbyte_array (base_codec C) ab_genesis_hash_jarray) (\<lambda>ab_genesis_hash.
     or_return None (build_address_book (pubkey_codec C) prev_schnorr_public_keys_jarray prev_weights_jarray prev_node_ids_jarray) (\<lambda>prev_ab.
     or_return None (build_address_book (pubkey_codec C) next_schnorr_public_keys_jarray next_weights_jarray next_node_ids_jarray) (\<lambda>next_ab.
     or_return None (nullable (ok_or ()) prev_proof_jarray) (\<lambda>prev_proof.
     or_return None (ok_or () tss_vk_jarray) (\<lambda>tss_vk_vec.
     or_return None (deserialize_from_jbyte_array (signature_codec C) signature_jarray) (\<lambda>signature.
     match_static None (\<lambda>s. (loaded (PUBLIC_PARAMS s), s)) (\<lambda>public_params.
     or_return None (construct_wraps_proof W F N public_params ab_genesis_hash prev_ab next_ab prev_proof tss_vk_vec signature)
       (\<lambda>(uncompressed_proof, compressed_proof).
     return_value (construct_object env ''com/hedera/cryptography/wraps/Proof''
       [wraps_u8_vec_to_jbyte_array env uncompressed_proof, wraps_u8_vec_to_jbyte_array env compressed_proof]))))))))))"

definition verifyCompressedProofImpl ::
  "('b::field, 's, 'g, 'rng) engine \<Rightarrow> ('b, 's, 'g, 'rs, 'cs) wire \<Rightarrow> ('b, 's, 'g, 'pp, 'rs, 'cs, 'pk, 'vk) nova
   \<Rightarrow> jbyte_array \<Rightarrow> jbyte_array \<Rightarrow> jbyte_array \<Rightarrow> ('pp, 'vk) wraps_statics \<Rightarrow> bool \<times> ('pp, 'vk) wraps_statics" where
  "verifyCompressedProofImpl W F N compressed_proof_jarray ledger_id_jarray tss_vk_jarray = native_method False (
     or_return False (ok_or () ledger_id_jarray) (\<lambda>ledger_id_vec.
     or_return False (ok_or () tss_vk_jarray) (\<lambda>tss_vk_vec.
     or_return False (ok_or () compressed_proof_jarray) (\<lambda>compressed_proof.
     match_static False (\<lambda>s. (loaded (COMPRESSED_VERIFYING_KEY s), s)) (\<lambda>compressed_verifying_key.
     or_return False (verify_compressed_wraps_proof W F N compressed_verifying_key compressed_proof ledger_id_vec tss_vk_vec)
       return_value)))))"

definition verifyUncompressedProofImpl ::
  "('b::field, 's, 'g, 'rng) engine \<Rightarrow> ('b, 's, 'g, 'rs, 'cs) wire \<Rightarrow> ('b, 's, 'g, 'pp, 'rs, 'cs, 'pk, 'vk) nova
   \<Rightarrow> jbyte_array \<Rightarrow> jbyte_array \<Rightarrow> jbyte_array \<Rightarrow> ('pp, 'vk) wraps_statics \<Rightarrow> bool \<times> ('pp, 'vk) wraps_statics" where
  "verifyUncompressedProofImpl W F N uncompressed_proof_jarray ledger_id_jarray tss_vk_jarray = native_method False (
     or_return False (ok_or () ledger_id_jarray) (\<lambda>ledger_id_vec.
     or_return False (ok_or () tss_vk_jarray) (\<lambda>tss_vk_vec.
     or_return False (ok_or () uncompressed_proof_jarray) (\<lambda>uncompressed_proof.
     match_static False (\<lambda>s. (loaded (PUBLIC_PARAMS s), s)) (\<lambda>public_params.
     or_return False (verify_uncompressed_wraps_proof W F N public_params uncompressed_proof ledger_id_vec tss_vk_vec)
       return_value)))))"

end
