(* ===== verification/JniWrapsProperties.thy ===== *)
theory JniWrapsProperties
  imports JniWraps
begin

text \<open>
  The native methods of the rotation library as one interface: the cells that any sequence of calls
  writes at most once, and rotations over the Java boundary.
\<close>

section \<open>Sequences of calls\<close>

datatype wraps_call =
    LoadPublicParams "bytes option"
  | LoadCompressedVerifyingKey jbyte_array
  | GenerateSchnorrKeys jbyte_array
  | ProvideSentinelPublicKey
  | RunSigningProtocolPhase "32 word" jbyte_array jbyte_array jbyte_array jobject_array jlong_array jlong_array jboolean_array
      jobject_array jobject_array jobject_array
  | VerifySignature jobject_array jlong_array jlong_array jbyte_array jbyte_array
  | HashAddressBook jobject_array jlong_array jlong_array
  | HashArray jbyte_array
  | FormatRotationMessage jobject_array jlong_array jlong_array jbyte_array
  | ConstructWrapsProof jbyte_array jobject_array jlong_array jlong_array jobject_array jlong_array jlong_array
      jbyte_array jbyte_array jbyte_array
  | VerifyCompressedProof jbyte_array jbyte_array jbyte_array
  | VerifyUncompressedProof jbyte_array jbyte_array jbyte_array

text \<open>The state after a call.\<close>

definition wraps_invoke ::
  "('b::field, 's::field, 'g::ab_group_add, 'rng) engine \<Rightarrow> ('b, 's, 'g, 'rs, 'cs) wire
   \<Rightarrow> ('b, 's, 'g, 'pp, 'rs, 'cs, 'pk, 'vk) nova \<Rightarrow> ('b, 's, 'g, 'vk) wraps_formats \<Rightarrow> ('b, 's, 'g, 'rng, 'pp) wraps_host
   \<Rightarrow> jni_env \<Rightarrow> wraps_call \<Rightarrow> ('pp, 'vk) wraps_statics \<Rightarrow> ('pp, 'vk) wraps_statics" where
  "wraps_invoke W F N C Q env call s = (case call of
       LoadPublicParams path \<Rightarrow> snd (loadPublicParams W Q path s)
     | LoadCompressedVerifyingKey bs \<Rightarrow> snd (loadCompressedVerifyingKey C bs s)
     | GenerateSchnorrKeys random \<Rightarrow> snd (generateSchnorrKeysImpl W C env random s)
     | ProvideSentinelPublicKey \<Rightarrow> snd (provideSentinelPublicKey W C env s)
     | RunSigningProtocolPhase ph random msg sk pks ws ids signers r1 r2 r3 \<Rightarrow>
         snd (runSigningProtocolPhaseImpl W F C env ph random msg sk pks ws ids signers r1 r2 r3 s)
     | VerifySignature pks ws ids msg sig \<Rightarrow> snd (verifySignatureImpl W F C pks ws ids msg sig s)
     | HashAddressBook pks ws ids \<Rightarrow> snd (hashAddressBookImpl W C env pks ws ids s)
     | HashArray input \<Rightarrow> snd (hashArrayImpl W C env input s)
     | FormatRotationMessage pks ws ids tss \<Rightarrow> snd (formatRotationMessageImpl W F C env pks ws ids tss s)
     | ConstructWrapsProof gen pks ws ids pks' ws' ids' prev tss sig \<Rightarrow>
         snd (constructWrapsProofImpl W F N C env gen pks ws ids pks' ws' ids' prev tss sig s)
     | VerifyCompressedProof prf ledger tss \<Rightarrow> snd (verifyCompressedProofImpl W F N prf ledger tss s)
     | VerifyUncompressedProof prf ledger tss \<Rightarrow> snd (verifyUncompressedProofImpl W F N prf ledger tss s))"

definition wraps_after ::
  "('b::field, 's::field, 'g::ab_group_add, 'rng) engine \<Rightarrow> ('b, 's, 'g, 'rs, 'cs) wire
   \<Rightarrow> ('b, 's, 'g, 'pp, 'rs, 'cs, 'pk, 'vk) nova \<Rightarrow> ('b, 's, 'g, 'vk) wraps_formats \<Rightarrow> ('b, 's, 'g, 'rng, 'pp) wraps_host
   \<Rightarrow> jni_env \<Rightarrow> wraps_call list \<Rightarrow> ('pp, 'vk) wraps_statics" where
  "wraps_after W F N C Q env calls = foldl (\<lambda>s call. wraps_invoke W F N C Q env call s) wraps_statics_new calls"

text \<open>A body that changes no full cell.\<close>

definition keeps :: "('r, ('pp, 'vk) wraps_statics) body \<Rightarrow> bool" where
  "keeps body \<longleftrightarrow> (\<forall>s.
     (PUBLIC_PARAMS s \<noteq> None \<longrightarrow> PUBLIC_PARAMS (snd (body s)) = PUBLIC_PARAMS s) \<and>
     (COMPRESSED_VERIFYING_KEY s \<noteq> None \<longrightarrow> COMPRESSED_VERIFYING_KEY (snd (body s)) = COMPRESSED_VERIFYING_KEY s))"

lemma keeps_return: "keeps (return_value v)"
  by (simp add: keeps_def return_value_def)

lemma keeps_or_return: "(\<And>v. keeps (k v)) \<Longrightarrow> keeps (or_return fallback r k)"
  by (cases r) (simp_all add: keeps_def)

lemma keeps_read: "(\<And>v. keeps (k v)) \<Longrightarrow> keeps (match_static fallback (\<lambda>s. (f s, s)) k)"
  unfolding keeps_def match_static_def by (auto simp: or_return_def split: result.splits)

lemma get_or_init_full: "cell = Some v \<Longrightarrow> get_or_init cell f = (Ok v, Some v)"
  by (simp add: get_or_init_def)

lemma keeps_cases:
  "(\<And>a b. keeps (f a b)) \<Longrightarrow> keeps (case_prod f p)" "keeps k \<Longrightarrow> keeps k' \<Longrightarrow> keeps (if b then k else k')"
  by (simp_all split: prod.split)

lemma keeps_load:
  "keeps (match_static fallback (\<lambda>s. case get_or_init (PUBLIC_PARAMS s) f of (r, cell) \<Rightarrow> (r, s\<lparr>PUBLIC_PARAMS := cell\<rparr>)) (\<lambda>v. return_value (h v)))"
  "keeps (match_static fallback (\<lambda>s. case get_or_init (COMPRESSED_VERIFYING_KEY s) f' of
     (r, cell) \<Rightarrow> (r, s\<lparr>COMPRESSED_VERIFYING_KEY := cell\<rparr>)) (\<lambda>v. return_value (h' v)))"
  unfolding keeps_def match_static_def
  by (auto simp: get_or_init_full or_return_def return_value_def split: result.splits prod.splits)

lemmas wraps_method_defs = loadPublicParams_def loadCompressedVerifyingKey_def generateSchnorrKeysImpl_def
  provideSentinelPublicKey_def runSigningProtocolPhaseImpl_def verifySignatureImpl_def hashAddressBookImpl_def hashArrayImpl_def
  formatRotationMessageImpl_def constructWrapsProofImpl_def verifyCompressedProofImpl_def verifyUncompressedProofImpl_def

lemmas keeps_rules = keeps_return keeps_or_return keeps_read keeps_load keeps_cases

lemma invoke_keeps: "keeps (\<lambda>s. (Ok (), wraps_invoke W F N C Q env call s))"
proof -
  have native: "keeps (\<lambda>s. (Ok (), snd (native_method fallback body s)))" if "keeps body"
    for fallback and body :: "('r, ('pp, 'vk) wraps_statics) body"
    using that by (simp add: keeps_def native_method_sel)
  show ?thesis
    by (cases call)
      (simp only: wraps_invoke_def wraps_call.case wraps_method_defs Let_def,
        intro native keeps_rules)+
qed

lemma after_keeps:
  assumes "s = wraps_after W F N C Q env calls" "s' = wraps_after W F N C Q env (calls @ later)"
  shows "PUBLIC_PARAMS s = Some cell \<Longrightarrow> PUBLIC_PARAMS s' = Some cell"
    "COMPRESSED_VERIFYING_KEY s = Some cell' \<Longrightarrow> COMPRESSED_VERIFYING_KEY s' = Some cell'"
proof -
  have "(PUBLIC_PARAMS s = Some cell \<longrightarrow> PUBLIC_PARAMS s' = Some cell) \<and>
      (COMPRESSED_VERIFYING_KEY s = Some cell' \<longrightarrow> COMPRESSED_VERIFYING_KEY s' = Some cell')"
    using assms(2)
  proof (induction later arbitrary: s' rule: rev_induct)
    case (snoc call later)
    have "s' = wraps_invoke W F N C Q env call (wraps_after W F N C Q env (calls @ later))"
      using snoc.prems by (simp add: wraps_after_def)
    with snoc.IH [OF refl] invoke_keeps [of W F N C Q env call] show ?case by (auto simp: keeps_def)
  qed (simp add: assms(1))
  then show "PUBLIC_PARAMS s = Some cell \<Longrightarrow> PUBLIC_PARAMS s' = Some cell"
    "COMPRESSED_VERIFYING_KEY s = Some cell' \<Longrightarrow> COMPRESSED_VERIFYING_KEY s' = Some cell'" by simp_all
qed

section \<open>What the methods return\<close>

lemma outcome_match_static [simp]:
  "outcome fallback (match_static fallback (\<lambda>s. (f s, s)) k) s = (case f s of Ok v \<Rightarrow> outcome fallback (k v) s | _ \<Rightarrow> fallback)"
  by (cases "f s") (simp_all add: outcome_def match_static_def catch_unwind_def)

lemma loaded_iff: "loaded cell = Ok v \<longleftrightarrow> cell = Some (Some v)"
  by (auto simp: loaded_def split: option.splits)



lemma loadCompressedVerifyingKey_fills:
  assumes "COMPRESSED_VERIFYING_KEY s = None" "deserialize_from_jbyte_array (vk_codec C) bs = Ok key"
  shows "COMPRESSED_VERIFYING_KEY (wraps_invoke W F N C Q env (LoadCompressedVerifyingKey bs) s) = Some (Some key)"
  using assms by (simp add: wraps_invoke_def loadCompressedVerifyingKey_def native_method_sel match_static_def get_or_init_def ok_option_def
      return_value_def Let_def)

lemma verifyUncompressedProof_iff:
  "fst (verifyUncompressedProofImpl W F N prf ledger tss s) \<longleftrightarrow>
    (\<exists>bs id vk pp. prf = Some bs \<and> ledger = Some id \<and> tss = Some vk \<and> PUBLIC_PARAMS s = Some (Some pp) \<and>
       verify_uncompressed_wraps_proof W F N pp bs id vk = Ok True)"
  by (auto simp: verifyUncompressedProofImpl_def native_method_sel loaded_def ok_or_def split: option.splits result.splits)

lemma verifyCompressedProof_iff:
  "fst (verifyCompressedProofImpl W F N prf ledger tss s) \<longleftrightarrow>
    (\<exists>bs id vk key. prf = Some bs \<and> ledger = Some id \<and> tss = Some vk \<and> COMPRESSED_VERIFYING_KEY s = Some (Some key) \<and>
       verify_compressed_wraps_proof W F N key bs id vk = Ok True)"
  by (auto simp: verifyCompressedProofImpl_def native_method_sel loaded_def ok_or_def split: option.splits result.splits)

lemma decoded_bits:
  assumes "wraps_formats_ok C" "deserialize_from_jbyte_array (signature_codec C) sig_arr = Ok (bv, sig)"
  shows "length bv = MAX_AB_SIZE"
proof -
  obtain bs where "decode (signature_codec C) bs = Ok (bv, sig)"
    using assms(2) by (auto simp: deserialize_from_jbyte_array_def)
  moreover have "\<forall>bs bv sig. decode (signature_codec C) bs = Ok (bv, sig) \<longrightarrow> length bv = MAX_AB_SIZE"
    using assms(1) unfolding wraps_formats_ok_def by (elim conjE)
  ultimately show ?thesis by blast
qed

lemma u8_vec_array: "wraps_u8_vec_to_jbyte_array env vec = Some bs \<Longrightarrow> bs = vec"
  by (auto simp: wraps_u8_vec_to_jbyte_array_def wraps_jbyte_vec_to_jbyte_array_def split: if_splits)

lemma constructWrapsProof_cases:
  assumes "fst (constructWrapsProofImpl W F N C env gen pks ws ids pks' ws' ids' prev tss sig_arr s) = Some (cls, [Some u, Some c])"
  obtains pp genesis prev_ab next_ab hints_vk bv sig where
    "PUBLIC_PARAMS s = Some (Some pp)" "deserialize_from_jbyte_array (base_codec C) gen = Ok genesis"
    "build_address_book (pubkey_codec C) pks ws ids = Ok prev_ab" "build_address_book (pubkey_codec C) pks' ws' ids' = Ok next_ab"
    "tss = Some hints_vk" "deserialize_from_jbyte_array (signature_codec C) sig_arr = Ok (bv, sig)"
    "construct_wraps_proof W F N pp genesis prev_ab next_ab prev hints_vk (bv, sig) = Ok (u, c)"
proof -
  have "nullable (ok_or ()) prev = Ok prev" by (cases prev) (simp_all add: nullable_def)
  with assms show thesis
    by (auto simp: constructWrapsProofImpl_def native_method_sel loaded_def construct_object_def
        split: option.splits result.splits prod.splits if_splits dest!: u8_vec_array intro!: that)
qed

section \<open>A run over the small engine\<close>

definition nats_elt :: "nat list \<Rightarrow> gf17 option" where
  "nats_elt ns = (case ns of [n] \<Rightarrow> Some (from_int17 (int n)) | _ \<Rightarrow> None)"

definition pubkey_nats :: "(gf17, gf17) attested_key \<Rightarrow> nat list" where
  "pubkey_nats k = [nat17 (fst k), nat17 (pok_commitment (snd k)), nat17 (pok_challenge_field (snd k)), nat17 (pok_response (snd k))]"

definition nats_pubkey :: "nat list \<Rightarrow> (gf17, gf17) attested_key option" where
  "nats_pubkey ns = (case map (\<lambda>n. from_int17 (int n)) ns of
       [a, b, c, d] \<Rightarrow> Some (a, \<lparr>pok_commitment = b, pok_challenge_field = c, pok_response = d\<rparr>) | _ \<Rightarrow> None)"

definition nats_rat :: "nat list \<Rightarrow> rat option" where
  "nats_rat ns = (case take_rat ns of Some (x, []) \<Rightarrow> Some x | _ \<Rightarrow> None)"

definition signature_nats :: "(rat, gf17) schnorr_multi_signature \<Rightarrow> nat list" where
  "signature_nats m = nat17 (sig_s (snd m)) # rat_nats (sig_e (snd m)) @ map (\<lambda>b. if b then 1 else 0) (fst m)"

definition nats_signature :: "nat list \<Rightarrow> (rat, gf17) schnorr_multi_signature option" where
  "nats_signature ns = (case ns of [] \<Rightarrow> None | s # ns \<Rightarrow>
     (case take_rat ns of
        Some (e, bits) \<Rightarrow> if length bits = MAX_AB_SIZE
          then Some (map (\<lambda>n. n = 1) bits, \<lparr>sig_e = e, sig_s = from_int17 (int s)\<rparr>) else None
      | None \<Rightarrow> None))"

definition small_formats :: "(rat, gf17, gf17, unit) wraps_formats" where
  "small_formats =
     \<lparr>scalar_codec = unary_codec (\<lambda>x. [nat17 x]) nats_elt,
      pubkey_codec = unary_codec pubkey_nats nats_pubkey,
      base_codec = unary_codec rat_nats nats_rat,
      bytes_codec = unary_codec (map unat) (\<lambda>ns. Some (map of_nat ns)),
      signature_codec = unary_codec signature_nats nats_signature,
      vk_codec = unary_codec (\<lambda>_. []) (\<lambda>_. Some ())\<rparr>"

lemma nats_signature_nats: "length (fst m) = MAX_AB_SIZE \<Longrightarrow> nats_signature (signature_nats m) = Some m"
  using nat17 [of "sig_s (snd m)"]
  by (cases m) (simp add: nats_signature_def signature_nats_def take_rat_nats comp_def)

lemma small_formats_ok: "wraps_formats_ok small_formats"
proof -
  have rat: "nats_rat (rat_nats x) = Some x" for x using take_rat_nats [of x "[]"] by (simp add: nats_rat_def)
  have key: "nats_pubkey (pubkey_nats k) = Some k" for k 
    by (cases k) (simp add: nats_pubkey_def pubkey_nats_def from_to17 to_int17_range)
  have len: "length (fst m) = MAX_AB_SIZE" if "nats_signature ns = Some m" for ns m
    using that by (auto simp: nats_signature_def split: list.splits option.splits if_splits)
  show ?thesis
    unfolding wraps_formats_ok_def
  proof (intro conjI allI impI)
    fix bv sig assume "length (bv :: bit_vector) = MAX_AB_SIZE"
    then show "\<exists>bs. encode (signature_codec small_formats) (bv, sig) = Ok bs \<and> decode (signature_codec small_formats) bs = Ok (bv, sig)"
      using nats_signature_nats [of "(bv, sig)"]
      by (simp add: small_formats_def encode_def decode_def unary_codec_def of_unary_unary)
  next
    fix bs bv sig assume "decode (signature_codec small_formats) bs = Ok (bv, sig)"
    then show "length bv = MAX_AB_SIZE"
      using len [of "of_unary 0 bs"] by (fastforce simp: small_formats_def decode_def unary_codec_def split: if_splits)
  qed (simp_all add: small_formats_def unary_codec_ok rat key from_to17 to_int17_range nats_elt_def comp_def)
qed

definition small_host :: "(rat, gf17, gf17, nat, unit) wraps_host" where
  "small_host = \<lparr>to_str = \<lambda>bs. Some (map (char_of \<circ> unat) bs), setup_with_ptau_dir = \<lambda>_ _. Ok (),
     dummy_keys = \<lambda>i. i, dummy_poks = \<lambda>i. i + 1, dummy_nonce = Z3\<rparr>"

definition small_env :: jni_env where
  "small_env = \<lparr>new_byte_array = \<lambda>_. True, set_byte_array_region = \<lambda>_. True, find_class = \<lambda>_. True, new_object = \<lambda>_ _. True\<rparr>"

lemma small_marshalling:
  "wraps_u8_vec_to_jbyte_array small_env vec = Some vec" "construct_object small_env cls args = Some (cls, args)"
  by (simp_all add: wraps_u8_vec_to_jbyte_array_def wraps_jbyte_vec_to_jbyte_array_def construct_object_def small_env_def)

lemma small_loaded:
  "PUBLIC_PARAMS (wraps_after small_engine small_wire ideal_nova small_formats small_host small_env [LoadPublicParams (Some [1])]) = Some (Some ())"
  by (simp add: wraps_after_def wraps_statics_new_def wraps_invoke_def loadPublicParams_def native_method_sel match_static_def
      get_or_init_def ok_option_def load_public_params_def small_host_def return_value_def Let_def)

lemma small_no_key:
  "COMPRESSED_VERIFYING_KEY (wraps_after small_engine small_wire ideal_nova small_formats small_host small_env [LoadPublicParams (Some [1])]) = None"
  by (simp add: wraps_after_def wraps_statics_new_def wraps_invoke_def loadPublicParams_def native_method_sel match_static_def
      get_or_init_def ok_option_def load_public_params_def small_host_def return_value_def Let_def)

definition small_key_arrays :: jobject_array where
  "small_key_arrays = Some (map (\<lambda>(_, key, _). Some (wire_bytes (pubkey_codec small_formats) key)) small_book)"

definition small_sig_array :: jbyte_array where
  "small_sig_array = Some (unary (signature_nats (small_bv, small_signature (small_rotation_message [1]))))"

lemma small_book_array:
  "build_address_book (pubkey_codec small_formats) small_key_arrays (Some [5, 99, 4]) (Some [10, 12, 11]) = Ok small_book"
proof -
  have "codec_ok (pubkey_codec small_formats)" using small_formats_ok by (simp add: wraps_formats_ok_def)
  then have key: "deserialize_from_jbyte_array (pubkey_codec small_formats) (Some (wire_bytes (pubkey_codec small_formats) k)) = Ok k" for k
    by (simp add: deserialize_from_jbyte_array_def wire_bytes)
  show ?thesis
    by (simp add: build_address_book_def small_key_arrays_def small_book_def key get_array_length_def get_array_region_def
        get_object_array_element_def numeral_3_eq_3 upt_rec)
qed

lemma small_construct:
  "\<exists>u c. fst (constructWrapsProofImpl small_engine small_wire ideal_nova small_formats small_env
      (Some (wire_bytes (base_codec small_formats) (book_hash small_engine small_book)))
      small_key_arrays (Some [5, 99, 4]) (Some [10, 12, 11]) small_key_arrays (Some [5, 99, 4]) (Some [10, 12, 11])
      None (Some [1]) small_sig_array
      (wraps_after small_engine small_wire ideal_nova small_formats small_host small_env [LoadPublicParams (Some [1])]))
    = Some (''com/hedera/cryptography/wraps/Proof'', [Some u, Some c])"
proof -
  have "codec_ok (base_codec small_formats)" using small_formats_ok by (simp add: wraps_formats_ok_def)
  then have gen: "deserialize_from_jbyte_array (base_codec small_formats) (Some (wire_bytes (base_codec small_formats) x)) = Ok x" for x
    by (simp add: deserialize_from_jbyte_array_def wire_bytes)
  have sig: "deserialize_from_jbyte_array (signature_codec small_formats) small_sig_array = Ok (small_bv, small_signature (small_rotation_message [1]))"
    using nats_signature_nats [of "(small_bv, small_signature (small_rotation_message [1]))"] small_bv_length
    by (simp add: deserialize_from_jbyte_array_def small_sig_array_def small_formats_def decode_def unary_codec_def of_unary_unary)
  obtain u c where "construct_wraps_proof small_engine small_wire ideal_nova () (book_hash small_engine small_book) small_book small_book None [1]
     (small_bv, small_signature (small_rotation_message [1])) = Ok (u, c)" using small_genesis by blast
  then show ?thesis
    by (simp add: constructWrapsProofImpl_def native_method_sel gen small_book_array sig nullable_def small_loaded loaded_def
        small_marshalling)
qed

section \<open>Properties\<close>



text \<open>
  C30. A rotation over the Java boundary: whenever \<open>constructWrapsProofImpl\<close> returns a proof object, the arrays
  encode books and a signature with which a majority of the previous book signed the next one. Some
  ledger id with the genesis hash makes \<open>verifyUncompressedProofImpl\<close> accept the first array from then on.
  \<open>verifyCompressedProofImpl\<close> accepts the second array for it whenever the library holds the verifying key that
  the loaded public parameters determine; in particular from the moment an encoding of that key is
  loaded, when no key was loaded before.
\<close>

theorem native_rotation_verifies:
  fixes W :: "('b::field, 's::field, 'g::ab_group_add, 'rng) engine" and N :: "('b, 's, 'g, 'pp, 'rs, 'cs, 'pk, 'vk) nova"
  assumes "engine_ok W" "wire_ok F" "wraps_formats_ok C"
    and "fst (constructWrapsProofImpl W F N C env gen pks ws ids pks' ws' ids' prev tss sig_arr (wraps_after W F N C Q env calls))
      = Some (cls, [Some u, Some c])"
  shows "\<exists>pp key genesis prev_ab next_ab hints_vk bv sig v0 ledger.
    build_address_book (pubkey_codec C) pks ws ids = Ok prev_ab \<and> build_address_book (pubkey_codec C) pks' ws' ids' = Ok next_ab \<and>
    deserialize_from_jbyte_array (signature_codec C) sig_arr = Ok (bv, sig) \<and> tss = Some hints_vk \<and>
    rotation_authorised W prev_ab (book_hash W next_ab, compute_hints_vk_hash W hints_vk) bv sig \<and>
    deserialize_from_jbyte_array (base_codec C) gen = Ok genesis \<and> encode (message_codec F) (genesis, v0) = Ok ledger \<and>
    PUBLIC_PARAMS (wraps_after W F N C Q env calls) = Some (Some pp) \<and> setup_compressed_verifier N pp = Ok key \<and>
    (\<forall>later. fst (verifyUncompressedProofImpl W F N (Some u) (Some ledger) tss (wraps_after W F N C Q env (calls @ later)))) \<and>
    (\<forall>later. COMPRESSED_VERIFYING_KEY (wraps_after W F N C Q env (calls @ later)) = Some (Some key) \<longrightarrow>
       fst (verifyCompressedProofImpl W F N (Some c) (Some ledger) tss (wraps_after W F N C Q env (calls @ later)))) \<and>
    (\<forall>key_arr later. COMPRESSED_VERIFYING_KEY (wraps_after W F N C Q env calls) = None \<and>
       deserialize_from_jbyte_array (vk_codec C) key_arr = Ok key \<longrightarrow>
       fst (verifyCompressedProofImpl W F N (Some c) (Some ledger) tss
         (wraps_after W F N C Q env (calls @ LoadCompressedVerifyingKey key_arr # later))))"
proof -
  from assms(4) obtain pp genesis prev_ab next_ab hints_vk bv sig where
    r: "PUBLIC_PARAMS (wraps_after W F N C Q env calls) = Some (Some pp)" "deserialize_from_jbyte_array (base_codec C) gen = Ok genesis"
    "build_address_book (pubkey_codec C) pks ws ids = Ok prev_ab" "build_address_book (pubkey_codec C) pks' ws' ids' = Ok next_ab"
    "tss = Some hints_vk" "deserialize_from_jbyte_array (signature_codec C) sig_arr = Ok (bv, sig)"
    "construct_wraps_proof W F N pp genesis prev_ab next_ab prev hints_vk (bv, sig) = Ok (u, c)"
    by (rule constructWrapsProof_cases)
  have len: "length bv = MAX_AB_SIZE"
    by (rule decoded_bits [OF assms(3) r(6)])
  from construct_wraps_proof_cases [OF assms(1,2) len r(7)] obtain running where
    auth: "rotation_authorised W prev_ab (book_hash W next_ab, compute_hints_vk_hash W hints_vk) bv sig"
    and adv: "advance_chain W F N pp genesis hints_vk \<lparr>rc_prev_ab = prev_ab @ replicate (MAX_AB_SIZE - length prev_ab) (padding_entry W),
            rc_bitvector = bv, rc_sig = sig, rc_msg = (book_hash W next_ab, compute_hints_vk_hash W hints_vk)\<rparr> running = Ok (u, c)"
    by blast
  from advance_chain_verified [OF adv] obtain v0 ledger key where v: "encode (message_codec F) (genesis, v0) = Ok ledger"
    "verify_uncompressed_wraps_proof W F N pp u ledger hints_vk = Ok True" "setup_compressed_verifier N pp = Ok key"
    "verify_compressed_wraps_proof W F N key c ledger hints_vk = Ok True"
    by blast
  have un: "fst (verifyUncompressedProofImpl W F N (Some u) (Some ledger) tss (wraps_after W F N C Q env (calls @ later)))" for later
    using after_keeps(1) [OF refl refl r(1)] v(2) r(5) by (simp add: verifyUncompressedProof_iff)
  have com: "COMPRESSED_VERIFYING_KEY s = Some (Some key) \<Longrightarrow> fst (verifyCompressedProofImpl W F N (Some c) (Some ledger) tss s)" for s
    using v(4) r(5) by (simp add: verifyCompressedProof_iff)
  have "fst (verifyCompressedProofImpl W F N (Some c) (Some ledger) tss (wraps_after W F N C Q env (calls @ LoadCompressedVerifyingKey key_arr # later)))"
    if "COMPRESSED_VERIFYING_KEY (wraps_after W F N C Q env calls) = None" "deserialize_from_jbyte_array (vk_codec C) key_arr = Ok key" for key_arr later
  proof -
    have "COMPRESSED_VERIFYING_KEY (wraps_after W F N C Q env (calls @ [LoadCompressedVerifyingKey key_arr])) = Some (Some key)"
      using loadCompressedVerifyingKey_fills [OF that] by (simp add: wraps_after_def)
    from after_keeps(2) [OF refl refl this, of later] show ?thesis by (intro com) simp
  qed
  with un com r auth v show ?thesis by blast
qed

theorem native_rotation_verifies_witness:
  "\<exists>u c ledger.
     fst (verifyUncompressedProofImpl small_engine small_wire ideal_nova (Some u) (Some ledger) (Some [1])
       (wraps_after small_engine small_wire ideal_nova small_formats small_host small_env [LoadPublicParams (Some [1]), HashArray None])) \<and>
     fst (verifyCompressedProofImpl small_engine small_wire ideal_nova (Some c) (Some ledger) (Some [1])
       (wraps_after small_engine small_wire ideal_nova small_formats small_host small_env
         [LoadPublicParams (Some [1]), LoadCompressedVerifyingKey (Some (wire_bytes (vk_codec small_formats) ())), HashArray None]))"
proof -
  let ?after = "wraps_after small_engine small_wire ideal_nova small_formats small_host small_env"
  obtain u c where "fst (constructWrapsProofImpl small_engine small_wire ideal_nova small_formats small_env
      (Some (wire_bytes (base_codec small_formats) (book_hash small_engine small_book)))
      small_key_arrays (Some [5, 99, 4]) (Some [10, 12, 11]) small_key_arrays (Some [5, 99, 4]) (Some [10, 12, 11])
      None (Some [1]) small_sig_array (?after [LoadPublicParams (Some [1])]))
    = Some (''com/hedera/cryptography/wraps/Proof'', [Some u, Some c])" using small_construct by blast
  from native_rotation_verifies [OF small_engine_ok small_wire_ok small_formats_ok this]
  obtain ledger where un: "\<forall>later. fst (verifyUncompressedProofImpl small_engine small_wire ideal_nova (Some u) (Some ledger) (Some [1])
       (?after ([LoadPublicParams (Some [1])] @ later)))"
    and com: "\<forall>key_arr later. COMPRESSED_VERIFYING_KEY (?after [LoadPublicParams (Some [1])]) = None \<and>
       deserialize_from_jbyte_array (vk_codec small_formats) key_arr = Ok () \<longrightarrow>
       fst (verifyCompressedProofImpl small_engine small_wire ideal_nova (Some c) (Some ledger) (Some [1])
         (?after ([LoadPublicParams (Some [1])] @ LoadCompressedVerifyingKey key_arr # later)))"
    by (metis (full_types) unit.exhaust)
  have "codec_ok (vk_codec small_formats)" using small_formats_ok by (simp add: wraps_formats_ok_def)
  then have key: "deserialize_from_jbyte_array (vk_codec small_formats) (Some (wire_bytes (vk_codec small_formats) ())) = Ok ()"
    by (simp add: deserialize_from_jbyte_array_def wire_bytes)
  from un [rule_format, of "[HashArray None]"] com [rule_format, OF conjI [OF small_no_key key], of "[HashArray None]"]
  show ?thesis by (intro exI conjI) simp_all
qed

end
