(* ===== verification/WrapsZlib.thy ===== *)
theory WrapsZlib
  imports WrapsBase
begin

text \<open>
  The zlib variants of the codec of \<^verbatim>\<open>utils.rs\<close>, \<^verbatim>\<open>_encode_compressed\<close> and \<^verbatim>\<open>_decode_compressed\<close>, which no
  caller uses at present. The library \<^verbatim>\<open>flate2\<close> and the streaming decoder of bincode are parameters.
\<close>

section \<open>Definitions\<close>

text \<open>What a reader yields before it ends or fails.\<close>

type_synonym reader = "bytes \<times> string option"

record zlib =
  deflate :: "bytes \<Rightarrow> (bytes, string) result"
  inflate :: "bytes \<Rightarrow> reader"

text \<open>
  The encoder writes into a vector, so writing does not fail and only finishing the stream may. The
  decoder takes from the stream what the value needs and does not ask whether the stream has ended.
\<close>

definition encode_compressed :: "zlib \<Rightarrow> 'v codec \<Rightarrow> 'v \<Rightarrow> (bytes, wraps_error) result" where
  "encode_compressed Z c v =
     and_then (map_err (\<lambda>e. Cryptography (''serialization failed: '' @ e)) (codec_ser c v)) (\<lambda>bs.
     map_err (\<lambda>e. Cryptography (''deflate failed: '' @ e)) (deflate Z bs))"

definition decode_compressed :: "zlib \<Rightarrow> (reader \<Rightarrow> ('v, string) result) \<Rightarrow> bytes \<Rightarrow> ('v, wraps_error) result" where
  "decode_compressed Z decode_from_std_read bs =
     map_err (\<lambda>e. Cryptography (''deserialization failed: '' @ e)) (decode_from_std_read (inflate Z bs))"

section \<open>Laws\<close>

text \<open>
  Inflating a finished stream yields what was deflated, whatever follows the stream; the streaming
  decoder reads a value from the bytes of its encoding, whatever follows them.
\<close>

definition zlib_ok :: "zlib \<Rightarrow> bool" where
  "zlib_ok Z \<longleftrightarrow> (\<forall>bs. \<exists>zs. deflate Z bs = Ok zs \<and> (\<forall>rest. inflate Z (zs @ rest) = (bs, None)))"

definition reads :: "'v codec \<Rightarrow> (reader \<Rightarrow> ('v, string) result) \<Rightarrow> bool" where
  "reads c decode_from_std_read \<longleftrightarrow>
     (\<forall>v. \<exists>bs. codec_ser c v = Ok bs \<and> (\<forall>rest failure. decode_from_std_read (bs @ rest, failure) = Ok v))"

text \<open>
  Decoding is a left inverse of encoding. Unlike \<open>decode\<close>, it does not notice bytes after the compressed
  value.
\<close>

lemma compressed_roundtrip:
  assumes "zlib_ok Z" "reads c decode_from_std_read"
  shows "\<exists>zs. encode_compressed Z c v = Ok zs \<and> (\<forall>rest. decode_compressed Z decode_from_std_read (zs @ rest) = Ok v)"
proof -
  obtain bs where bs: "codec_ser c v = Ok bs" "decode_from_std_read (bs @ rest, failure) = Ok v" for rest failure
    using assms(2) unfolding reads_def by blast
  obtain zs where "deflate Z bs = Ok zs" "inflate Z (zs @ rest) = (bs, None)" for rest
    using assms(1) unfolding zlib_ok_def by blast
  then show ?thesis using bs(1) bs(2) [of "[]" None] by (simp add: encode_compressed_def decode_compressed_def)
qed

text \<open>The errors: a value that bincode refuses, a stream that does not finish, bytes that do not hold a value.\<close>

lemma compressed_errors:
  "codec_ser c v = Err e \<Longrightarrow> encode_compressed Z c v = Err (Cryptography (''serialization failed: '' @ e))"
  "codec_ser c v = Ok bs \<Longrightarrow> deflate Z bs = Err e \<Longrightarrow> encode_compressed Z c v = Err (Cryptography (''deflate failed: '' @ e))"
  "decode_from_std_read (inflate Z bs) = Err e \<Longrightarrow>
     decode_compressed Z decode_from_std_read bs = Err (Cryptography (''deserialization failed: '' @ e))"
  by (simp_all add: encode_compressed_def decode_compressed_def)

section \<open>An instance\<close>

text \<open>A container that stores every byte after a mark and ends with another mark.\<close>

fun unmark :: "bytes \<Rightarrow> reader" where
  "unmark (m # b # zs) = (if m = 1 then (let (bs, failure) = unmark zs in (b # bs, failure)) else ([], None))"
| "unmark [m] = (if m = 1 then ([], Some ''unexpected end'') else ([], None))"
| "unmark [] = ([], Some ''unexpected end'')"

definition stored_zlib :: zlib where
  "stored_zlib = \<lparr>deflate = \<lambda>bs. Ok (concat (map (\<lambda>b. [1, b]) bs) @ [0]), inflate = unmark\<rparr>"

lemma stored_zlib_ok: "zlib_ok stored_zlib"
proof -
  have "unmark (concat (map (\<lambda>b. [1, b]) bs) @ 0 # rest) = (bs, None)" for bs rest
    by (induction bs) (simp_all, cases rest, simp_all)
  then show ?thesis by (simp add: zlib_ok_def stored_zlib_def)
qed

lemma byte_codec_reads: "reads \<lparr>codec_ser = \<lambda>b. Ok [b], codec_de = \<lambda>bs. Ok (hd bs, 1)\<rparr> (\<lambda>(bs, _). Ok (hd bs))"
  by (simp add: reads_def)

end
