(* ===== verification/ExampleBase.thy ===== *)
theory ExampleBase
  imports JniWraps
begin

text \<open>
  What the two example programs of the rotation crate share: calls that panic on an error, the random
  generator of the thread as explicit state, and the bincode formats of the values that they send
  through a serialization round trip.
\<close>

section \<open>Calls that panic\<close>

text \<open>\<^verbatim>\<open>expect\<close> and \<^verbatim>\<open>unwrap\<close> on a result, and \<^verbatim>\<open>assert!\<close>.\<close>

definition expect :: "('a, 'e) result \<Rightarrow> ('a, 'e) result" where
  "expect r = (case r of Ok v \<Rightarrow> Ok v | _ \<Rightarrow> Panicked)"

definition assert_that :: "bool \<Rightarrow> (unit, 'e) result" where
  "assert_that b = (if b then Ok () else Panicked)"

lemma expect_Ok [simp]: "expect (Ok v) = Ok v" "expect r = Ok v \<longleftrightarrow> r = Ok v"
  by (auto simp: expect_def split: result.splits)

lemma assert_that_Ok [simp]: "assert_that True = Ok ()" "assert_that b = Ok u \<longleftrightarrow> b"
  by (simp_all add: assert_that_def)

section \<open>Random draws\<close>

text \<open>
  \<^verbatim>\<open>rand::thread_rng\<close> is state of the thread: a draw takes the state and returns the next one. Ranges are
  inclusive, and a seed is an array of \<open>ENTROPY_SIZE\<close> bytes.
\<close>

record 'r thread_rng =
  gen_range_usize :: "nat \<Rightarrow> nat \<Rightarrow> 'r \<Rightarrow> nat \<times> 'r"
  gen_range_u64 :: "64 word \<Rightarrow> 64 word \<Rightarrow> 'r \<Rightarrow> 64 word \<times> 'r"
  gen_seed :: "'r \<Rightarrow> bytes \<times> 'r"

definition thread_rng_ok :: "'r thread_rng \<Rightarrow> bool" where
  "thread_rng_ok T \<longleftrightarrow>
     (\<forall>lo hi r. lo \<le> hi \<longrightarrow> fst (gen_range_usize T lo hi r) \<in> {lo..hi}) \<and>
     (\<forall>lo hi r. lo \<le> hi \<longrightarrow> fst (gen_range_u64 T lo hi r) \<in> {lo..hi}) \<and>
     (\<forall>r. length (fst (gen_seed T r)) = ENTROPY_SIZE)"

text \<open>A loop whose body draws, and that stops at the first panic.\<close>

fun collect_rng :: "('a \<Rightarrow> 'r \<Rightarrow> ('b \<times> 'r, 'e) result) \<Rightarrow> 'a list \<Rightarrow> 'r \<Rightarrow> ('b list \<times> 'r, 'e) result" where
  "collect_rng f [] r = Ok ([], r)"
| "collect_rng f (x # xs) r =
     and_then (f x r) (\<lambda>(y, r). and_then (collect_rng f xs r) (\<lambda>(ys, r). Ok (y # ys, r)))"

fun gen_seeds :: "'r thread_rng \<Rightarrow> nat \<Rightarrow> 'r \<Rightarrow> bytes list \<times> 'r" where
  "gen_seeds T 0 r = ([], r)"
| "gen_seeds T (Suc n) r = (let (seed, r) = gen_seed T r; (seeds, r) = gen_seeds T n r in (seed # seeds, r))"

lemma gen_seeds_length: "length (fst (gen_seeds T n r)) = n"
  by (induction n arbitrary: r) (simp_all add: split_def Let_def)

lemma gen_seeds_entropy: "thread_rng_ok T \<Longrightarrow> seed \<in> set (fst (gen_seeds T n r)) \<Longrightarrow> length seed = ENTROPY_SIZE"
  by (induction n arbitrary: r) (auto simp: thread_rng_ok_def split_def Let_def)

section \<open>Formats\<close>

type_synonym ('b, 's, 'g) phase_inputs =
  "signing_protocol_phase \<times> bytes option \<times> bytes \<times> 's option \<times> ('b, 's, 'g) address_book \<times> bit_vector
   \<times> bytes list \<times> bytes list \<times> bytes list"

type_synonym ('b, 's, 'g) construct_inputs =
  "'b \<times> ('b, 's, 'g) address_book \<times> ('b, 's, 'g) address_book \<times> bytes option \<times> bytes \<times> ('b, 's) schnorr_multi_signature"

type_synonym ('b, 's, 'g) verify_inputs =
  "('b, 's, 'g) address_book \<times> bytes \<times> ('b, 's) schnorr_multi_signature"

text \<open>Bincode at each type that a program serializes.\<close>

record ('b, 's, 'g, 'pp, 'vk) example_formats =
  path_format :: "string codec"
  params_format :: "'pp codec"
  key_format :: "'vk codec"
  vec_format :: "bytes codec"
  option_vec_format :: "bytes option codec"
  base_format :: "'b codec"
  bool_format :: "bool codec"
  seed_format :: "bytes codec"
  option_seed_format :: "bytes option codec"
  seeds_format :: "bytes list codec"
  secret_format :: "'s codec"
  option_secret_format :: "'s option codec"
  public_format :: "'g codec"
  pok_format :: "('s, 'g) schnorr_pok codec"
  attested_format :: "('s, 'g) attested_key codec"
  keygen_format :: "('s \<times> ('s, 'g) attested_key) codec"
  entry_format :: "('b, 's, 'g) book_entry codec"
  book_format :: "('b, 's, 'g) address_book codec"
  book_vec_format :: "(('b, 's, 'g) address_book \<times> bytes) codec"
  secrets_format :: "'s list codec"
  weight_format :: "weight codec"
  bits_format :: "bit_vector codec"
  signature_format :: "('b, 's) schnorr_signature codec"
  multisig_format :: "('b, 's) schnorr_multi_signature codec"
  phase_format :: "signing_protocol_phase codec"
  phase_inputs_format :: "('b, 's, 'g) phase_inputs codec"
  object_format :: "('b, 's) signing_protocol_object codec"
  round1_format :: "multisig_round1 codec"
  round2_format :: "'g multisig_round2 codec"
  round3_format :: "('b, 's) multisig_round3 codec"
  messages_format :: "bytes list codec"
  verify_inputs_format :: "('b, 's, 'g) verify_inputs codec"
  construct_inputs_format :: "('b, 's, 'g) construct_inputs codec"
  vec2_format :: "(bytes \<times> bytes) codec"
  vec3_format :: "(bytes \<times> bytes \<times> bytes) codec"

text \<open>
  Documented behaviour of bincode: a value of the type is encoded, and decoded from exactly those
  bytes. Types with arrays of fixed size (seeds, bitvectors) only have values of that size.
\<close>

definition codec_on :: "('v \<Rightarrow> bool) \<Rightarrow> 'v codec \<Rightarrow> bool" where
  "codec_on P c \<longleftrightarrow> (\<forall>v. P v \<longrightarrow> (\<exists>bs. codec_ser c v = Ok bs \<and> codec_de c bs = Ok (v, length bs)))"

lemma codec_ok_on: "codec_ok c \<longleftrightarrow> codec_on (\<lambda>_. True) c"
  by (simp add: codec_ok_def codec_on_def)

definition sized_seed :: "bytes option \<Rightarrow> bool" where
  "sized_seed seed \<longleftrightarrow> (case seed of None \<Rightarrow> True | Some bs \<Rightarrow> length bs = ENTROPY_SIZE)"

fun sized_object :: "('b, 's) signing_protocol_object \<Rightarrow> bool" where
  "sized_object (ProtocolMessage _) = True"
| "sized_object (ProtocolOutput (bv, _)) = (length bv = MAX_AB_SIZE)"

fun sized_inputs :: "('b, 's, 'g) phase_inputs \<Rightarrow> bool" where
  "sized_inputs (_, entropy, _, _, _, bv, _) = (sized_seed entropy \<and> length bv = MAX_AB_SIZE)"

fun sized_construct :: "('b, 's, 'g) construct_inputs \<Rightarrow> bool" where
  "sized_construct (_, _, _, _, _, bv, _) = (length bv = MAX_AB_SIZE)"

fun sized_verify :: "('b, 's, 'g) verify_inputs \<Rightarrow> bool" where
  "sized_verify (_, _, bv, _) = (length bv = MAX_AB_SIZE)"

definition example_formats_ok :: "('b, 's, 'g, 'pp, 'vk) example_formats \<Rightarrow> bool" where
  "example_formats_ok V \<longleftrightarrow>
     codec_ok (path_format V) \<and> codec_ok (params_format V) \<and> codec_ok (key_format V) \<and> codec_ok (vec_format V) \<and>
     codec_ok (option_vec_format V) \<and> codec_ok (base_format V) \<and> codec_ok (bool_format V) \<and>
     codec_on (\<lambda>seed. length seed = ENTROPY_SIZE) (seed_format V) \<and> codec_on sized_seed (option_seed_format V) \<and>
     codec_on (\<lambda>seeds. \<forall>seed \<in> set seeds. length seed = ENTROPY_SIZE) (seeds_format V) \<and>
     codec_ok (secret_format V) \<and> codec_ok (option_secret_format V) \<and> codec_ok (public_format V) \<and> codec_ok (pok_format V) \<and>
     codec_ok (attested_format V) \<and> codec_ok (keygen_format V) \<and> codec_ok (entry_format V) \<and> codec_ok (book_format V) \<and>
     codec_ok (book_vec_format V) \<and> codec_ok (secrets_format V) \<and> codec_ok (weight_format V) \<and>
     codec_on (\<lambda>bv. length bv = MAX_AB_SIZE) (bits_format V) \<and> codec_ok (signature_format V) \<and>
     codec_on (\<lambda>sig. length (fst sig) = MAX_AB_SIZE) (multisig_format V) \<and> codec_ok (phase_format V) \<and>
     codec_on sized_inputs (phase_inputs_format V) \<and> codec_on sized_object (object_format V) \<and>
     codec_ok (round1_format V) \<and> codec_ok (round2_format V) \<and> codec_ok (round3_format V) \<and> codec_ok (messages_format V) \<and>
     codec_on sized_verify (verify_inputs_format V) \<and> codec_on sized_construct (construct_inputs_format V) \<and>
     codec_ok (vec2_format V) \<and> codec_ok (vec3_format V)"

section \<open>Round trips\<close>

definition round_trip :: "'v codec \<Rightarrow> 'v \<Rightarrow> ('v, wraps_error) result" where
  "round_trip c v =
     and_then (expect (encode c v)) (\<lambda>bs.
     and_then (expect (decode c bs)) (\<lambda>decoded.
     and_then (expect (encode c decoded)) (\<lambda>encoded_again.
     and_then (assert_that (bs = encoded_again)) (\<lambda>_. Ok decoded))))"

lemma round_trip_on: "codec_on P c \<Longrightarrow> P v \<Longrightarrow> round_trip c v = Ok v"
proof -
  assume "codec_on P c" "P v"
  then obtain bs where "codec_ser c v = Ok bs" "codec_de c bs = Ok (v, length bs)" by (auto simp: codec_on_def)
  then show ?thesis by (simp add: round_trip_def encode_def decode_def)
qed

lemma round_trip_ok: "codec_ok c \<Longrightarrow> round_trip c v = Ok v"
  unfolding codec_ok_on by (erule round_trip_on) simp

lemma round_trip_formats:
  assumes "example_formats_ok V"
  shows "round_trip (path_format V) a = Ok a" "round_trip (params_format V) b = Ok b" "round_trip (vec_format V) c = Ok c"
    "round_trip (option_vec_format V) d = Ok d" "round_trip (base_format V) e = Ok e" "round_trip (bool_format V) f = Ok f"
    "round_trip (secret_format V) g = Ok g" "round_trip (option_secret_format V) h = Ok h"
    "round_trip (public_format V) i = Ok i" "round_trip (pok_format V) j = Ok j" "round_trip (attested_format V) k = Ok k"
    "round_trip (keygen_format V) l = Ok l" "round_trip (entry_format V) m = Ok m" "round_trip (book_format V) n = Ok n"
    "round_trip (book_vec_format V) o1 = Ok o1" "round_trip (secrets_format V) p = Ok p"
    "round_trip (signature_format V) q = Ok q" "round_trip (phase_format V) s = Ok s"
    "round_trip (round1_format V) t = Ok t" "round_trip (round2_format V) u = Ok u" "round_trip (round3_format V) w = Ok w"
    "round_trip (messages_format V) x = Ok x" "round_trip (vec2_format V) y = Ok y" "round_trip (vec3_format V) z = Ok z"
  using assms by (simp_all add: example_formats_ok_def round_trip_ok)

lemma round_trip_sized:
  assumes "example_formats_ok V"
  shows "length seed = ENTROPY_SIZE \<Longrightarrow> round_trip (seed_format V) seed = Ok seed"
    "sized_seed entropy \<Longrightarrow> round_trip (option_seed_format V) entropy = Ok entropy"
    "\<forall>seed \<in> set seeds. length seed = ENTROPY_SIZE \<Longrightarrow> round_trip (seeds_format V) seeds = Ok seeds"
    "length bv = MAX_AB_SIZE \<Longrightarrow> round_trip (bits_format V) bv = Ok bv"
    "length (fst ms) = MAX_AB_SIZE \<Longrightarrow> round_trip (multisig_format V) ms = Ok ms"
    "sized_inputs inputs \<Longrightarrow> round_trip (phase_inputs_format V) inputs = Ok inputs"
    "sized_object obj \<Longrightarrow> round_trip (object_format V) obj = Ok obj"
    "sized_verify vi \<Longrightarrow> round_trip (verify_inputs_format V) vi = Ok vi"
    "sized_construct ci \<Longrightarrow> round_trip (construct_inputs_format V) ci = Ok ci"
  using assms by (simp_all add: example_formats_ok_def round_trip_on [where P = "\<lambda>seed. length seed = ENTROPY_SIZE"]
      round_trip_on [where P = sized_seed] round_trip_on [where P = "\<lambda>bv. length bv = MAX_AB_SIZE"]
      round_trip_on [where P = "\<lambda>sig. length (fst sig) = MAX_AB_SIZE"] round_trip_on [where P = sized_inputs]
      round_trip_on [where P = sized_object] round_trip_on [where P = sized_verify] round_trip_on [where P = sized_construct]
      round_trip_on [where P = "\<lambda>seeds. \<forall>seed \<in> set seeds. length seed = ENTROPY_SIZE"])

end
