(* ===== verification/ExampleSession.thy ===== *)
theory ExampleSession
  imports ExampleBase
begin

text \<open>
  Committees as the example programs generate them, an honest signing session over one, and the
  rejection of a minority by \<open>construct_wraps_proof\<close>.
\<close>

section \<open>Committees\<close>

text \<open>A book and the secret keys of its members: occupied seats with different, attested keys.\<close>

definition committee ::
  "('b::field, 's::field, 'g::ab_group_add, 'rng) engine \<Rightarrow> ('b, 's, 'g) address_book \<Rightarrow> 's list \<Rightarrow> bool" where
  "committee W ab keys \<longleftrightarrow>
     length ab \<le> MAX_AB_SIZE \<and> map book_key ab = map (ge_mul W (ge_gen W)) keys \<and>
     distinct (map book_key ab) \<and> 0 \<notin> set (map book_key ab) \<and>
     (\<forall>entry \<in> set ab. verify_knowledge W (book_key entry) (book_pok entry)) \<and> total_weight_of W ab < 2 ^ 64"

definition selected :: "'k list \<Rightarrow> bit_vector \<Rightarrow> 'k list" where
  "selected keys bv = map fst (filter snd (zip keys bv))"

lemma selected_map: "selected (map f xs) bv = map f (selected xs bv)"
proof (induction xs arbitrary: bv)
  case (Cons x xs)
  then show ?case by (cases bv) (simp_all add: selected_def)
qed (simp add: selected_def)

lemma committee_lengths: "committee W ab keys \<Longrightarrow> length keys = length ab"
  by (metis committee_def length_map)

lemma committee_occupied:
  fixes W :: "('b::field, 's::field, 'g::ab_group_add, 'rng) engine"
  assumes "engine_ok W" "committee W ab keys" "entry \<in> set ab"
  shows "\<not> is_infinity W (book_key entry)"
  using assms by (auto simp: committee_def infinity_iff)

lemma committee_valid:
  fixes W :: "('b::field, 's::field, 'g::ab_group_add, 'rng) engine"
  assumes "engine_ok W" "committee W ab keys"
  shows "verify_address_book W ab"
proof -
  have "live_entries W ab = ab" using committee_occupied [OF assms] by (simp add: live_entries_alt)
  then show ?thesis using assms(2) unfolding committee_def verify_address_book_iff by metis
qed

lemma occupied_signers:
  assumes "\<forall>entry \<in> set ab. \<not> is_infinity W (book_key entry)"
  shows "reject_sentinel_signers W ab bv = Ok ()" "signing_subset W ab bv = selected (map book_key ab) bv"
proof -
  show rej: "reject_sentinel_signers W ab bv = Ok ()" using assms by (auto simp: reject_sentinel_iff dest: set_zip_leftD)
  show "signing_subset W ab bv = selected (map book_key ab) bv"
    unfolding signing_subset_all [OF rej] selected_map by (simp add: selected_def)
qed

lemma committee_signers:
  fixes W :: "('b::field, 's::field, 'g::ab_group_add, 'rng) engine"
  assumes ok: "engine_ok W" and com: "committee W ab keys" and len: "length bv = MAX_AB_SIZE"
    and sel: "\<not> selects_beyond bv (length ab)"
  shows "signing_set W ab bv bv" "signing_subset W ab bv = map (ge_mul W (ge_gen W)) (selected keys bv)"
proof -
  note occ = occupied_signers [of ab W bv]
  show "signing_set W ab bv bv"
    using sel len committee_valid [OF ok com] pad_bitvector_eq [of bv] occ(1) committee_occupied [OF ok com] by (simp add: signing_set_def)
  have "signing_subset W ab bv = selected (map book_key ab) bv" using occ(2) committee_occupied [OF ok com] by blast
  also have "\<dots> = map (ge_mul W (ge_gen W)) (selected keys bv)"
    using com by (simp add: committee_def selected_map)
  finally show "signing_subset W ab bv = map (ge_mul W (ge_gen W)) (selected keys bv)" .
qed

section \<open>Sessions\<close>

text \<open>The sum of the nonce points of a session.\<close>

definition joint_nonce :: "('b, 's, 'g::ab_group_add, 'rng) engine \<Rightarrow> bytes list \<Rightarrow> 'b rotation_message \<Rightarrow> 'g" where
  "joint_nonce W seeds message = (\<Sum>seed\<leftarrow>seeds. ge_mul W (ge_gen W) (multisig_nonce W seed (message_slice message)))"

lemma session_joint_nonce:
  "length seeds = length sks \<Longrightarrow>
    (\<Sum>r\<leftarrow>session_round2 W (message_slice message) (zip seeds sks). nonce_point r) = joint_nonce W seeds message"
  by (induction seeds sks rule: list_induct2) (simp_all add: session_round2_def joint_nonce_def multisig_round2_of_def)

lemma session_keys_zip:
  "length seeds = length sks \<Longrightarrow> session_keys W (zip seeds sks) = map (ge_mul W (ge_gen W)) sks"
  by (induction seeds sks rule: list_induct2) (simp_all add: session_keys_def)

lemma aggregate_degenerate:
  fixes W :: "('b::field, 's::field, 'g::ab_group_add, 'rng) engine" and F :: "('b, 's, 'g, 'rs, 'cs) wire"
  assumes ok: "engine_ok W" and r2: "decode_round_messages F ms2 ''round-2'' payload2 = Ok round2"
    and agg: "signing_protocol W F Aggregate entropy bs key ab bits ms1 ms2 ms3 = Ok (ProtocolOutput (bv, sig))"
  shows "degenerate_nonce W (sum_list (signing_subset W ab bv)) sig \<longleftrightarrow> (\<Sum>r\<leftarrow>round2. nonce_point r) = 0"
proof -
  obtain message round1 round3 where
    "multisig_aggregate W (message_slice message) (signing_subset W ab bv) round1 round2 round3 = Ok sig"
    using agg r2 by (auto simp: signing_protocol_iff run_phase_def)
  from aggregate_nonce_sum [OF ok this] show ?thesis by (auto simp: degenerate_nonce_def)
qed

text \<open>The bytes that a round returns are the encoding of a message of that round.\<close>

lemma phase_messages:
  "signing_protocol W F R1 entropy bs key ab bits ms1 ms2 ms3 = Ok (ProtocolMessage m) \<Longrightarrow> \<exists>p. encode (round_codec F) (Round1 p) = Ok m"
  "signing_protocol W F R2 entropy bs key ab bits ms1 ms2 ms3 = Ok (ProtocolMessage m) \<Longrightarrow> \<exists>p. encode (round_codec F) (Round2 p) = Ok m"
  "signing_protocol W F R3 entropy bs key ab bits ms1 ms2 ms3 = Ok (ProtocolMessage m) \<Longrightarrow> \<exists>p. encode (round_codec F) (Round3 p) = Ok m"
  by (auto simp: signing_protocol_iff run_phase_def encode_protocol_message_def Let_def split: if_splits)

lemma decode_encoded: "codec_ok c \<Longrightarrow> encode c v = Ok bs \<Longrightarrow> decode c bs = Ok v"
  using wire_bytes [of c v] by auto

text \<open>The members that the bits select run the three rounds, each with a seed of its own.\<close>

lemma committee_session:
  fixes W :: "('b::field, 's::field, 'g::ab_group_add, 'rng) engine" and F :: "('b, 's, 'g, 'rs, 'cs) wire"
  assumes ok: "engine_ok W" and wf: "wire_ok F" and com: "committee W ab keys"
    and len: "length bv = MAX_AB_SIZE" and sel: "\<not> selects_beyond bv (length ab)"
    and seeds: "length seeds = length (selected keys bv)" and nz: "sum_list (signing_subset W ab bv) \<noteq> 0"
    and msg: "decode_rotation_message F bs = Ok message"
  obtains ms1 ms2 ms3 sig where
    "length ms1 = length seeds" "length ms2 = length seeds" "length ms3 = length seeds"
    "\<forall>i < length seeds. signing_protocol W F R1 (Some (seeds ! i)) bs None ab bv [] [] [] = Ok (ProtocolMessage (ms1 ! i))"
    "\<forall>i < length seeds. signing_protocol W F R2 (Some (seeds ! i)) bs None ab bv ms1 [] [] = Ok (ProtocolMessage (ms2 ! i))"
    "\<forall>i < length seeds. signing_protocol W F R3 (Some (seeds ! i)) bs (Some (selected keys bv ! i)) ab bv ms1 ms2 [] = Ok (ProtocolMessage (ms3 ! i))"
    "signing_protocol W F Aggregate None bs None ab bv ms1 ms2 ms3 = Ok (ProtocolOutput (bv, sig))"
    "verify_signature W F ab bs (bv, sig) = Ok (total_weight_of W ab < 2 * signing_weight_of W ab bv)"
    "degenerate_nonce W (sum_list (signing_subset W ab bv)) sig \<longleftrightarrow> joint_nonce W seeds message = 0"
proof -
  let ?ses = "zip seeds (selected keys bv)" and ?m = "message_slice message"
  have rc: "codec_ok (round_codec F)" using wf by (simp add: wire_ok_def)
  note set = committee_signers [OF ok com len sel]
  have keys: "signing_subset W ab bv = session_keys W ?ses" using set(2) session_keys_zip [OF seeds, of W] by simp
  have nz': "sum_list (session_keys W ?ses) \<noteq> 0" using nz keys by simp
  let ?ms1 = "sent1 F (session_round1 W ?m ?ses)" and ?ms2 = "sent2 F (session_round2 W ?m ?ses)"
  obtain ms3 sig where s: "length ms3 = length ?ses"
    "\<forall>i < length ?ses.
       signing_protocol W F R1 (Some (fst (?ses ! i))) bs None ab bv [] [] [] = Ok (ProtocolMessage (?ms1 ! i)) \<and>
       signing_protocol W F R2 (Some (fst (?ses ! i))) bs None ab bv ?ms1 [] [] = Ok (ProtocolMessage (?ms2 ! i)) \<and>
       signing_protocol W F R3 (Some (fst (?ses ! i))) bs (Some (snd (?ses ! i))) ab bv ?ms1 ?ms2 [] = Ok (ProtocolMessage (ms3 ! i))"
    "signing_protocol W F Aggregate None bs None ab bv ?ms1 ?ms2 ms3 = Ok (ProtocolOutput (bv, sig))"
    using honest_session [OF ok rc set(1) keys nz' msg] by blast
  have "degenerate_nonce W (sum_list (signing_subset W ab bv)) sig \<longleftrightarrow> joint_nonce W seeds message = 0"
    using aggregate_degenerate [OF ok sent_messages(2) [OF rc] s(3)] session_joint_nonce [OF seeds, of W message] by simp
  then show thesis
    using that [of ?ms1 ?ms2 ms3 sig] s seeds aggregate_output [OF ok s(3)] by simp
qed

section \<open>Minorities\<close>

text \<open>Construction refuses a signature of a minority before it touches the folding scheme.\<close>

lemma construct_refuses_minority:
  fixes W :: "('b::field, 's::field, 'g::ab_group_add, 'rng) engine" and F :: "('b, 's, 'g, 'rs, 'cs) wire"
    and N :: "('b, 's, 'g, 'pp, 'rs, 'cs, 'pk, 'vk) nova"
  assumes ok: "engine_ok W" and wf: "wire_ok F" and len: "length bv = MAX_AB_SIZE"
    and valid: "verify_address_book W prev_ab" "verify_address_book W next_ab" and sel: "\<not> selects_beyond bv (length prev_ab)"
    and live: "reject_sentinel_signers W prev_ab bv = Ok ()"
    and minor: "2 * signing_weight_of W prev_ab bv \<le> total_weight_of W prev_ab"
  shows "\<exists>e. construct_wraps_proof W F N pp genesis prev_ab next_ab prev_proof hints_vk (bv, sig) = Err e"
proof -
  let ?p = "\<lambda>ab. ab @ replicate (MAX_AB_SIZE - length ab) (padding_entry W)"
  let ?message = "(book_hash W next_ab, compute_hints_vk_hash W hints_vk)"
  have fits: "length prev_ab \<le> MAX_AB_SIZE" "length next_ab \<le> MAX_AB_SIZE" using valid book_fits by blast+
  have rm: "compute_rotation_message W F (?p next_ab) hints_vk = Ok (wire_bytes (message_codec F) ?message)"
    using wf valid(2) fits verify_address_book_padded [OF ok fits(2)] book_hash_padded [of next_ab "MAX_AB_SIZE - length next_ab" W]
    by (simp add: compute_rotation_message_def compute_addressbook_hash_eq wire_ok_def wire_bytes)
  have dm: "decode_rotation_message F (wire_bytes (message_codec F) ?message) = Ok ?message"
    using wf by (simp add: decode_rotation_message_iff wire_ok_def wire_bytes)
  have drop: "\<forall>b \<in> set (drop (length prev_ab) bv). \<not> b" using sel by (auto simp: selects_beyond_def)
  have rej: "reject_sentinel_signers W (?p prev_ab) bv = Ok ()" using live by (simp add: reject_sentinel_padded [OF drop])
  have "\<not> rotation_authorised W (?p prev_ab) ?message bv sig"
    using minor unfolding rotation_authorised_padded [OF ok len valid(1) sel] by (simp add: rotation_authorised_def)
  then have vs: "verify_signature W F (?p prev_ab) (wire_bytes (message_codec F) ?message) (bv, sig) = Ok False"
    using verify_signature_eq [OF ok len dm disjI1 [OF rej]] by simp
  then show ?thesis using valid sel fits by (simp add: construct_wraps_proof_def pad_address_book_eq rm vs Let_def)
qed

end
