(* ===== verification/Demo.thy ===== *)
theory Demo
  imports ExampleSession
begin

text \<open>
  The program \<^verbatim>\<open>examples/demo.rs\<close>: a genesis committee that rotates onto itself and nine further
  rotations, with a serialized checkpoint as the only state between them. Every \<^verbatim>\<open>expect\<close>, \<^verbatim>\<open>unwrap\<close>,
  \<^verbatim>\<open>assert!\<close> and \<^verbatim>\<open>unreachable!\<close> is a panic of the model. What is printed and timed is left out.
\<close>

section \<open>Checkpoints\<close>

record ('b, 's, 'g, 'pp) demo_state =
  ds_pp :: 'pp
  ds_ab_genesis_hash :: 'b
  ds_ledger_id :: bytes
  ds_prev :: "('b, 's, 'g) address_book \<times> 's list"
  ds_running_proof :: "bytes option"
  ds_completed_rotations :: nat

definition save_checkpoint :: "('b, 's, 'g, 'pp) demo_state codec \<Rightarrow> ('b, 's, 'g, 'pp) demo_state \<Rightarrow> (bytes, wraps_error) result" where
  "save_checkpoint C state = expect (encode C state)"

definition restore_checkpoint :: "('b, 's, 'g, 'pp) demo_state codec \<Rightarrow> bytes \<Rightarrow> (('b, 's, 'g, 'pp) demo_state, wraps_error) result" where
  "restore_checkpoint C bs =
     and_then (expect (decode C bs)) (\<lambda>state.
     and_then (expect (encode C state)) (\<lambda>bs'.
     and_then (assert_that (bs' = bs)) (\<lambda>_. Ok state)))"

section \<open>Committees\<close>

text \<open>One seat of a random book; the values of seat 0 are sent through a round trip.\<close>

definition draw_seat ::
  "('b::field, 's::field, 'g, 'pp, 'vk) example_formats \<Rightarrow> ('b, 's, 'g, 'rng) engine \<Rightarrow> 'r thread_rng \<Rightarrow> nat \<Rightarrow> 'r
   \<Rightarrow> ((('b, 's, 'g) book_entry \<times> 's) \<times> 'r, wraps_error) result" where
  "draw_seat V W T i r =
     (let (seed, r) = gen_seed T r in
      and_then (if i = 0 then round_trip (seed_format V) seed else Ok seed) (\<lambda>seed.
      let generated = wraps_keygen W seed in
      and_then (if i = 0 then round_trip (keygen_format V) generated else Ok generated) (\<lambda>(sk, attested).
      and_then (if i = 0
          then and_then (round_trip (secret_format V) sk) (\<lambda>sk.
            let (pk, pok) = attested in
            and_then (round_trip (public_format V) pk) (\<lambda>pk.
            and_then (round_trip (pok_format V) pok) (\<lambda>pok. Ok (sk, (pk, pok)))))
          else Ok (sk, attested)) (\<lambda>(sk, attested).
      let (weight, r) = gen_range_u64 T 475 525 r;
          entry = (of_nat i, attested, weight) in
      and_then (if i = 0 then round_trip (entry_format V) entry else Ok entry) (\<lambda>entry. Ok ((entry, sk), r))))))"

definition random_address_book ::
  "('b::field, 's::field, 'g, 'pp, 'vk) example_formats \<Rightarrow> ('b, 's, 'g, 'rng) engine \<Rightarrow> 'r thread_rng \<Rightarrow> 'r
   \<Rightarrow> ((('b, 's, 'g) address_book \<times> 's list) \<times> 'r, wraps_error) result" where
  "random_address_book V W T r =
     (let (book_size, r) = gen_range_usize T (MAX_AB_SIZE div 4) MAX_AB_SIZE r in
      and_then (collect_rng (draw_seat V W T) [0..<book_size] r) (\<lambda>(seats, r).
      and_then (round_trip (book_format V) (map fst seats)) (\<lambda>ab.
      and_then (round_trip (secrets_format V) (map snd seats)) (\<lambda>keys. Ok ((ab, keys), r)))))"

definition sufficient_bitvector :: "nat \<Rightarrow> bit_vector" where
  "sufficient_bitvector book_size = map (\<lambda>i. i < book_size \<and> (i mod 2 = 0 \<or> i mod 3 = 0)) [0..<MAX_AB_SIZE]"

definition insufficient_bitvector :: "nat \<Rightarrow> bit_vector" where
  "insufficient_bitvector book_size = map (\<lambda>i. i < book_size \<and> i mod 3 = 0) [0..<MAX_AB_SIZE]"

section \<open>Signing\<close>

text \<open>
  The closure \<^verbatim>\<open>run\<close> of \<open>threshold_sign\<close>: one phase of the protocol, with its inputs and its output sent
  through a round trip for the first signer and the aggregator when sizes are reported.
\<close>

definition run_signer ::
  "('b::field, 's::field, 'g::ab_group_add, 'pp, 'vk) example_formats \<Rightarrow> ('b, 's, 'g, 'rng) engine \<Rightarrow> ('b, 's, 'g, 'rs, 'cs) wire
   \<Rightarrow> bytes list \<Rightarrow> bytes \<Rightarrow> ('b, 's, 'g) address_book \<Rightarrow> bit_vector \<Rightarrow> bool \<Rightarrow> signing_protocol_phase \<Rightarrow> nat option \<Rightarrow> 's option
   \<Rightarrow> bytes list \<Rightarrow> bytes list \<Rightarrow> bytes list \<Rightarrow> (('b, 's) signing_protocol_object, wraps_error) result" where
  "run_signer V W F seeds message ab bitvector report_serialization phase i sk r1 r2 r3 =
     (let report = report_serialization \<and> (case i of None \<Rightarrow> True | Some i \<Rightarrow> i = 0) in
      and_then (case i of None \<Rightarrow> Ok None | Some i \<Rightarrow> and_then (index seeds i) (\<lambda>seed. Ok (Some seed))) (\<lambda>entropy.
      let inputs = (phase, entropy, message, sk, ab, bitvector, r1, r2, r3) in
      and_then (if report then round_trip (phase_inputs_format V) inputs else Ok inputs)
        (\<lambda>(phase, entropy, message, sk, book, bits, r1, r2, r3).
      and_then (expect (signing_protocol W F phase entropy message sk book bits r1 r2 r3)) (\<lambda>output.
      if report then round_trip (object_format V) output else Ok output))))"

text \<open>The matches on the result of a phase, with the other variant \<^verbatim>\<open>unreachable!\<close>.\<close>

fun protocol_message :: "('b, 's) signing_protocol_object \<Rightarrow> (bytes, wraps_error) result" where
  "protocol_message (ProtocolMessage m) = Ok m"
| "protocol_message (ProtocolOutput _) = Panicked"

fun protocol_output :: "('b, 's) signing_protocol_object \<Rightarrow> (('b, 's) schnorr_multi_signature, wraps_error) result" where
  "protocol_output (ProtocolOutput sig) = Ok sig"
| "protocol_output (ProtocolMessage _) = Panicked"

text \<open>The size report of a broadcast: its first message is decoded and its payload inspected.\<close>

definition report_round ::
  "('b, 's, 'g, 'pp, 'vk) example_formats \<Rightarrow> ('b, 's, 'g, 'rs, 'cs) wire \<Rightarrow> (('b, 's, 'g) round_message \<Rightarrow> 'p option)
   \<Rightarrow> ('p \<Rightarrow> ('p, wraps_error) result) \<Rightarrow> bytes list \<Rightarrow> (bytes list, wraps_error) result" where
  "report_round V F payload_of inspect broadcast =
     and_then (index broadcast 0) (\<lambda>m.
     and_then (expect (decode (round_codec F) m)) (\<lambda>wire.
     and_then (round_trip (round_codec F) wire) (\<lambda>wire.
     and_then (unwrap (payload_of wire)) (\<lambda>payload.
     and_then (inspect payload) (\<lambda>_. round_trip (messages_format V) broadcast)))))"

definition inspect_round3 ::
  "('b, 's, 'g, 'pp, 'vk) example_formats \<Rightarrow> ('b, 's) multisig_round3 \<Rightarrow> (('b, 's) multisig_round3, wraps_error) result" where
  "inspect_round3 V payload =
     and_then (round_trip (round3_format V) payload) (\<lambda>payload.
     and_then (round_trip (signature_format V) (partial_signature payload)) (\<lambda>_. Ok payload))"

definition threshold_sign ::
  "('b::field, 's::field, 'g::ab_group_add, 'pp, 'vk) example_formats \<Rightarrow> ('b, 's, 'g, 'rng) engine \<Rightarrow> ('b, 's, 'g, 'rs, 'cs) wire
   \<Rightarrow> 'r thread_rng \<Rightarrow> bytes \<Rightarrow> ('b, 's, 'g) address_book \<Rightarrow> 's list \<Rightarrow> bit_vector \<Rightarrow> bool \<Rightarrow> 'r
   \<Rightarrow> (('b, 's) schnorr_multi_signature \<times> 'r, wraps_error) result" where
  "threshold_sign V W F T message ab keys bitvector report_serialization r =
     (let signing_keys = map fst (filter snd (zip keys bitvector));
          n = length signing_keys;
          (seeds, r) = gen_seeds T n r;
          run = run_signer V W F seeds message ab bitvector report_serialization in
      and_then (collect (\<lambda>i. and_then (run R1 (Some i) None [] [] []) protocol_message) [0..<n]) (\<lambda>round1.
      and_then (if report_serialization then report_round V F payload1 (round_trip (round1_format V)) round1 else Ok round1) (\<lambda>round1.
      and_then (collect (\<lambda>i. and_then (run R2 (Some i) None round1 [] []) protocol_message) [0..<n]) (\<lambda>round2.
      and_then (if report_serialization then report_round V F payload2 (round_trip (round2_format V)) round2 else Ok round2) (\<lambda>round2.
      and_then (collect (\<lambda>i. and_then (index signing_keys i) (\<lambda>sk.
          and_then (run R3 (Some i) (Some sk) round1 round2 []) protocol_message)) [0..<n]) (\<lambda>round3.
      and_then (if report_serialization then report_round V F payload3 (inspect_round3 V) round3 else Ok round3) (\<lambda>round3.
      and_then (and_then (run Aggregate None None round1 round2 round3) protocol_output) (\<lambda>sig.
      and_then (if report_serialization then round_trip (multisig_format V) sig else Ok sig) (\<lambda>sig. Ok (sig, r))))))))))"

section \<open>The program\<close>

definition ptau_dir :: "string option \<Rightarrow> string" where
  "ptau_dir env_var = (case env_var of Some dir \<Rightarrow> dir | None \<Rightarrow> ''params'')"

definition held_open_book ::
  "('s, 'g) attested_key \<Rightarrow> ('b::field, 's, 'g) address_book \<Rightarrow> ('b, 's, 'g) address_book" where
  "held_open_book sentinel ab =
     map (\<lambda>(i, entry). if i < 4 then (of_nat i, sentinel, 0) else entry) (zip [0..<length ab] ab)"

text \<open>From the start of \<^verbatim>\<open>main\<close> to the first checkpoint.\<close>

definition demo_start ::
  "('b::field, 's::field, 'g::ab_group_add, 'pp, 'vk) example_formats \<Rightarrow> ('b, 's, 'g, 'pp) demo_state codec
   \<Rightarrow> ('b, 's, 'g, 'rng) engine \<Rightarrow> ('b, 's, 'g, 'rs, 'cs) wire \<Rightarrow> ('b, 's, 'g, 'pp, 'rs, 'cs, 'pk, 'vk) nova
   \<Rightarrow> ('b, 's, 'g, 'rng, 'pp) wraps_host \<Rightarrow> 'r thread_rng \<Rightarrow> string option \<Rightarrow> 'r \<Rightarrow> (bytes \<times> 'r, wraps_error) result" where
  "demo_start V C W F N Q T env_var r =
     and_then (round_trip (path_format V) (ptau_dir env_var)) (\<lambda>dir.
     and_then (expect (load_public_params W Q dir)) (\<lambda>pp.
     and_then (round_trip (params_format V) pp) (\<lambda>pp.
     and_then (expect (setup_compressed_verifier N pp)) (\<lambda>vk.
     and_then (expect (encode (key_format V) vk)) (\<lambda>vk_bytes.
     and_then (round_trip (vec_format V) vk_bytes) (\<lambda>vk_bytes.
     and_then (random_address_book V W T r) (\<lambda>((genesis_ab, genesis_keys), r).
     and_then (and_then (expect (compute_addressbook_hash W genesis_ab)) (round_trip (base_format V))) (\<lambda>ab_genesis_hash.
     and_then (and_then (expect (compute_rotation_message W F genesis_ab (replicate 1248 0))) (round_trip (vec_format V))) (\<lambda>ledger_id.
     and_then (round_trip (attested_format V) (sentinel_keygen W)) (\<lambda>sentinel.
     and_then (round_trip (book_format V) (held_open_book sentinel genesis_ab)) (\<lambda>held_open.
     and_then (and_then (expect (compute_addressbook_hash W held_open)) (round_trip (base_format V))) (\<lambda>_.
     and_then (save_checkpoint C
       \<lparr>ds_pp = pp, ds_ab_genesis_hash = ab_genesis_hash, ds_ledger_id = ledger_id, ds_prev = (genesis_ab, genesis_keys),
        ds_running_proof = None, ds_completed_rotations = 0\<rparr>) (\<lambda>checkpoint. Ok (checkpoint, r))))))))))))))"

text \<open>One turn of the loop: the message of the rotation, its checks, and the signature of the majority.\<close>

definition demo_sign ::
  "('b::field, 's::field, 'g::ab_group_add, 'pp, 'vk) example_formats \<Rightarrow> ('b, 's, 'g, 'rng) engine \<Rightarrow> ('b, 's, 'g, 'rs, 'cs) wire
   \<Rightarrow> 'r thread_rng \<Rightarrow> ('b, 's, 'g, 'pp) demo_state \<Rightarrow> ('b, 's, 'g) address_book \<Rightarrow> 'r
   \<Rightarrow> ((bytes \<times> bytes \<times> ('b, 's) schnorr_multi_signature) \<times> 'r, wraps_error) result" where
  "demo_sign V W F T state next_ab r =
     (let i = ds_completed_rotations state; (prev_ab, prev_keys) = ds_prev state in
      and_then (round_trip (vec_format V) (replicate 1248 (of_nat i))) (\<lambda>hints_vk.
      and_then (round_trip (base_format V) (compute_hints_vk_hash W hints_vk)) (\<lambda>hints_vk_hash.
      and_then (and_then (expect (compute_rotation_message W F next_ab hints_vk)) (round_trip (vec_format V))) (\<lambda>message.
      and_then (and_then (expect (decode (message_codec F) message)) (round_trip (message_codec F))) (\<lambda>decoded_message.
      and_then (assert_that (snd decoded_message = hints_vk_hash)) (\<lambda>_.
      and_then (expect (encode (message_codec F) decoded_message)) (\<lambda>encoded.
      and_then (assert_that (encoded = message)) (\<lambda>_.
      and_then (assert_that (i = 0 \<longrightarrow> message = ds_ledger_id state)) (\<lambda>_.
      and_then (round_trip (bits_format V) (sufficient_bitvector (length prev_ab))) (\<lambda>bitvector.
      and_then (threshold_sign V W F T message prev_ab prev_keys bitvector True r) (\<lambda>(multisignature, r).
      and_then (round_trip (verify_inputs_format V) (prev_ab, message, multisignature)) (\<lambda>(signing_book, signed_message, signature).
      and_then (and_then (expect (verify_signature W F signing_book signed_message signature)) (round_trip (bool_format V))) (\<lambda>verified.
      and_then (assert_that verified) (\<lambda>_. Ok ((hints_vk, message, multisignature), r)))))))))))))))"

text \<open>The construction of the proof and its verification in both forms; the running proof is the result.\<close>

definition demo_prove ::
  "('b::field, 's::field, 'g::ab_group_add, 'pp, 'vk) example_formats \<Rightarrow> ('b, 's, 'g, 'rng) engine \<Rightarrow> ('b, 's, 'g, 'rs, 'cs) wire
   \<Rightarrow> ('b, 's, 'g, 'pp, 'rs, 'cs, 'pk, 'vk) nova \<Rightarrow> ('b, 's, 'g, 'pp) demo_state \<Rightarrow> 'vk \<Rightarrow> ('b, 's, 'g) address_book \<Rightarrow> bytes
   \<Rightarrow> ('b, 's) schnorr_multi_signature \<Rightarrow> (bytes, wraps_error) result" where
  "demo_prove V W F N state wraps_vk next_ab hints_vk multisignature =
     (let pp = ds_pp state in
      and_then (round_trip (construct_inputs_format V)
          (ds_ab_genesis_hash state, fst (ds_prev state), next_ab, ds_running_proof state, hints_vk, multisignature))
        (\<lambda>(genesis_hash, prev_ab, next_ab, prev_proof, proof_hints_vk, proof_signature).
      and_then (expect (construct_wraps_proof W F N pp genesis_hash prev_ab next_ab prev_proof proof_hints_vk proof_signature))
        (\<lambda>(uncompressed, compressed).
      and_then (round_trip (vec2_format V) (uncompressed, compressed)) (\<lambda>(uncompressed, compressed).
      and_then (round_trip (vec3_format V) (compressed, ds_ledger_id state, hints_vk)) (\<lambda>(prf, verifier_ledger_id, verifier_hints_vk).
      and_then (expect (verify_compressed_wraps_proof W F N wraps_vk prf verifier_ledger_id verifier_hints_vk)) (\<lambda>verified.
      and_then (round_trip (bool_format V) verified) (\<lambda>verified.
      and_then (assert_that verified) (\<lambda>_.
      and_then (round_trip (vec3_format V) (uncompressed, ds_ledger_id state, hints_vk)) (\<lambda>(uncompressed, verifier_ledger_id, verifier_hints_vk).
      and_then (expect (verify_uncompressed_wraps_proof W F N pp uncompressed verifier_ledger_id verifier_hints_vk)) (\<lambda>verified.
      and_then (round_trip (bool_format V) verified) (\<lambda>verified.
      and_then (assert_that verified) (\<lambda>_. Ok uncompressed))))))))))))"

text \<open>A committee below the threshold signs as well, and its signature must be refused.\<close>

definition demo_minority ::
  "('b::field, 's::field, 'g::ab_group_add, 'pp, 'vk) example_formats \<Rightarrow> ('b, 's, 'g, 'rng) engine \<Rightarrow> ('b, 's, 'g, 'rs, 'cs) wire
   \<Rightarrow> ('b, 's, 'g, 'pp, 'rs, 'cs, 'pk, 'vk) nova \<Rightarrow> 'r thread_rng \<Rightarrow> ('b, 's, 'g, 'pp) demo_state \<Rightarrow> ('b, 's, 'g) address_book \<Rightarrow> bytes
   \<Rightarrow> bytes \<Rightarrow> 'r \<Rightarrow> (unit \<times> 'r, wraps_error) result" where
  "demo_minority V W F N T state next_ab hints_vk message r =
     (let (prev_ab, prev_keys) = ds_prev state in
      and_then (threshold_sign V W F T message prev_ab prev_keys (insufficient_bitvector (length prev_ab)) False r) (\<lambda>(short, r).
      case construct_wraps_proof W F N (ds_pp state) (ds_ab_genesis_hash state) prev_ab next_ab (ds_running_proof state) hints_vk short of
        Err _ \<Rightarrow> Ok ((), r)
      | _ \<Rightarrow> Panicked))"

definition demo_rotation ::
  "('b::field, 's::field, 'g::ab_group_add, 'pp, 'vk) example_formats \<Rightarrow> ('b, 's, 'g, 'pp) demo_state codec
   \<Rightarrow> ('b, 's, 'g, 'rng) engine \<Rightarrow> ('b, 's, 'g, 'rs, 'cs) wire \<Rightarrow> ('b, 's, 'g, 'pp, 'rs, 'cs, 'pk, 'vk) nova
   \<Rightarrow> 'r thread_rng \<Rightarrow> ('b, 's, 'g, 'pp) demo_state \<Rightarrow> 'r \<Rightarrow> (bytes \<times> 'r, wraps_error) result" where
  "demo_rotation V C W F N T state r =
     (let i = ds_completed_rotations state in
      and_then (expect (setup_compressed_verifier N (ds_pp state))) (\<lambda>wraps_vk.
      and_then (if i = 0 then Ok (ds_prev state, r) else random_address_book V W T r) (\<lambda>(next_com, r).
      and_then (demo_sign V W F T state (fst next_com) r) (\<lambda>((hints_vk, message, multisignature), r).
      and_then (demo_prove V W F N state wraps_vk (fst next_com) hints_vk multisignature) (\<lambda>uncompressed.
      and_then (demo_minority V W F N T state (fst next_com) hints_vk message r) (\<lambda>(_, r).
      and_then (save_checkpoint C (state\<lparr>ds_prev := next_com, ds_running_proof := Some uncompressed, ds_completed_rotations := i + 1\<rparr>))
        (\<lambda>checkpoint. Ok (checkpoint, r))))))))"

definition demo_num_steps :: nat where "demo_num_steps = 10"

text \<open>
  The loop of \<^verbatim>\<open>main\<close>. It ends when the restored checkpoint counts ten rotations, and its result is that
  checkpoint. Its fuel is the number of checkpoints it may restore: \<open>None\<close> when it would go on.
\<close>

fun demo_loop ::
  "nat \<Rightarrow> ('b::field, 's::field, 'g::ab_group_add, 'pp, 'vk) example_formats \<Rightarrow> ('b, 's, 'g, 'pp) demo_state codec
   \<Rightarrow> ('b, 's, 'g, 'rng) engine \<Rightarrow> ('b, 's, 'g, 'rs, 'cs) wire \<Rightarrow> ('b, 's, 'g, 'pp, 'rs, 'cs, 'pk, 'vk) nova
   \<Rightarrow> 'r thread_rng \<Rightarrow> bytes \<Rightarrow> 'r \<Rightarrow> (('b, 's, 'g, 'pp) demo_state \<times> 'r, wraps_error) result option" where
  "demo_loop 0 V C W F N T checkpoint r = None"
| "demo_loop (Suc fuel) V C W F N T checkpoint r =
     (case and_then (restore_checkpoint C checkpoint) (\<lambda>state.
          and_then (assert_that (ds_completed_rotations state \<le> demo_num_steps)) (\<lambda>_.
          and_then (assert_that ((ds_running_proof state = None) = (ds_completed_rotations state = 0))) (\<lambda>_. Ok state))) of
        Ok state \<Rightarrow>
          if ds_completed_rotations state = demo_num_steps then Some (Ok (state, r))
          else (case demo_rotation V C W F N T state r of
              Ok (checkpoint, r) \<Rightarrow> demo_loop fuel V C W F N T checkpoint r
            | Err e \<Rightarrow> Some (Err e)
            | Panicked \<Rightarrow> Some Panicked)
      | Err e \<Rightarrow> Some (Err e)
      | Panicked \<Rightarrow> Some Panicked)"

definition demo_main ::
  "nat \<Rightarrow> ('b::field, 's::field, 'g::ab_group_add, 'pp, 'vk) example_formats \<Rightarrow> ('b, 's, 'g, 'pp) demo_state codec
   \<Rightarrow> ('b, 's, 'g, 'rng) engine \<Rightarrow> ('b, 's, 'g, 'rs, 'cs) wire \<Rightarrow> ('b, 's, 'g, 'pp, 'rs, 'cs, 'pk, 'vk) nova
   \<Rightarrow> ('b, 's, 'g, 'rng, 'pp) wraps_host \<Rightarrow> 'r thread_rng \<Rightarrow> string option \<Rightarrow> 'r
   \<Rightarrow> (('b, 's, 'g, 'pp) demo_state \<times> 'r, wraps_error) result option" where
  "demo_main fuel V C W F N Q T env_var r =
     (case demo_start V C W F N Q T env_var r of
        Ok (checkpoint, r) \<Rightarrow> demo_loop fuel V C W F N T checkpoint r
      | Err e \<Rightarrow> Some (Err e)
      | Panicked \<Rightarrow> Some Panicked)"

end
