(* ===== verification/DemoRun.thy ===== *)
theory DemoRun
  imports Demo
begin

text \<open>
  What \<open>Demo\<close> computes when nothing panics: the share of the two bitvectors, the committees that are drawn,
  the signing session, one rotation, and the loop.
\<close>

section \<open>Shares of the seats\<close>

lemma third_count: "length (filter (\<lambda>i. i mod 3 = 0) [0..<n]) = (n + 2) div 3"
proof (induction n)
  case (Suc n)
  have "n mod 3 = 0 \<Longrightarrow> (Suc n + 2) div 3 = (n + 2) div 3 + 1" "n mod 3 \<noteq> 0 \<Longrightarrow> (Suc n + 2) div 3 = (n + 2) div 3"
    by presburger+
  then show ?case using Suc by simp
qed simp

lemma two_thirds_count: "length (filter (\<lambda>i. i mod 2 = 0 \<or> i mod 3 = 0) [0..<n]) + (n + 4) div 6 + n div 6 = n"
proof (induction n)
  case (Suc n)
  define k r where "k = n div 6" and "r = n mod 6"
  have n: "n = 6 * k + r" and r: "r < 6" by (simp_all add: k_def r_def)
  have "n mod 2 = r mod 2 \<and> n mod 3 = r mod 3" using n r by presburger
  moreover have "(n + 4) div 6 = k + (r + 4) div 6" "n div 6 = k + r div 6" "(Suc n + 4) div 6 = k + (r + 5) div 6"
    "Suc n div 6 = k + Suc r div 6" using n by (simp_all add: add.assoc)
  moreover have "r \<in> {0, 1, 2, 3, 4, 5}" using r by auto
  ultimately have "(n mod 2 = 0 \<or> n mod 3 = 0) \<and> (Suc n + 4) div 6 + Suc n div 6 = (n + 4) div 6 + n div 6 \<or>
      \<not> (n mod 2 = 0 \<or> n mod 3 = 0) \<and> (Suc n + 4) div 6 + Suc n div 6 = (n + 4) div 6 + n div 6 + 1"
    by auto
  then show ?case using Suc by auto
qed simp

text \<open>The weight of the seats with a property, when every seat weighs between two bounds.\<close>

definition weights_within :: "nat \<Rightarrow> nat \<Rightarrow> ('b, 's, 'g, 'rng) engine \<Rightarrow> ('b, 's, 'g) address_book \<Rightarrow> bool" where
  "weights_within lo hi W ab \<longleftrightarrow> (\<forall>entry \<in> set ab. lo \<le> effective_weight W entry \<and> effective_weight W entry \<le> hi)"

lemma share_bounds:
  fixes w :: "nat \<Rightarrow> nat" and P :: "nat \<Rightarrow> bool"
  assumes "\<And>i. i < n \<Longrightarrow> lo \<le> w i \<and> w i \<le> hi"
  defines "c \<equiv> length (filter P [0..<n])" and "s \<equiv> \<Sum>i < n. if P i then w i else 0"
  shows "lo * c \<le> s" "s \<le> hi * c" "s + lo * (n - c) \<le> (\<Sum>i < n. w i)" "(\<Sum>i < n. w i) \<le> s + hi * (n - c)" "c \<le> n"
proof -
  have "lo * length (filter P [0..<n]) \<le> (\<Sum>i < n. if P i then w i else 0) \<and>
    (\<Sum>i < n. if P i then w i else 0) \<le> hi * length (filter P [0..<n]) \<and>
    (\<Sum>i < n. if P i then w i else 0) + lo * length (filter (\<lambda>i. \<not> P i) [0..<n]) \<le> (\<Sum>i < n. w i) \<and>
    (\<Sum>i < n. w i) \<le> (\<Sum>i < n. if P i then w i else 0) + hi * length (filter (\<lambda>i. \<not> P i) [0..<n])"
    using assms(1)
  proof (induction n)
    case (Suc n)
    have "lo \<le> w n" "w n \<le> hi" using Suc.prems [of n] by simp_all
    moreover have "lo \<le> w i \<and> w i \<le> hi" if "i < n" for i using Suc.prems [of i] that by simp
    ultimately show ?case using Suc.IH by simp
  qed simp
  moreover have "length (filter P [0..<n]) + length (filter (\<lambda>i. \<not> P i) [0..<n]) = n"
    using sum_length_filter_compl [of P "[0..<n]"] by simp
  ultimately show "lo * c \<le> s" "s \<le> hi * c" "s + lo * (n - c) \<le> (\<Sum>i < n. w i)" "(\<Sum>i < n. w i) \<le> s + hi * (n - c)" "c \<le> n"
    unfolding c_def s_def by (metis add_diff_cancel_left' le_add1)+
qed

lemma pattern_weights:
  fixes P :: "nat \<Rightarrow> bool"
  assumes "length ab \<le> MAX_AB_SIZE" "weights_within lo hi W ab"
  defines "bv \<equiv> map (\<lambda>i. i < length ab \<and> P i) [0..<MAX_AB_SIZE]" and "c \<equiv> length (filter P [0..<length ab])"
  shows "lo * c \<le> signing_weight_of W ab bv" "signing_weight_of W ab bv \<le> hi * c"
    "signing_weight_of W ab bv + lo * (length ab - c) \<le> total_weight_of W ab"
    "total_weight_of W ab \<le> signing_weight_of W ab bv + hi * (length ab - c)" "c \<le> length ab"
proof -
  let ?w = "\<lambda>i. effective_weight W (ab ! i)"
  have b: "lo \<le> ?w i \<and> ?w i \<le> hi" if "i < length ab" for i using assms(2) that by (simp add: weights_within_def)
  have "length ab \<le> length bv" using assms(1) by (simp add: bv_def)
  then have "signing_weight_of W ab bv = (\<Sum>i < length ab. if bv ! i then ?w i else 0)"
    using sum_zip_nth by (simp add: signing_weight_of_def)
  also have "\<dots> = (\<Sum>i < length ab. if P i then ?w i else 0)"
    using assms(1) by (intro sum.cong) (auto simp: bv_def)
  finally have s: "signing_weight_of W ab bv = (\<Sum>i < length ab. if P i then ?w i else 0)" .
  have t: "total_weight_of W ab = (\<Sum>i < length ab. ?w i)"
    by (simp add: total_weight_of_def sum_list_sum_nth atLeast0LessThan)
  show "lo * c \<le> signing_weight_of W ab bv" "signing_weight_of W ab bv \<le> hi * c"
    "signing_weight_of W ab bv + lo * (length ab - c) \<le> total_weight_of W ab"
    "total_weight_of W ab \<le> signing_weight_of W ab bv + hi * (length ab - c)" "c \<le> length ab"
    unfolding s t c_def by (rule share_bounds [where w = ?w, OF b]; assumption)+
qed

lemma sufficient_clears:
  assumes "length ab \<le> MAX_AB_SIZE" "5 \<le> length ab" "weights_within 475 525 W ab"
  shows "total_weight_of W ab < 2 * signing_weight_of W ab (sufficient_bitvector (length ab))"
proof -
  let ?c = "length (filter (\<lambda>i. i mod 2 = 0 \<or> i mod 3 = 0) [0..<length ab])"
  let ?a = "(length ab + 4) div 6" and ?b = "length ab div 6"
  have "?c + (?a + ?b) = length ab" using two_thirds_count [of "length ab"] by simp
  moreover have "6 * ?a \<le> length ab + 4" "6 * ?b \<le> length ab" by simp_all
  ultimately have "525 * (length ab - ?c) < 475 * ?c" using assms(2) by linarith
  then show ?thesis
    using pattern_weights(1,4) [OF assms(1,3), of "\<lambda>i. i mod 2 = 0 \<or> i mod 3 = 0"] by (simp add: sufficient_bitvector_def)
qed

lemma insufficient_fails:
  assumes "length ab \<le> MAX_AB_SIZE" "5 \<le> length ab" "weights_within 475 525 W ab"
  shows "2 * signing_weight_of W ab (insufficient_bitvector (length ab)) \<le> total_weight_of W ab"
proof -
  have "3 * ((length ab + 2) div 3) \<le> length ab + 2" by simp
  then have "525 * ((length ab + 2) div 3) \<le> 475 * (length ab - (length ab + 2) div 3)" using assms(2) by linarith
  then show ?thesis
    using pattern_weights(2,3) [OF assms(1,3), of "\<lambda>i. i mod 3 = 0"] by (simp add: insufficient_bitvector_def third_count)
qed

lemma patterns_sized [simp]:
  "length (sufficient_bitvector n) = MAX_AB_SIZE" "length (insufficient_bitvector n) = MAX_AB_SIZE"
  by (simp_all add: sufficient_bitvector_def insufficient_bitvector_def)

lemma patterns_inside:
  "\<not> selects_beyond (sufficient_bitvector n) n" "\<not> selects_beyond (insufficient_bitvector n) n"
  by (auto simp: selects_beyond_def sufficient_bitvector_def insufficient_bitvector_def drop_map)

section \<open>Committees that are drawn\<close>

text \<open>A seat and a committee as the draws determine them, without the round trips.\<close>

definition seat_of ::
  "('b::field, 's::field, 'g, 'rng) engine \<Rightarrow> 'r thread_rng \<Rightarrow> nat \<Rightarrow> 'r \<Rightarrow> (('b, 's, 'g) book_entry \<times> 's) \<times> 'r" where
  "seat_of W T i r =
     (let (seed, r) = gen_seed T r; (weight, r) = gen_range_u64 T 475 525 r
      in (((of_nat i, snd (wraps_keygen W seed), weight), fst (wraps_keygen W seed)), r))"

fun draws :: "('a \<Rightarrow> 'r \<Rightarrow> 'b \<times> 'r) \<Rightarrow> 'a list \<Rightarrow> 'r \<Rightarrow> 'b list \<times> 'r" where
  "draws f [] r = ([], r)"
| "draws f (x # xs) r = (let (y, r) = f x r; (ys, r) = draws f xs r in (y # ys, r))"

lemma draws_length: "length (fst (draws f xs r)) = length xs"
  by (induction xs arbitrary: r) (simp_all add: split_def Let_def)

lemma draws_all: "(\<And>x r. P (fst (f x r))) \<Longrightarrow> y \<in> set (fst (draws f xs r)) \<Longrightarrow> P y"
  by (induction xs arbitrary: r) (auto simp: split_def Let_def)

lemma collect_rng_draws: "(\<And>x r. f x r = Ok (g x r)) \<Longrightarrow> collect_rng f xs r = Ok (draws g xs r)"
  by (induction xs arbitrary: r) (simp_all add: split_def Let_def)

definition drawn_committee ::
  "('b::field, 's::field, 'g, 'rng) engine \<Rightarrow> 'r thread_rng \<Rightarrow> 'r \<Rightarrow> (('b, 's, 'g) address_book \<times> 's list) \<times> 'r" where
  "drawn_committee W T r =
     (let (n, r) = gen_range_usize T 16 64 r; (seats, r) = draws (seat_of W T) [0..<n] r
      in ((map fst seats, map snd seats), r))"

lemma draw_seat_eq: "example_formats_ok V \<Longrightarrow> thread_rng_ok T \<Longrightarrow> draw_seat V W T i r = Ok (seat_of W T i r)"
  by (cases "wraps_keygen W (fst (gen_seed T r))") (auto simp: draw_seat_def seat_of_def thread_rng_ok_def round_trip_formats round_trip_sized split_def Let_def)

lemma random_address_book_eq:
  "example_formats_ok V \<Longrightarrow> thread_rng_ok T \<Longrightarrow> random_address_book V W T r = Ok (drawn_committee W T r)"
  by (simp add: random_address_book_def drawn_committee_def collect_rng_draws [OF draw_seat_eq] round_trip_formats
      MAX_AB_SIZE_def split_def Let_def)

definition drawn_seat :: "('b::field, 's::field, 'g::ab_group_add, 'rng) engine \<Rightarrow> ('b, 's, 'g) book_entry \<times> 's \<Rightarrow> bool" where
  "drawn_seat W seat \<longleftrightarrow>
     book_key (fst seat) = ge_mul W (ge_gen W) (snd seat) \<and> verify_knowledge W (book_key (fst seat)) (book_pok (fst seat)) \<and>
     475 \<le> unat (snd (snd (fst seat))) \<and> unat (snd (snd (fst seat))) \<le> 525"

lemma seat_of_drawn:
  fixes W :: "('b::field, 's::field, 'g::ab_group_add, 'rng) engine"
  assumes "engine_ok W" "thread_rng_ok T" shows "drawn_seat W (fst (seat_of W T i r))"
proof -
  have w: "475 \<le> unat (fst (gen_range_u64 T 475 525 r))" "unat (fst (gen_range_u64 T 475 525 r)) \<le> 525" for r
  proof -
    have "(475 :: weight) \<le> 525" by simp
    then have "475 \<le> fst (gen_range_u64 T 475 525 r)" "fst (gen_range_u64 T 475 525 r) \<le> 525"
      using assms(2) unfolding thread_rng_ok_def by (metis atLeastAtMost_iff)+
    then show "475 \<le> unat (fst (gen_range_u64 T 475 525 r))" "unat (fst (gen_range_u64 T 475 525 r)) \<le> 525"
      by (simp_all add: word_le_nat_alt)
  qed
  show ?thesis
    using w keygen_attested [OF assms(1)]
    by (simp add: seat_of_def drawn_seat_def book_key_def book_pok_def keygen_keys(2) split_def Let_def)
qed

text \<open>
  A committee the program can work with, and the accidents that the draws must avoid: a key that is the
  identity or occurs twice, and joint keys that cancel.
\<close>

definition usable_committee ::
  "('b::field, 's::field, 'g::ab_group_add, 'rng) engine \<Rightarrow> ('b, 's, 'g) address_book \<Rightarrow> 's list \<Rightarrow> bool" where
  "usable_committee W ab keys \<longleftrightarrow>
     committee W ab keys \<and> 16 \<le> length ab \<and> weights_within 475 525 W ab \<and>
     sum_list (signing_subset W ab (sufficient_bitvector (length ab))) \<noteq> 0 \<and>
     sum_list (signing_subset W ab (insufficient_bitvector (length ab))) \<noteq> 0"

definition lucky_book :: "('b::field, 's::field, 'g::ab_group_add, 'rng) engine \<Rightarrow> ('b, 's, 'g) address_book \<Rightarrow> bool" where
  "lucky_book W ab \<longleftrightarrow>
     distinct (map book_key ab) \<and> 0 \<notin> set (map book_key ab) \<and>
     sum_list (signing_subset W ab (sufficient_bitvector (length ab))) \<noteq> 0 \<and>
     sum_list (signing_subset W ab (insufficient_bitvector (length ab))) \<noteq> 0"

lemma weights_bound_total:
  assumes "length ab \<le> MAX_AB_SIZE" "weights_within lo hi W ab"
  shows "total_weight_of W ab \<le> hi * length ab"
  using pattern_weights(2,4) [OF assms, of "\<lambda>_. False"] by simp

lemma drawn_committee_seats:
  fixes W :: "('b::field, 's::field, 'g::ab_group_add, 'rng) engine"
  assumes ok: "engine_ok W" and rng: "thread_rng_ok T" and drawn: "drawn_committee W T r = ((ab, keys), r')"
  shows "16 \<le> length ab" "length ab \<le> 64" "length keys = length ab" "\<forall>i < length ab. drawn_seat W (ab ! i, keys ! i)"
    "\<forall>entry \<in> set ab. verify_knowledge W (book_key entry) (book_pok entry) \<and>
      475 \<le> unat (snd (snd entry)) \<and> unat (snd (snd entry)) \<le> 525"
proof -
  define n where "n = fst (gen_range_usize T 16 64 r)"
  define seats where "seats = fst (draws (seat_of W T) [0..<n] (snd (gen_range_usize T 16 64 r)))"
  have n: "16 \<le> n" "n \<le> 64" using rng by (auto simp: thread_rng_ok_def n_def)
  have c: "ab = map fst seats" "keys = map snd seats" "length seats = n"
    using drawn by (auto simp: drawn_committee_def seats_def n_def draws_length split_def Let_def)
  have seat: "drawn_seat W seat" if "seat \<in> set seats" for seat
    using that unfolding seats_def by (rule draws_all [rotated]) (rule seat_of_drawn [OF ok rng])
  show "16 \<le> length ab" "length ab \<le> 64" "length keys = length ab" using c n by simp_all
  show "\<forall>i < length ab. drawn_seat W (ab ! i, keys ! i)" using seat c by simp
  show "\<forall>entry \<in> set ab. verify_knowledge W (book_key entry) (book_pok entry) \<and>
      475 \<le> unat (snd (snd entry)) \<and> unat (snd (snd entry)) \<le> 525"
    using seat c(1) by (auto simp: drawn_seat_def)
qed

lemma drawn_committee_total:
  fixes W :: "('b::field, 's::field, 'g::ab_group_add, 'rng) engine"
  assumes "engine_ok W" "thread_rng_ok T" "drawn_committee W T r = ((ab, keys), r')"
  shows "total_weight_of W ab < 2 ^ 64"
proof -
  note seats = drawn_committee_seats [OF assms]
  have "weights_within 0 525 W ab"
    using seats(5) by (auto simp: weights_within_def effective_weight_def)
  then have "total_weight_of W ab \<le> 525 * length ab" using seats(2) by (intro weights_bound_total) (simp_all add: MAX_AB_SIZE_def)
  also have "\<dots> \<le> 525 * 64" using seats(2) by simp
  also have "(525 * 64 :: nat) < 2 ^ 64" by simp
  finally show ?thesis .
qed

lemma drawn_committee_valid_iff:
  fixes W :: "('b::field, 's::field, 'g::ab_group_add, 'rng) engine"
  assumes "engine_ok W" "thread_rng_ok T" "drawn_committee W T r = ((ab, keys), r')"
  shows "verify_address_book W ab \<longleftrightarrow> distinct (filter (\<lambda>pk. \<not> is_infinity W pk) (map book_key ab))"
  using drawn_committee_seats(2,5) [OF assms] drawn_committee_total [OF assms]
  by (simp add: verify_address_book_iff live_entries_alt filter_map comp_def MAX_AB_SIZE_def)

lemma drawn_committee_usable:
  fixes W :: "('b::field, 's::field, 'g::ab_group_add, 'rng) engine"
  assumes ok: "engine_ok W" and rng: "thread_rng_ok T" and drawn: "drawn_committee W T r = ((ab, keys), r')" and lucky: "lucky_book W ab"
  shows "usable_committee W ab keys"
proof -
  note seats = drawn_committee_seats [OF ok rng drawn]
  have nz: "\<not> is_infinity W (book_key entry)" if "entry \<in> set ab" for entry
    using lucky that by (auto simp: lucky_book_def infinity_iff [OF ok])
  have "weights_within 475 525 W ab"
    using seats(5) nz by (fastforce simp: weights_within_def effective_weight_def book_key_def split_def)
  moreover have "map book_key ab = map (ge_mul W (ge_gen W)) keys"
    using seats(3,4) by (intro nth_equalityI) (simp_all add: drawn_seat_def)
  moreover have "\<forall>entry \<in> set ab. verify_knowledge W (book_key entry) (book_pok entry)"
    using seats(5) by simp
  ultimately show ?thesis
    using lucky seats(1,2) drawn_committee_total [OF ok rng drawn]
    unfolding usable_committee_def committee_def lucky_book_def by (simp add: MAX_AB_SIZE_def)
qed

section \<open>The signing session\<close>

lemma run_signer_ok:
  assumes "example_formats_ok V" "length bv = MAX_AB_SIZE"
    and "case i of None \<Rightarrow> entropy = None | Some k \<Rightarrow> k < length seeds \<and> entropy = Some (seeds ! k)" "sized_seed entropy"
    and "signing_protocol W F phase entropy bs sk ab bv r1 r2 r3 = Ok out" "sized_object out"
  shows "run_signer V W F seeds bs ab bv rep phase i sk r1 r2 r3 = Ok out"
proof -
  have rt: "round_trip (phase_inputs_format V) (phase, entropy, bs, sk, ab, bv, r1, r2, r3) = Ok (phase, entropy, bs, sk, ab, bv, r1, r2, r3)"
    using assms(2,4) by (intro round_trip_sized(6) [OF assms(1)]) simp
  have "(case i of None \<Rightarrow> Ok None | Some i \<Rightarrow> and_then (index seeds i) (\<lambda>seed. Ok (Some seed))) = (Ok entropy :: (bytes option, wraps_error) result)"
    using assms(3) by (cases i) simp_all
  then show ?thesis
    unfolding run_signer_def Let_def using rt assms(5) round_trip_sized(7) [OF assms(1,6)] by (simp del: and_then_eq_Ok)
qed

lemma report_round_ok:
  assumes "example_formats_ok V" "wire_ok F" "0 < length ms" "decode (round_codec F) (ms ! 0) = Ok m" "payload_of m = Some p"
    and "inspect p = Ok p'"
  shows "report_round V F payload_of inspect ms = Ok ms"
  using assms by (simp add: report_round_def round_trip_formats round_trip_ok wire_ok_def)

lemma collect_upt: "length ys = n \<Longrightarrow> (\<And>i. i < n \<Longrightarrow> f i = Ok (ys ! i)) \<Longrightarrow> collect f [0..<n] = Ok ys"
  by (simp add: collect_eq_Ok list_all2_conv_all_nth)

lemma threshold_sign_ok:
  fixes W :: "('b::field, 's::field, 'g::ab_group_add, 'rng) engine" and F :: "('b, 's, 'g, 'rs, 'cs) wire"
  assumes ok: "engine_ok W" and wf: "wire_ok F" and V: "example_formats_ok V" and T: "thread_rng_ok T"
    and com: "committee W ab keys" and len: "length bv = MAX_AB_SIZE" and sel: "\<not> selects_beyond bv (length ab)"
    and nz: "sum_list (signing_subset W ab bv) \<noteq> 0" and msg: "decode_rotation_message F bs = Ok message"
  obtains sig where
    "threshold_sign V W F T bs ab keys bv rep r = Ok ((bv, sig), snd (gen_seeds T (length (selected keys bv)) r))"
    "verify_signature W F ab bs (bv, sig) = Ok (total_weight_of W ab < 2 * signing_weight_of W ab bv)"
    "degenerate_nonce W (sum_list (signing_subset W ab bv)) sig \<longleftrightarrow> joint_nonce W (fst (gen_seeds T (length (selected keys bv)) r)) message = 0"
proof -
  let ?n = "length (selected keys bv)"
  let ?seeds = "fst (gen_seeds T ?n r)"
  have seeds: "length ?seeds = ?n" by (rule gen_seeds_length)
  have sized: "sized_seed (Some (?seeds ! i))" if "i < ?n" for i
    using gen_seeds_entropy [OF T nth_mem, of i ?n r] that seeds by (simp add: sized_seed_def)
  from committee_session [OF ok wf com len sel seeds nz msg, unfolded seeds] obtain ms1 ms2 ms3 sig where
    lens: "length ms1 = ?n" "length ms2 = ?n" "length ms3 = ?n" and
    ph1: "\<forall>i < ?n. signing_protocol W F R1 (Some (?seeds ! i)) bs None ab bv [] [] [] = Ok (ProtocolMessage (ms1 ! i))" and
    ph2: "\<forall>i < ?n. signing_protocol W F R2 (Some (?seeds ! i)) bs None ab bv ms1 [] [] = Ok (ProtocolMessage (ms2 ! i))" and
    ph3: "\<forall>i < ?n. signing_protocol W F R3 (Some (?seeds ! i)) bs (Some (selected keys bv ! i)) ab bv ms1 ms2 [] = Ok (ProtocolMessage (ms3 ! i))" and
    agg: "signing_protocol W F Aggregate None bs None ab bv ms1 ms2 ms3 = Ok (ProtocolOutput (bv, sig))" and
    ver: "verify_signature W F ab bs (bv, sig) = Ok (total_weight_of W ab < 2 * signing_weight_of W ab bv)" and
    deg: "degenerate_nonce W (sum_list (signing_subset W ab bv)) sig \<longleftrightarrow> joint_nonce W ?seeds message = 0"
    .
  have "selected keys bv \<noteq> []" using nz committee_signers(2) [OF ok com len sel] by auto
  then have pos: "0 < ?n" by simp
  have rc: "codec_ok (round_codec F)" using wf by (simp add: wire_ok_def)
  obtain p1 p2 p3 where p: "decode (round_codec F) (ms1 ! 0) = Ok (Round1 p1)" "decode (round_codec F) (ms2 ! 0) = Ok (Round2 p2)"
    "decode (round_codec F) (ms3 ! 0) = Ok (Round3 p3)"
    using phase_messages(1) [OF ph1 [rule_format, OF pos]] phase_messages(2) [OF ph2 [rule_format, OF pos]]
      phase_messages(3) [OF ph3 [rule_format, OF pos]] decode_encoded [OF rc] by blast
  let ?run = "run_signer V W F ?seeds bs ab bv rep"
  note run = run_signer_ok [OF V len, where seeds = ?seeds, unfolded seeds]
  have r1: "collect (\<lambda>i. and_then (?run R1 (Some i) None [] [] []) protocol_message) [0..<?n] = Ok ms1"
    using lens(1) run [where i = "Some i" for i, OF _ sized ph1 [rule_format]] by (intro collect_upt) simp_all
  have r2: "collect (\<lambda>i. and_then (?run R2 (Some i) None ms1 [] []) protocol_message) [0..<?n] = Ok ms2"
    using lens(2) run [where i = "Some i" for i, OF _ sized ph2 [rule_format]] by (intro collect_upt) simp_all
  have r3: "collect (\<lambda>i. and_then (index (selected keys bv) i) (\<lambda>sk. and_then (?run R3 (Some i) (Some sk) ms1 ms2 []) protocol_message)) [0..<?n] = Ok ms3"
    using lens(3) run [where i = "Some i" for i, OF _ sized ph3 [rule_format]] by (intro collect_upt) simp_all
  have a: "?run Aggregate None None ms1 ms2 ms3 = Ok (ProtocolOutput (bv, sig))"
    using agg len by (intro run) (simp_all add: sized_seed_def)
  have rep: "report_round V F payload1 (round_trip (round1_format V)) ms1 = Ok ms1"
    "report_round V F payload2 (round_trip (round2_format V)) ms2 = Ok ms2" "report_round V F payload3 (inspect_round3 V) ms3 = Ok ms3"
    using p pos lens by (auto intro!: report_round_ok [OF V wf] simp: round_trip_formats [OF V] inspect_round3_def)
  have "threshold_sign V W F T bs ab keys bv rep r = Ok ((bv, sig), snd (gen_seeds T ?n r))"
    using r1 r2 r3 a rep len
    by (cases rep) (simp_all add: threshold_sign_def selected_def [symmetric] round_trip_sized [OF V] split_def Let_def del: and_then_eq_Ok)
  then show thesis using that ver deg by blast
qed

section \<open>One rotation\<close>

text \<open>The hints key that the program uses in a rotation, and the message that authorises it.\<close>

definition demo_hints :: "nat \<Rightarrow> bytes" where
  "demo_hints i = replicate 1248 (of_nat i)"

definition demo_message :: "('b::field, 's::field, 'g, 'rng) engine \<Rightarrow> nat \<Rightarrow> ('b, 's, 'g) address_book \<Rightarrow> 'b rotation_message" where
  "demo_message W i next_ab = (book_hash W next_ab, compute_hints_vk_hash W (demo_hints i))"

text \<open>What holds of every checkpoint.\<close>

definition demo_inv ::
  "('b::field, 's::field, 'g::ab_group_add, 'rng) engine \<Rightarrow> ('b, 's, 'g, 'rs, 'cs) wire \<Rightarrow> ('b, 's, 'g) gadgets
   \<Rightarrow> ('b, 's, 'g, 'pp, 'rs, 'cs, 'pk, 'vk) nova \<Rightarrow> ('b, 's, 'g, 'pp) demo_state \<Rightarrow> bool" where
  "demo_inv W F G N state \<longleftrightarrow>
     usable_committee W (fst (ds_prev state)) (snd (ds_prev state)) \<and>
     ds_ledger_id state = wire_bytes (message_codec F) (ds_ab_genesis_hash state, compute_hints_vk_hash W (demo_hints 0)) \<and>
     (case ds_running_proof state of
        None \<Rightarrow> ds_completed_rotations state = 0 \<and> ds_ab_genesis_hash state = book_hash W (fst (ds_prev state))
      | Some u \<Rightarrow> 0 < ds_completed_rotations state \<and>
          chain_at W F G N (ds_pp state) (ds_ab_genesis_hash state) (compute_hints_vk_hash W (demo_hints 0))
            (ds_completed_rotations state) (fst (ds_prev state)) (demo_hints (ds_completed_rotations state - 1)) u)"

lemma rotation_message_eq:
  "wire_ok F \<Longrightarrow> verify_address_book W ab \<Longrightarrow>
    compute_rotation_message W F ab hints_vk = Ok (wire_bytes (message_codec F) (book_hash W ab, compute_hints_vk_hash W hints_vk))"
  by (simp add: compute_rotation_message_def compute_addressbook_hash_eq wire_ok_def wire_bytes)

lemma usable_sizes:
  "usable_committee W ab keys \<Longrightarrow> 5 \<le> length ab \<and> length ab \<le> MAX_AB_SIZE"
  by (simp add: usable_committee_def committee_def)

text \<open>The first third of a turn: the majority signs the rotation, whatever the draws of its members.\<close>

lemma demo_sign_ok:
  fixes W :: "('b::field, 's::field, 'g::ab_group_add, 'rng) engine" and F :: "('b, 's, 'g, 'rs, 'cs) wire"
    and T :: "'r thread_rng" and r :: 'r
  assumes ok: "engine_ok W" and wf: "wire_ok F" and V: "example_formats_ok V" and T: "thread_rng_ok T"
    and use: "usable_committee W ab keys" "ds_prev state = (ab, keys)" and valid: "verify_address_book W next_ab"
    and led: "ds_completed_rotations state = 0 \<Longrightarrow> ds_ledger_id state = wire_bytes (message_codec F) (demo_message W 0 next_ab)"
  defines "bv \<equiv> sufficient_bitvector (length ab)" and "i \<equiv> ds_completed_rotations state"
  defines "draw \<equiv> gen_seeds T (length (selected keys bv)) r"
  obtains sig where
    "demo_sign V W F T state next_ab r = Ok ((demo_hints i, wire_bytes (message_codec F) (demo_message W i next_ab), (bv, sig)), snd draw)"
    "rotation_authorised W ab (demo_message W i next_ab) bv sig" "reject_sentinel_signers W ab bv = Ok ()"
    "degenerate_nonce W (sum_list (signing_subset W ab bv)) sig \<longleftrightarrow> joint_nonce W (fst draw) (demo_message W i next_ab) = 0"
proof -
  let ?m = "demo_message W i next_ab"
  let ?bs = "wire_bytes (message_codec F) ?m"
  have mc: "codec_ok (message_codec F)" using wf by (simp add: wire_ok_def)
  have dm: "decode_rotation_message F ?bs = Ok ?m" by (simp add: decode_rotation_message_iff wire_bytes [OF mc])
  have com: "committee W ab keys" "sum_list (signing_subset W ab bv) \<noteq> 0" "weights_within 475 525 W ab"
    using use(1) by (simp_all add: usable_committee_def bv_def)
  have len: "length bv = MAX_AB_SIZE" and sel: "\<not> selects_beyond bv (length ab)" by (simp_all add: bv_def patterns_inside)
  from threshold_sign_ok [OF ok wf V T com(1) len sel com(2) dm] obtain sig where
    ts: "threshold_sign V W F T ?bs ab keys bv True r = Ok ((bv, sig), snd draw)" and
    ver: "verify_signature W F ab ?bs (bv, sig) = Ok (total_weight_of W ab < 2 * signing_weight_of W ab bv)" and
    deg: "degenerate_nonce W (sum_list (signing_subset W ab bv)) sig \<longleftrightarrow> joint_nonce W (fst draw) ?m = 0"
    unfolding draw_def .
  have "total_weight_of W ab < 2 * signing_weight_of W ab bv"
    unfolding bv_def using usable_sizes [OF use(1)] com(3) by (intro sufficient_clears) simp_all
  then have v: "verify_signature W F ab ?bs (bv, sig) = Ok True" using ver by simp
  have "demo_sign V W F T state next_ab r = Ok ((demo_hints i, ?bs, (bv, sig)), snd draw)"
    using ts v led len
    by (simp add: demo_sign_def i_def [symmetric] demo_hints_def [symmetric] use(2) round_trip_formats [OF V] round_trip_sized [OF V]
        rotation_message_eq [OF wf valid] round_trip_ok [OF mc] wire_bytes [OF mc] demo_message_def [symmetric]
        bv_def [symmetric] Let_def del: and_then_eq_Ok)
  then show thesis using that v deg unfolding verify_signature_True [OF ok len dm] by blast
qed

lemma demo_prove_ok:
  fixes W :: "('b::field, 's::field, 'g::ab_group_add, 'rng) engine" and F :: "('b, 's, 'g, 'rs, 'cs) wire"
    and N :: "('b, 's, 'g, 'pp, 'rs, 'cs, 'pk, 'vk) nova"
  assumes hyps: "engine_ok W" "gadgets_ok W G" "ge_gen W \<noteq> 0" "wire_ok F" "nova_complete W G N (ds_pp state)"
    and V: "example_formats_ok V" and inv: "demo_inv W F G N state" and len: "length bv = MAX_AB_SIZE"
    and valid: "verify_address_book W next_ab" and gen: "ds_completed_rotations state = 0 \<Longrightarrow> next_ab = fst (ds_prev state)"
    and auth: "rotation_authorised W (fst (ds_prev state)) (demo_message W (ds_completed_rotations state) next_ab) bv sig"
    and live: "reject_sentinel_signers W (fst (ds_prev state)) bv = Ok ()"
    and nd: "\<not> degenerate_nonce W (sum_list (signing_subset W (fst (ds_prev state)) bv)) sig"
    and vk: "setup_compressed_verifier N (ds_pp state) = Ok vk"
  obtains u where "demo_prove V W F N state vk next_ab (demo_hints (ds_completed_rotations state)) (bv, sig) = Ok u"
    "chain_at W F G N (ds_pp state) (ds_ab_genesis_hash state) (compute_hints_vk_hash W (demo_hints 0))
      (Suc (ds_completed_rotations state)) next_ab (demo_hints (ds_completed_rotations state)) u"
proof -
  let ?i = "ds_completed_rotations state" and ?prev = "fst (ds_prev state)" and ?v0 = "compute_hints_vk_hash W (demo_hints 0)"
  have "case ds_running_proof state of
        None \<Rightarrow> ?i = 0 \<and> ds_ab_genesis_hash state = book_hash W ?prev \<and> ?v0 = compute_hints_vk_hash W (demo_hints ?i) \<and>
          book_hash W next_ab = book_hash W ?prev
      | Some prev \<Rightarrow> (\<exists>prev_hints. chain_at W F G N (ds_pp state) (ds_ab_genesis_hash state) ?v0 ?i ?prev prev_hints prev)"
    using inv gen by (auto simp: demo_inv_def split: option.splits)
  from construct_proceeds [OF hyps len valid auth [unfolded demo_message_def] live nd this]
  obtain u c vk' where c: "construct_wraps_proof W F N (ds_pp state) (ds_ab_genesis_hash state) ?prev next_ab (ds_running_proof state)
        (demo_hints ?i) (bv, sig) = Ok (u, c)"
    "chain_at W F G N (ds_pp state) (ds_ab_genesis_hash state) ?v0 (Suc ?i) next_ab (demo_hints ?i) u"
    "setup_compressed_verifier N (ds_pp state) = Ok vk'"
    "verify_uncompressed_wraps_proof W F N (ds_pp state) u (ds_ledger_id state) (demo_hints ?i) = Ok True"
    "verify_compressed_wraps_proof W F N vk' c (ds_ledger_id state) (demo_hints ?i) = Ok True"
    using inv by (auto simp: demo_inv_def)
  have "vk' = vk" using c(3) vk by simp
  then have "demo_prove V W F N state vk next_ab (demo_hints ?i) (bv, sig) = Ok u"
    using c len by (simp add: demo_prove_def round_trip_formats [OF V] round_trip_sized [OF V] Let_def del: and_then_eq_Ok)
  then show thesis using that c(2) by blast
qed

lemma demo_minority_ok:
  fixes W :: "('b::field, 's::field, 'g::ab_group_add, 'rng) engine" and F :: "('b, 's, 'g, 'rs, 'cs) wire"
    and N :: "('b, 's, 'g, 'pp, 'rs, 'cs, 'pk, 'vk) nova"
  assumes ok: "engine_ok W" and wf: "wire_ok F" and V: "example_formats_ok V" and T: "thread_rng_ok T"
    and use: "usable_committee W ab keys" "ds_prev state = (ab, keys)" and valid: "verify_address_book W next_ab"
    and msg: "decode_rotation_message F bs = Ok message"
  shows "demo_minority V W F N T state next_ab hints_vk bs r =
    Ok ((), snd (gen_seeds T (length (selected keys (insufficient_bitvector (length ab)))) r))"
proof -
  define bv where "bv = insufficient_bitvector (length ab)"
  have com: "committee W ab keys" "sum_list (signing_subset W ab bv) \<noteq> 0" "weights_within 475 525 W ab"
    using use(1) by (simp_all add: usable_committee_def bv_def)
  have len: "length bv = MAX_AB_SIZE" and sel: "\<not> selects_beyond bv (length ab)" by (simp_all add: bv_def patterns_inside)
  from threshold_sign_ok [OF ok wf V T com(1) len sel com(2) msg] obtain sig where
    ts: "threshold_sign V W F T bs ab keys bv False r = Ok ((bv, sig), snd (gen_seeds T (length (selected keys bv)) r))" .
  have live: "reject_sentinel_signers W ab bv = Ok ()"
    using committee_signers(1) [OF ok com(1) len sel] by (simp add: signing_set_def)
  have "2 * signing_weight_of W ab bv \<le> total_weight_of W ab"
    unfolding bv_def using usable_sizes [OF use(1)] com(3) by (intro insufficient_fails) simp_all
  from construct_refuses_minority [OF ok wf len committee_valid [OF ok com(1)] valid sel live this] obtain e where
    "construct_wraps_proof W F N (ds_pp state) (ds_ab_genesis_hash state) ab next_ab (ds_running_proof state) hints_vk (bv, sig) = Err e" ..
  then show ?thesis using ts by (simp add: demo_minority_def use(2) bv_def)
qed

text \<open>The committee that a turn rotates to, and the state of the generator after the turn.\<close>

definition next_committee ::
  "('b::field, 's::field, 'g, 'rng) engine \<Rightarrow> 'r thread_rng \<Rightarrow> nat \<Rightarrow> ('b, 's, 'g) address_book \<times> 's list \<Rightarrow> 'r
   \<Rightarrow> (('b, 's, 'g) address_book \<times> 's list) \<times> 'r" where
  "next_committee W T i prev r = (if i = 0 then (prev, r) else drawn_committee W T r)"

definition majority_seeds :: "'r thread_rng \<Rightarrow> ('b, 's, 'g) address_book \<times> 's list \<Rightarrow> 'r \<Rightarrow> bytes list \<times> 'r" where
  "majority_seeds T prev r = gen_seeds T (length (selected (snd prev) (sufficient_bitvector (length (fst prev))))) r"

definition minority_seeds :: "'r thread_rng \<Rightarrow> ('b, 's, 'g) address_book \<times> 's list \<Rightarrow> 'r \<Rightarrow> bytes list \<times> 'r" where
  "minority_seeds T prev r = gen_seeds T (length (selected (snd prev) (insufficient_bitvector (length (fst prev))))) r"

text \<open>
  The draws of a number of turns avoid the accidents: unusable committees, and nonces of the majority
  that cancel.
\<close>

fun lucky_turns ::
  "nat \<Rightarrow> ('b::field, 's::field, 'g::ab_group_add, 'rng) engine \<Rightarrow> 'r thread_rng \<Rightarrow> nat \<Rightarrow> ('b, 's, 'g) address_book \<times> 's list \<Rightarrow> 'r \<Rightarrow> bool" where
  "lucky_turns 0 W T i prev r = True"
| "lucky_turns (Suc k) W T i prev r =
     (let (com, r) = next_committee W T i prev r; (seeds, r) = majority_seeds T prev r in
      lucky_book W (fst com) \<and> joint_nonce W seeds (demo_message W i (fst com)) \<noteq> 0 \<and>
      lucky_turns k W T (Suc i) com (snd (minority_seeds T prev r)))"

lemma demo_rotation_ok:
  fixes W :: "('b::field, 's::field, 'g::ab_group_add, 'rng) engine" and F :: "('b, 's, 'g, 'rs, 'cs) wire"
    and N :: "('b, 's, 'g, 'pp, 'rs, 'cs, 'pk, 'vk) nova"
  assumes hyps: "engine_ok W" "gadgets_ok W G" "ge_gen W \<noteq> 0" "wire_ok F" "nova_complete W G N (ds_pp state)"
    and V: "example_formats_ok V" and C: "codec_ok C" and T: "thread_rng_ok T" and inv: "demo_inv W F G N state"
    and com: "next_committee W T (ds_completed_rotations state) (ds_prev state) r = (com, r1)" and lucky: "lucky_book W (fst com)"
    and nonce: "joint_nonce W (fst (majority_seeds T (ds_prev state) r1)) (demo_message W (ds_completed_rotations state) (fst com)) \<noteq> 0"
  obtains state' where
    "demo_rotation V C W F N T state r = Ok (wire_bytes C state', snd (minority_seeds T (ds_prev state) (snd (majority_seeds T (ds_prev state) r1))))"
    "demo_inv W F G N state'" "ds_completed_rotations state' = Suc (ds_completed_rotations state)" "ds_pp state' = ds_pp state"
    "ds_prev state' = com" "ds_running_proof state' \<noteq> None"
proof -
  let ?i = "ds_completed_rotations state"
  obtain ab keys where prev: "ds_prev state = (ab, keys)" by fastforce
  have use: "usable_committee W ab keys" using inv prev by (simp add: demo_inv_def)
  have use': "usable_committee W (fst com) (snd com)"
  proof (cases "?i = 0")
    case True
    then have "com = (ab, keys)" using com prev by (simp add: next_committee_def)
    then show ?thesis using use by simp
  next
    case False
    then have "drawn_committee W T r = ((fst com, snd com), r1)" using com by (simp add: next_committee_def)
    then show ?thesis by (rule drawn_committee_usable [OF hyps(1) T _ lucky])
  qed
  have valid: "verify_address_book W (fst com)"
    using use' committee_valid [OF hyps(1)] by (auto simp: usable_committee_def)
  have gen: "fst com = fst (ds_prev state)" if "?i = 0" using com that by (simp add: next_committee_def)
  have led: "ds_ledger_id state = wire_bytes (message_codec F) (demo_message W 0 (fst com))" if "?i = 0"
    using inv that gen by (auto simp: demo_inv_def demo_message_def split: option.splits)
  from demo_sign_ok [where state = state and r = r1 and next_ab = "fst com", OF hyps(1,4) V T use prev valid led]
  obtain sig where s: "demo_sign V W F T state (fst com) r1 = Ok ((demo_hints ?i, wire_bytes (message_codec F) (demo_message W ?i (fst com)),
      (sufficient_bitvector (length ab), sig)), snd (majority_seeds T (ds_prev state) r1))"
    "rotation_authorised W ab (demo_message W ?i (fst com)) (sufficient_bitvector (length ab)) sig"
    "reject_sentinel_signers W ab (sufficient_bitvector (length ab)) = Ok ()"
    "\<not> degenerate_nonce W (sum_list (signing_subset W ab (sufficient_bitvector (length ab)))) sig"
    using nonce by (auto simp: majority_seeds_def prev)
  obtain vk where vk: "setup_compressed_verifier N (ds_pp state) = Ok vk"
    using hyps(5) by (auto simp: nova_complete_def setup_compressed_verifier_def)
  from demo_prove_ok [where state = state and next_ab = "fst com", OF hyps V inv patterns_sized(1) valid gen _ _ _ vk, of "length ab" sig] s(2,3,4) prev
  obtain u where u: "demo_prove V W F N state vk (fst com) (demo_hints ?i) (sufficient_bitvector (length ab), sig) = Ok u"
    "chain_at W F G N (ds_pp state) (ds_ab_genesis_hash state) (compute_hints_vk_hash W (demo_hints 0)) (Suc ?i) (fst com) (demo_hints ?i) u"
    by auto
  have "decode_rotation_message F (wire_bytes (message_codec F) (demo_message W ?i (fst com))) = Ok (demo_message W ?i (fst com))"
    using hyps(4) by (simp add: decode_rotation_message_iff wire_ok_def wire_bytes)
  note m = demo_minority_ok [where state = state and N = N, OF hyps(1,4) V T use prev valid this]
  let ?state = "state\<lparr>ds_prev := com, ds_running_proof := Some u, ds_completed_rotations := ?i + 1\<rparr>"
  have nxt: "(if ?i = 0 then Ok (ds_prev state, r) else random_address_book V W T r) = Ok (com, r1)"
    using com by (simp add: next_committee_def random_address_book_eq [OF V T] split: if_splits)
  have "demo_rotation V C W F N T state r = Ok (wire_bytes C ?state, snd (minority_seeds T (ds_prev state) (snd (majority_seeds T (ds_prev state) r1))))"
    using vk nxt s(1) u(1) m
    by (simp add: demo_rotation_def save_checkpoint_def wire_bytes [OF C] minority_seeds_def prev Let_def del: and_then_eq_Ok)
  moreover have "demo_inv W F G N ?state" using inv use' u(2) by (auto simp: demo_inv_def)
  ultimately show thesis using that by simp
qed

section \<open>The whole run\<close>

lemma chain_at_verifies:
  assumes "wire_ok F" "nova_complete W G N pp" "chain_at W F G N pp genesis genesis_hints n ab hints_vk u"
  shows "verify_uncompressed_wraps_proof W F N pp u (wire_bytes (message_codec F) (genesis, genesis_hints)) hints_vk = Ok True"
proof -
  obtain running where r: "decode (running_codec F) u = Ok running" "num_steps running = n" "proof_z0 running = [genesis, genesis_hints]"
    "proof_zi running = [book_hash W ab, compute_hints_vk_hash W hints_vk]"
    "honest_run W G N pp [genesis, genesis_hints] n (proof_snark running) (proof_zi running)"
    using assms(3) by (auto simp: chain_at_def)
  have "rs_verify N (proof_snark running) pp n [genesis, genesis_hints] = Ok (proof_zi running)"
    using assms(2) r(5) by (simp add: nova_complete_def)
  then show ?thesis
    using assms(1) r by (simp add: verify_uncompressed_wraps_proof_def decode_rotation_message_iff wire_ok_def wire_bytes)
qed

lemma restore_saved: "codec_ok C \<Longrightarrow> restore_checkpoint C (wire_bytes C state) = Ok state"
  by (simp add: restore_checkpoint_def wire_bytes)

lemma demo_loop_ok:
  fixes W :: "('b::field, 's::field, 'g::ab_group_add, 'rng) engine" and F :: "('b, 's, 'g, 'rs, 'cs) wire"
    and N :: "('b, 's, 'g, 'pp, 'rs, 'cs, 'pk, 'vk) nova"
  assumes hyps: "engine_ok W" "gadgets_ok W G" "ge_gen W \<noteq> 0" "wire_ok F" "nova_complete W G N pp"
    and V: "example_formats_ok V" and C: "codec_ok C" and T: "thread_rng_ok T"
  shows "demo_inv W F G N state \<Longrightarrow> ds_pp state = pp \<Longrightarrow> ds_completed_rotations state + k = demo_num_steps \<Longrightarrow>
    lucky_turns k W T (ds_completed_rotations state) (ds_prev state) r \<Longrightarrow>
    \<exists>state' r'. demo_loop (Suc k) V C W F N T (wire_bytes C state) r = Some (Ok (state', r')) \<and>
      demo_inv W F G N state' \<and> ds_pp state' = pp \<and> ds_completed_rotations state' = demo_num_steps"
proof (induction k arbitrary: state r)
  case 0
  then have "(ds_running_proof state = None) = (ds_completed_rotations state = 0)"
    by (auto simp: demo_inv_def split: option.splits)
  then show ?case using 0 by (simp add: restore_saved [OF C])
next
  case (Suc k)
  let ?i = "ds_completed_rotations state"
  obtain com r1 where com: "next_committee W T ?i (ds_prev state) r = (com, r1)" by fastforce
  have luck: "lucky_book W (fst com)" "joint_nonce W (fst (majority_seeds T (ds_prev state) r1)) (demo_message W ?i (fst com)) \<noteq> 0"
    "lucky_turns k W T (Suc ?i) com (snd (minority_seeds T (ds_prev state) (snd (majority_seeds T (ds_prev state) r1))))"
    using Suc.prems(4) by (simp_all add: com split_def Let_def)
  have nc: "nova_complete W G N (ds_pp state)" using hyps(5) Suc.prems(2) by simp
  from demo_rotation_ok [OF hyps(1-4) nc V C T Suc.prems(1) com luck(1,2)] obtain state' where
    s: "demo_rotation V C W F N T state r = Ok (wire_bytes C state', snd (minority_seeds T (ds_prev state) (snd (majority_seeds T (ds_prev state) r1))))"
    "demo_inv W F G N state'" "ds_completed_rotations state' = Suc ?i" "ds_pp state' = ds_pp state"
    "ds_prev state' = com" "ds_running_proof state' \<noteq> None" .
  have "(ds_running_proof state = None) = (?i = 0)"
    using Suc.prems(1) by (auto simp: demo_inv_def split: option.splits)
  then have "demo_loop (Suc (Suc k)) V C W F N T (wire_bytes C state) r =
      demo_loop (Suc k) V C W F N T (wire_bytes C state') (snd (minority_seeds T (ds_prev state) (snd (majority_seeds T (ds_prev state) r1))))"
    using Suc.prems(3) by (subst demo_loop.simps) (simp add: restore_saved [OF C] s(1) del: demo_loop.simps)
  then show ?case using Suc.IH [OF s(2), of "snd (minority_seeds T (ds_prev state) (snd (majority_seeds T (ds_prev state) r1)))"] s Suc.prems luck(3) by simp
qed

text \<open>The book with four seats held open is valid.\<close>

lemma held_open_valid:
  fixes W :: "('b::field, 's::field, 'g::ab_group_add, 'rng) engine"
  assumes ok: "engine_ok W" and valid: "verify_address_book W ab"
  shows "verify_address_book W (held_open_book (sentinel_keygen W) ab)"
proof -
  have sen: "is_infinity W (fst (sentinel_keygen W))"
    by (simp add: sentinel_keygen_def sentinel_attested_pubkey_def sentinel_is_identity [OF ok] infinity_iff [OF ok] Let_def)
  have step: "live_entries W (map (\<lambda>(i, entry). if i < (4 :: nat) then (of_nat i, sentinel_keygen W, 0) else entry) (zip [k..<k + length ab] ab))
        = live_entries W (drop (4 - k) ab) \<and>
      total_weight_of W (map (\<lambda>(i, entry). if i < (4 :: nat) then (of_nat i, sentinel_keygen W, 0) else entry) (zip [k..<k + length ab] ab))
        \<le> total_weight_of W ab" for k
  proof (induction ab arbitrary: k)
    case (Cons e ab)
    have "[k..<k + length (e # ab)] = k # [Suc k..<Suc k + length ab]" by (simp add: upt_rec)
    moreover have "drop (4 - k) (e # ab) = (if k < 4 then drop (4 - Suc k) ab else e # ab)" by (auto simp: drop_Cons' Suc_diff_Suc)
    ultimately show ?case
      using Cons [of "Suc k"] sen
      by (auto simp: live_entries_alt book_key_def effective_weight_def split_def)
  qed (simp add: live_entries_alt)
  have sub: "live_entries W (drop 4 ab) = filter (\<lambda>entry. \<not> is_infinity W (book_key entry)) (drop 4 ab)" by (simp add: live_entries_alt)
  have "live_entries W ab = live_entries W (take 4 ab) @ live_entries W (drop 4 ab)"
    unfolding live_entries_alt filter_append [symmetric] append_take_drop_id ..
  then have "distinct (map book_key (live_entries W (drop 4 ab)))" "set (live_entries W (drop 4 ab)) \<subseteq> set (live_entries W ab)"
    using valid by (auto simp: verify_address_book_iff)
  then show ?thesis
    using step [of 0] valid by (auto simp: verify_address_book_iff held_open_book_def)
qed

lemma demo_start_ok:
  fixes W :: "('b::field, 's::field, 'g::ab_group_add, 'rng) engine" and F :: "('b, 's, 'g, 'rs, 'cs) wire"
    and N :: "('b, 's, 'g, 'pp, 'rs, 'cs, 'pk, 'vk) nova"
  assumes ok: "engine_ok W" and wf: "wire_ok F" and nc: "nova_complete W G N pp"
    and V: "example_formats_ok V" and C: "codec_ok C" and T: "thread_rng_ok T"
    and load: "load_public_params W Q (ptau_dir env_var) = Ok pp"
    and com: "drawn_committee W T r = (com, r1)" and lucky: "lucky_book W (fst com)"
  obtains state where "demo_start V C W F N Q T env_var r = Ok (wire_bytes C state, r1)"
    "demo_inv W F G N state" "ds_pp state = pp" "ds_completed_rotations state = 0" "ds_prev state = com"
proof -
  obtain ab keys where c: "com = (ab, keys)" by fastforce
  have use: "usable_committee W ab keys"
    using drawn_committee_usable [OF ok T, of r ab keys r1] com lucky c by simp
  then have valid: "verify_address_book W ab" using committee_valid [OF ok] by (auto simp: usable_committee_def)
  obtain vk where vk: "setup_compressed_verifier N pp = Ok vk"
    using nc by (auto simp: nova_complete_def setup_compressed_verifier_def)
  let ?state = "\<lparr>ds_pp = pp, ds_ab_genesis_hash = book_hash W ab, ds_ledger_id = wire_bytes (message_codec F) (demo_message W 0 ab),
      ds_prev = (ab, keys), ds_running_proof = None, ds_completed_rotations = 0\<rparr>"
  have kf: "codec_ok (key_format V)" using V by (simp add: example_formats_ok_def)
  have h0: "replicate 1248 0 = demo_hints 0" by (simp add: demo_hints_def)
  have "demo_start V C W F N Q T env_var r = Ok (wire_bytes C ?state, r1)"
    using load vk com valid held_open_valid [OF ok valid]
    by (simp add: demo_start_def round_trip_formats [OF V] random_address_book_eq [OF V T] c compute_addressbook_hash_eq h0
        rotation_message_eq [OF wf valid] demo_message_def save_checkpoint_def wire_bytes [OF C] wire_bytes [OF kf] del: and_then_eq_Ok)
  moreover have "demo_inv W F G N ?state" using use by (simp add: demo_inv_def demo_message_def)
  ultimately show thesis using that by (simp add: c)
qed

end
