(* ===== verification/ExampleInstance.thy ===== *)
theory ExampleInstance
  imports Demo JniWrapsProperties
begin

text \<open>
  Concrete formats, an engine and a random generator on which the example programs run: values as
  sequences of naturals in unary, a hash that keeps the first byte, and draws that are fixed.
\<close>

section \<open>Formats\<close>

record 'v tok =
  put :: "'v \<Rightarrow> nat list"
  get :: "nat list \<Rightarrow> ('v \<times> nat list) option"

definition tok_ok :: "'v tok \<Rightarrow> bool" where
  "tok_ok t \<longleftrightarrow> (\<forall>v ns. get t (put t v @ ns) = Some (v, ns))"

definition nat_tok :: "nat tok" where
  "nat_tok = \<lparr>put = \<lambda>n. [n], get = \<lambda>ns. case ns of [] \<Rightarrow> None | n # ns \<Rightarrow> Some (n, ns)\<rparr>"

definition rat_tok :: "rat tok" where
  "rat_tok = \<lparr>put = rat_nats, get = take_rat\<rparr>"

definition map_tok :: "('v \<Rightarrow> 'u) \<Rightarrow> ('u \<Rightarrow> 'v) \<Rightarrow> 'u tok \<Rightarrow> 'v tok" where
  "map_tok f g t = \<lparr>put = \<lambda>v. put t (f v), get = \<lambda>ns. map_option (\<lambda>(u, ns). (g u, ns)) (get t ns)\<rparr>"

definition pair_tok :: "'u tok \<Rightarrow> 'v tok \<Rightarrow> ('u \<times> 'v) tok" where
  "pair_tok t t' = \<lparr>put = \<lambda>(u, v). put t u @ put t' v,
     get = \<lambda>ns. case get t ns of None \<Rightarrow> None | Some (u, ns) \<Rightarrow> map_option (\<lambda>(v, ns). ((u, v), ns)) (get t' ns)\<rparr>"

fun get_list :: "'v tok \<Rightarrow> nat \<Rightarrow> nat list \<Rightarrow> ('v list \<times> nat list) option" where
  "get_list t 0 ns = Some ([], ns)"
| "get_list t (Suc n) ns =
     (case get t ns of None \<Rightarrow> None | Some (v, ns) \<Rightarrow> map_option (\<lambda>(vs, ns). (v # vs, ns)) (get_list t n ns))"

definition list_tok :: "'v tok \<Rightarrow> 'v list tok" where
  "list_tok t = \<lparr>put = \<lambda>vs. length vs # concat (map (put t) vs),
     get = \<lambda>ns. case ns of [] \<Rightarrow> None | n # ns \<Rightarrow> get_list t n ns\<rparr>"

definition sum_tok :: "'u tok \<Rightarrow> 'v tok \<Rightarrow> ('u + 'v) tok" where
  "sum_tok t t' = \<lparr>put = \<lambda>x. case x of Inl u \<Rightarrow> 0 # put t u | Inr v \<Rightarrow> 1 # put t' v,
     get = \<lambda>ns. case ns of [] \<Rightarrow> None
       | n # ns \<Rightarrow> if n = 0 then map_option (\<lambda>(u, ns). (Inl u, ns)) (get t ns) else map_option (\<lambda>(v, ns). (Inr v, ns)) (get t' ns)\<rparr>"

lemma nat_tok_ok: "tok_ok nat_tok"
  by (simp add: tok_ok_def nat_tok_def)

lemma rat_tok_ok: "tok_ok rat_tok"
  by (simp add: tok_ok_def rat_tok_def take_rat_nats)

lemma map_tok_ok: "tok_ok t \<Longrightarrow> (\<And>v. g (f v) = v) \<Longrightarrow> tok_ok (map_tok f g t)"
  by (simp add: tok_ok_def map_tok_def)

lemma pair_tok_ok: "tok_ok t \<Longrightarrow> tok_ok t' \<Longrightarrow> tok_ok (pair_tok t t')"
  by (simp add: tok_ok_def pair_tok_def)

lemma list_tok_ok: "tok_ok t \<Longrightarrow> tok_ok (list_tok t)"
proof -
  assume t: "tok_ok t"
  have "get_list t (length vs) (concat (map (put t) vs) @ ns) = Some (vs, ns)" for vs ns
    using t by (induction vs) (simp_all add: tok_ok_def)
  then show ?thesis by (simp add: tok_ok_def list_tok_def)
qed

lemma sum_tok_ok: "tok_ok t \<Longrightarrow> tok_ok t' \<Longrightarrow> tok_ok (sum_tok t t')"
  by (auto simp: tok_ok_def sum_tok_def split: sum.splits)

definition tok_codec :: "'v tok \<Rightarrow> 'v codec" where
  "tok_codec t = unary_codec (put t) (\<lambda>ns. case get t ns of Some (v, []) \<Rightarrow> Some v | _ \<Rightarrow> None)"

lemma tok_codec_ok: "tok_ok t \<Longrightarrow> codec_ok (tok_codec t)"
  unfolding tok_codec_def
proof (rule unary_codec_ok)
  fix v assume "tok_ok t"
  then have "get t (put t v @ []) = Some (v, [])" unfolding tok_ok_def by blast
  then show "(case get t (put t v) of Some (v, []) \<Rightarrow> Some v | _ \<Rightarrow> None) = Some v" by simp
qed

lemma codec_ok_imp_on: "codec_ok c \<Longrightarrow> codec_on P c"
  by (simp add: codec_ok_def codec_on_def)

definition gf_tok :: "gf17 tok" where "gf_tok = map_tok nat17 (\<lambda>n. from_int17 (int n)) nat_tok"
definition byte_tok :: "8 word tok" where "byte_tok = map_tok unat of_nat nat_tok"
definition weight_tok :: "weight tok" where "weight_tok = map_tok unat of_nat nat_tok"
definition bool_tok :: "bool tok" where "bool_tok = map_tok (\<lambda>b. if b then 1 else 0) (\<lambda>n. n \<noteq> 0) nat_tok"
definition char_tok :: "char tok" where "char_tok = map_tok of_char char_of nat_tok"
definition unit_tok :: "unit tok" where "unit_tok = map_tok (\<lambda>_. 0) (\<lambda>_. ()) nat_tok"
definition option_tok :: "'v tok \<Rightarrow> 'v option tok" where
  "option_tok t = map_tok (\<lambda>x. case x of None \<Rightarrow> Inl () | Some v \<Rightarrow> Inr v) (\<lambda>x. case x of Inl _ \<Rightarrow> None | Inr v \<Rightarrow> Some v) (sum_tok unit_tok t)"
definition bytes_tok :: "bytes tok" where "bytes_tok = list_tok byte_tok"
definition pok_tok :: "(gf17, gf17) schnorr_pok tok" where
  "pok_tok = map_tok (\<lambda>p. (pok_commitment p, pok_challenge_field p, pok_response p))
     (\<lambda>(a, b, c). \<lparr>pok_commitment = a, pok_challenge_field = b, pok_response = c\<rparr>) (pair_tok gf_tok (pair_tok gf_tok gf_tok))"
definition attested_tok :: "(gf17, gf17) attested_key tok" where "attested_tok = pair_tok gf_tok pok_tok"
definition entry_tok :: "(rat, gf17, gf17) book_entry tok" where "entry_tok = pair_tok rat_tok (pair_tok attested_tok weight_tok)"
definition sig_tok :: "(rat, gf17) schnorr_signature tok" where
  "sig_tok = map_tok (\<lambda>s. (sig_e s, sig_s s)) (\<lambda>(e, s). \<lparr>sig_e = e, sig_s = s\<rparr>) (pair_tok rat_tok gf_tok)"
definition multisig_tok :: "(rat, gf17) schnorr_multi_signature tok" where "multisig_tok = pair_tok (list_tok bool_tok) sig_tok"
definition phase_tok :: "signing_protocol_phase tok" where
  "phase_tok = map_tok (\<lambda>p. case p of R1 \<Rightarrow> 0 | R2 \<Rightarrow> 1 | R3 \<Rightarrow> 2 | Aggregate \<Rightarrow> 3)
     (\<lambda>n. if n = 0 then R1 else if n = 1 then R2 else if n = 2 then R3 else Aggregate) nat_tok"
definition object_tok :: "(rat, gf17) signing_protocol_object tok" where
  "object_tok = map_tok (\<lambda>x. case x of ProtocolMessage m \<Rightarrow> Inl m | ProtocolOutput s \<Rightarrow> Inr s)
     (\<lambda>x. case x of Inl m \<Rightarrow> ProtocolMessage m | Inr s \<Rightarrow> ProtocolOutput s) (sum_tok bytes_tok multisig_tok)"
definition state_tok :: "(rat, gf17, gf17, unit) demo_state tok" where
  "state_tok = map_tok (\<lambda>s. (ds_ab_genesis_hash s, ds_ledger_id s, ds_prev s, ds_running_proof s, ds_completed_rotations s))
     (\<lambda>(h, l, p, u, i). \<lparr>ds_pp = (), ds_ab_genesis_hash = h, ds_ledger_id = l, ds_prev = p, ds_running_proof = u, ds_completed_rotations = i\<rparr>)
     (pair_tok rat_tok (pair_tok bytes_tok (pair_tok (pair_tok (list_tok entry_tok) (list_tok gf_tok)) (pair_tok (option_tok bytes_tok) nat_tok))))"

lemma toks_ok:
  "tok_ok gf_tok" "tok_ok byte_tok" "tok_ok weight_tok" "tok_ok bool_tok" "tok_ok char_tok" "tok_ok unit_tok" "tok_ok bytes_tok"
  "tok_ok pok_tok" "tok_ok attested_tok" "tok_ok entry_tok" "tok_ok sig_tok" "tok_ok multisig_tok" "tok_ok phase_tok" "tok_ok object_tok"
  unfolding gf_tok_def byte_tok_def weight_tok_def bool_tok_def char_tok_def unit_tok_def bytes_tok_def pok_tok_def attested_tok_def
    entry_tok_def sig_tok_def multisig_tok_def phase_tok_def object_tok_def
  by (intro map_tok_ok pair_tok_ok list_tok_ok sum_tok_ok nat_tok_ok rat_tok_ok;
      simp add: from_to17 to_int17_range split: signing_protocol_phase.splits signing_protocol_object.splits)+

lemma option_tok_ok: "tok_ok t \<Longrightarrow> tok_ok (option_tok t)"
  unfolding option_tok_def by (intro map_tok_ok sum_tok_ok toks_ok) (simp_all split: option.splits)

lemma state_tok_ok: "tok_ok state_tok"
  unfolding state_tok_def by (intro map_tok_ok pair_tok_ok list_tok_ok option_tok_ok toks_ok nat_tok_ok rat_tok_ok) simp

definition small_state_codec :: "(rat, gf17, gf17, unit) demo_state codec" where
  "small_state_codec = tok_codec state_tok"

definition small_example_formats :: "(rat, gf17, gf17, unit, unit) example_formats" where
  "small_example_formats =
     \<lparr>path_format = tok_codec (list_tok char_tok), params_format = tok_codec unit_tok, key_format = tok_codec unit_tok,
      vec_format = tok_codec bytes_tok, option_vec_format = tok_codec (option_tok bytes_tok), base_format = tok_codec rat_tok,
      bool_format = tok_codec bool_tok, seed_format = tok_codec bytes_tok, option_seed_format = tok_codec (option_tok bytes_tok),
      seeds_format = tok_codec (list_tok bytes_tok), secret_format = tok_codec gf_tok, option_secret_format = tok_codec (option_tok gf_tok),
      public_format = tok_codec gf_tok, pok_format = tok_codec pok_tok, attested_format = tok_codec attested_tok,
      keygen_format = tok_codec (pair_tok gf_tok attested_tok), entry_format = tok_codec entry_tok, book_format = tok_codec (list_tok entry_tok),
      book_vec_format = tok_codec (pair_tok (list_tok entry_tok) bytes_tok), secrets_format = tok_codec (list_tok gf_tok),
      weight_format = tok_codec weight_tok, bits_format = tok_codec (list_tok bool_tok), signature_format = tok_codec sig_tok,
      multisig_format = tok_codec multisig_tok, phase_format = tok_codec phase_tok,
      phase_inputs_format = tok_codec (pair_tok phase_tok (pair_tok (option_tok bytes_tok) (pair_tok bytes_tok (pair_tok (option_tok gf_tok)
        (pair_tok (list_tok entry_tok) (pair_tok (list_tok bool_tok) (pair_tok (list_tok bytes_tok) (pair_tok (list_tok bytes_tok) (list_tok bytes_tok))))))))),
      object_format = tok_codec object_tok,
      round1_format = tok_codec (map_tok nonce_commitment (\<lambda>c. \<lparr>nonce_commitment = c\<rparr>) bytes_tok),
      round2_format = tok_codec (map_tok nonce_point (\<lambda>p. \<lparr>nonce_point = p\<rparr>) gf_tok),
      round3_format = tok_codec (map_tok partial_signature (\<lambda>s. \<lparr>partial_signature = s\<rparr>) sig_tok),
      messages_format = tok_codec (list_tok bytes_tok),
      verify_inputs_format = tok_codec (pair_tok (list_tok entry_tok) (pair_tok bytes_tok multisig_tok)),
      construct_inputs_format = tok_codec (pair_tok rat_tok (pair_tok (list_tok entry_tok) (pair_tok (list_tok entry_tok)
        (pair_tok (option_tok bytes_tok) (pair_tok bytes_tok multisig_tok))))),
      vec2_format = tok_codec (pair_tok bytes_tok bytes_tok), vec3_format = tok_codec (pair_tok bytes_tok (pair_tok bytes_tok bytes_tok))\<rparr>"

lemma small_example_formats_ok: "example_formats_ok small_example_formats"
  unfolding example_formats_ok_def small_example_formats_def example_formats.simps
  by (intro conjI codec_ok_imp_on tok_codec_ok map_tok_ok pair_tok_ok list_tok_ok option_tok_ok toks_ok nat_tok_ok rat_tok_ok; simp)

lemma small_state_codec_ok: "codec_ok small_state_codec"
  unfolding small_state_codec_def by (rule tok_codec_ok [OF state_tok_ok])

section \<open>Engine and draws\<close>

text \<open>The small engine with a hash that keeps the first byte, so that keys and nonces are read off the seeds.\<close>

definition example_engine :: "(rat, gf17, gf17, nat) engine" where
  "example_engine = small_engine\<lparr>engine_sha256 := take 1\<rparr>"

lemma example_engine_sel:
  "ge_gen example_engine = Z3" "ge_mul example_engine P a = P * a" "engine_sha256 example_engine bs = take 1 bs"
  "scalar_random example_engine rng = from_int17 (int (rng mod 16) + 1)"
  "chacha20_from_seed example_engine seed = foldl (\<lambda>acc b. 2 * acc + unat b) 0 seed"
  by (simp_all add: example_engine_def small_engine_sel)

lemma example_engine_ok: "engine_ok example_engine"
  using small_engine_ok by (simp add: engine_ok_def example_engine_def)

lemma example_gadgets_ok: "gadgets_ok example_engine small_gadgets"
  using small_gadgets_ok by (simp add: gadgets_ok_def example_engine_def le_bits_of_def)

lemma example_generator: "ge_gen example_engine \<noteq> 0"
  by (simp add: example_engine_sel zero_gf17_def)

lemma first_byte: "take (Suc 0) (replicate 32 b @ xs) = [b]"
  by (simp add: numeral_eq_Suc)

lemma example_keys:
  "fst (wraps_keygen example_engine (replicate 32 b)) = from_int17 (int (unat b mod 16) + 1)"
  "book_key (n, snd (wraps_keygen example_engine (replicate 32 b)), w) = Z3 * from_int17 (int (unat b mod 16) + 1)"
  by (simp_all add: book_key_def keygen_keys example_engine_sel first_byte)

lemma example_nonce: "multisig_nonce example_engine (replicate 32 b) msg = from_int17 (int (unat b mod 16) + 1)"
  by (simp add: multisig_nonce_def example_engine_sel Let_def first_byte)

text \<open>
  A range yields its least element. Drawing a size starts the seeds over: the first sixteen give different
  keys, all later ones the scalar one.
\<close>

definition seed_byte :: "nat \<Rightarrow> 8 word" where
  "seed_byte r = (if r = 0 then 1 else if r = 1 \<or> 16 \<le> r then 0 else of_nat r)"

definition example_rng :: "nat thread_rng" where
  "example_rng = \<lparr>gen_range_usize = \<lambda>lo hi r. (lo, 0), gen_range_u64 = \<lambda>lo hi r. (lo, r),
     gen_seed = \<lambda>r. (replicate 32 (seed_byte r), Suc r)\<rparr>"

lemma example_rng_ok: "thread_rng_ok example_rng"
  by (simp add: thread_rng_ok_def example_rng_def ENTROPY_SIZE_def)

lemma late_seeds: "16 \<le> r \<Longrightarrow> gen_seeds example_rng n r = (replicate n (replicate 32 0), r + n)"
  by (induction n arbitrary: r) (simp_all add: example_rng_def seed_byte_def)

end
