(* ===== verification/DemoProperties.thy ===== *)
theory DemoProperties
  imports DemoRun ExampleInstance
begin

text \<open>
  The properties of the program \<^verbatim>\<open>demo.rs\<close>, with a witness on a committee of sixteen members.
\<close>

section \<open>A committee of sixteen\<close>

definition demo_seat :: "nat \<Rightarrow> (rat, gf17, gf17) book_entry \<times> gf17" where
  "demo_seat i = (let keys = wraps_keygen example_engine (replicate 32 (seed_byte i)) in ((of_nat i, snd keys, 475), fst keys))"

definition demo_committee :: "(rat, gf17, gf17) address_book \<times> gf17 list" where
  "demo_committee = (map (fst \<circ> demo_seat) [0..<16], map (snd \<circ> demo_seat) [0..<16])"

lemma demo_seats_drawn: "k \<le> n \<Longrightarrow> draws (seat_of example_engine example_rng) [k..<n] k = (map demo_seat [k..<n], n)"
proof (induction "n - k" arbitrary: k)
  case (Suc m)
  then have "[k..<n] = k # [Suc k..<n]" by (simp add: upt_conv_Cons)
  moreover have "seat_of example_engine example_rng k k = (demo_seat k, Suc k)"
    by (simp add: seat_of_def demo_seat_def example_rng_def Let_def)
  ultimately show ?case using Suc by simp
qed simp

lemma demo_drawn: "drawn_committee example_engine example_rng r = (demo_committee, 16)"
  using demo_seats_drawn [of 0 16] by (simp add: drawn_committee_def demo_committee_def example_rng_def)

lemma demo_book_keys:
  "map book_key (fst demo_committee) = [Z6, Z3, Z9, Z12, Z15, Z1, Z4, Z7, Z10, Z13, Z16, Z2, Z5, Z8, Z11, Z14]"
  by (simp add: demo_committee_def demo_seat_def example_keys seed_byte_def from_int17_def times_gf17_def upt_rec Let_def)

lemma demo_lengths [simp]: "length (fst demo_committee) = 16" "length (snd demo_committee) = 16"
  by (simp_all add: demo_committee_def)

lemma demo_patterns:
  "sufficient_bitvector 16 = map (\<lambda>i. i \<in> {0, 2, 3, 4, 6, 8, 9, 10, 12, 14, 15}) [0..<16] @ replicate 48 False"
  "insufficient_bitvector 16 = map (\<lambda>i. i \<in> {0, 3, 6, 9, 12, 15}) [0..<16] @ replicate 48 False"
  by code_simp+

lemma demo_selected:
  "selected (map book_key (fst demo_committee)) (sufficient_bitvector 16) = [Z6, Z9, Z12, Z15, Z4, Z10, Z13, Z16, Z5, Z11, Z14]"
  "selected (map book_key (fst demo_committee)) (insufficient_bitvector 16) = [Z6, Z12, Z4, Z13, Z5, Z14]"
  by (simp_all add: demo_book_keys demo_patterns selected_def upt_rec)

lemma demo_book_lucky: "lucky_book example_engine (fst demo_committee)"
proof -
  have nz: "0 \<notin> set (map book_key (fst demo_committee))" by (simp only: demo_book_keys) (simp add: zero_gf17_def)
  then have occ: "\<forall>entry \<in> set (fst demo_committee). \<not> is_infinity example_engine (book_key entry)"
    by (auto simp: infinity_iff [OF example_engine_ok])
  have "distinct (map book_key (fst demo_committee))" by (simp only: demo_book_keys) simp
  then show ?thesis
    using nz by (simp add: lucky_book_def occupied_signers(2) [OF occ] demo_selected)
      (simp add: plus_gf17_def zero_gf17_def from_int17_def)
qed

lemma demo_signers:
  "length (selected (snd demo_committee) (sufficient_bitvector 16)) = 11"
  by (simp add: demo_committee_def demo_patterns selected_def upt_rec)

lemma demo_nonce: "joint_nonce example_engine (replicate 11 (replicate 32 0)) message \<noteq> 0"
proof -
  have "joint_nonce example_engine (replicate 11 (replicate 32 0)) message = of_nat 11 * (Z3 * Z1)"
    by (simp add: joint_nonce_def example_nonce example_engine_sel(1,2) map_replicate_const sum_list_replicate from_int17_def)
  also have "\<dots> = Z16" by code_simp
  finally show ?thesis by (simp add: zero_gf17_def)
qed

lemma demo_turns_lucky: "lucky_turns k example_engine example_rng i demo_committee 16"
proof -
  have "lucky_turns k example_engine example_rng i demo_committee r" if "i = 0 \<longrightarrow> r = 16" for i r
    using that
  proof (induction k arbitrary: i r)
    case (Suc k)
    have "next_committee example_engine example_rng i demo_committee r = (demo_committee, 16)"
      using Suc.prems by (simp add: next_committee_def demo_drawn)
    then show ?case
      using Suc.IH [of "Suc i"] demo_book_lucky demo_nonce
      by (simp add: majority_seeds_def demo_signers late_seeds)
  qed simp
  then show ?thesis by simp
qed

section \<open>Properties\<close>

text \<open>
  C36. Every book that the program generates is well formed, whatever is drawn: 16 to 64 seats that weigh
  from 475 to 525, each with the public key of the signing key kept for it and a valid proof of knowledge.
  Such a book validates unless two occupied seats drew the same key.
\<close>

theorem demo_book_well_formed:
  fixes W :: "('b::field, 's::field, 'g::ab_group_add, 'rng) engine"
  assumes "engine_ok W" "example_formats_ok V" "thread_rng_ok T"
  shows "\<exists>ab keys r'. random_address_book V W T r = Ok ((ab, keys), r') \<and> 16 \<le> length ab \<and> length ab \<le> 64 \<and>
    list_all2 (\<lambda>(_, (pk, pok), weight) sk.
      pk = ge_mul W (ge_gen W) sk \<and> verify_knowledge W pk pok \<and> 475 \<le> weight \<and> weight \<le> 525) ab keys \<and>
    (verify_address_book W ab \<longleftrightarrow> distinct (filter (\<lambda>pk. \<not> is_infinity W pk) (map book_key ab)))"
proof -
  obtain ab keys r' where d: "drawn_committee W T r = ((ab, keys), r')" by (metis prod.collapse)
  note seats = drawn_committee_seats [OF assms(1,3) d]
  have "list_all2 (\<lambda>entry sk. drawn_seat W (entry, sk)) ab keys"
    using seats(3,4) by (simp add: list_all2_conv_all_nth)
  then have "list_all2 (\<lambda>(_, (pk, pok), weight) sk.
      pk = ge_mul W (ge_gen W) sk \<and> verify_knowledge W pk pok \<and> 475 \<le> weight \<and> weight \<le> 525) ab keys"
    by (rule list_all2_mono) (auto simp: drawn_seat_def book_key_def book_pok_def word_le_nat_alt)
  then show ?thesis
    using random_address_book_eq [OF assms(2,3), of W r] d seats(1,2) drawn_committee_valid_iff [OF assms(1,3) d] by simp
qed

theorem demo_book_well_formed_witness:
  "\<exists>ab keys r'. random_address_book small_example_formats example_engine example_rng 0 = Ok ((ab, keys), r') \<and> 16 \<le> length ab"
  using demo_book_well_formed [OF example_engine_ok small_example_formats_ok example_rng_ok, of 0] by blast

text \<open>
  C35. The two bitvectors of the program do what their comments promise, for every book it can generate:
  with 16 to 64 occupied seats that weigh from 475 to 525 each, the first subset always holds more than
  half of the weight and the second never does.
\<close>

theorem demo_bitvectors_decide:
  assumes "16 \<le> length ab" "length ab \<le> 64"
    and "\<forall>entry \<in> set ab. 475 \<le> effective_weight W entry \<and> effective_weight W entry \<le> 525"
  shows "total_weight_of W ab < 2 * signing_weight_of W ab (sufficient_bitvector (length ab)) \<and>
    2 * signing_weight_of W ab (insufficient_bitvector (length ab)) \<le> total_weight_of W ab"
  using sufficient_clears [of ab W] insufficient_fails [of ab W] assms by (simp add: MAX_AB_SIZE_def weights_within_def)

theorem demo_bitvectors_decide_witness:
  "total_weight_of example_engine (fst demo_committee)
      < 2 * signing_weight_of example_engine (fst demo_committee) (sufficient_bitvector 16) \<and>
   2 * signing_weight_of example_engine (fst demo_committee) (insufficient_bitvector 16)
      \<le> total_weight_of example_engine (fst demo_committee)"
proof -
  have "weights_within 475 525 example_engine (fst demo_committee)"
    using drawn_committee_usable [OF example_engine_ok example_rng_ok, of 0 "fst demo_committee" "snd demo_committee" 16] demo_drawn demo_book_lucky
    by (simp add: usable_committee_def)
  then show ?thesis using demo_bitvectors_decide [of "fst demo_committee" example_engine] by (simp add: weights_within_def)
qed

text \<open>
  C33. The program runs to its end: over a complete folding scheme and formats that round-trip, and with
  draws in which no two keys coincide and no keys or nonces of signers cancel, no call fails, no
  assertion is violated, and eleven restored checkpoints see ten rotations. The last checkpoint holds a
  running proof of ten steps that verifies for the ledger id of the genesis committee.
\<close>

theorem demo_completes:
  fixes W :: "('b::field, 's::field, 'g::ab_group_add, 'rng) engine" and F :: "('b, 's, 'g, 'rs, 'cs) wire"
    and N :: "('b, 's, 'g, 'pp, 'rs, 'cs, 'pk, 'vk) nova"
  assumes "engine_ok W" "gadgets_ok W G" "ge_gen W \<noteq> 0" "wire_ok F" "nova_complete W G N pp"
    and "example_formats_ok V" "codec_ok C" "thread_rng_ok T" "load_public_params W Q (ptau_dir env_var) = Ok pp"
    and "drawn_committee W T r = (com, r1)" "lucky_turns 10 W T 0 com r1"
  shows "\<exists>state r' u. demo_main 11 V C W F N Q T env_var r = Some (Ok (state, r')) \<and>
    ds_completed_rotations state = 10 \<and> ds_running_proof state = Some u \<and>
    verify_uncompressed_wraps_proof W F N pp u (ds_ledger_id state) (replicate 1248 9) = Ok True"
proof -
  have ten: "10 = Suc 9" "11 = Suc 10" by simp_all
  have lucky: "lucky_book W (fst com)"
    using assms(11) unfolding ten(1) lucky_turns.simps(2) by (simp add: next_committee_def split_def Let_def)
  from demo_start_ok [OF assms(1,4,5-10) lucky] obtain state where
    s: "demo_start V C W F N Q T env_var r = Ok (wire_bytes C state, r1)" "demo_inv W F G N state" "ds_pp state = pp"
    "ds_completed_rotations state = 0" "ds_prev state = com" .
  have "ds_completed_rotations state + 10 = demo_num_steps" "lucky_turns 10 W T (ds_completed_rotations state) (ds_prev state) r1"
    using s(4,5) assms(11) by (simp_all add: demo_num_steps_def)
  from demo_loop_ok [OF assms(1-8) s(2,3) this] obtain state' r' where
    l: "demo_loop 11 V C W F N T (wire_bytes C state) r1 = Some (Ok (state', r'))"
    "demo_inv W F G N state'" "ds_pp state' = pp" "ds_completed_rotations state' = 10"
    unfolding ten(2) demo_num_steps_def by blast
  obtain u where u: "ds_running_proof state' = Some u" using l(2,4) by (auto simp: demo_inv_def split: option.splits)
  have "demo_hints 9 = replicate 1248 9" by (simp add: demo_hints_def)
  then have "verify_uncompressed_wraps_proof W F N pp u (ds_ledger_id state') (replicate 1248 9) = Ok True"
    using chain_at_verifies [OF assms(4,5)] l u by (auto simp: demo_inv_def)
  then show ?thesis using s(1) l u by (auto simp: demo_main_def)
qed

theorem demo_completes_witness:
  "\<exists>state r'. demo_main 11 small_example_formats small_state_codec example_engine small_wire ideal_nova small_host example_rng
     (Some ''params'') 0 = Some (Ok (state, r')) \<and> ds_completed_rotations state = 10"
proof -
  have "load_public_params example_engine small_host (ptau_dir (Some ''params'')) = Ok ()"
    by (simp add: load_public_params_def small_host_def Let_def)
  from demo_completes [OF example_engine_ok example_gadgets_ok example_generator small_wire_ok ideal_nova_complete small_example_formats_ok
      small_state_codec_ok example_rng_ok this demo_drawn demo_turns_lucky]
  show ?thesis by blast
qed

end
