(* ===== verification/Stats.thy ===== *)
theory Stats
  imports Demo
begin

text \<open>
  The program \<^verbatim>\<open>examples/stats.rs\<close>: three linked rotations of committees of three, two of whom sign, with
  tables of serialized sizes and of calls for the last rotation. A panic is a panic of the model, the
  duplicate entries of the tables included. What is printed and how long calls take is left out.
\<close>

section \<open>Tables\<close>

text \<open>A \<^verbatim>\<open>BTreeMap\<close> is an association list with different keys.\<close>

record size_report =
  sr_enabled :: bool
  sr_types :: "(string \<times> nat) list"
  sr_artifacts :: "(string \<times> nat) list"

definition size_report_new :: "bool \<Rightarrow> size_report" where
  "size_report_new enabled = \<lparr>sr_enabled = enabled, sr_types = [], sr_artifacts = []\<rparr>"

text \<open>
  \<open>report_size\<close> takes the outcome of encoding the value, which is only looked at in a report that is
  enabled.
\<close>

definition report_size :: "string \<times> (bytes, wraps_error) result \<Rightarrow> size_report \<Rightarrow> (size_report, wraps_error) result" where
  "report_size entry report =
     (case entry of (name, encoded) \<Rightarrow>
      if sr_enabled report then
        and_then (expect encoded) (\<lambda>bs.
        and_then (assert_that (map_of (sr_types report) name = None)) (\<lambda>_.
        Ok (report\<lparr>sr_types := sr_types report @ [(name, length bs)]\<rparr>)))
      else Ok report)"

definition report_artifact :: "string \<Rightarrow> nat \<Rightarrow> size_report \<Rightarrow> (size_report, wraps_error) result" where
  "report_artifact name bs report =
     (if sr_enabled report then
        and_then (assert_that (map_of (sr_artifacts report) name = None)) (\<lambda>_.
        Ok (report\<lparr>sr_artifacts := sr_artifacts report @ [(name, bs)]\<rparr>))
      else Ok report)"

record timing_report =
  tr_enabled :: bool
  tr_methods :: "(string \<times> nat) list"

definition timing_report_new :: "bool \<Rightarrow> timing_report" where
  "timing_report_new enabled = \<lparr>tr_enabled = enabled, tr_methods = []\<rparr>"

fun count_call :: "string \<Rightarrow> (string \<times> nat) list \<Rightarrow> (string \<times> nat) list" where
  "count_call name [] = [(name, 1)]"
| "count_call name ((name', calls) # methods) =
     (if name = name' then (name', calls + 1) # methods else (name', calls) # count_call name methods)"

text \<open>\<^verbatim>\<open>measure\<close> returns what its closure returns; the model keeps its effect on the table.\<close>

definition measure_call :: "string \<Rightarrow> timing_report \<Rightarrow> timing_report" where
  "measure_call name timings = (if tr_enabled timings then timings\<lparr>tr_methods := count_call name (tr_methods timings)\<rparr> else timings)"

text \<open>The assertion of \<^verbatim>\<open>TimingReport::print\<close>: the merged table has no duplicate.\<close>

definition timing_print :: "timing_report \<Rightarrow> timing_report \<Rightarrow> (unit, wraps_error) result" where
  "timing_print timings setup_timings =
     (if tr_enabled timings then assert_that (distinct (map fst (tr_methods setup_timings @ tr_methods timings))) else Ok ())"

section \<open>Committees\<close>

definition stats_seat ::
  "('b::field, 's::field, 'g, 'pp, 'vk) example_formats \<Rightarrow> ('b, 's, 'g, 'rng) engine \<Rightarrow> 'r thread_rng \<Rightarrow> nat \<Rightarrow> 'r \<times> timing_report
   \<Rightarrow> ((('b, 's, 'g) book_entry \<times> 's) \<times> 'r \<times> timing_report, wraps_error) result" where
  "stats_seat V W T member st =
     (let (r, timings) = st; (seed, r) = gen_seed T r in
      and_then (round_trip (seed_format V) seed) (\<lambda>seed.
      let timings = measure_call ''WRAPS::keygen'' timings in
      and_then (round_trip (keygen_format V) (wraps_keygen W seed)) (\<lambda>(sk, (pk, pok)).
      and_then (round_trip (secret_format V) sk) (\<lambda>sk.
      and_then (round_trip (public_format V) pk) (\<lambda>pk.
      and_then (round_trip (pok_format V) pok) (\<lambda>pok.
      and_then (round_trip (attested_format V) (pk, pok)) (\<lambda>attested.
      and_then (round_trip (entry_format V) (of_nat member, attested, 1)) (\<lambda>entry. Ok ((entry, sk), (r, timings))))))))))"

definition stats_address_book ::
  "('b::field, 's::field, 'g, 'pp, 'vk) example_formats \<Rightarrow> ('b, 's, 'g, 'rng) engine \<Rightarrow> 'r thread_rng \<Rightarrow> 'r \<times> timing_report
   \<Rightarrow> ((('b, 's, 'g) address_book \<times> 's list) \<times> 'r \<times> timing_report, wraps_error) result" where
  "stats_address_book V W T st =
     and_then (collect_rng (stats_seat V W T) [0..<3] st) (\<lambda>(seats, st).
     and_then (round_trip (secrets_format V) (map snd seats)) (\<lambda>keys.
     and_then (round_trip (book_format V) (map fst seats)) (\<lambda>ab. Ok ((ab, keys), st))))"

definition report_address_book_types ::
  "('b, 's, 'g, 'pp, 'vk) example_formats \<Rightarrow> ('b, 's, 'g) address_book \<Rightarrow> 's list \<Rightarrow> size_report \<Rightarrow> (size_report, wraps_error) result" where
  "report_address_book_types V book keys report =
     and_then (index book 0) (\<lambda>entry.
     and_then (index keys 0) (\<lambda>key.
     let (node_id, (public_key, pok), weight) = entry in
     fold_result report_size
       [(''Base'', encode (base_format V) node_id), (''SchnorrSecretKey<E2>'', encode (secret_format V) key),
        (''SchnorrPublicKey<E2>'', encode (public_format V) public_key), (''SchnorrPoK<E2>'', encode (pok_format V) pok),
        (''SchnorrPoKChallenge<E2>'', encode (secret_format V) (pok_challenge_field pok)),
        (''SchnorrAttestedPubKey<E2>'', encode (attested_format V) (public_key, pok)), (''Weight'', encode (weight_format V) weight),
        (''NodeId<E2>'', encode (base_format V) node_id), (''AddressBookEntry<E2>'', encode (entry_format V) entry),
        (''AddressBook<E2>'', encode (book_format V) book)] report))"

section \<open>Signing\<close>

definition signers :: "nat list" where "signers = [0, 2]"

definition stats_bitvector :: bit_vector where
  "stats_bitvector = map (\<lambda>i. i \<in> set signers) [0..<MAX_AB_SIZE]"

definition inspect_round_message :: "('b, 's, 'g, 'rs, 'cs) wire \<Rightarrow> bytes \<Rightarrow> (('b, 's, 'g) round_message, wraps_error) result" where
  "inspect_round_message F bs =
     and_then (expect (decode (round_codec F) bs)) (\<lambda>message.
     and_then (expect (encode (round_codec F) message)) (\<lambda>bs'.
     and_then (assert_that (bs' = bs)) (\<lambda>_. Ok message)))"

text \<open>The closure \<^verbatim>\<open>run\<close> of \<^verbatim>\<open>sign\<close>.\<close>

definition stats_run ::
  "('b::field, 's::field, 'g::ab_group_add, 'pp, 'vk) example_formats \<Rightarrow> ('b, 's, 'g, 'rng) engine \<Rightarrow> ('b, 's, 'g, 'rs, 'cs) wire
   \<Rightarrow> bytes list \<Rightarrow> bytes \<Rightarrow> ('b, 's, 'g) address_book \<Rightarrow> bit_vector \<Rightarrow> signing_protocol_phase \<Rightarrow> nat option \<Rightarrow> 's option
   \<Rightarrow> bytes list \<Rightarrow> bytes list \<Rightarrow> bytes list \<Rightarrow> timing_report \<Rightarrow> (('b, 's) signing_protocol_object \<times> timing_report, wraps_error) result" where
  "stats_run V W F entropy message ab bitvector phase signer key r1 r2 r3 timings =
     and_then (round_trip (phase_format V) phase) (\<lambda>phase.
     and_then (case signer of None \<Rightarrow> Ok None | Some i \<Rightarrow> and_then (index entropy i) (\<lambda>seed. Ok (Some seed))) (\<lambda>seed.
     and_then (round_trip (option_seed_format V) seed) (\<lambda>seed.
     and_then (round_trip (option_secret_format V) key) (\<lambda>key.
     and_then (round_trip (phase_inputs_format V) (phase, seed, message, key, ab, bitvector, r1, r2, r3))
       (\<lambda>(phase, seed, message, key, book, bits, r1, r2, r3).
     let timings = measure_call ''WRAPS::signing_protocol'' timings in
     and_then (expect (signing_protocol W F phase seed message key book bits r1 r2 r3)) (\<lambda>output.
     and_then (round_trip (object_format V) output) (\<lambda>output. Ok (output, timings))))))))"

text \<open>One message of a round: the phase is run, and its bytes are received by the others.\<close>

definition stats_broadcast ::
  "('b, 's, 'g, 'pp, 'vk) example_formats \<Rightarrow> (timing_report \<Rightarrow> (('b, 's) signing_protocol_object \<times> timing_report, wraps_error) result)
   \<Rightarrow> timing_report \<Rightarrow> (bytes \<times> timing_report, wraps_error) result" where
  "stats_broadcast V run timings =
     and_then (run timings) (\<lambda>(output, timings).
     and_then (protocol_message output) (\<lambda>outgoing.
     and_then (round_trip (vec_format V) outgoing) (\<lambda>received. Ok (received, timings))))"

text \<open>The three rounds and the aggregation.\<close>

definition stats_rounds ::
  "('b::field, 's::field, 'g::ab_group_add, 'pp, 'vk) example_formats \<Rightarrow> ('b, 's, 'g, 'rng) engine \<Rightarrow> ('b, 's, 'g, 'rs, 'cs) wire
   \<Rightarrow> bytes list \<Rightarrow> bytes \<Rightarrow> ('b, 's, 'g) address_book \<Rightarrow> 's list \<Rightarrow> bit_vector \<Rightarrow> timing_report
   \<Rightarrow> ((bytes list \<times> bytes list \<times> bytes list \<times> ('b, 's) schnorr_multi_signature) \<times> timing_report, wraps_error) result" where
  "stats_rounds V W F entropy message ab keys bitvector timings =
     (let run = stats_run V W F entropy message ab bitvector in
      and_then (collect_rng (\<lambda>i. stats_broadcast V (run R1 (Some i) None [] [] [])) [0..<length signers] timings) (\<lambda>(round1, timings).
      and_then (round_trip (messages_format V) round1) (\<lambda>round1.
      and_then (collect_rng (\<lambda>i. stats_broadcast V (run R2 (Some i) None round1 [] [])) [0..<length signers] timings) (\<lambda>(round2, timings).
      and_then (round_trip (messages_format V) round2) (\<lambda>round2.
      and_then (collect_rng (\<lambda>(i, member) timings. and_then (index keys member) (\<lambda>key.
          stats_broadcast V (run R3 (Some i) (Some key) round1 round2 []) timings))
        (zip [0..<length signers] signers) timings) (\<lambda>(round3, timings).
      and_then (round_trip (messages_format V) round3) (\<lambda>round3.
      and_then (run Aggregate None None round1 round2 round3 timings) (\<lambda>(output, timings).
      and_then (protocol_output output) (\<lambda>(bits, signature).
      and_then (round_trip (signature_format V) signature) (\<lambda>signature.
      and_then (round_trip (multisig_format V) (bits, signature)) (\<lambda>multisignature.
      and_then (assert_that (fst multisignature = bitvector)) (\<lambda>_.
      Ok ((round1, round2, round3, multisignature), timings)))))))))))))"

text \<open>The sizes of the types of a session: the first message of each round is decoded to inspect its payload.\<close>

definition stats_report_session ::
  "('b, 's, 'g, 'pp, 'vk) example_formats \<Rightarrow> ('b, 's, 'g, 'rs, 'cs) wire \<Rightarrow> bit_vector \<Rightarrow> bytes list \<Rightarrow> bytes list \<Rightarrow> bytes list
   \<Rightarrow> ('b, 's) schnorr_multi_signature \<Rightarrow> size_report \<Rightarrow> (size_report, wraps_error) result" where
  "stats_report_session V F bitvector round1 round2 round3 multisignature report =
     and_then (fold_result report_size
       [(''BitVector'', encode (bits_format V) bitvector),
        (''SchnorrChallenge<E2>'', encode (base_format V) (sig_e (snd multisignature))),
        (''SchnorrResponse<E2>'', encode (secret_format V) (sig_s (snd multisignature))),
        (''Signature<E2>'', encode (signature_format V) (snd multisignature)),
        (''SchnorrMultiSignature<E2>'', encode (multisig_format V) multisignature),
        (''SigningProtocolPhase'', encode (phase_format V) R1)] report) (\<lambda>report.
     and_then (index round1 0) (\<lambda>m1.
     and_then (inspect_round_message F m1) (\<lambda>decoded_round1.
     and_then (unwrap (payload1 decoded_round1)) (\<lambda>payload.
     and_then (round_trip (round1_format V) payload) (\<lambda>payload.
     and_then (fold_result report_size
       [(''MultisigRound1'', encode (round1_format V) payload), (''RoundMessage<E2>::Round1'', encode (round_codec F) decoded_round1),
        (''SigningProtocolMessage (round 1)'', encode (vec_format V) m1)] report) (\<lambda>report.
     and_then (index round2 0) (\<lambda>m2.
     and_then (inspect_round_message F m2) (\<lambda>decoded_round2.
     and_then (unwrap (payload2 decoded_round2)) (\<lambda>payload.
     and_then (round_trip (round2_format V) payload) (\<lambda>payload.
     and_then (fold_result report_size
       [(''MultisigRound2<E2>'', encode (round2_format V) payload), (''RoundMessage<E2>::Round2'', encode (round_codec F) decoded_round2),
        (''SigningProtocolMessage (round 2)'', encode (vec_format V) m2)] report) (\<lambda>report.
     and_then (index round3 0) (\<lambda>m3.
     and_then (inspect_round_message F m3) (\<lambda>decoded_round3.
     and_then (unwrap (payload3 decoded_round3)) (\<lambda>payload.
     and_then (round_trip (round3_format V) payload) (\<lambda>payload.
     and_then (round_trip (signature_format V) (partial_signature payload)) (\<lambda>_.
     fold_result report_size
       [(''MultisigRound3<E2>'', encode (round3_format V) payload), (''RoundMessage<E2>::Round3'', encode (round_codec F) decoded_round3),
        (''SigningProtocolMessage (round 3)'', encode (vec_format V) m3),
        (''SigningProtocolObject::ProtocolMessage (round 1)'', encode (object_format V) (ProtocolMessage m1)),
        (''SigningProtocolObject::ProtocolMessage (round 2)'', encode (object_format V) (ProtocolMessage m2)),
        (''SigningProtocolObject::ProtocolMessage (round 3)'', encode (object_format V) (ProtocolMessage m3)),
        (''SigningProtocolObject<E2>::ProtocolOutput'', encode (object_format V) (ProtocolOutput multisignature))] report))))))))))))))))"

definition stats_sign ::
  "('b::field, 's::field, 'g::ab_group_add, 'pp, 'vk) example_formats \<Rightarrow> ('b, 's, 'g, 'rng) engine \<Rightarrow> ('b, 's, 'g, 'rs, 'cs) wire
   \<Rightarrow> 'r thread_rng \<Rightarrow> bytes \<Rightarrow> ('b, 's, 'g) address_book \<Rightarrow> 's list \<Rightarrow> size_report \<Rightarrow> 'r \<times> timing_report
   \<Rightarrow> ((('b, 's) schnorr_multi_signature \<times> size_report) \<times> 'r \<times> timing_report, wraps_error) result" where
  "stats_sign V W F T message ab keys report st =
     (let (r, timings) = st in
      and_then (round_trip (bits_format V) stats_bitvector) (\<lambda>bitvector.
      let (entropy, r) = gen_seeds T (length signers) r in
      and_then (round_trip (seeds_format V) entropy) (\<lambda>entropy.
      and_then (stats_rounds V W F entropy message ab keys bitvector timings) (\<lambda>((round1, round2, round3, multisignature), timings).
      and_then (stats_report_session V F bitvector round1 round2 round3 multisignature report) (\<lambda>report.
      Ok ((multisignature, report), (r, timings)))))))"

section \<open>The program\<close>

definition ROTATIONS :: nat where "ROTATIONS = 3"

text \<open>What stays the same through the rotations.\<close>

record ('b, 'pp, 'vk) stats_setup =
  st_pp :: 'pp
  st_vk :: 'vk
  st_vk_bytes :: bytes
  st_genesis_hash :: 'b
  st_ledger_id :: bytes
  st_setup_timings :: timing_report

text \<open>The first part of a rotation: the successor, the message and its checks.\<close>

definition stats_message ::
  "('b::field, 's::field, 'g::ab_group_add, 'pp, 'vk) example_formats \<Rightarrow> ('b, 's, 'g, 'rng) engine \<Rightarrow> ('b, 's, 'g, 'rs, 'cs) wire
   \<Rightarrow> ('b, 'pp, 'vk) stats_setup \<Rightarrow> nat \<Rightarrow> ('b, 's, 'g) address_book \<Rightarrow> size_report \<Rightarrow> timing_report
   \<Rightarrow> ((('b, 's, 'g) address_book \<times> bytes \<times> bytes) \<times> size_report \<times> timing_report, wraps_error) result" where
  "stats_message V W F S rotation next_ab report timings =
     (let timings = measure_call ''WRAPS::compute_addressbook_hash'' timings in
      and_then (and_then (expect (compute_addressbook_hash W next_ab)) (round_trip (base_format V))) (\<lambda>next_hash.
      and_then (round_trip (vec_format V) (replicate 1248 (of_nat rotation))) (\<lambda>hints_vk.
      let timings = measure_call ''WRAPS::compute_hints_vk_hash'' timings in
      and_then (round_trip (base_format V) (compute_hints_vk_hash W hints_vk)) (\<lambda>hints_vk_hash.
      and_then (round_trip (book_vec_format V) (next_ab, hints_vk)) (\<lambda>(next_book, hints_vk).
      let timings = measure_call ''WRAPS::compute_rotation_message'' timings in
      and_then (and_then (expect (compute_rotation_message W F next_book hints_vk)) (round_trip (vec_format V))) (\<lambda>message.
      and_then (expect (decode (message_codec F) message)) (\<lambda>decoded_message.
      and_then (assert_that (decoded_message = (next_hash, hints_vk_hash))) (\<lambda>_.
      and_then (expect (encode (message_codec F) decoded_message)) (\<lambda>encoded.
      and_then (assert_that (encoded = message)) (\<lambda>_.
      and_then (assert_that (rotation = 0 \<longrightarrow> message = st_ledger_id S)) (\<lambda>_.
      and_then (fold_result report_size
        [(''HintsVKHash<E2>'', encode (base_format V) hints_vk_hash), (''RotationMessage<E2>'', encode (message_codec F) decoded_message)] report)
        (\<lambda>report. Ok ((next_book, hints_vk, message), (report, timings))))))))))))))"

text \<open>The last part: the proof is constructed, reported and verified in both forms.\<close>

definition stats_prove ::
  "('b::field, 's::field, 'g::ab_group_add, 'pp, 'vk) example_formats \<Rightarrow> ('b, 's, 'g, 'rng) engine \<Rightarrow> ('b, 's, 'g, 'rs, 'cs) wire
   \<Rightarrow> ('b, 's, 'g, 'pp, 'rs, 'cs, 'pk, 'vk) nova \<Rightarrow> ('b, 'pp, 'vk) stats_setup \<Rightarrow> nat \<Rightarrow> ('b, 's, 'g) address_book \<Rightarrow> ('b, 's, 'g) address_book
   \<Rightarrow> bytes option \<Rightarrow> bytes \<Rightarrow> ('b, 's) schnorr_multi_signature \<Rightarrow> size_report \<Rightarrow> timing_report
   \<Rightarrow> (bytes \<times> size_report \<times> timing_report, wraps_error) result" where
  "stats_prove V W F N S rotation book next_book running_proof hints_vk multisignature report timings =
     and_then (assert_that ((running_proof = None) = (rotation = 0))) (\<lambda>_.
     and_then (round_trip (option_vec_format V) running_proof) (\<lambda>previous_proof.
     and_then (round_trip (construct_inputs_format V) (st_genesis_hash S, book, next_book, previous_proof, hints_vk, multisignature))
       (\<lambda>(proof_genesis, prev_book, next_book, previous_proof, proof_hints, signature).
     let timings = measure_call ''WRAPS::construct_wraps_proof'' timings in
     and_then (expect (construct_wraps_proof W F N (st_pp S) proof_genesis prev_book next_book previous_proof proof_hints signature)) (\<lambda>proofs.
     and_then (report_artifact ''Running proof (bincode)'' (length (fst proofs)) report) (\<lambda>report.
     and_then (report_artifact ''Compressed proof (bincode)'' (length (snd proofs)) report) (\<lambda>report.
     and_then (round_trip (vec2_format V) proofs) (\<lambda>(running, compressed).
     and_then (round_trip (vec_format V) running) (\<lambda>running.
     and_then (round_trip (vec_format V) compressed) (\<lambda>compressed.
     and_then (round_trip (vec3_format V) (compressed, st_ledger_id S, proof_hints)) (\<lambda>(compressed, proof_ledger_id, proof_hints).
     let timings = measure_call ''WRAPS::verify_compressed_wraps_proof'' timings in
     and_then (expect (verify_compressed_wraps_proof W F N (st_vk S) compressed proof_ledger_id proof_hints)) (\<lambda>verified.
     and_then (round_trip (bool_format V) verified) (\<lambda>verified.
     and_then (assert_that verified) (\<lambda>_.
     and_then (round_trip (vec3_format V) (running, proof_ledger_id, proof_hints)) (\<lambda>(running, proof_ledger_id, proof_hints).
     let timings = measure_call ''WRAPS::verify_uncompressed_wraps_proof'' timings in
     and_then (expect (verify_uncompressed_wraps_proof W F N (st_pp S) running proof_ledger_id proof_hints)) (\<lambda>verified.
     and_then (round_trip (bool_format V) verified) (\<lambda>verified.
     and_then (assert_that verified) (\<lambda>_. Ok (running, (report, timings)))))))))))))))))))"

text \<open>The reports at the start of a rotation.\<close>

definition stats_report_setup ::
  "('b, 's, 'g, 'pp, 'vk) example_formats \<Rightarrow> ('b, 'pp, 'vk) stats_setup \<Rightarrow> ('b, 's, 'g) address_book \<Rightarrow> 's list \<Rightarrow> size_report
   \<Rightarrow> (size_report, wraps_error) result" where
  "stats_report_setup V S book keys report =
     and_then (report_size (''PublicParams'', encode (params_format V) (st_pp S)) report) (\<lambda>report.
     and_then (report_artifact ''Full verification key (bincode)'' (length (st_vk_bytes S)) report) (\<lambda>report.
     and_then (report_size (''AddressBookHash<E2>'', encode (base_format V) (st_genesis_hash S)) report) (\<lambda>report.
     and_then (report_artifact ''Ledger ID (genesis rotation message)'' (length (st_ledger_id S)) report) (\<lambda>report.
     report_address_book_types V book keys report))))"

definition stats_rotation ::
  "('b::field, 's::field, 'g::ab_group_add, 'pp, 'vk) example_formats \<Rightarrow> ('b, 's, 'g, 'rng) engine \<Rightarrow> ('b, 's, 'g, 'rs, 'cs) wire
   \<Rightarrow> ('b, 's, 'g, 'pp, 'rs, 'cs, 'pk, 'vk) nova \<Rightarrow> 'r thread_rng \<Rightarrow> ('b, 'pp, 'vk) stats_setup \<Rightarrow> nat
   \<Rightarrow> ((('b, 's, 'g) address_book \<times> 's list) \<times> bytes option) \<times> 'r
   \<Rightarrow> (((('b, 's, 'g) address_book \<times> 's list) \<times> bytes option) \<times> 'r, wraps_error) result" where
  "stats_rotation V W F N T S rotation st =
     (let ((previous, running_proof), r) = st;
          report = size_report_new (rotation + 1 = ROTATIONS);
          timings = timing_report_new (rotation + 1 = ROTATIONS) in
      and_then (stats_report_setup V S (fst previous) (snd previous) report) (\<lambda>report.
      and_then (if rotation = 0 then Ok (previous, (r, timings)) else stats_address_book V W T (r, timings)) (\<lambda>(next_com, (r, timings)).
      and_then (stats_message V W F S rotation (fst next_com) report timings) (\<lambda>((next_book, hints_vk, message), (report, timings)).
      and_then (stats_sign V W F T message (fst previous) (snd previous) report (r, timings)) (\<lambda>((multisignature, report), (r, timings)).
      and_then (round_trip (verify_inputs_format V) (fst previous, message, multisignature)) (\<lambda>(book, message, multisignature).
      let timings = measure_call ''WRAPS::verify_signature'' timings in
      and_then (and_then (expect (verify_signature W F book message multisignature)) (round_trip (bool_format V))) (\<lambda>verified.
      and_then (assert_that verified) (\<lambda>_.
      and_then (stats_prove V W F N S rotation book next_book running_proof hints_vk multisignature report timings) (\<lambda>(running, (report, timings)).
      and_then (timing_print timings (st_setup_timings S)) (\<lambda>_. Ok ((next_com, Some running), r)))))))))))"

definition stats_start ::
  "('b::field, 's::field, 'g::ab_group_add, 'pp, 'vk) example_formats \<Rightarrow> ('b, 's, 'g, 'rng) engine \<Rightarrow> ('b, 's, 'g, 'rs, 'cs) wire
   \<Rightarrow> ('b, 's, 'g, 'pp, 'rs, 'cs, 'pk, 'vk) nova \<Rightarrow> ('b, 's, 'g, 'rng, 'pp) wraps_host \<Rightarrow> 'r thread_rng \<Rightarrow> string option \<Rightarrow> 'r
   \<Rightarrow> ((('b, 'pp, 'vk) stats_setup \<times> (('b, 's, 'g) address_book \<times> 's list)) \<times> 'r, wraps_error) result" where
  "stats_start V W F N Q T env_var r =
     (let setup_timings = timing_report_new True in
      and_then (round_trip (path_format V) (case env_var of Some dir \<Rightarrow> dir | None \<Rightarrow> ''params'')) (\<lambda>dir.
      let setup_timings = measure_call ''WRAPS::load_public_params'' setup_timings in
      and_then (and_then (expect (load_public_params W Q dir)) (round_trip (params_format V))) (\<lambda>pp.
      let setup_timings = measure_call ''WRAPS::setup_compressed_verifier'' setup_timings in
      and_then (expect (setup_compressed_verifier N pp)) (\<lambda>vk.
      and_then (and_then (expect (encode (key_format V) vk)) (round_trip (vec_format V))) (\<lambda>vk_bytes.
      let quiet_timings = timing_report_new False in
      and_then (stats_address_book V W T (r, quiet_timings)) (\<lambda>(previous, (r, quiet_timings)).
      and_then (and_then (expect (compute_addressbook_hash W (fst previous))) (round_trip (base_format V))) (\<lambda>genesis_hash.
      and_then (and_then (expect (compute_rotation_message W F (fst previous) (replicate 1248 0))) (round_trip (vec_format V))) (\<lambda>ledger_id.
      Ok ((\<lparr>st_pp = pp, st_vk = vk, st_vk_bytes = vk_bytes, st_genesis_hash = genesis_hash, st_ledger_id = ledger_id,
            st_setup_timings = setup_timings\<rparr>, previous), r)))))))))"

text \<open>The result is the last committee with its running proof, which the program drops.\<close>

definition stats_main ::
  "('b::field, 's::field, 'g::ab_group_add, 'pp, 'vk) example_formats \<Rightarrow> ('b, 's, 'g, 'rng) engine \<Rightarrow> ('b, 's, 'g, 'rs, 'cs) wire
   \<Rightarrow> ('b, 's, 'g, 'pp, 'rs, 'cs, 'pk, 'vk) nova \<Rightarrow> ('b, 's, 'g, 'rng, 'pp) wraps_host \<Rightarrow> 'r thread_rng \<Rightarrow> string option \<Rightarrow> 'r
   \<Rightarrow> (((('b, 's, 'g) address_book \<times> 's list) \<times> bytes option) \<times> 'r, wraps_error) result" where
  "stats_main V W F N Q T env_var r =
     and_then (stats_start V W F N Q T env_var r) (\<lambda>((S, previous), r).
     fold_result (stats_rotation V W F N T S) [0..<ROTATIONS] ((previous, None), r))"

end
