(* ===== verification/StatsRun.thy ===== *)
theory StatsRun
  imports DemoRun Stats
begin

text \<open>
  What \<open>Stats\<close> computes when nothing panics: the tables never get a duplicate, the committees are valid, two
  members of three are a majority, and three rotations go through.
\<close>

section \<open>Tables\<close>

text \<open>The names in an enabled size report.\<close>

definition reported :: "string list \<Rightarrow> string list \<Rightarrow> size_report \<Rightarrow> bool" where
  "reported types artifacts report \<longleftrightarrow>
     (sr_enabled report \<longrightarrow> map fst (sr_types report) = types \<and> map fst (sr_artifacts report) = artifacts)"

lemma reported_new: "reported [] [] (size_report_new enabled)"
  by (simp add: reported_def size_report_new_def)

lemma report_size_ok:
  assumes "reported types artifacts report" "is_ok encoded" "name \<notin> set types"
  obtains report' where "report_size (name, encoded) report = Ok report'" "reported (types @ [name]) artifacts report'"
proof -
  obtain bs where "encoded = Ok bs" using assms(2) by (auto simp: is_ok_iff)
  moreover have "map_of (sr_types report) name = None" if "sr_enabled report"
    unfolding map_of_eq_None_iff using assms(1,3) that unfolding reported_def by (metis set_map)
  ultimately show thesis
    using that assms(1) by (cases "sr_enabled report") (auto simp: report_size_def reported_def)
qed

lemma report_sizes_ok:
  assumes "reported types artifacts report" "list_all (\<lambda>entry. is_ok (snd entry)) entries" "distinct (types @ map fst entries)"
  obtains report' where "fold_result report_size entries report = Ok report'" "reported (types @ map fst entries) artifacts report'"
  using assms
proof (induction entries arbitrary: types report thesis)
  case Nil
  then show ?case by simp
next
  case (Cons entry entries)
  obtain name encoded where e: "entry = (name, encoded)" by fastforce
  have "is_ok encoded" "name \<notin> set types" using Cons.prems(3,4) by (simp_all add: e)
  from report_size_ok [OF Cons.prems(2) this] obtain report1 where
    r: "report_size entry report = Ok report1" "reported (types @ [name]) artifacts report1" unfolding e .
  have "list_all (\<lambda>entry. is_ok (snd entry)) entries" "distinct ((types @ [name]) @ map fst entries)"
    using Cons.prems(3,4) by (auto simp: e)
  from Cons.IH [OF _ r(2) this] obtain report2 where
    "fold_result report_size entries report1 = Ok report2" "reported ((types @ [name]) @ map fst entries) artifacts report2" by blast
  then show ?case using Cons.prems(1) r(1) by (simp add: e)
qed

lemma report_artifact_ok:
  assumes "reported types artifacts report" "name \<notin> set artifacts"
  obtains report' where "report_artifact name n report = Ok report'" "reported types (artifacts @ [name]) report'"
proof -
  have "map_of (sr_artifacts report) name = None" if "sr_enabled report"
    unfolding map_of_eq_None_iff using assms that unfolding reported_def by (metis set_map)
  then show thesis using that assms(1) by (cases "sr_enabled report") (auto simp: report_artifact_def reported_def)
qed

lemma encode_is_ok: "codec_ok c \<Longrightarrow> is_ok (encode c v)"
  by (auto simp: wire_bytes)

lemma encode_on_is_ok: "codec_on P c \<Longrightarrow> P v \<Longrightarrow> is_ok (encode c v)"
proof -
  assume "codec_on P c" "P v"
  then obtain bs where "codec_ser c v = Ok bs" by (auto simp: codec_on_def)
  then show ?thesis by (simp add: encode_def)
qed

text \<open>The methods that a rotation calls; the setup calls others.\<close>

definition rotation_methods :: "string list" where
  "rotation_methods =
     [''WRAPS::keygen'', ''WRAPS::compute_addressbook_hash'', ''WRAPS::compute_hints_vk_hash'', ''WRAPS::compute_rotation_message'',
      ''WRAPS::signing_protocol'', ''WRAPS::verify_signature'', ''WRAPS::construct_wraps_proof'', ''WRAPS::verify_compressed_wraps_proof'',
      ''WRAPS::verify_uncompressed_wraps_proof'']"

definition timed :: "timing_report \<Rightarrow> bool" where
  "timed timings \<longleftrightarrow> set (map fst (tr_methods timings)) \<subseteq> set rotation_methods \<and> distinct (map fst (tr_methods timings))"

lemma count_call_set: "set (map fst (count_call name methods)) = insert name (set (map fst methods))"
  by (induction name methods rule: count_call.induct) auto

lemma count_call_distinct: "distinct (map fst methods) \<Longrightarrow> distinct (map fst (count_call name methods))"
proof (induction name methods rule: count_call.induct)
  case (2 name name' calls methods)
  then show ?case using count_call_set [of name methods] by simp
qed simp

lemma timed_new: "timed (timing_report_new enabled)"
  by (simp add: timed_def timing_report_new_def)

lemma timed_measure: "timed timings \<Longrightarrow> name \<in> set rotation_methods \<Longrightarrow> timed (measure_call name timings)"
  unfolding timed_def measure_call_def using count_call_set [of name "tr_methods timings"] count_call_distinct [of "tr_methods timings" name] by auto

lemma methods_listed:
  "''WRAPS::keygen'' \<in> set rotation_methods" "''WRAPS::compute_addressbook_hash'' \<in> set rotation_methods"
  "''WRAPS::compute_hints_vk_hash'' \<in> set rotation_methods" "''WRAPS::compute_rotation_message'' \<in> set rotation_methods"
  "''WRAPS::signing_protocol'' \<in> set rotation_methods" "''WRAPS::verify_signature'' \<in> set rotation_methods"
  "''WRAPS::construct_wraps_proof'' \<in> set rotation_methods" "''WRAPS::verify_compressed_wraps_proof'' \<in> set rotation_methods"
  "''WRAPS::verify_uncompressed_wraps_proof'' \<in> set rotation_methods"
  by (simp_all add: rotation_methods_def)

lemmas timed_steps = timed_measure [OF _ methods_listed(1)] timed_measure [OF _ methods_listed(2)] timed_measure [OF _ methods_listed(3)]
  timed_measure [OF _ methods_listed(4)] timed_measure [OF _ methods_listed(5)] timed_measure [OF _ methods_listed(6)]
  timed_measure [OF _ methods_listed(7)] timed_measure [OF _ methods_listed(8)] timed_measure [OF _ methods_listed(9)]

definition setup_methods :: timing_report where
  "setup_methods = measure_call ''WRAPS::setup_compressed_verifier'' (measure_call ''WRAPS::load_public_params'' (timing_report_new True))"

lemma timing_print_ok: "timed timings \<Longrightarrow> timing_print timings setup_methods = Ok ()"
proof -
  assume t: "timed timings"
  have "map fst (tr_methods setup_methods) = [''WRAPS::load_public_params'', ''WRAPS::setup_compressed_verifier'']"
    by (simp add: setup_methods_def measure_call_def timing_report_new_def)
  moreover have "set rotation_methods \<inter> {''WRAPS::load_public_params'', ''WRAPS::setup_compressed_verifier''} = {}"
    by (simp add: rotation_methods_def)
  ultimately have "distinct (map fst (tr_methods setup_methods)) \<and> set (map fst (tr_methods setup_methods)) \<inter> set rotation_methods = {}"
    by auto
  then have "distinct (map fst (tr_methods setup_methods @ tr_methods timings))"
    using t unfolding timed_def map_append distinct_append by blast
  then show ?thesis by (simp add: timing_print_def)
qed

section \<open>Committees of three\<close>

definition stats_committee :: "('b::field, 's::field, 'g, 'rng) engine \<Rightarrow> bytes list \<Rightarrow> ('b, 's, 'g) address_book \<times> 's list" where
  "stats_committee W seeds =
     (map (\<lambda>(i, seed). (of_nat i, snd (wraps_keygen W seed), 1)) (zip [0..<3] seeds), map (\<lambda>seed. fst (wraps_keygen W seed)) seeds)"

lemma stats_seat_eq:
  assumes "example_formats_ok V" "thread_rng_ok T"
  shows "stats_seat V W T i (r, timings) =
    Ok (((of_nat i, snd (wraps_keygen W (fst (gen_seed T r))), 1), fst (wraps_keygen W (fst (gen_seed T r)))),
      (snd (gen_seed T r), measure_call ''WRAPS::keygen'' timings))"
proof -
  obtain sk pk pok where "wraps_keygen W (fst (gen_seed T r)) = (sk, pk, pok)" using prod_cases3 by blast
  then show ?thesis
    using assms by (simp add: stats_seat_def thread_rng_ok_def round_trip_formats round_trip_sized split_def Let_def)
qed

lemma stats_address_book_ok:
  assumes "example_formats_ok V" "thread_rng_ok T" "timed timings"
  obtains timings' where
    "stats_address_book V W T (r, timings) = Ok (stats_committee W (fst (gen_seeds T 3 r)), (snd (gen_seeds T 3 r), timings'))" "timed timings'"
proof
  let ?m = "measure_call ''WRAPS::keygen''"
  show "stats_address_book V W T (r, timings) = Ok (stats_committee W (fst (gen_seeds T 3 r)), (snd (gen_seeds T 3 r), ?m (?m (?m timings))))"
    using assms(1) by (simp add: stats_address_book_def stats_committee_def stats_seat_eq [OF assms(1,2)] round_trip_formats
        numeral_3_eq_3 upt_rec split_def Let_def)
  show "timed (?m (?m (?m timings)))" using assms(3) by (intro timed_steps)
qed

text \<open>A committee that the program can work with, and the accidents that its draws must avoid.\<close>

definition usable_trio ::
  "('b::field, 's::field, 'g::ab_group_add, 'rng) engine \<Rightarrow> ('b, 's, 'g) address_book \<Rightarrow> 's list \<Rightarrow> bool" where
  "usable_trio W ab keys \<longleftrightarrow>
     committee W ab keys \<and> length ab = 3 \<and> weights_within 1 1 W ab \<and> sum_list (signing_subset W ab stats_bitvector) \<noteq> 0"

definition lucky_trio :: "('b::field, 's::field, 'g::ab_group_add, 'rng) engine \<Rightarrow> ('b, 's, 'g) address_book \<Rightarrow> bool" where
  "lucky_trio W ab \<longleftrightarrow>
     distinct (map book_key ab) \<and> 0 \<notin> set (map book_key ab) \<and> sum_list (signing_subset W ab stats_bitvector) \<noteq> 0"

lemma stats_committee_usable:
  fixes W :: "('b::field, 's::field, 'g::ab_group_add, 'rng) engine"
  assumes ok: "engine_ok W" and len: "length seeds = 3" and lucky: "lucky_trio W (fst (stats_committee W seeds))"
  shows "usable_trio W (fst (stats_committee W seeds)) (snd (stats_committee W seeds))"
proof -
  let ?ab = "fst (stats_committee W seeds)" and ?keys = "snd (stats_committee W seeds)"
  have n: "length ?ab = 3" using len by (simp add: stats_committee_def)
  have entry: "?ab ! i = (of_nat i, snd (wraps_keygen W (seeds ! i)), 1)" if "i < 3" for i
    using that len by (simp add: stats_committee_def)
  have nz: "\<not> is_infinity W (book_key (?ab ! i))" if "i < 3" for i
    using lucky nth_mem [of i ?ab] that n by (auto simp: lucky_trio_def infinity_iff [OF ok])
  have "weights_within 1 1 W ?ab"
    unfolding weights_within_def all_set_conv_all_nth using n entry nz by (auto simp: effective_weight_def book_key_def split_def)
  moreover have "map book_key ?ab = map (ge_mul W (ge_gen W)) ?keys"
    using n len entry by (intro nth_equalityI) (auto simp: stats_committee_def book_key_def keygen_keys(2))
  moreover have "\<forall>e \<in> set ?ab. verify_knowledge W (book_key e) (book_pok e)"
    unfolding all_set_conv_all_nth using n entry keygen_attested [OF ok] by (auto simp: book_key_def book_pok_def)
  moreover have "total_weight_of W ?ab < 2 ^ 64"
  proof -
    have "total_weight_of W ?ab \<le> 1 * length ?ab"
      using n calculation(1) by (intro weights_bound_total) (simp_all add: MAX_AB_SIZE_def)
    then show ?thesis using n by simp
  qed
  ultimately show ?thesis
    using lucky n unfolding usable_trio_def committee_def lucky_trio_def by (simp add: MAX_AB_SIZE_def)
qed

lemma stats_bitvector_sized [simp]: "length stats_bitvector = MAX_AB_SIZE"
  by (simp add: stats_bitvector_def)

lemma stats_bitvector_eq: "stats_bitvector = [True, False, True] @ replicate 61 False"
  by code_simp

lemma trio_majority: "length ab = 3 \<Longrightarrow> weights_within 1 1 W ab \<Longrightarrow> total_weight_of W ab < 2 * signing_weight_of W ab stats_bitvector"
  by (auto simp: stats_bitvector_eq weights_within_def signing_weight_of_def numeral_3_eq_3 length_Suc_conv)

lemma trio_selected: "length keys = 3 \<Longrightarrow> selected keys stats_bitvector = [keys ! 0, keys ! 2]"
  by (auto simp: stats_bitvector_eq selected_def numeral_3_eq_3 numeral_2_eq_2 length_Suc_conv)

lemma trio_inside: "\<not> selects_beyond stats_bitvector 3"
  by (simp add: selects_beyond_def stats_bitvector_eq)

section \<open>The signing session\<close>

lemma stats_run_ok:
  assumes "example_formats_ok V" "length bv = MAX_AB_SIZE"
    and "case i of None \<Rightarrow> entropy = None | Some k \<Rightarrow> k < length seeds \<and> entropy = Some (seeds ! k)" "sized_seed entropy"
    and "signing_protocol W F phase entropy bs sk ab bv r1 r2 r3 = Ok out" "sized_object out"
  shows "stats_run V W F seeds bs ab bv phase i sk r1 r2 r3 timings = Ok (out, measure_call ''WRAPS::signing_protocol'' timings)"
proof -
  have rt: "round_trip (phase_inputs_format V) (phase, entropy, bs, sk, ab, bv, r1, r2, r3) = Ok (phase, entropy, bs, sk, ab, bv, r1, r2, r3)"
    using assms(2,4) by (intro round_trip_sized(6) [OF assms(1)]) simp
  have "(case i of None \<Rightarrow> Ok None | Some i \<Rightarrow> and_then (index seeds i) (\<lambda>seed. Ok (Some seed))) = (Ok entropy :: (bytes option, wraps_error) result)"
    using assms(3) by (cases i) simp_all
  then show ?thesis
    unfolding stats_run_def Let_def
    using rt assms(5) round_trip_sized(2) [OF assms(1,4)] round_trip_sized(7) [OF assms(1,6)]
    by (simp add: round_trip_formats [OF assms(1)] del: and_then_eq_Ok)
qed

lemma stats_broadcast_ok:
  assumes "example_formats_ok V" "run timings = Ok (ProtocolMessage m, timings')"
  shows "stats_broadcast V run timings = Ok (m, timings')"
  using assms by (simp add: stats_broadcast_def round_trip_formats)

lemma stats_rounds_ok:
  fixes W :: "('b::field, 's::field, 'g::ab_group_add, 'rng) engine" and F :: "('b, 's, 'g, 'rs, 'cs) wire"
  assumes ok: "engine_ok W" and wf: "wire_ok F" and V: "example_formats_ok V" and use: "usable_trio W ab keys"
    and seeds: "length seeds = 2" "\<forall>seed \<in> set seeds. length seed = ENTROPY_SIZE"
    and msg: "decode_rotation_message F bs = Ok message" and timed: "timed timings"
  obtains ms1 ms2 ms3 p1 p2 p3 sig timings' where
    "stats_rounds V W F seeds bs ab keys stats_bitvector timings = Ok ((ms1, ms2, ms3, (stats_bitvector, sig)), timings')" "timed timings'"
    "length ms1 = 2" "length ms2 = 2" "length ms3 = 2"
    "encode (round_codec F) (Round1 p1) = Ok (ms1 ! 0)" "encode (round_codec F) (Round2 p2) = Ok (ms2 ! 0)"
    "encode (round_codec F) (Round3 p3) = Ok (ms3 ! 0)"
    "verify_signature W F ab bs (stats_bitvector, sig) = Ok True"
    "degenerate_nonce W (sum_list (signing_subset W ab stats_bitvector)) sig \<longleftrightarrow> joint_nonce W seeds message = 0"
proof -
  let ?bv = stats_bitvector
  have com: "committee W ab keys" "length ab = 3" "sum_list (signing_subset W ab ?bv) \<noteq> 0" "weights_within 1 1 W ab"
    using use by (simp_all add: usable_trio_def)
  have lk: "length keys = 3" using committee_lengths [OF com(1)] com(2) by simp
  have two: "length seeds = length (selected keys ?bv)" "\<not> selects_beyond ?bv (length ab)"
    using seeds(1) trio_selected [OF lk] trio_inside com(2) by simp_all
  from committee_session [OF ok wf com(1) stats_bitvector_sized two(2,1) com(3) msg, unfolded seeds(1)] obtain ms1 ms2 ms3 sig where
    lens: "length ms1 = 2" "length ms2 = 2" "length ms3 = 2" and
    ph1: "\<forall>i < 2. signing_protocol W F R1 (Some (seeds ! i)) bs None ab ?bv [] [] [] = Ok (ProtocolMessage (ms1 ! i))" and
    ph2: "\<forall>i < 2. signing_protocol W F R2 (Some (seeds ! i)) bs None ab ?bv ms1 [] [] = Ok (ProtocolMessage (ms2 ! i))" and
    ph3: "\<forall>i < 2. signing_protocol W F R3 (Some (seeds ! i)) bs (Some (selected keys ?bv ! i)) ab ?bv ms1 ms2 [] = Ok (ProtocolMessage (ms3 ! i))" and
    agg: "signing_protocol W F Aggregate None bs None ab ?bv ms1 ms2 ms3 = Ok (ProtocolOutput (?bv, sig))" and
    ver: "verify_signature W F ab bs (?bv, sig) = Ok (total_weight_of W ab < 2 * signing_weight_of W ab ?bv)" and
    deg: "degenerate_nonce W (sum_list (signing_subset W ab ?bv)) sig \<longleftrightarrow> joint_nonce W seeds message = 0" .
  have sized: "sized_seed (Some (seeds ! i))" if "i < 2" for i using seeds that by (simp add: sized_seed_def)
  let ?m = "measure_call ''WRAPS::signing_protocol''"
  note run = stats_run_ok [OF V stats_bitvector_sized, where seeds = seeds and i = "Some i" for i, simplified seeds(1) option.case]
  have r1: "stats_broadcast V (stats_run V W F seeds bs ab ?bv R1 (Some i) None [] [] []) t = Ok (ms1 ! i, ?m t)" if "i < 2" for i t
    using run [OF conjI [OF that refl] sized [OF that] ph1 [rule_format, OF that]] by (intro stats_broadcast_ok [OF V]) simp
  have r2: "stats_broadcast V (stats_run V W F seeds bs ab ?bv R2 (Some i) None ms1 [] []) t = Ok (ms2 ! i, ?m t)" if "i < 2" for i t
    using run [OF conjI [OF that refl] sized [OF that] ph2 [rule_format, OF that]] by (intro stats_broadcast_ok [OF V]) simp
  have r3: "stats_broadcast V (stats_run V W F seeds bs ab ?bv R3 (Some i) (Some (selected keys ?bv ! i)) ms1 ms2 []) t = Ok (ms3 ! i, ?m t)" if "i < 2" for i t
    using run [OF conjI [OF that refl] sized [OF that] ph3 [rule_format, OF that]] by (intro stats_broadcast_ok [OF V]) simp
  have a: "stats_run V W F seeds bs ab ?bv Aggregate None None ms1 ms2 ms3 t = Ok (ProtocolOutput (?bv, sig), ?m t)" for t
    using agg by (intro stats_run_ok [OF V stats_bitvector_sized]) (simp_all add: sized_seed_def)
  have m: "ms1 = [ms1 ! 0, ms1 ! 1]" "ms2 = [ms2 ! 0, ms2 ! 1]" "ms3 = [ms3 ! 0, ms3 ! 1]"
    using lens by (auto simp: numeral_2_eq_2 length_Suc_conv)
  have idx: "[0..<Suc (Suc 0)] = [0, Suc 0]" "zip [0, Suc 0] [0, 2] = [(0, 0), (Suc 0, 2 :: nat)]" by simp_all
  have c1: "collect_rng (\<lambda>i. stats_broadcast V (stats_run V W F seeds bs ab ?bv R1 (Some i) None [] [] [])) [0, Suc 0] t = Ok (ms1, ?m (?m t))" for t
    using m(1) by (simp add: r1)
  have c2: "collect_rng (\<lambda>i. stats_broadcast V (stats_run V W F seeds bs ab ?bv R2 (Some i) None ms1 [] [])) [0, Suc 0] t = Ok (ms2, ?m (?m t))" for t
    using m(2) by (simp add: r2)
  have c3: "collect_rng (\<lambda>(i, member) timings. and_then (index keys member) (\<lambda>key.
      stats_broadcast V (stats_run V W F seeds bs ab ?bv R3 (Some i) (Some key) ms1 ms2 []) timings)) [(0, 0), (Suc 0, 2)] t = Ok (ms3, ?m (?m t))" for t
    using m(3) r3 [of 0] r3 [of 1] lk by (simp add: trio_selected)
  have "stats_rounds V W F seeds bs ab keys ?bv timings = Ok ((ms1, ms2, ms3, (?bv, sig)), ?m (?m (?m (?m (?m (?m (?m timings)))))))"
    by (simp add: stats_rounds_def signers_def idx c1 c2 c3 a round_trip_formats [OF V] round_trip_sized [OF V] Let_def del: and_then_eq_Ok upt_Suc collect_rng.simps)
  moreover have "timed (?m (?m (?m (?m (?m (?m (?m timings)))))))" using timed by (intro timed_steps)
  moreover obtain p1 p2 p3 where "encode (round_codec F) (Round1 p1) = Ok (ms1 ! 0)" "encode (round_codec F) (Round2 p2) = Ok (ms2 ! 0)"
    "encode (round_codec F) (Round3 p3) = Ok (ms3 ! 0)"
    using phase_messages(1) [OF ph1 [rule_format, OF zero_less_numeral]] phase_messages(2) [OF ph2 [rule_format, OF zero_less_numeral]]
      phase_messages(3) [OF ph3 [rule_format, OF zero_less_numeral]] by blast
  moreover have "total_weight_of W ab < 2 * signing_weight_of W ab ?bv" by (rule trio_majority [OF com(2,4)])
  ultimately show thesis using that lens ver deg by simp
qed

lemma inspect_ok: "wire_ok F \<Longrightarrow> encode (round_codec F) m = Ok bs \<Longrightarrow> inspect_round_message F bs = Ok m"
  by (simp add: inspect_round_message_def decode_encoded wire_ok_def)

text \<open>The names of the size table, in the order in which they are reported.\<close>

definition setup_types :: "string list" where
  "setup_types = [''PublicParams'', ''AddressBookHash<E2>'', ''Base'', ''SchnorrSecretKey<E2>'', ''SchnorrPublicKey<E2>'', ''SchnorrPoK<E2>'',
     ''SchnorrPoKChallenge<E2>'', ''SchnorrAttestedPubKey<E2>'', ''Weight'', ''NodeId<E2>'', ''AddressBookEntry<E2>'', ''AddressBook<E2>'']"

definition message_types :: "string list" where
  "message_types = [''HintsVKHash<E2>'', ''RotationMessage<E2>'']"

definition signature_types :: "string list" where
  "signature_types = [''BitVector'', ''SchnorrChallenge<E2>'', ''SchnorrResponse<E2>'', ''Signature<E2>'', ''SchnorrMultiSignature<E2>'',
     ''SigningProtocolPhase'']"

definition round1_types :: "string list" where
  "round1_types = [''MultisigRound1'', ''RoundMessage<E2>::Round1'', ''SigningProtocolMessage (round 1)'']"

definition round2_types :: "string list" where
  "round2_types = [''MultisigRound2<E2>'', ''RoundMessage<E2>::Round2'', ''SigningProtocolMessage (round 2)'']"

definition round3_types :: "string list" where
  "round3_types = [''MultisigRound3<E2>'', ''RoundMessage<E2>::Round3'', ''SigningProtocolMessage (round 3)'',
     ''SigningProtocolObject::ProtocolMessage (round 1)'', ''SigningProtocolObject::ProtocolMessage (round 2)'',
     ''SigningProtocolObject::ProtocolMessage (round 3)'', ''SigningProtocolObject<E2>::ProtocolOutput'']"

lemma types_distinct:
  "distinct (setup_types @ message_types @ signature_types @ round1_types @ round2_types @ round3_types)"
  by code_simp

lemma types_distinct_prefix:
  "distinct setup_types" "distinct (setup_types @ message_types)" "distinct ((setup_types @ message_types) @ signature_types)"
  "distinct (((setup_types @ message_types) @ signature_types) @ round1_types)"
  "distinct ((((setup_types @ message_types) @ signature_types) @ round1_types) @ round2_types)"
  "distinct (((((setup_types @ message_types) @ signature_types) @ round1_types) @ round2_types) @ round3_types)"
  using types_distinct by (simp_all only: distinct_append set_append append_assoc Int_Un_distrib Int_Un_distrib2 Un_empty)

lemma formats_encode:
  assumes "example_formats_ok V"
  shows "is_ok (encode (params_format V) a)" "is_ok (encode (base_format V) b)" "is_ok (encode (secret_format V) c)"
    "is_ok (encode (public_format V) d)" "is_ok (encode (pok_format V) e)" "is_ok (encode (attested_format V) f)"
    "is_ok (encode (weight_format V) g)" "is_ok (encode (entry_format V) h)" "is_ok (encode (book_format V) i)"
    "is_ok (encode (signature_format V) j)" "is_ok (encode (phase_format V) k)" "is_ok (encode (round1_format V) l)"
    "is_ok (encode (round2_format V) m)" "is_ok (encode (round3_format V) n)" "is_ok (encode (vec_format V) p)"
    "is_ok (encode (object_format V) (ProtocolMessage q))" "is_ok (encode (bits_format V) stats_bitvector)"
    "is_ok (encode (multisig_format V) (stats_bitvector, s))" "is_ok (encode (object_format V) (ProtocolOutput (stats_bitvector, s)))"
  using assms by (simp_all add: example_formats_ok_def encode_is_ok encode_on_is_ok [where P = "\<lambda>bv. length bv = MAX_AB_SIZE"]
      encode_on_is_ok [where P = sized_object] encode_on_is_ok [where P = "\<lambda>sig. length (fst sig) = MAX_AB_SIZE"])

lemma stats_report_session_ok:
  fixes W :: "('b::field, 's::field, 'g::ab_group_add, 'rng) engine" and F :: "('b, 's, 'g, 'rs, 'cs) wire"
  assumes wf: "wire_ok F" and V: "example_formats_ok V" and lens: "length ms1 = 2" "length ms2 = 2" "length ms3 = 2"
    and enc: "encode (round_codec F) (Round1 p1) = Ok (ms1 ! 0)" "encode (round_codec F) (Round2 p2) = Ok (ms2 ! 0)"
      "encode (round_codec F) (Round3 p3) = Ok (ms3 ! 0)"
    and rep: "reported (setup_types @ message_types) artifacts report"
  obtains report' types where
    "stats_report_session V F stats_bitvector ms1 ms2 ms3 (stats_bitvector, sig) report = Ok report'" "reported types artifacts report'"
proof -
  let ?e0 = "[(''BitVector'', encode (bits_format V) stats_bitvector), (''SchnorrChallenge<E2>'', encode (base_format V) (sig_e sig)),
      (''SchnorrResponse<E2>'', encode (secret_format V) (sig_s sig)), (''Signature<E2>'', encode (signature_format V) sig),
      (''SchnorrMultiSignature<E2>'', encode (multisig_format V) (stats_bitvector, sig)), (''SigningProtocolPhase'', encode (phase_format V) R1)]"
  let ?e1 = "[(''MultisigRound1'', encode (round1_format V) p1), (''RoundMessage<E2>::Round1'', encode (round_codec F) (Round1 p1)),
      (''SigningProtocolMessage (round 1)'', encode (vec_format V) (ms1 ! 0))]"
  let ?e2 = "[(''MultisigRound2<E2>'', encode (round2_format V) p2), (''RoundMessage<E2>::Round2'', encode (round_codec F) (Round2 p2)),
      (''SigningProtocolMessage (round 2)'', encode (vec_format V) (ms2 ! 0))]"
  let ?e3 = "[(''MultisigRound3<E2>'', encode (round3_format V) p3), (''RoundMessage<E2>::Round3'', encode (round_codec F) (Round3 p3)),
      (''SigningProtocolMessage (round 3)'', encode (vec_format V) (ms3 ! 0)),
      (''SigningProtocolObject::ProtocolMessage (round 1)'', encode (object_format V) (ProtocolMessage (ms1 ! 0))),
      (''SigningProtocolObject::ProtocolMessage (round 2)'', encode (object_format V) (ProtocolMessage (ms2 ! 0))),
      (''SigningProtocolObject::ProtocolMessage (round 3)'', encode (object_format V) (ProtocolMessage (ms3 ! 0))),
      (''SigningProtocolObject<E2>::ProtocolOutput'', encode (object_format V) (ProtocolOutput (stats_bitvector, sig)))]"
  have names: "map fst ?e0 = signature_types" "map fst ?e1 = round1_types" "map fst ?e2 = round2_types" "map fst ?e3 = round3_types"
    by (simp_all add: signature_types_def round1_types_def round2_types_def round3_types_def)
  have oks: "list_all (\<lambda>entry. is_ok (snd entry)) ?e0" "list_all (\<lambda>entry. is_ok (snd entry)) ?e1"
    "list_all (\<lambda>entry. is_ok (snd entry)) ?e2" "list_all (\<lambda>entry. is_ok (snd entry)) ?e3"
    using enc by (simp_all add: formats_encode [OF V])
  from report_sizes_ok [OF rep oks(1)] types_distinct_prefix(3) obtain report0 where
    r0: "fold_result report_size ?e0 report = Ok report0" "reported ((setup_types @ message_types) @ signature_types) artifacts report0"
    unfolding names by blast
  from report_sizes_ok [OF r0(2) oks(2)] types_distinct_prefix(4) obtain report1 where
    r1: "fold_result report_size ?e1 report0 = Ok report1" "reported (((setup_types @ message_types) @ signature_types) @ round1_types) artifacts report1"
    unfolding names by blast
  from report_sizes_ok [OF r1(2) oks(3)] types_distinct_prefix(5) obtain report2 where
    r2: "fold_result report_size ?e2 report1 = Ok report2"
    "reported ((((setup_types @ message_types) @ signature_types) @ round1_types) @ round2_types) artifacts report2"
    unfolding names by blast
  from report_sizes_ok [OF r2(2) oks(4)] types_distinct_prefix(6) obtain report3 where
    r3: "fold_result report_size ?e3 report2 = Ok report3"
    "reported (((((setup_types @ message_types) @ signature_types) @ round1_types) @ round2_types) @ round3_types) artifacts report3"
    unfolding names by blast
  note inspect = inspect_ok [OF wf enc(1)] inspect_ok [OF wf enc(2)] inspect_ok [OF wf enc(3)]
  have "stats_report_session V F stats_bitvector ms1 ms2 ms3 (stats_bitvector, sig) report = Ok report3"
    unfolding stats_report_session_def
    using lens r0(1) r1(1) r2(1) r3(1)
    by (simp add: inspect round_trip_formats [OF V] del: fold_result.simps and_then_eq_Ok)
  then show thesis using that r3(2) by blast
qed

lemma stats_sign_ok:
  fixes W :: "('b::field, 's::field, 'g::ab_group_add, 'rng) engine" and F :: "('b, 's, 'g, 'rs, 'cs) wire"
  assumes ok: "engine_ok W" and wf: "wire_ok F" and V: "example_formats_ok V" and T: "thread_rng_ok T" and use: "usable_trio W ab keys"
    and msg: "decode_rotation_message F bs = Ok message" and timed: "timed timings" and rep: "reported (setup_types @ message_types) artifacts report"
  obtains sig report' types timings' where
    "stats_sign V W F T bs ab keys report (r, timings) = Ok (((stats_bitvector, sig), report'), (snd (gen_seeds T 2 r), timings'))"
    "timed timings'" "reported types artifacts report'" "verify_signature W F ab bs (stats_bitvector, sig) = Ok True"
    "degenerate_nonce W (sum_list (signing_subset W ab stats_bitvector)) sig \<longleftrightarrow> joint_nonce W (fst (gen_seeds T 2 r)) message = 0"
proof -
  have seeds: "length (fst (gen_seeds T 2 r)) = 2" "\<forall>seed \<in> set (fst (gen_seeds T 2 r)). length seed = ENTROPY_SIZE"
    using gen_seeds_length [of T 2 r] gen_seeds_entropy [OF T] by blast+
  from stats_rounds_ok [OF ok wf V use seeds msg timed] obtain ms1 ms2 ms3 p1 p2 p3 sig timings' where
    s: "stats_rounds V W F (fst (gen_seeds T 2 r)) bs ab keys stats_bitvector timings = Ok ((ms1, ms2, ms3, (stats_bitvector, sig)), timings')" "timed timings'"
    and lens: "length ms1 = 2" "length ms2 = 2" "length ms3 = 2"
    and enc: "encode (round_codec F) (Round1 p1) = Ok (ms1 ! 0)" "encode (round_codec F) (Round2 p2) = Ok (ms2 ! 0)"
      "encode (round_codec F) (Round3 p3) = Ok (ms3 ! 0)"
    and v: "verify_signature W F ab bs (stats_bitvector, sig) = Ok True"
      "degenerate_nonce W (sum_list (signing_subset W ab stats_bitvector)) sig \<longleftrightarrow> joint_nonce W (fst (gen_seeds T 2 r)) message = 0" .
  from stats_report_session_ok [OF wf V lens enc rep, of sig] obtain report' types where
    r: "stats_report_session V F stats_bitvector ms1 ms2 ms3 (stats_bitvector, sig) report = Ok report'" "reported types artifacts report'" .
  have "stats_sign V W F T bs ab keys report (r, timings) = Ok (((stats_bitvector, sig), report'), (snd (gen_seeds T 2 r), timings'))"
    using s(1) r(1) seeds(2)
    by (simp add: stats_sign_def signers_def numeral_2_eq_2 [symmetric] round_trip_sized [OF V] split_def Let_def del: and_then_eq_Ok gen_seeds.simps)
  then show thesis using that s(2) r(2) v by blast
qed

section \<open>One rotation\<close>

lemma stats_message_ok:
  fixes W :: "('b::field, 's::field, 'g::ab_group_add, 'rng) engine" and F :: "('b, 's, 'g, 'rs, 'cs) wire"
  assumes wf: "wire_ok F" and V: "example_formats_ok V" and valid: "verify_address_book W next_ab"
    and led: "i = 0 \<Longrightarrow> st_ledger_id S = wire_bytes (message_codec F) (demo_message W 0 next_ab)"
    and rep: "reported setup_types artifacts report" and timed: "timed timings"
  obtains report' timings' where
    "stats_message V W F S i next_ab report timings =
      Ok ((next_ab, demo_hints i, wire_bytes (message_codec F) (demo_message W i next_ab)), (report', timings'))"
    "reported (setup_types @ message_types) artifacts report'" "timed timings'"
proof -
  have mc: "codec_ok (message_codec F)" using wf by (simp add: wire_ok_def)
  let ?e = "[(''HintsVKHash<E2>'', encode (base_format V) (compute_hints_vk_hash W (demo_hints i))),
      (''RotationMessage<E2>'', encode (message_codec F) (demo_message W i next_ab))]"
  have names: "map fst ?e = message_types" by (simp add: message_types_def)
  have "list_all (\<lambda>entry. is_ok (snd entry)) ?e" by (simp add: formats_encode [OF V] encode_is_ok [OF mc])
  from report_sizes_ok [OF rep this] types_distinct_prefix(2) obtain report' where
    r: "fold_result report_size ?e report = Ok report'" "reported (setup_types @ message_types) artifacts report'"
    unfolding names by blast
  let ?t = "measure_call ''WRAPS::compute_rotation_message'' (measure_call ''WRAPS::compute_hints_vk_hash''
      (measure_call ''WRAPS::compute_addressbook_hash'' timings))"
  have "stats_message V W F S i next_ab report timings =
      Ok ((next_ab, demo_hints i, wire_bytes (message_codec F) (demo_message W i next_ab)), (report', ?t))"
    using r(1) led
    by (simp add: stats_message_def demo_hints_def [symmetric] round_trip_formats [OF V] compute_addressbook_hash_eq valid
        rotation_message_eq [OF wf valid] demo_message_def [symmetric] wire_bytes [OF mc] Let_def del: and_then_eq_Ok fold_result.simps)
  then show thesis using that r(2) timed timed_steps by blast
qed

text \<open>What holds between rotations: a usable committee, and the proof of the rotations so far.\<close>

definition stats_inv ::
  "('b::field, 's::field, 'g::ab_group_add, 'rng) engine \<Rightarrow> ('b, 's, 'g, 'rs, 'cs) wire \<Rightarrow> ('b, 's, 'g) gadgets
   \<Rightarrow> ('b, 's, 'g, 'pp, 'rs, 'cs, 'pk, 'vk) nova \<Rightarrow> ('b, 'pp, 'vk) stats_setup \<Rightarrow> nat \<Rightarrow> ('b, 's, 'g) address_book \<times> 's list
   \<Rightarrow> bytes option \<Rightarrow> bool" where
  "stats_inv W F G N S i com running \<longleftrightarrow>
     usable_trio W (fst com) (snd com) \<and>
     (case running of
        None \<Rightarrow> i = 0 \<and> st_genesis_hash S = book_hash W (fst com)
      | Some u \<Rightarrow> 0 < i \<and> chain_at W F G N (st_pp S) (st_genesis_hash S) (compute_hints_vk_hash W (demo_hints 0)) i (fst com)
          (demo_hints (i - 1)) u)"

definition stats_setup_ok ::
  "('b::field, 's::field, 'g::ab_group_add, 'rng) engine \<Rightarrow> ('b, 's, 'g, 'rs, 'cs) wire
   \<Rightarrow> ('b, 's, 'g, 'pp, 'rs, 'cs, 'pk, 'vk) nova \<Rightarrow> ('b, 'pp, 'vk) stats_setup \<Rightarrow> bool" where
  "stats_setup_ok W F N S \<longleftrightarrow>
     st_ledger_id S = wire_bytes (message_codec F) (st_genesis_hash S, compute_hints_vk_hash W (demo_hints 0)) \<and>
     setup_compressed_verifier N (st_pp S) = Ok (st_vk S) \<and> st_setup_timings S = setup_methods"

definition setup_artifacts :: "string list" where
  "setup_artifacts = [''Full verification key (bincode)'', ''Ledger ID (genesis rotation message)'']"

lemma stats_prove_ok:
  fixes W :: "('b::field, 's::field, 'g::ab_group_add, 'rng) engine" and F :: "('b, 's, 'g, 'rs, 'cs) wire"
    and N :: "('b, 's, 'g, 'pp, 'rs, 'cs, 'pk, 'vk) nova"
  assumes hyps: "engine_ok W" "gadgets_ok W G" "ge_gen W \<noteq> 0" "wire_ok F" "nova_complete W G N (st_pp S)"
    and V: "example_formats_ok V" and S: "stats_setup_ok W F N S" and inv: "stats_inv W F G N S i com running"
    and len: "length bv = MAX_AB_SIZE" and valid: "verify_address_book W next_ab" and gen: "i = 0 \<Longrightarrow> next_ab = fst com"
    and auth: "rotation_authorised W (fst com) (demo_message W i next_ab) bv sig"
    and live: "reject_sentinel_signers W (fst com) bv = Ok ()"
    and nd: "\<not> degenerate_nonce W (sum_list (signing_subset W (fst com) bv)) sig"
    and rep: "reported types setup_artifacts report" and timed: "timed timings"
  obtains u report' timings' where
    "stats_prove V W F N S i (fst com) next_ab running (demo_hints i) (bv, sig) report timings = Ok (u, (report', timings'))"
    "timed timings'"
    "chain_at W F G N (st_pp S) (st_genesis_hash S) (compute_hints_vk_hash W (demo_hints 0)) (Suc i) next_ab (demo_hints i) u"
proof -
  let ?v0 = "compute_hints_vk_hash W (demo_hints 0)"
  have "case running of
        None \<Rightarrow> i = 0 \<and> st_genesis_hash S = book_hash W (fst com) \<and> ?v0 = compute_hints_vk_hash W (demo_hints i) \<and>
          book_hash W next_ab = book_hash W (fst com)
      | Some prev \<Rightarrow> (\<exists>prev_hints. chain_at W F G N (st_pp S) (st_genesis_hash S) ?v0 i (fst com) prev_hints prev)"
    using inv gen by (auto simp: stats_inv_def split: option.splits)
  from construct_proceeds [OF hyps len valid auth [unfolded demo_message_def] live nd this]
  obtain u c vk where p: "construct_wraps_proof W F N (st_pp S) (st_genesis_hash S) (fst com) next_ab running (demo_hints i) (bv, sig) = Ok (u, c)"
    "chain_at W F G N (st_pp S) (st_genesis_hash S) ?v0 (Suc i) next_ab (demo_hints i) u" "setup_compressed_verifier N (st_pp S) = Ok vk"
    "verify_uncompressed_wraps_proof W F N (st_pp S) u (wire_bytes (message_codec F) (st_genesis_hash S, ?v0)) (demo_hints i) = Ok True"
    "verify_compressed_wraps_proof W F N vk c (wire_bytes (message_codec F) (st_genesis_hash S, ?v0)) (demo_hints i) = Ok True"
    by blast
  have "vk = st_vk S" using p(3) S by (simp add: stats_setup_ok_def)
  then have c: "construct_wraps_proof W F N (st_pp S) (st_genesis_hash S) (fst com) next_ab running (demo_hints i) (bv, sig) = Ok (u, c)"
    "chain_at W F G N (st_pp S) (st_genesis_hash S) ?v0 (Suc i) next_ab (demo_hints i) u"
    "verify_uncompressed_wraps_proof W F N (st_pp S) u (st_ledger_id S) (demo_hints i) = Ok True"
    "verify_compressed_wraps_proof W F N (st_vk S) c (st_ledger_id S) (demo_hints i) = Ok True"
    using p S by (simp_all add: stats_setup_ok_def)
  have none: "(running = None) = (i = 0)" using inv by (auto simp: stats_inv_def split: option.splits)
  have fresh: "''Running proof (bincode)'' \<notin> set setup_artifacts" "''Compressed proof (bincode)'' \<notin> set (setup_artifacts @ [''Running proof (bincode)''])"
    by (simp_all add: setup_artifacts_def)
  from report_artifact_ok [OF rep fresh(1)] obtain report1 where r1: "report_artifact ''Running proof (bincode)'' (length u) report = Ok report1"
    "reported types (setup_artifacts @ [''Running proof (bincode)'']) report1" .
  from report_artifact_ok [OF r1(2) fresh(2)] obtain report2 where r2: "report_artifact ''Compressed proof (bincode)'' (length c) report1 = Ok report2" .
  let ?t = "measure_call ''WRAPS::verify_uncompressed_wraps_proof'' (measure_call ''WRAPS::verify_compressed_wraps_proof''
      (measure_call ''WRAPS::construct_wraps_proof'' timings))"
  have "stats_prove V W F N S i (fst com) next_ab running (demo_hints i) (bv, sig) report timings = Ok (u, (report2, ?t))"
    using c len r1(1) r2 by (simp add: stats_prove_def none round_trip_formats [OF V] round_trip_sized [OF V] Let_def del: and_then_eq_Ok)
  moreover have "timed ?t" using timed by (intro timed_steps)
  ultimately show thesis using that c(2) by blast
qed

lemma stats_report_setup_ok:
  assumes V: "example_formats_ok V" and lens: "length ab = 3" "length keys = 3"
  obtains report' where "stats_report_setup V S ab keys (size_report_new enabled) = Ok report'" "reported setup_types setup_artifacts report'"
proof -
  obtain node_id public_key pok weight where e: "ab ! 0 = (node_id, (public_key, pok), weight)" by (metis prod.collapse)
  let ?e = "[(''Base'', encode (base_format V) node_id), (''SchnorrSecretKey<E2>'', encode (secret_format V) (keys ! 0)),
        (''SchnorrPublicKey<E2>'', encode (public_format V) public_key), (''SchnorrPoK<E2>'', encode (pok_format V) pok),
        (''SchnorrPoKChallenge<E2>'', encode (secret_format V) (pok_challenge_field pok)),
        (''SchnorrAttestedPubKey<E2>'', encode (attested_format V) (public_key, pok)), (''Weight'', encode (weight_format V) weight),
        (''NodeId<E2>'', encode (base_format V) node_id), (''AddressBookEntry<E2>'', encode (entry_format V) (ab ! 0)),
        (''AddressBook<E2>'', encode (book_format V) ab)]"
  have names: "([] @ [''PublicParams'']) @ [''AddressBookHash<E2>''] @ map fst ?e = setup_types" by (simp add: setup_types_def)
  from report_size_ok [OF reported_new formats_encode(1) [OF V], of "''PublicParams''" "st_pp S" enabled] obtain report1 where
    r1: "report_size (''PublicParams'', encode (params_format V) (st_pp S)) (size_report_new enabled) = Ok report1" "reported [''PublicParams''] [] report1" by auto
  from report_artifact_ok [OF r1(2), of "''Full verification key (bincode)''" "length (st_vk_bytes S)"] obtain report2 where
    r2: "report_artifact ''Full verification key (bincode)'' (length (st_vk_bytes S)) report1 = Ok report2"
    "reported [''PublicParams''] [''Full verification key (bincode)''] report2" by auto
  from report_size_ok [OF r2(2) formats_encode(2) [OF V], of "''AddressBookHash<E2>''" "st_genesis_hash S"] obtain report3 where
    r3: "report_size (''AddressBookHash<E2>'', encode (base_format V) (st_genesis_hash S)) report2 = Ok report3"
    "reported [''PublicParams'', ''AddressBookHash<E2>''] [''Full verification key (bincode)''] report3" by auto
  from report_artifact_ok [OF r3(2), of "''Ledger ID (genesis rotation message)''" "length (st_ledger_id S)"] obtain report4 where
    r4: "report_artifact ''Ledger ID (genesis rotation message)'' (length (st_ledger_id S)) report3 = Ok report4"
    "reported [''PublicParams'', ''AddressBookHash<E2>''] setup_artifacts report4" by (auto simp: setup_artifacts_def)
  have "list_all (\<lambda>entry. is_ok (snd entry)) ?e" by (simp add: formats_encode [OF V])
  moreover have "distinct ([''PublicParams'', ''AddressBookHash<E2>''] @ map fst ?e)"
    using types_distinct_prefix(1) names by simp
  ultimately obtain report5 where r5: "fold_result report_size ?e report4 = Ok report5"
    "reported ([''PublicParams'', ''AddressBookHash<E2>''] @ map fst ?e) setup_artifacts report5"
    using report_sizes_ok [OF r4(2)] by blast
  have "stats_report_setup V S ab keys (size_report_new enabled) = Ok report5"
    using r1(1) r2(1) r3(1) r4(1) r5(1) lens
    by (simp add: stats_report_setup_def report_address_book_types_def e Let_def del: fold_result.simps and_then_eq_Ok)
  then show thesis using that r5(2) names by simp
qed

text \<open>The committee that a rotation goes to, and the accidents that the draws of some rotations must avoid.\<close>

definition stats_next ::
  "('b::field, 's::field, 'g, 'rng) engine \<Rightarrow> 'r thread_rng \<Rightarrow> nat \<Rightarrow> ('b, 's, 'g) address_book \<times> 's list \<Rightarrow> 'r
   \<Rightarrow> (('b, 's, 'g) address_book \<times> 's list) \<times> 'r" where
  "stats_next W T i prev r = (if i = 0 then (prev, r) else (stats_committee W (fst (gen_seeds T 3 r)), snd (gen_seeds T 3 r)))"

fun lucky_rotations ::
  "nat \<Rightarrow> ('b::field, 's::field, 'g::ab_group_add, 'rng) engine \<Rightarrow> 'r thread_rng \<Rightarrow> nat \<Rightarrow> ('b, 's, 'g) address_book \<times> 's list \<Rightarrow> 'r \<Rightarrow> bool" where
  "lucky_rotations 0 W T i prev r = True"
| "lucky_rotations (Suc k) W T i prev r =
     (let (com, r) = stats_next W T i prev r; (seeds, r) = gen_seeds T 2 r in
      lucky_trio W (fst com) \<and> joint_nonce W seeds (demo_message W i (fst com)) \<noteq> 0 \<and> lucky_rotations k W T (Suc i) com r)"

lemma stats_next_usable:
  fixes W :: "('b::field, 's::field, 'g::ab_group_add, 'rng) engine"
  assumes "engine_ok W" "usable_trio W (fst prev) (snd prev)" "stats_next W T i prev r = (com, r1)" "lucky_trio W (fst com)"
  shows "usable_trio W (fst com) (snd com)"
proof (cases "i = 0")
  case True
  then show ?thesis using assms(2,3) by (simp add: stats_next_def)
next
  case False
  then have "com = stats_committee W (fst (gen_seeds T 3 r))" using assms(3) by (simp add: stats_next_def)
  then show ?thesis using stats_committee_usable [OF assms(1) gen_seeds_length, of T r] assms(4) by simp
qed

lemma stats_successor_ok:
  assumes "example_formats_ok V" "thread_rng_ok T" "stats_next W T i prev r = (com, r1)"
  obtains timings where
    "(if i = 0 then Ok (prev, (r, timing_report_new enabled)) else stats_address_book V W T (r, timing_report_new enabled)) = Ok (com, (r1, timings))"
    "timed timings"
proof (cases "i = 0")
  case True
  then show thesis using that [of "timing_report_new enabled"] assms(3) timed_new by (simp add: stats_next_def)
next
  case False
  from stats_address_book_ok [OF assms(1,2) timed_new, of W r enabled] obtain timings where
    "stats_address_book V W T (r, timing_report_new enabled) = Ok (stats_committee W (fst (gen_seeds T 3 r)), (snd (gen_seeds T 3 r), timings))"
    "timed timings" .
  then show thesis using that [of timings] assms(3) False by (simp add: stats_next_def)
qed

lemma stats_rotation_ok:
  fixes W :: "('b::field, 's::field, 'g::ab_group_add, 'rng) engine" and F :: "('b, 's, 'g, 'rs, 'cs) wire"
    and N :: "('b, 's, 'g, 'pp, 'rs, 'cs, 'pk, 'vk) nova"
  assumes hyps: "engine_ok W" "gadgets_ok W G" "ge_gen W \<noteq> 0" "wire_ok F" "nova_complete W G N (st_pp S)"
    and V: "example_formats_ok V" and T: "thread_rng_ok T" and S: "stats_setup_ok W F N S" and inv: "stats_inv W F G N S i prev running"
    and com: "stats_next W T i prev r = (com, r1)" and lucky: "lucky_trio W (fst com)"
    and nonce: "joint_nonce W (fst (gen_seeds T 2 r1)) (demo_message W i (fst com)) \<noteq> 0"
  obtains u where "stats_rotation V W F N T S i ((prev, running), r) = Ok ((com, Some u), snd (gen_seeds T 2 r1))"
    "stats_inv W F G N S (Suc i) com (Some u)"
proof -
  have use: "usable_trio W (fst prev) (snd prev)" using inv by (simp add: stats_inv_def)
  have use': "usable_trio W (fst com) (snd com)" by (rule stats_next_usable [OF hyps(1) use com lucky])
  have valid: "verify_address_book W (fst com)" using use' committee_valid [OF hyps(1)] by (auto simp: usable_trio_def)
  have gen: "fst com = fst prev" if "i = 0" using com that by (simp add: stats_next_def)
  have led: "st_ledger_id S = wire_bytes (message_codec F) (demo_message W 0 (fst com))" if "i = 0"
    using inv S that gen by (auto simp: stats_inv_def stats_setup_ok_def demo_message_def split: option.splits)
  have lens: "length (fst prev) = 3" "length (snd prev) = 3"
    using use committee_lengths [of W "fst prev" "snd prev"] by (simp_all add: usable_trio_def)
  from stats_report_setup_ok [OF V lens, of S "Suc i = ROTATIONS"] obtain report1 where
    p1: "stats_report_setup V S (fst prev) (snd prev) (size_report_new (Suc i = ROTATIONS)) = Ok report1" "reported setup_types setup_artifacts report1" .
  from stats_successor_ok [OF V T com, of "Suc i = ROTATIONS"] obtain timings1 where
    p2: "(if i = 0 then Ok (prev, (r, timing_report_new (Suc i = ROTATIONS))) else stats_address_book V W T (r, timing_report_new (Suc i = ROTATIONS)))
      = Ok (com, (r1, timings1))" "timed timings1" .
  from stats_message_ok [OF hyps(4) V valid led p1(2) p2(2)] obtain report2 timings2 where
    p3: "stats_message V W F S i (fst com) report1 timings1 =
      Ok ((fst com, demo_hints i, wire_bytes (message_codec F) (demo_message W i (fst com))), (report2, timings2))"
    "reported (setup_types @ message_types) setup_artifacts report2" "timed timings2" .
  let ?bs = "wire_bytes (message_codec F) (demo_message W i (fst com))"
  have dm: "decode_rotation_message F ?bs = Ok (demo_message W i (fst com))"
    using hyps(4) by (simp add: decode_rotation_message_iff wire_ok_def wire_bytes)
  from stats_sign_ok [OF hyps(1,4) V T use dm p3(3,2)] obtain sig report3 types timings3 where
    p4: "stats_sign V W F T ?bs (fst prev) (snd prev) report2 (r1, timings2)
        = Ok (((stats_bitvector, sig), report3), (snd (gen_seeds T 2 r1), timings3))"
      "timed timings3" "reported types setup_artifacts report3" "verify_signature W F (fst prev) ?bs (stats_bitvector, sig) = Ok True"
      "degenerate_nonce W (sum_list (signing_subset W (fst prev) stats_bitvector)) sig \<longleftrightarrow> joint_nonce W (fst (gen_seeds T 2 r1)) (demo_message W i (fst com)) = 0" .
  have nd: "\<not> degenerate_nonce W (sum_list (signing_subset W (fst prev) stats_bitvector)) sig" using p4(5) nonce by simp
  have auth: "rotation_authorised W (fst prev) (demo_message W i (fst com)) stats_bitvector sig" "reject_sentinel_signers W (fst prev) stats_bitvector = Ok ()"
    using p4(4) unfolding verify_signature_True [OF hyps(1) stats_bitvector_sized dm] by blast+
  let ?t = "measure_call ''WRAPS::verify_signature'' timings3"
  have "timed ?t" using p4(2) by (intro timed_steps)
  from stats_prove_ok [OF hyps V S inv stats_bitvector_sized valid gen auth nd p4(3) this] obtain u report4 timings4 where
    p5: "stats_prove V W F N S i (fst prev) (fst com) running (demo_hints i) (stats_bitvector, sig) report3 ?t = Ok (u, (report4, timings4))"
    "timed timings4"
    "chain_at W F G N (st_pp S) (st_genesis_hash S) (compute_hints_vk_hash W (demo_hints 0)) (Suc i) (fst com) (demo_hints i) u" .
  have "timing_print timings4 (st_setup_timings S) = Ok ()" using timing_print_ok [OF p5(2)] S by (simp add: stats_setup_ok_def)
  then have "stats_rotation V W F N T S i ((prev, running), r) = Ok ((com, Some u), snd (gen_seeds T 2 r1))"
    unfolding stats_rotation_def using p1(1) p2(1) p3(1) p4(1,4) p5(1)
    by (simp add: round_trip_formats [OF V] round_trip_sized [OF V] Let_def split del: if_split del: and_then_eq_Ok)
  moreover have "stats_inv W F G N S (Suc i) com (Some u)" using use' p5(3) by (simp add: stats_inv_def)
  ultimately show thesis using that by blast
qed

section \<open>The whole run\<close>

lemma stats_rotations_ok:
  fixes W :: "('b::field, 's::field, 'g::ab_group_add, 'rng) engine" and F :: "('b, 's, 'g, 'rs, 'cs) wire"
    and N :: "('b, 's, 'g, 'pp, 'rs, 'cs, 'pk, 'vk) nova"
  assumes hyps: "engine_ok W" "gadgets_ok W G" "ge_gen W \<noteq> 0" "wire_ok F" "nova_complete W G N (st_pp S)"
    and V: "example_formats_ok V" and T: "thread_rng_ok T" and S: "stats_setup_ok W F N S"
  shows "stats_inv W F G N S i prev running \<Longrightarrow> lucky_rotations k W T i prev r \<Longrightarrow>
    \<exists>com running' r'. fold_result (stats_rotation V W F N T S) [i..<i + k] ((prev, running), r) = Ok ((com, running'), r') \<and>
      stats_inv W F G N S (i + k) com running'"
proof (induction k arbitrary: i prev running r)
  case (Suc k)
  obtain com r1 where com: "stats_next W T i prev r = (com, r1)" by fastforce
  have luck: "lucky_trio W (fst com)" "joint_nonce W (fst (gen_seeds T 2 r1)) (demo_message W i (fst com)) \<noteq> 0"
    "lucky_rotations k W T (Suc i) com (snd (gen_seeds T 2 r1))"
    using Suc.prems(2) by (simp_all add: com split_def Let_def)
  from stats_rotation_ok [OF hyps V T S Suc.prems(1) com luck(1,2)] obtain u where
    u: "stats_rotation V W F N T S i ((prev, running), r) = Ok ((com, Some u), snd (gen_seeds T 2 r1))" "stats_inv W F G N S (Suc i) com (Some u)" .
  have "[i..<i + Suc k] = i # [Suc i..<Suc i + k]" by (simp add: upt_conv_Cons)
  then show ?case using Suc.IH [OF u(2) luck(3)] u(1) by simp
qed simp

lemma stats_start_ok:
  fixes W :: "('b::field, 's::field, 'g::ab_group_add, 'rng) engine" and F :: "('b, 's, 'g, 'rs, 'cs) wire"
    and N :: "('b, 's, 'g, 'pp, 'rs, 'cs, 'pk, 'vk) nova"
  assumes ok: "engine_ok W" and wf: "wire_ok F" and nc: "nova_complete W G N pp" and V: "example_formats_ok V" and T: "thread_rng_ok T"
    and load: "load_public_params W Q (case env_var of Some dir \<Rightarrow> dir | None \<Rightarrow> ''params'') = Ok pp"
    and lucky: "lucky_trio W (fst (stats_committee W (fst (gen_seeds T 3 r))))"
  obtains S where
    "stats_start V W F N Q T env_var r = Ok ((S, stats_committee W (fst (gen_seeds T 3 r))), snd (gen_seeds T 3 r))"
    "stats_setup_ok W F N S" "stats_inv W F G N S 0 (stats_committee W (fst (gen_seeds T 3 r))) None" "st_pp S = pp"
proof -
  let ?com = "stats_committee W (fst (gen_seeds T 3 r))"
  have use: "usable_trio W (fst ?com) (snd ?com)" by (rule stats_committee_usable [OF ok gen_seeds_length lucky])
  then have valid: "verify_address_book W (fst ?com)" using committee_valid [OF ok] by (auto simp: usable_trio_def)
  obtain vk where vk: "setup_compressed_verifier N pp = Ok vk"
    using nc by (auto simp: nova_complete_def setup_compressed_verifier_def)
  from stats_address_book_ok [OF V T timed_new, of W r False] obtain timings where
    ab: "stats_address_book V W T (r, timing_report_new False) = Ok (?com, (snd (gen_seeds T 3 r), timings))" .
  have kf: "codec_ok (key_format V)" using V by (simp add: example_formats_ok_def)
  have h0: "replicate 1248 0 = demo_hints 0" by (simp add: demo_hints_def)
  let ?S = "\<lparr>st_pp = pp, st_vk = vk, st_vk_bytes = wire_bytes (key_format V) vk, st_genesis_hash = book_hash W (fst ?com),
      st_ledger_id = wire_bytes (message_codec F) (demo_message W 0 (fst ?com)), st_setup_timings = setup_methods\<rparr>"
  have "stats_start V W F N Q T env_var r = Ok ((?S, ?com), snd (gen_seeds T 3 r))"
    using load vk ab valid
    by (simp add: stats_start_def round_trip_formats [OF V] compute_addressbook_hash_eq h0 rotation_message_eq [OF wf valid]
        demo_message_def [symmetric] wire_bytes [OF kf] setup_methods_def [symmetric] Let_def del: and_then_eq_Ok)
  moreover have "stats_setup_ok W F N ?S" "stats_inv W F G N ?S 0 ?com None"
    using vk use by (simp_all add: stats_setup_ok_def stats_inv_def demo_message_def)
  ultimately show thesis using that by simp
qed

end
