(* ===== verification/StatsProperties.thy ===== *)
theory StatsProperties
  imports StatsRun ExampleInstance
begin

text \<open>
  The property of the program \<^verbatim>\<open>stats.rs\<close>, with a witness on committees of three members.
\<close>

section \<open>The committees of a run\<close>

definition trio :: "nat \<Rightarrow> (rat, gf17, gf17) address_book \<times> gf17 list" where
  "trio r = stats_committee example_engine (fst (gen_seeds example_rng 3 r))"

lemma example_seeds:
  "gen_seeds example_rng 2 r = ([replicate 32 (seed_byte r), replicate 32 (seed_byte (r + 1))], r + 2)"
  "gen_seeds example_rng 3 r =
     ([replicate 32 (seed_byte r), replicate 32 (seed_byte (r + 1)), replicate 32 (seed_byte (r + 2))], r + 3)"
  by (simp_all add: example_rng_def numeral_2_eq_2 numeral_3_eq_3)

lemma trio_keys:
  "map book_key (fst (trio r)) = map (\<lambda>b. Z3 * from_int17 (int (unat b mod 16) + 1)) [seed_byte r, seed_byte (r + 1), seed_byte (r + 2)]"
  by (simp add: trio_def stats_committee_def example_seeds example_keys upt_rec)

lemma trio_lucky:
  assumes "map book_key (fst (trio r)) = [a, b, c]" "distinct [0, a, b, c]" "a + c \<noteq> 0"
  shows "lucky_trio example_engine (fst (trio r))"
proof -
  have "\<forall>entry \<in> set (fst (trio r)). book_key entry \<in> {a, b, c}"
    using assms(1) by (metis empty_iff image_eqI insert_iff list.set_map list.simps(15) set_empty)
  then have "\<forall>entry \<in> set (fst (trio r)). \<not> is_infinity example_engine (book_key entry)"
    using assms(2) by (auto simp: infinity_iff [OF example_engine_ok])
  from occupied_signers(2) [OF this, of stats_bitvector] show ?thesis
    using assms by (simp add: lucky_trio_def stats_bitvector_eq selected_def)
qed

lemma trios_lucky:
  "lucky_trio example_engine (fst (trio 0))" "lucky_trio example_engine (fst (trio 5))" "lucky_trio example_engine (fst (trio 10))"
  by (rule trio_lucky, simp only: trio_keys list.map,
      simp_all add: seed_byte_def from_int17_def times_gf17_def plus_gf17_def zero_gf17_def)+

lemma stats_joint_nonce:
  "joint_nonce example_engine (fst (gen_seeds example_rng 2 r)) message =
     Z3 * from_int17 (int (unat (seed_byte r) mod 16) + 1) + Z3 * from_int17 (int (unat (seed_byte (r + 1)) mod 16) + 1)"
  by (simp add: joint_nonce_def example_seeds example_nonce example_engine_sel(1,2))

lemma stats_nonces:
  "joint_nonce example_engine (fst (gen_seeds example_rng 2 3)) message \<noteq> 0"
  "joint_nonce example_engine (fst (gen_seeds example_rng 2 8)) message \<noteq> 0"
  "joint_nonce example_engine (fst (gen_seeds example_rng 2 13)) message \<noteq> 0"
  unfolding stats_joint_nonce by code_simp+

lemma trio_next: "stats_next example_engine example_rng (Suc i) prev r = (trio r, r + 3)"
  by (simp add: stats_next_def trio_def example_seeds)

lemma stats_rotations_lucky: "lucky_rotations 3 example_engine example_rng 0 (trio 0) 3"
proof -
  have "lucky_rotations 0 example_engine example_rng (Suc (Suc (Suc 0))) (trio 10) 15" by simp
  then have "lucky_rotations (Suc 0) example_engine example_rng (Suc (Suc 0)) (trio 5) 10"
    using trios_lucky(3) stats_nonces(3) by (simp add: trio_next example_seeds)
  then have "lucky_rotations (Suc (Suc 0)) example_engine example_rng (Suc 0) (trio 0) 5"
    using trios_lucky(2) stats_nonces(2) unfolding lucky_rotations.simps(2) [of "Suc 0"] by (simp add: trio_next example_seeds)
  then have "lucky_rotations (Suc (Suc (Suc 0))) example_engine example_rng 0 (trio 0) 3"
    using trios_lucky(1) stats_nonces(1) unfolding lucky_rotations.simps(2) [of "Suc (Suc 0)"]
    by (simp add: stats_next_def example_seeds)
  then show ?thesis by (simp only: numeral_3_eq_3)
qed

section \<open>Property\<close>

text \<open>
  C34. The program runs to its end: over a complete folding scheme and formats that round-trip, and with
  draws in which no two keys coincide and no keys or nonces of signers cancel, all three rotations
  complete. In particular no type, artifact or method enters a table twice, as the reports assert. The run
  ends with a proof that verifies for the ledger id of the genesis committee and the hints key of the
  third rotation.
\<close>

theorem stats_completes:
  fixes W :: "('b::field, 's::field, 'g::ab_group_add, 'rng) engine" and F :: "('b, 's, 'g, 'rs, 'cs) wire"
    and N :: "('b, 's, 'g, 'pp, 'rs, 'cs, 'pk, 'vk) nova"
  assumes "engine_ok W" "gadgets_ok W G" "ge_gen W \<noteq> 0" "wire_ok F" "nova_complete W G N pp"
    and "example_formats_ok V" "thread_rng_ok T"
    and "load_public_params W Q (case env_var of Some dir \<Rightarrow> dir | None \<Rightarrow> ''params'') = Ok pp"
    and "gen_seeds T 3 r = (seeds, r1)" "lucky_rotations 3 W T 0 (stats_committee W seeds) r1"
  shows "\<exists>com u r' ledger_id. stats_main V W F N Q T env_var r = Ok ((com, Some u), r') \<and>
    compute_rotation_message W F (fst (stats_committee W seeds)) (replicate 1248 0) = Ok ledger_id \<and>
    verify_uncompressed_wraps_proof W F N pp u ledger_id (replicate 1248 2) = Ok True"
proof -
  let ?com = "stats_committee W seeds"
  have luck: "lucky_trio W (fst ?com)"
    using assms(10) unfolding numeral_3_eq_3 lucky_rotations.simps(2) by (simp add: stats_next_def split_def Let_def)
  have "verify_address_book W (fst ?com)"
    using stats_committee_usable [OF assms(1) gen_seeds_length, of T r] luck assms(9) committee_valid [OF assms(1)]
    by (auto simp: usable_trio_def)
  note ledger = rotation_message_eq [OF assms(4) this, of "replicate 1248 0"]
  from stats_start_ok [OF assms(1,4-8), of r] luck assms(9) obtain S where
    s: "stats_start V W F N Q T env_var r = Ok ((S, ?com), r1)" "stats_setup_ok W F N S" "stats_inv W F G N S 0 ?com None" "st_pp S = pp"
    by auto
  from stats_rotations_ok [OF assms(1-4) _ assms(6,7) s(2,3) assms(10)] assms(5) s(4) obtain com running r' where
    f: "fold_result (stats_rotation V W F N T S) [0..<3] ((?com, None), r1) = Ok ((com, running), r')" "stats_inv W F G N S 3 com running"
    by auto
  from f(2) s(4) obtain u where u: "running = Some u"
    "chain_at W F G N pp (st_genesis_hash S) (compute_hints_vk_hash W (demo_hints 0)) 3 (fst com) (demo_hints 2) u"
    by (auto simp: stats_inv_def split: option.splits)
  have "st_genesis_hash S = book_hash W (fst ?com)" using s(3) by (simp add: stats_inv_def)
  with chain_at_verifies [OF assms(4,5) u(2)] ledger s(1) f(1) u(1) show ?thesis
    by (simp add: stats_main_def ROTATIONS_def demo_hints_def)
qed

theorem stats_completes_witness:
  "\<exists>com u r'. stats_main small_example_formats example_engine small_wire ideal_nova small_host example_rng None 0 = Ok ((com, Some u), r')"
proof -
  have "load_public_params example_engine small_host (case None of Some dir \<Rightarrow> dir | None \<Rightarrow> ''params'') = Ok ()"
    by (simp add: load_public_params_def small_host_def Let_def)
  from stats_completes [OF example_engine_ok example_gadgets_ok example_generator small_wire_ok ideal_nova_complete small_example_formats_ok
      example_rng_ok this, of 0] stats_rotations_lucky
  show ?thesis by (simp add: trio_def example_seeds) blast
qed

end
