(* ===== verification/Spec2Isabelle.thy ===== *)
theory Spec2Isabelle
  imports HintsProperties SetupProperties JniCache Eip2537 JniProperties WrapsProperties WrapsChain JniWrapsProperties
    WrapsZlib DemoProperties StatsProperties
begin

text \<open>
  A verification development for the Rust crates of \<^verbatim>\<open>hiero-cryptography\<close>: the threshold signatures
  with silent setup of \<^verbatim>\<open>hedera-cryptography-hints\<close> and the address-book rotation of
  \<^verbatim>\<open>hedera-cryptography-wraps\<close> (crate \<^verbatim>\<open>nova-wraps\<close>). Paths below are relative to the
  \<^verbatim>\<open>src/main/rust\<close> directory of each of them under \<^verbatim>\<open>src/cryptography\<close>.

  \<^bold>\<open>How code is modelled.\<close> A Rust call is a function into the type \<open>result\<close> of \<open>Prelude\<close>: \<open>Ok\<close>, \<open>Err\<close> or
  \<open>Panicked\<close>, with \<open>and_then\<close> for the question mark operator, \<open>collect\<close>, \<open>fold_result\<close> and \<open>for_each\<close> for
  loops that stop at an error, and \<open>index\<close> for an access that panics out of range. Structs are records,
  enums are datatypes, byte strings are lists of 8-bit words, weights of the rotation crate are 64-bit
  words with checked addition, hash maps are association lists. Error messages are written out.
  Every loop is structural recursion, except that of the demonstration program: \<open>demo_loop\<close> has fuel, the
  number of checkpoints that it may restore, and eleven are shown to be enough for its ten rotations.

  \<^bold>\<open>Parameters.\<close> Third-party code is a record of operations, and what the code relies on is a named
  predicate on it: \<open>ark\<close> (arkworks: fields, curves, pairing, FFT, serialization, hashing, random
  generators) with \<open>ark_ok\<close> in \<open>Ark\<close>; \<open>blst\<close> in \<open>Eip2537\<close>; \<open>jni_env\<close> in \<open>JniEnv\<close>;
  \<open>canonical\<close> (uncompressed encodings) with \<open>canonical_ok\<close> in \<open>JniUtil\<close>; \<open>engine\<close> (Grumpkin,
  Poseidon, SHA-256, ChaCha20) with \<open>engine_ok\<close> in \<open>WrapsBase\<close>; \<open>codec\<close> and \<open>wire\<close> (bincode) with
  \<open>wire_ok\<close>; \<open>nova\<close> (the folding scheme and the compressing SNARK) in \<open>WrapsProtocol\<close>, with \<open>nova_complete\<close>
  in \<open>WrapsChain\<close>; \<open>gadgets\<close> (Nova's circuit gadgets) with \<open>gadgets_ok\<close> in \<open>WrapsCircuit\<close>;
  \<open>zlib\<close> with \<open>zlib_ok\<close> in \<open>WrapsZlib\<close>; \<open>thread_rng\<close> (the generator of a thread, with its state passed along)
  and \<open>example_formats\<close> (bincode of the values of the example programs) in \<open>ExampleBase\<close>. Randomness that
  library code draws from the operating system is an argument.

  \<^bold>\<open>The hints crate.\<close>
  \<^item> \<open>Polynomials\<close>: polynomials over a field as coefficient lists, the meaning of arkworks' dense
    polynomials.
  \<^item> \<open>HintsUtils\<close> models \<^verbatim>\<open>utils.rs\<close> (vanishing and Lagrange polynomials, roots of unity, \<open>is_n_valid\<close>).
  \<^item> \<open>Kzg\<close> models \<^verbatim>\<open>kzg.rs\<close>: trusted setup, commitments in both groups, opening proofs; lemmas give
    commitments in the exponent and the exactness of openings.
  \<^item> \<open>Transcript\<close> models \<^verbatim>\<open>transcript.rs\<close>, the Fiat-Shamir transcript.
  \<^item> \<open>SigmaProtocol\<close>: the locale \<open>scalar_action\<close>, laws of a group under a scalar field with completeness and
    extraction of Schnorr-style proofs, interpreted for both curve groups of \<open>ark\<close> and for \<open>engine\<close>.
  \<^item> \<open>HintsKeys\<close>, \<open>HintsPreprocess\<close>, \<open>HintsSign\<close>, \<open>HintsAggregate\<close>, \<open>HintsVerify\<close> model \<^verbatim>\<open>hints.rs\<close> and
    \<^verbatim>\<open>errors.rs\<close> in the order of the protocol: keys, proofs of possession and hints; the aggregation and
    verification keys; partial signatures and batch verification; the aggregator (witness, prover,
    challenges); the verifier (pairing checks, threshold). \<open>HintsExact\<close> holds the exactness lemmas of the
    verifier and the soundness argument for the merged relation.
  \<^item> \<open>HintsProperties\<close> states the properties of the scheme: completeness of the whole pipeline from
    preprocessing to verification, exactness of every verification function in the exponent, soundness
    of the merged relation and of batch verification, binding of openings and challenges, errors and
    absence of panics.
  \<^item> \<open>Setup\<close> and \<open>SetupProperties\<close> model \<^verbatim>\<open>setup.rs\<close>, the powers-of-tau ceremony; the inductive predicate
    \<open>ceremony\<close> runs contributions in sequence.
  \<^item> \<open>JniCache\<close> models \<^verbatim>\<open>jni_cache.rs\<close>; the locale \<open>cache_provider\<close> states what the wrapper needs from the LRU
    cache, and \<open>cache_step\<close> interleaves concurrent callers at the two critical sections of \<open>get\<close>.
  \<^item> \<open>JniEnv\<close>: the Java side that the native methods of both crates see, the shape of a native method (a
    closure with early returns under \<^verbatim>\<open>catch_unwind\<close>), and the locale \<open>static_cache\<close>, what a method needs
    from a cache in a static variable.
  \<^item> \<open>JniUtil\<close> models \<^verbatim>\<open>jni_util.rs\<close>; \<open>Eip2537\<close> models \<^verbatim>\<open>jni_blst.rs\<close> and \<^verbatim>\<open>jni_eth.rs\<close>.
  \<^item> \<open>JniHints\<close> models the native methods of \<^verbatim>\<open>jni_hints.rs\<close> and \<^verbatim>\<open>jni_crs.rs\<close> on the state of the two static
    caches, each an interpretation of \<open>static_cache\<close>. \<open>JniInstance\<close> holds concrete encodings, and
    \<open>JniProperties\<close> the properties of sequences of calls and of a session over byte arrays.
  \<^item> \<open>Gf17\<close>, \<open>Instance17\<close> and \<open>Scenario17\<close>: the field with 17 elements, an executable instance of \<open>ark\<close> that
    satisfies \<open>ark_ok\<close>, and a complete run of the scheme on it, for the witnesses.

  \<^bold>\<open>The rotation crate.\<close>
  \<^item> \<open>WrapsBase\<close> models \<^verbatim>\<open>constants.rs\<close>, \<^verbatim>\<open>error.rs\<close>, \<^verbatim>\<open>utils.rs\<close> and \<^verbatim>\<open>poseidon.rs\<close>, and
    \<open>WrapsZlib\<close> the zlib variants of the codec of \<^verbatim>\<open>utils.rs\<close>, which nothing calls.
  \<^item> \<open>WrapsSchnorr\<close> models \<^verbatim>\<open>schnorr.rs\<close>: signatures, proofs of knowledge, the three-round multisignature.
  \<^item> \<open>WrapsBook\<close> models the address books of \<^verbatim>\<open>wraps.rs\<close>: padding, commitment, validation, subset weights.
  \<^item> \<open>WrapsProtocol\<close> models the rest of \<^verbatim>\<open>wraps.rs\<close>: the phases of the signing protocol, signature
    verification, the rotation message, proof construction and verification.
  \<^item> \<open>WrapsInstance\<close>: an executable engine, codecs and an idealised folding scheme for the witnesses.
  \<^item> \<open>WrapsProperties\<close> states the properties of books, signatures and signing sessions.
  \<^item> \<open>WrapsCircuit\<close> models \<^verbatim>\<open>circuit.rs\<close>: the constraints of the rotation circuit as predicates over the values
    of its variables, the assignment of the prover and \<open>synthesize\<close>; lemmas show that the constraints imply
    the native checks for every assignment, that the assignment of the prover satisfies them, and that
    the circuit of \<open>dummy\<close>, which shapes the public parameters, satisfies its own constraints.
  \<^item> \<open>WrapsChain\<close>: chains of satisfied circuits (\<open>rotation_chain\<close>), runs of the prover (\<open>honest_run\<close>) and the
    properties of rotations: soundness and completeness of the circuit, authorisation along a chain,
    constructed proofs and progress.
  \<^item> \<open>JniWraps\<close> models \<^verbatim>\<open>jni_util.rs\<close>, \<^verbatim>\<open>jni_wraps.rs\<close> and \<open>load_public_params\<close> of \<^verbatim>\<open>wraps.rs\<close>, with the two cells
    that are written once; \<open>JniWrapsProperties\<close> states the properties of sequences of calls and of
    rotations over the Java boundary.

  \<^bold>\<open>The example programs.\<close> \<^verbatim>\<open>examples/demo.rs\<close> and \<^verbatim>\<open>examples/stats.rs\<close> of the rotation crate drive the
  whole library, so they are where its components are composed; every \<^verbatim>\<open>expect\<close> and assertion in them is
  a panic of the model.
  \<^item> \<open>ExampleBase\<close>: draws, serialization round trips and calls that panic.
  \<^item> \<open>ExampleSession\<close>: honest committees, the messages of their signing sessions phase by phase, and the
    refusal of a minority by \<open>construct_wraps_proof\<close>.
  \<^item> \<open>Demo\<close> models \<^verbatim>\<open>demo.rs\<close>; \<open>DemoRun\<close> shows what each of its functions computes, with \<open>demo_inv\<close> the invariant
    of a checkpoint; \<open>DemoProperties\<close> states that generated books are well formed, that the two bitvectors
    decide the threshold, and that the program completes.
  \<^item> \<open>Stats\<close> models \<^verbatim>\<open>stats.rs\<close> with its tables; \<open>StatsRun\<close> and \<open>StatsProperties\<close> show that it completes. Both
    programs can fail by an accident of the draws, such as two equal keys or nonces that cancel;
    \<open>lucky_turns\<close> and \<open>lucky_rotations\<close> exclude these accidents.
  \<^item> \<open>ExampleInstance\<close>: an executable generator, engine and formats for the witnesses.

  \<^bold>\<open>Interfaces.\<close> \<open>scalar_action\<close> (interpreted for the groups of both crates), \<open>cache_provider\<close> (for the LRU
  cache), \<open>static_cache\<close> (for the CRS cache and the aggregation-key cache).

  \<^bold>\<open>Not modelled.\<close> The internals of the third-party libraries; \<^verbatim>\<open>timing.rs\<close> (measurement); what the example
  programs print and how long their calls take; the wiping of secret keys from memory (\<^verbatim>\<open>Zeroize\<close>, \<^verbatim>\<open>Drop\<close>),
  which no later computation observes; the reading of setup files, inside the parameter
  \<open>setup_with_ptau_dir\<close>; native calls of the rotation library that run at the same time; allocation failures
  when a length in an encoding is huge, which \<open>canonical_ok\<close> leaves out; circuits whose signature has the
  identity as nonce point, which \<open>rotation_chain\<close> leaves out because the gadgets do not fix its coordinates; \<^verbatim>\<open>fits_in_bits\<close> of \<^verbatim>\<open>utils.rs\<close>, compiled for tests only; the Java classes; tests.
\<close>

end
